(* ===== verification/Prelude.thy ===== *)
theory Prelude
  imports Main "HOL-Library.Multiset" "HOL-Library.List_Lexorder" "HOL-Library.Char_ord"
begin

text \<open>
  Shared vocabulary of the development: the exceptions of \<^verbatim>\<open>vle/utils/Exception.hpp\<close> as a sum type,
  sequencing of computations that may throw, and the generic list lemmas that the component
  theories use.
\<close>

section \<open>Exceptions and results\<close>

text \<open>
  A C++ function that may throw returns \<^typ>\<open>'a + 'b\<close>: \<open>Inl\<close> carries what was thrown, \<open>Inr\<close> the
  value. Three further constructors stand for events that are not exceptions of the program:
  \<open>AssertionFailed\<close> for an \<^verbatim>\<open>assert\<close> that does not hold (the process aborts when assertions are
  compiled in) and \<open>UndefinedBehaviour\<close> for an operation C++ leaves undefined (an index past the
  end of a vector, a null pointer that is followed), \<open>NonTermination\<close> for a call that does not return. Theorems that exclude them state that none
  can happen. The string is the literal part of the message.
\<close>

datatype vle_error =
    ArgError string
  | CastError string
  | DevsGraphError string
  | InternalError string
  | ModellingError string
  | FileError string
  | NotYetImplemented string
  | SaxParserError string
  | NumericCastError
  | AssertionFailed string
  | UndefinedBehaviour string
  | NonTermination

type_synonym 'a result = "vle_error + 'a"

definition bindE :: "'a result \<Rightarrow> ('a \<Rightarrow> 'b result) \<Rightarrow> 'b result" where
  "bindE m f = (case m of Inl e \<Rightarrow> Inl e | Inr x \<Rightarrow> f x)"

definition assertE :: "bool \<Rightarrow> string \<Rightarrow> unit result" where
  "assertE b msg = (if b then Inr () else Inl (AssertionFailed msg))"

text \<open>A range-based \<^verbatim>\<open>for\<close> loop whose body may throw, over a state.\<close>

fun foldE :: "('a \<Rightarrow> 's \<Rightarrow> 's result) \<Rightarrow> 'a list \<Rightarrow> 's \<Rightarrow> 's result" where
  "foldE f [] s = Inr s"
| "foldE f (x # xs) s = bindE (f x s) (foldE f xs)"

named_theorems result_simps \<open>unfolding of results\<close>

lemma bindE_Inl [simp]: "bindE (Inl e) f = Inl e"
  by (simp add: bindE_def)

lemma bindE_Inr [simp]: "bindE (Inr x) f = f x"
  by (simp add: bindE_def)

lemma bindE_eq_Inr [result_simps]: "bindE m f = Inr y \<longleftrightarrow> (\<exists>x. m = Inr x \<and> f x = Inr y)"
  by (cases m) auto

lemma bindE_eq_Inl [result_simps]:
  "bindE m f = Inl e \<longleftrightarrow> m = Inl e \<or> (\<exists>x. m = Inr x \<and> f x = Inl e)"
  by (cases m) auto

lemma bindE_assoc: "bindE (bindE m f) g = bindE m (\<lambda>x. bindE (f x) g)"
  by (cases m) auto

lemma assertE_eq_Inr [result_simps]: "assertE b msg = Inr u \<longleftrightarrow> b"
  by (auto simp: assertE_def)

lemma assertE_True [simp]: "b \<Longrightarrow> assertE b msg = Inr ()"
  by (simp add: assertE_def)

lemma foldE_append: "foldE f (xs @ ys) s = bindE (foldE f xs s) (foldE f ys)"
proof (induction xs arbitrary: s)
  case (Cons x xs)
  show ?case by (cases "f x s") (simp_all add: Cons.IH)
qed simp

lemma foldE_invariant:
  assumes "foldE f xs s = Inr s'" and "P s"
    and "\<And>x s s'. x \<in> set xs \<Longrightarrow> P s \<Longrightarrow> f x s = Inr s' \<Longrightarrow> P s'"
  shows "P s'"
  using assms by (induction xs arbitrary: s) (auto simp: result_simps)

lemma foldE_total:
  assumes "P s" and "\<And>x s. x \<in> set xs \<Longrightarrow> P s \<Longrightarrow> \<exists>s'. f x s = Inr s' \<and> P s'"
  shows "\<exists>s'. foldE f xs s = Inr s' \<and> P s'"
  using assms
proof (induction xs arbitrary: s)
  case Nil
  then show ?case by simp
next
  case (Cons x xs)
  from Cons.prems obtain t where t: "f x s = Inr t" "P t" by force
  then have "\<exists>s'. foldE f xs t = Inr s' \<and> P s'" using Cons.prems(2) by (intro Cons.IH) auto
  with t show ?case by auto
qed

text \<open>A loop that fills a vector from another one, with a body that may throw.\<close>

fun mapE :: "('a \<Rightarrow> 'b result) \<Rightarrow> 'a list \<Rightarrow> 'b list result" where
  "mapE f [] = Inr []"
| "mapE f (x # xs) = bindE (f x) (\<lambda>y. bindE (mapE f xs) (\<lambda>ys. Inr (y # ys)))"

lemma mapE_cong [fundef_cong]:
  "xs = ys \<Longrightarrow> (\<And>x. x \<in> set ys \<Longrightarrow> f x = g x) \<Longrightarrow> mapE f xs = mapE g ys"
proof (induction ys arbitrary: xs)
  case (Cons y ys)
  then have "mapE f ys = mapE g ys" by simp
  with Cons.prems show ?case by simp
qed simp

lemma mapE_Inr_iff: "mapE f xs = Inr ys \<longleftrightarrow> list_all2 (\<lambda>x y. f x = Inr y) xs ys"
proof (induction xs arbitrary: ys)
  case (Cons x xs)
  then show ?case by (cases ys) (auto simp: result_simps)
qed auto

lemma mapE_InrD: "mapE f xs = Inr ys \<Longrightarrow> x \<in> set xs \<Longrightarrow> \<exists>y \<in> set ys. f x = Inr y"
  by (auto simp: mapE_Inr_iff list_all2_conv_all_nth in_set_conv_nth)

lemma mapE_total: "(\<And>x. x \<in> set xs \<Longrightarrow> f x = Inr (g x)) \<Longrightarrow> mapE f xs = Inr (map g xs)"
  by (simp add: mapE_Inr_iff list_all2_conv_all_nth)

section \<open>Unsigned 64-bit sizes\<close>

text \<open>
  \<^verbatim>\<open>std::size_t\<close> arithmetic wraps modulo \<open>2\<^sup>6\<^sup>4\<close>. Sizes are natural numbers; products and sums that the
  code computes on them carry the wrap-around.
\<close>

definition szmul :: "nat \<Rightarrow> nat \<Rightarrow> nat" where
  "szmul a b = (a * b) mod 2 ^ 64"

definition szadd :: "nat \<Rightarrow> nat \<Rightarrow> nat" where
  "szadd a b = (a + b) mod 2 ^ 64"

lemma szmul_eq: "a * b < 2 ^ 64 \<Longrightarrow> szmul a b = a * b"
  by (simp add: szmul_def)

lemma szadd_eq: "a + b < 2 ^ 64 \<Longrightarrow> szadd a b = a + b"
  by (simp add: szadd_def)

text \<open>Cell \<open>(column, row)\<close> of a row-major grid of the given width: distinct cells, distinct indices.\<close>

lemma grid_index_less:
  assumes "c < w" "r < h"
  shows "r * w + c < h * (w :: nat)"
proof -
  have "r * w + c < r * w + w" using assms(1) by simp
  also have "\<dots> = (r + 1) * w" by simp
  also have "\<dots> \<le> h * w" using assms(2) by (intro mult_right_mono) auto
  finally show ?thesis .
qed

lemma grid_index_inject:
  assumes "c < w" "c' < w" "r * w + c = r' * w + (c' :: nat)"
  shows "r = r' \<and> c = c'"
proof -
  have "(r * w + c) div w = r" "(r' * w + c') div w = r'" using assms(1,2) by simp_all
  with assms(3) have "r = r'" by simp
  with assms(3) show ?thesis by simp
qed

section \<open>Indexed vectors\<close>

text \<open>\<^verbatim>\<open>v[i]\<close> on a \<^verbatim>\<open>std::vector\<close>: undefined from the size on.\<close>

definition vec_get :: "'a list \<Rightarrow> nat \<Rightarrow> 'a result" where
  "vec_get xs i = (if i < length xs then Inr (xs ! i) else Inl (UndefinedBehaviour ''vector index''))"

definition vec_set :: "'a list \<Rightarrow> nat \<Rightarrow> 'a \<Rightarrow> 'a list result" where
  "vec_set xs i v =
     (if i < length xs then Inr (xs[i := v]) else Inl (UndefinedBehaviour ''vector index''))"

lemma vec_get_ok [simp]: "i < length xs \<Longrightarrow> vec_get xs i = Inr (xs ! i)"
  by (simp add: vec_get_def)

lemma vec_set_ok [simp]: "i < length xs \<Longrightarrow> vec_set xs i v = Inr (xs[i := v])"
  by (simp add: vec_set_def)

lemma vec_get_eq_Inr [result_simps]: "vec_get xs i = Inr y \<longleftrightarrow> i < length xs \<and> y = xs ! i"
  by (auto simp: vec_get_def)

lemma vec_set_eq_Inr [result_simps]: "vec_set xs i v = Inr ys \<longleftrightarrow> i < length xs \<and> ys = xs[i := v]"
  by (auto simp: vec_set_def)

text \<open>A loop that stores \<open>g p\<close> at index \<open>idx p\<close>, for each \<open>p\<close> of a list of positions.\<close>

lemma foldE_vec_set:
  assumes "\<And>p. p \<in> set ps \<Longrightarrow> idx p < length xs"
    and "\<And>p q. p \<in> set ps \<Longrightarrow> q \<in> set ps \<Longrightarrow> idx p = idx q \<Longrightarrow> g p = g q"
  shows "\<exists>ys. foldE (\<lambda>p v. vec_set v (idx p) (g p)) ps xs = Inr ys \<and> length ys = length xs
    \<and> (\<forall>p \<in> set ps. ys ! idx p = g p) \<and> (\<forall>i. i \<notin> idx ` set ps \<longrightarrow> ys ! i = xs ! i)"
  using assms
proof (induction ps arbitrary: xs)
  case Nil
  then show ?case by simp
next
  case (Cons p ps)
  let ?xs = "xs[idx p := g p]"
  have "\<exists>ys. foldE (\<lambda>p v. vec_set v (idx p) (g p)) ps ?xs = Inr ys \<and> length ys = length ?xs
    \<and> (\<forall>p \<in> set ps. ys ! idx p = g p) \<and> (\<forall>i. i \<notin> idx ` set ps \<longrightarrow> ys ! i = ?xs ! i)"
    using Cons.prems by (intro Cons.IH) auto
  then obtain ys where ys: "foldE (\<lambda>p v. vec_set v (idx p) (g p)) ps ?xs = Inr ys"
    "length ys = length ?xs" "\<forall>p \<in> set ps. ys ! idx p = g p"
    "\<forall>i. i \<notin> idx ` set ps \<longrightarrow> ys ! i = ?xs ! i" by blast
  have "ys ! idx p = g p"
  proof (cases "idx p \<in> idx ` set ps")
    case True
    then obtain q where "q \<in> set ps" "idx p = idx q" by blast
    with ys(3) Cons.prems(2) [of p q] show ?thesis by simp
  next
    case False
    with ys(4) Cons.prems(1) [of p] show ?thesis by simp
  qed
  with ys Cons.prems(1) [of p] show ?case by auto
qed

lemma foldE_cong:
  "(\<And>x s. x \<in> set xs \<Longrightarrow> f x s = g x s) \<Longrightarrow> foldE f xs s = foldE g xs s"
proof (induction xs arbitrary: s)
  case (Cons x xs)
  then have "f x s = g x s" "foldE f xs = foldE g xs" by auto
  then show ?case by simp
qed simp

section \<open>Fresh names\<close>

text \<open>The measure of a loop that counts up until a name is free.\<close>

lemma fresh_name_measure:
  assumes "inj f" "finite S" "f n \<in> S"
  shows "card {i. Suc n \<le> i \<and> f i \<in> S} < card {i. n \<le> i \<and> f i \<in> S}"
proof (rule psubset_card_mono)
  show "finite {i. n \<le> i \<and> f i \<in> S}"
    by (rule finite_subset [OF _ finite_vimageI [OF assms(2,1)]]) auto
  have "n \<in> {i. n \<le> i \<and> f i \<in> S}" "n \<notin> {i. Suc n \<le> i \<and> f i \<in> S}" using assms(3) by auto
  moreover have "{i. Suc n \<le> i \<and> f i \<in> S} \<subseteq> {i. n \<le> i \<and> f i \<in> S}" by auto
  ultimately show "{i. Suc n \<le> i \<and> f i \<in> S} \<subset> {i. n \<le> i \<and> f i \<in> S}" by blast
qed

section \<open>Decimal numbers\<close>

text \<open>\<^verbatim>\<open>std::to_string\<close> and the \<^verbatim>\<open>%d\<close> and \<^verbatim>\<open>%u\<close> formats, on natural numbers.\<close>

fun show_nat :: "nat \<Rightarrow> string" where
  "show_nat n =
     (if n < 10 then [char_of (48 + n)] else show_nat (n div 10) @ [char_of (48 + n mod 10)])"

declare show_nat.simps [simp del]

definition read_nat :: "string \<Rightarrow> nat" where
  "read_nat s = foldl (\<lambda>n c. 10 * n + (of_char c - 48)) 0 s"

lemma read_show_nat: "read_nat (show_nat n) = n"
proof (induction n rule: show_nat.induct)
  case (1 n)
  show ?case
  proof (cases "n < 10")
    case True
    then show ?thesis by (simp add: show_nat.simps [of n] read_nat_def)
  next
    case False
    with 1 show ?thesis by (simp add: show_nat.simps [of n] read_nat_def)
  qed
qed

lemma show_nat_inject [simp]: "show_nat m = show_nat n \<longleftrightarrow> m = n"
  by (metis read_show_nat)

end
