(* ===== verification/IEEE_Double.thy ===== *)
theory IEEE_Double
  imports Prelude "HOL-Library.Log_Nat"
begin

text \<open>
  The C++ type \<^verbatim>\<open>double\<close> (IEEE 754 binary64, which \<^verbatim>\<open>vle/devs/Time.hpp\<close> requires by a
  \<^verbatim>\<open>static_assert\<close>), as far as the program uses it: addition, subtraction, comparisons and the
  special values. A finite double is an integer multiple of \<open>2\<^sup>-\<^sup>1\<^sup>0\<^sup>7\<^sup>4\<close>, the smallest subnormal, so a
  finite value is represented by that integer; a sum is exact on these integers and is then rounded
  to 53 significant bits, ties to even, with overflow to the infinities from \<open>2\<^sup>1\<^sup>0\<^sup>2\<^sup>4\<close> on. The two zeros
  are one value (they compare equal and the program never divides), and there is one NaN.
\<close>

section \<open>Extended integers\<close>

datatype xint = NegInf | Fin int | PosInf

instantiation xint :: linorder
begin

fun less_eq_xint :: "xint \<Rightarrow> xint \<Rightarrow> bool" where
  "less_eq_xint NegInf y = True"
| "less_eq_xint (Fin a) NegInf = False"
| "less_eq_xint (Fin a) (Fin b) = (a \<le> b)"
| "less_eq_xint (Fin a) PosInf = True"
| "less_eq_xint PosInf y = (y = PosInf)"

definition less_xint :: "xint \<Rightarrow> xint \<Rightarrow> bool" where
  "less_xint x y = (x \<le> y \<and> \<not> y \<le> x)"

instance
proof
  fix x y z :: xint
  show "x < y \<longleftrightarrow> x \<le> y \<and> \<not> y \<le> x" by (rule less_xint_def)
  show "x \<le> x" by (cases x) auto
  show "x \<le> y \<Longrightarrow> y \<le> z \<Longrightarrow> x \<le> z" by (cases x; cases y; cases z) auto
  show "x \<le> y \<Longrightarrow> y \<le> x \<Longrightarrow> x = y" by (cases x; cases y) auto
  show "x \<le> y \<or> y \<le> x" by (cases x; cases y) auto
qed

end

lemma less_xint_simps [simp]:
  "Fin a < Fin b \<longleftrightarrow> a < b" "NegInf < Fin b" "Fin a < PosInf" "NegInf < PosInf"
  "\<not> x < NegInf" "\<not> PosInf < x" "\<not> PosInf \<le> Fin b" 
  by (auto simp: less_xint_def elim: less_eq_xint.elims)

section \<open>Rounding to 53 significant bits\<close>

definition round_half_even :: "int \<Rightarrow> nat \<Rightarrow> int" where
  "round_half_even k e =
     (let q = k div 2 ^ e; r = k mod 2 ^ e
      in if 2 * r < 2 ^ e then q
         else if 2 * r > 2 ^ e then q + 1
         else if even q then q else q + 1)"

definition ulp_exp :: "int \<Rightarrow> nat" where
  "ulp_exp k = nat (bitlen \<bar>k\<bar>) - 53"

definition round_sig :: "int \<Rightarrow> int" where
  "round_sig k = round_half_even k (ulp_exp k) * 2 ^ ulp_exp k"

lemma round_half_even_bounds:
  "2 * k - 2 ^ e \<le> 2 * (round_half_even k e * 2 ^ e)"
  "2 * (round_half_even k e * 2 ^ e) \<le> 2 * k + 2 ^ e"
proof -
  define q r where "q = k div 2 ^ e" and "r = k mod 2 ^ e"
  have k: "k = q * 2 ^ e + r" unfolding q_def r_def by (rule div_mult_mod_eq [symmetric])
  have r: "0 \<le> r" "r < 2 ^ e" by (simp_all add: r_def)
  show "2 * k - 2 ^ e \<le> 2 * (round_half_even k e * 2 ^ e)"
    "2 * (round_half_even k e * 2 ^ e) \<le> 2 * k + 2 ^ e"
    using r unfolding round_half_even_def Let_def q_def [symmetric] r_def [symmetric]
    by (auto simp: k algebra_simps)
qed

lemma round_half_even_mono:
  assumes "a \<le> b"
  shows "round_half_even a e \<le> round_half_even b e"
proof -
  define qa ra qb rb where "qa = a div 2 ^ e" and "ra = a mod 2 ^ e"
    and "qb = b div 2 ^ e" and "rb = b mod 2 ^ e"
  have q: "qa \<le> qb" unfolding qa_def qb_def using assms by (simp add: zdiv_mono1)
  have a: "a = qa * 2 ^ e + ra" and b: "b = qb * 2 ^ e + rb"
    unfolding qa_def ra_def qb_def rb_def by (rule div_mult_mod_eq [symmetric])+
  have "qa = qb \<Longrightarrow> ra \<le> rb" using assms a b by simp
  with q show ?thesis
    unfolding round_half_even_def Let_def qa_def [symmetric] qb_def [symmetric]
      ra_def [symmetric] rb_def [symmetric]
    by (cases "qa = qb") auto
qed

lemma round_half_even_mult [simp]: "round_half_even (m * 2 ^ e) e = m"
  by (simp add: round_half_even_def)

lemma ulp_exp_le_iff: "ulp_exp k \<le> e \<longleftrightarrow> \<bar>k\<bar> < 2 ^ (e + 53)"
proof -
  have "ulp_exp k \<le> e \<longleftrightarrow> bitlen \<bar>k\<bar> \<le> int (e + 53)"
    unfolding ulp_exp_def using bitlen_nonneg [of "\<bar>k\<bar>"] by linarith
  also have "\<dots> \<longleftrightarrow> \<bar>k\<bar> < 2 ^ (e + 53)"
    by (simp add: bitlen_le_iff_power nat_add_distrib)
  finally show ?thesis .
qed


lemma abs_lt_ulp_exp: "\<bar>k\<bar> < 2 ^ (ulp_exp k + 53)"
  using ulp_exp_le_iff [of k "ulp_exp k"] by simp

lemma abs_ge_ulp_exp: "0 < ulp_exp k \<Longrightarrow> 2 ^ (ulp_exp k + 52) \<le> \<bar>k\<bar>"
  using ulp_exp_le_iff [of k "ulp_exp k - 1"] by (cases "ulp_exp k") (auto simp: add.commute)

lemma round_half_even_minus: "round_half_even (- k) e = - round_half_even k e"
proof -
  define q r where "q = k div 2 ^ e" and "r = k mod 2 ^ e"
  have k: "k = q * 2 ^ e + r" unfolding q_def r_def by (rule div_mult_mod_eq [symmetric])
  have r: "0 \<le> r" "r < 2 ^ e" by (simp_all add: r_def)
  show ?thesis
  proof (cases "r = 0")
    case True
    then have "k = q * 2 ^ e" using k by simp
    then show ?thesis using round_half_even_mult [of "- q" e] by simp
  next
    case False
    have m: "- k = 2 ^ e * (- q - 1) + (2 ^ e - r)" by (simp add: k algebra_simps)
    have "(- k) div 2 ^ e = - q - 1"
      by (rule int_div_pos_eq [OF m]) (use r False in auto)
    moreover have "(- k) mod 2 ^ e = 2 ^ e - r"
      by (rule int_mod_pos_eq [OF m]) (use r False in auto)
    ultimately show ?thesis
      unfolding round_half_even_def Let_def q_def [symmetric] r_def [symmetric] by auto
  qed
qed

lemma ulp_exp_minus [simp]: "ulp_exp (- k) = ulp_exp k"
  by (simp add: ulp_exp_def)

lemma round_sig_minus [simp]: "round_sig (- k) = - round_sig k"
  by (simp add: round_sig_def round_half_even_minus)

lemma round_sig_exact: "2 ^ ulp_exp k dvd k \<Longrightarrow> round_sig k = k"
  by (auto simp: round_sig_def elim!: dvdE) (metis mult.commute round_half_even_mult)

lemma round_sig_dyadic:
  assumes "\<bar>m\<bar> \<le> 2 ^ 53"
  shows "round_sig (m * 2 ^ j) = m * 2 ^ j"
proof (rule round_sig_exact)
  show "2 ^ ulp_exp (m * 2 ^ j) dvd m * 2 ^ j"
  proof (cases "\<bar>m\<bar> < 2 ^ 53")
    case True
    then have "\<bar>m * 2 ^ j\<bar> < 2 ^ (j + 53)" by (simp add: abs_mult power_add)
    then have "ulp_exp (m * 2 ^ j) \<le> j" by (simp only: ulp_exp_le_iff)
    then show ?thesis by (simp add: dvd_mult le_imp_power_dvd)
  next
    case False
    with assms have m: "\<bar>m\<bar> = 2 ^ 53" by simp
    then have "\<bar>m * 2 ^ j\<bar> < 2 ^ (Suc j + 53)" by (simp add: abs_mult power_add)
    then have "ulp_exp (m * 2 ^ j) \<le> Suc j" by (simp only: ulp_exp_le_iff)
    then have "2 ^ ulp_exp (m * 2 ^ j) dvd (2 :: int) ^ Suc j" by (rule le_imp_power_dvd)
    moreover from m have "2 dvd \<bar>m\<bar>" by simp
    then have "2 dvd m" by simp
    then have "(2 :: int) ^ Suc j dvd m * 2 ^ j" by (auto elim!: dvdE)
    ultimately show ?thesis by (rule dvd_trans)
  qed
qed

lemma round_sig_small: "\<bar>k\<bar> \<le> 2 ^ 53 \<Longrightarrow> round_sig k = k"
  using round_sig_dyadic [of k 0] by simp

lemma round_half_even_le: "k \<le> m * 2 ^ e \<Longrightarrow> round_half_even k e \<le> m"
  using round_half_even_mono [of k "m * 2 ^ e" e] by simp

lemma round_half_even_ge: "m * 2 ^ e \<le> k \<Longrightarrow> m \<le> round_half_even k e"
  using round_half_even_mono [of "m * 2 ^ e" k e] by simp

lemma round_half_even_abs: "\<bar>round_half_even k (ulp_exp k)\<bar> \<le> 2 ^ 53"
proof -
  have k: "k \<le> 2 ^ 53 * 2 ^ ulp_exp k" "- (2 ^ 53) * 2 ^ ulp_exp k \<le> k"
    using abs_lt_ulp_exp [of k] by (simp_all add: power_add mult.commute abs_less_iff)
  from round_half_even_le [OF k(1)] round_half_even_ge [OF k(2)] show ?thesis
    by simp
qed

lemma round_sig_idem [simp]: "round_sig (round_sig k) = round_sig k"
  using round_sig_dyadic [OF round_half_even_abs] by (simp add: round_sig_def)

lemma round_sig_nonneg: "0 \<le> k \<Longrightarrow> 0 \<le> round_sig k"
  using round_half_even_ge [of 0 _ k] by (simp add: round_sig_def)

lemma round_sig_mono_nonneg:
  assumes "0 \<le> a" "a \<le> b"
  shows "round_sig a \<le> round_sig b"
proof (cases "ulp_exp a = ulp_exp b")
  case True
  then show ?thesis using round_half_even_mono [OF assms(2)] by (simp add: round_sig_def)
next
  case False
  have "ulp_exp a \<le> ulp_exp b" unfolding ulp_exp_le_iff using abs_lt_ulp_exp [of b] assms by simp
  with False have lt: "ulp_exp a < ulp_exp b" by simp
  have "round_sig a \<le> 2 ^ 53 * 2 ^ ulp_exp a"
    using round_half_even_abs [of a] by (simp add: round_sig_def)
  also have "\<dots> = 2 ^ (ulp_exp a + 53)" by (simp add: power_add)
  also have "\<dots> \<le> 2 ^ (ulp_exp b + 52)" using lt by (intro power_increasing) auto
  also have "\<dots> = 2 ^ 52 * 2 ^ ulp_exp b" by (simp add: power_add)
  also have "\<dots> \<le> round_sig b"
  proof -
    have "2 ^ 52 * 2 ^ ulp_exp b \<le> b"
      using abs_ge_ulp_exp [of b] lt assms by (simp add: power_add)
    then show ?thesis unfolding round_sig_def by (intro mult_right_mono round_half_even_ge) auto
  qed
  finally show ?thesis .
qed

lemma round_sig_mono:
  assumes "a \<le> b"
  shows "round_sig a \<le> round_sig b"
proof -
  consider "0 \<le> a" | "b \<le> 0" | "a < 0" "0 < b" by linarith
  then show ?thesis
  proof cases
    case 1
    then show ?thesis using assms by (rule round_sig_mono_nonneg)
  next
    case 2
    then show ?thesis using round_sig_mono_nonneg [of "- b" "- a"] assms by simp
  next
    case 3
    then show ?thesis using round_sig_nonneg [of "- a"] round_sig_nonneg [of b] by simp
  qed
qed


section \<open>The type of doubles\<close>

definition overflow_bound :: int where
  "overflow_bound = 2 ^ 2098"

definition fp_round :: "int \<Rightarrow> xint" where
  "fp_round k =
     (let r = round_sig k
      in if r \<ge> overflow_bound then PosInf else if r \<le> - overflow_bound then NegInf else Fin r)"

datatype raw_double = NaN | Num xint

fun rep_ok :: "raw_double \<Rightarrow> bool" where
  "rep_ok (Num (Fin k)) \<longleftrightarrow> fp_round k = Fin k"
| "rep_ok _ \<longleftrightarrow> True"

lemma fp_round_idem: "fp_round k = Fin r \<Longrightarrow> fp_round r = Fin r"
  by (auto simp: fp_round_def Let_def split: if_splits)

lemma rep_ok_fp_round [simp]: "rep_ok (Num (fp_round k))"
  by (cases "fp_round k") (auto dest: fp_round_idem)

lemma fp_round_mono: "a \<le> b \<Longrightarrow> fp_round a \<le> fp_round b"
  using round_sig_mono [of a b] by (simp add: fp_round_def Let_def)

lemma fp_round_small: "\<bar>k\<bar> \<le> 2 ^ 53 \<Longrightarrow> fp_round k = Fin k"
proof -
  assume k: "\<bar>k\<bar> \<le> 2 ^ 53"
  have "(2 :: int) ^ 53 < overflow_bound"
    unfolding overflow_bound_def by (rule power_strict_increasing) auto
  with k have "k < overflow_bound" "- overflow_bound < k" by (auto simp: abs_le_iff)
  then show ?thesis using round_sig_small [OF k] by (simp add: fp_round_def Let_def)
qed

lemma fp_round_neg: "fp_round (- k) = Fin r \<longleftrightarrow> fp_round k = Fin (- r)"
  by (auto simp: fp_round_def Let_def)

fun raw_add :: "raw_double \<Rightarrow> raw_double \<Rightarrow> raw_double" where
  "raw_add NaN y = NaN"
| "raw_add x NaN = NaN"
| "raw_add (Num (Fin a)) (Num (Fin b)) = Num (fp_round (a + b))"
| "raw_add (Num PosInf) (Num NegInf) = NaN"
| "raw_add (Num NegInf) (Num PosInf) = NaN"
| "raw_add (Num (Fin a)) (Num y) = Num y"
| "raw_add (Num x) (Num y) = Num x"

fun raw_neg :: "raw_double \<Rightarrow> raw_double" where
  "raw_neg NaN = NaN"
| "raw_neg (Num (Fin a)) = Num (Fin (- a))"
| "raw_neg (Num PosInf) = Num NegInf"
| "raw_neg (Num NegInf) = Num PosInf"

fun raw_le :: "raw_double \<Rightarrow> raw_double \<Rightarrow> bool" where
  "raw_le (Num x) (Num y) \<longleftrightarrow> x \<le> y"
| "raw_le _ _ \<longleftrightarrow> False"

fun raw_less :: "raw_double \<Rightarrow> raw_double \<Rightarrow> bool" where
  "raw_less (Num x) (Num y) \<longleftrightarrow> x < y"
| "raw_less _ _ \<longleftrightarrow> False"

fun raw_eq :: "raw_double \<Rightarrow> raw_double \<Rightarrow> bool" where
  "raw_eq (Num x) (Num y) \<longleftrightarrow> x = y"
| "raw_eq _ _ \<longleftrightarrow> False"

typedef double = "{d. rep_ok d}" morphisms raw Abs_double
  by (rule exI [of _ NaN]) simp

setup_lifting type_definition_double

lift_definition dnan :: double is NaN by simp
lift_definition dinf :: double is "Num PosInf" by simp
lift_definition dninf :: double is "Num NegInf" by simp
lift_definition dfin :: "int \<Rightarrow> double" is "\<lambda>k. Num (fp_round k)" by simp

lift_definition dadd :: "double \<Rightarrow> double \<Rightarrow> double" is raw_add
  subgoal for x y by (cases "(x, y)" rule: raw_add.cases) auto
  done

lift_definition dneg :: "double \<Rightarrow> double" is raw_neg
  subgoal for x by (cases x rule: raw_neg.cases) (auto simp: fp_round_neg)
  done

definition dsub :: "double \<Rightarrow> double \<Rightarrow> double" where
  "dsub x y = dadd x (dneg y)"

lift_definition dle :: "double \<Rightarrow> double \<Rightarrow> bool" is raw_le .
lift_definition dless :: "double \<Rightarrow> double \<Rightarrow> bool" is raw_less .
lift_definition deq :: "double \<Rightarrow> double \<Rightarrow> bool" is raw_eq .

instantiation double :: equal
begin

lift_definition equal_double :: "double \<Rightarrow> double \<Rightarrow> bool" is "(=)" .

instance
  by standard (transfer, simp)

end

text \<open>
  The value of a number that is not NaN. Every comparison of the program is a comparison of these
  values, in the linear order of \<^typ>\<open>xint\<close>; with a NaN operand every comparison is false.
\<close>

lift_definition dval :: "double \<Rightarrow> xint" is
  "\<lambda>d. case d of NaN \<Rightarrow> PosInf | Num x \<Rightarrow> x" .

named_theorems double_simps \<open>comparisons of doubles as comparisons of their values\<close>

lemma dle_iff [double_simps]: "dle x y \<longleftrightarrow> x \<noteq> dnan \<and> y \<noteq> dnan \<and> dval x \<le> dval y"
  by transfer (auto split: raw_double.splits elim: raw_le.elims)

lemma dless_iff [double_simps]: "dless x y \<longleftrightarrow> x \<noteq> dnan \<and> y \<noteq> dnan \<and> dval x < dval y"
  by transfer (auto split: raw_double.splits elim: raw_less.elims)

lemma deq_iff [double_simps]: "deq x y \<longleftrightarrow> x \<noteq> dnan \<and> x = y"
  apply transfer
  subgoal for x y by (cases x; cases y) auto
  done

lemma dval_inject: "x \<noteq> dnan \<Longrightarrow> y \<noteq> dnan \<Longrightarrow> dval x = dval y \<longleftrightarrow> x = y"
  by transfer (auto split: raw_double.splits)

lemma dval_simps [simp]: "dval dinf = PosInf" "dval dninf = NegInf" "dval (dfin k) = fp_round k"
  by (transfer, simp)+

lemma double_distinct [simp]:
  "dnan \<noteq> dinf" "dnan \<noteq> dninf" "dinf \<noteq> dninf" "dnan \<noteq> dfin k"
  "dinf \<noteq> dnan" "dninf \<noteq> dnan" "dninf \<noteq> dinf" "dfin k \<noteq> dnan"
  by (transfer, simp)+

lemma dfin_inject: "\<bar>a\<bar> \<le> 2 ^ 53 \<Longrightarrow> \<bar>b\<bar> \<le> 2 ^ 53 \<Longrightarrow> dfin a = dfin b \<longleftrightarrow> a = b"
  by transfer (simp add: fp_round_small)

lemma dfin_not_inf: "\<bar>a\<bar> \<le> 2 ^ 53 \<Longrightarrow> dfin a \<noteq> dinf \<and> dfin a \<noteq> dninf"
  by transfer (simp add: fp_round_small)

lemma dadd_dfin:
  "\<bar>a\<bar> \<le> 2 ^ 53 \<Longrightarrow> \<bar>b\<bar> \<le> 2 ^ 53 \<Longrightarrow> dadd (dfin a) (dfin b) = dfin (a + b)"
  by transfer (simp add: fp_round_small)

lemma double_cases [case_names NaN NegInf Fin PosInf]:
  obtains "x = dnan" | "x = dninf" | k where "x = dfin k" "fp_round k = Fin k" | "x = dinf"
proof (cases "raw x" rule: rep_ok.cases)
  case (1 k)
  have "rep_ok (raw x)" using raw [of x] by simp
  with 1 have "fp_round k = Fin k" by simp
  moreover from this have "x = dfin k" by (simp add: raw_inject [symmetric] dfin.rep_eq 1)
  ultimately show thesis using that(3) by blast
qed (auto intro: that simp: raw_inject [symmetric] dnan.rep_eq dinf.rep_eq dninf.rep_eq)

lemma dadd_special [simp]:
  "dadd dnan y = dnan" "dadd x dnan = dnan"
  "dadd dinf dinf = dinf" "dadd dninf dninf = dninf" "dadd dinf dninf = dnan"
  "dadd dninf dinf = dnan"
  apply (transfer, simp)
  apply transfer
  subgoal for x by (cases x) auto
  by (transfer, simp)+

text \<open>
  Adding a non-negative duration never moves time backwards, rounding included, unless it produces
  NaN, which only happens from minus infinity.
\<close>

lemma dadd_nonneg_ge:
  assumes "dle (dfin 0) d" "t \<noteq> dnan" "t \<noteq> dninf"
  shows "dle t (dadd t d)"
  using assms
proof transfer
  fix d t :: raw_double
  assume "rep_ok d" "rep_ok t" and d: "raw_le (Num (fp_round 0)) d" and t: "t \<noteq> NaN" "t \<noteq> Num NegInf"
  have z: "fp_round 0 = Fin 0" by (rule fp_round_small) simp
  show "raw_le t (raw_add t d)"
  proof (cases "(t, d)" rule: raw_add.cases)
    case (3 a b)
    then have "0 \<le> b" "fp_round a = Fin a" using d \<open>rep_ok t\<close> by (auto simp: z)
    then show ?thesis using fp_round_mono [of a "a + b"] 3 by simp
  qed (use d t in \<open>auto simp: z\<close>)
qed

lemma raw_add_NaN [simp]: "raw_add x NaN = NaN"
  by (cases x) simp_all

lemma raw_add_comm: "raw_add a b = raw_add b a"
  by (induction a b rule: raw_add.induct) (auto simp: add.commute)

lemma dadd_comm: "dadd a b = dadd b a"
  by transfer (rule raw_add_comm)

end
