(* ===== verification/Values.thy ===== *)
theory Values
  imports IEEE_Double "HOL-Library.Word"
begin

text \<open>
  The value classes of \<^verbatim>\<open>vle/value\<close>: the tagged union \<^verbatim>\<open>Value\<close>, its checked casts, deep copies, and
  the containers \<^verbatim>\<open>Set\<close>, \<^verbatim>\<open>Map\<close>, \<^verbatim>\<open>Tuple\<close> and \<^verbatim>\<open>Table\<close>. The matrix has its own theory.
\<close>

section \<open>Values\<close>

text \<open>
  A \<^verbatim>\<open>std::unique_ptr<Value>\<close> is an option: \<open>None\<close> is the null pointer. A \<^verbatim>\<open>Map\<close> is a
  \<^verbatim>\<open>std::unordered_map\<close>, whose iteration order the standard leaves open: it is an association list
  without repeated keys, and nothing below depends on its order.
\<close>

datatype 'v matrix = Matrix
  (m_matrix: "'v option list")
  (m_nbcol: nat) (m_nbrow: nat)
  (m_nbcolmax: nat) (m_nbrowmax: nat)
  (m_stepcol: nat) (m_steprow: nat)
  (m_lastX: nat) (m_lastY: nat)

text \<open>
  A value of a type that a user derives from \<^verbatim>\<open>User\<close>: what its functions return is not in the program, so the object
  carries it, its \<^verbatim>\<open>id\<close> and the outcome of its \<^verbatim>\<open>clone\<close>, which may throw or return another such object.
\<close>

codatatype user = User (user_id: nat) (user_clone: "vle_error + user")

datatype val =
    VBoolean bool
  | VInteger "32 word"
  | VDouble double
  | VString string
  | VSet "val option list"
  | VMap "(string \<times> val option) list"
  | VTuple "double list"
  | VTable nat nat "double list"
  | VXml string
  | VNull
  | VMatrix "val matrix"
  | VUser user

datatype val_type =
    BOOLEAN | INTEGER | DOUBLE | STRING | SET | MAP | TUPLE | TABLE | XMLTYPE | NIL | MATRIX | USER

fun getType :: "val \<Rightarrow> val_type" where
  "getType (VBoolean _) = BOOLEAN"
| "getType (VInteger _) = INTEGER"
| "getType (VDouble _) = DOUBLE"
| "getType (VString _) = STRING"
| "getType (VSet _) = SET"
| "getType (VMap _) = MAP"
| "getType (VTuple _) = TUPLE"
| "getType (VTable _ _ _) = TABLE"
| "getType (VXml _) = XMLTYPE"
| "getType VNull = NIL"
| "getType (VMatrix _) = MATRIX"
| "getType (VUser _) = USER"

text \<open>The checked casts: each returns the content of the one constructor it accepts.\<close>

fun toBoolean :: "val \<Rightarrow> bool result" where
  "toBoolean (VBoolean b) = Inr b"
| "toBoolean _ = Inl (CastError ''Value is not a boolean'')"

fun toInteger :: "val \<Rightarrow> 32 word result" where
  "toInteger (VInteger i) = Inr i"
| "toInteger _ = Inl (CastError ''Value is not an integer'')"

fun toDouble :: "val \<Rightarrow> double result" where
  "toDouble (VDouble d) = Inr d"
| "toDouble _ = Inl (CastError ''Value is not a double'')"

fun toString :: "val \<Rightarrow> string result" where
  "toString (VString s) = Inr s"
| "toString _ = Inl (CastError ''Value is not a string'')"

fun toSet :: "val \<Rightarrow> val option list result" where
  "toSet (VSet xs) = Inr xs"
| "toSet _ = Inl (CastError ''Value is not a set'')"

fun toMap :: "val \<Rightarrow> (string \<times> val option) list result" where
  "toMap (VMap m) = Inr m"
| "toMap _ = Inl (CastError ''Value is not a map'')"

fun toTuple :: "val \<Rightarrow> double list result" where
  "toTuple (VTuple t) = Inr t"
| "toTuple _ = Inl (CastError ''Value is not a tuple'')"

fun toTable :: "val \<Rightarrow> (nat \<times> nat \<times> double list) result" where
  "toTable (VTable w h t) = Inr (w, h, t)"
| "toTable _ = Inl (CastError ''Value is not a table'')"

fun toXml :: "val \<Rightarrow> string result" where
  "toXml (VXml s) = Inr s"
| "toXml _ = Inl (CastError ''Value is not an xml'')"

fun toNull :: "val \<Rightarrow> unit result" where
  "toNull VNull = Inr ()"
| "toNull _ = Inl (CastError ''Value is not a null'')"

fun toMatrix :: "val \<Rightarrow> val matrix result" where
  "toMatrix (VMatrix m) = Inr m"
| "toMatrix _ = Inl (CastError ''Value is not a matrix'')"

fun toUser :: "val \<Rightarrow> user result" where
  "toUser (VUser u) = Inr u"
| "toUser _ = Inl (CastError ''Value is not a user value'')"

text \<open>\<^verbatim>\<open>reference\<close>: following a pointer that must not be null.\<close>

definition reference :: "val option \<Rightarrow> val result" where
  "reference p = (case p of None \<Rightarrow> Inl (ArgError ''Null value'') | Some v \<Rightarrow> Inr v)"

definition is_composite :: "val option \<Rightarrow> bool" where
  "is_composite p =
     (case p of None \<Rightarrow> False
      | Some v \<Rightarrow> (case getType v of MAP \<Rightarrow> True | SET \<Rightarrow> True | MATRIX \<Rightarrow> True | _ \<Rightarrow> False))"

section \<open>Deep copies\<close>

text \<open>
  The virtual \<^verbatim>\<open>clone\<close> of each class, through the copy constructors. The copy of a matrix asserts
  that the storage has the announced capacity and starts with its cursor at the origin.
\<close>

definition clone_ptr :: "(val \<Rightarrow> val result) \<Rightarrow> val option \<Rightarrow> val option result" where
  "clone_ptr f p = (case p of None \<Rightarrow> Inr None | Some v \<Rightarrow> bindE (f v) (\<lambda>w. Inr (Some w)))"

lemma clone_ptr_cong [fundef_cong]:
  "p = q \<Longrightarrow> (\<And>v. q = Some v \<Longrightarrow> f v = g v) \<Longrightarrow> clone_ptr f p = clone_ptr g q"
  by (auto simp: clone_ptr_def split: option.splits)

lemma size_VSet_elem: "Some v \<in> set xs \<Longrightarrow> size v < size (VSet xs)"
  by (induction xs) auto

lemma size_VMap_elem: "(k, Some v) \<in> set m \<Longrightarrow> size v < size (VMap m)"
  by (induction m) auto

lemma size_VMatrix_elem: "Some v \<in> set (m_matrix m) \<Longrightarrow> size v < size (VMatrix m)"
proof (cases m)
  case (Matrix xs a b c d e f g h)
  assume "Some v \<in> set (m_matrix m)"
  with Matrix have "Some v \<in> set xs" by simp
  then have "size v < Suc (size_list (size_option size) xs)" by (induction xs) auto
  with Matrix show ?thesis by simp
qed

function clone :: "val \<Rightarrow> val result" where
  "clone (VBoolean b) = Inr (VBoolean b)"
| "clone (VInteger i) = Inr (VInteger i)"
| "clone (VDouble d) = Inr (VDouble d)"
| "clone (VString s) = Inr (VString s)"
| "clone (VSet xs) = bindE (mapE (clone_ptr clone) xs) (\<lambda>ys. Inr (VSet ys))"
| "clone (VMap m) =
     bindE (mapE (\<lambda>kv. bindE (clone_ptr clone (snd kv)) (\<lambda>w. Inr (fst kv, w))) m)
       (\<lambda>m'. Inr (VMap m'))"
| "clone (VTuple t) = Inr (VTuple t)"
| "clone (VTable w h t) = Inr (VTable w h t)"
| "clone (VXml s) = Inr (VXml s)"
| "clone VNull = Inr VNull"
| "clone (VMatrix m) =
     bindE (assertE (length (m_matrix m) = szmul (m_nbcolmax m) (m_nbrowmax m))
              ''m.m_matrix.size() == m_nbcolmax * m_nbrowmax'')
       (\<lambda>_. bindE (mapE (clone_ptr clone) (m_matrix m))
          (\<lambda>ys. Inr (VMatrix (Matrix ys (m_nbcol m) (m_nbrow m) (m_nbcolmax m) (m_nbrowmax m)
                       (m_stepcol m) (m_steprow m) 0 0))))"
| "clone (VUser u) = bindE (user_clone u) (\<lambda>w. Inr (VUser w))"
  by pat_completeness auto
termination
  by (relation "measure size")
    (auto simp: size_VSet_elem simp del: val.size intro: size_VMap_elem size_VMatrix_elem)


text \<open>The overload on shared pointers: a null pointer and a user value give a null pointer.\<close>

definition clone_shared :: "val option \<Rightarrow> val option result" where
  "clone_shared p =
     (case p of None \<Rightarrow> Inr None
      | Some v \<Rightarrow> (if getType v = USER then Inr None else bindE (clone v) (\<lambda>w. Inr (Some w))))"

text \<open>
  What a copy is: the original with every matrix cursor back at the origin and what their \<^verbatim>\<open>clone\<close> returned for the
  values of users. It succeeds when every matrix inside has as many cells as its capacity announces and no \<^verbatim>\<open>clone\<close> of a user throws.
\<close>

function rewind :: "val \<Rightarrow> val" where
  "rewind (VSet xs) = VSet (map (map_option rewind) xs)"
| "rewind (VMap m) = VMap (map (\<lambda>kv. (fst kv, map_option rewind (snd kv))) m)"
| "rewind (VMatrix m) =
     VMatrix (Matrix (map (map_option rewind) (m_matrix m)) (m_nbcol m) (m_nbrow m)
       (m_nbcolmax m) (m_nbrowmax m) (m_stepcol m) (m_steprow m) 0 0)"
| "rewind (VBoolean b) = VBoolean b"
| "rewind (VInteger i) = VInteger i"
| "rewind (VDouble d) = VDouble d"
| "rewind (VString s) = VString s"
| "rewind (VTuple t) = VTuple t"
| "rewind (VTable w h t) = VTable w h t"
| "rewind (VXml s) = VXml s"
| "rewind VNull = VNull"
| "rewind (VUser u) = VUser (case user_clone u of Inl _ \<Rightarrow> u | Inr w \<Rightarrow> w)"
  by pat_completeness auto
termination
  by (relation "measure size")
    (auto simp: size_VSet_elem simp del: val.size intro: size_VMap_elem size_VMatrix_elem)

inductive storage_ok :: "val \<Rightarrow> bool" where
  set_ok: "(\<And>v. Some v \<in> set xs \<Longrightarrow> storage_ok v) \<Longrightarrow> storage_ok (VSet xs)"
| map_ok: "(\<And>k v. (k, Some v) \<in> set m \<Longrightarrow> storage_ok v) \<Longrightarrow> storage_ok (VMap m)"
| matrix_ok: "length (m_matrix m) = szmul (m_nbcolmax m) (m_nbrowmax m) \<Longrightarrow>
    (\<And>v. Some v \<in> set (m_matrix m) \<Longrightarrow> storage_ok v) \<Longrightarrow> storage_ok (VMatrix m)"
| user_ok: "user_clone u = Inr w \<Longrightarrow> storage_ok (VUser u)"
| atom_ok: "getType v \<notin> {SET, MAP, MATRIX, USER} \<Longrightarrow> storage_ok v"

inductive_simps storage_ok_simps [simp]:
  "storage_ok (VSet xs)" "storage_ok (VMap m)" "storage_ok (VMatrix m)" "storage_ok (VUser u)"

lemma clone_ptr_rewind:
  "(\<And>v. p = Some v \<Longrightarrow> clone v = Inr (rewind v)) \<Longrightarrow>
   clone_ptr clone p = Inr (map_option rewind p)"
  by (cases p) (auto simp: clone_ptr_def)

lemma mapE_clone_rewind:
  "(\<And>v. Some v \<in> set xs \<Longrightarrow> clone v = Inr (rewind v)) \<Longrightarrow>
   mapE (clone_ptr clone) xs = Inr (map (map_option rewind) xs)"
  by (rule mapE_total, rule clone_ptr_rewind) auto

lemma clone_storage_ok: "storage_ok v \<Longrightarrow> clone v = Inr (rewind v)"
proof (induction v rule: storage_ok.induct)
  case (map_ok m)
  have "mapE (\<lambda>kv. bindE (clone_ptr clone (snd kv)) (\<lambda>w. Inr (fst kv, w))) m
      = Inr (map (\<lambda>kv. (fst kv, map_option rewind (snd kv))) m)"
  proof (rule mapE_total)
    fix kv
    assume "kv \<in> set m"
    then have "clone_ptr clone (snd kv) = Inr (map_option rewind (snd kv))"
      by (intro clone_ptr_rewind map_ok.IH [of "fst kv"]) (metis prod.collapse)
    then show "bindE (clone_ptr clone (snd kv)) (\<lambda>w. Inr (fst kv, w))
      = Inr (fst kv, map_option rewind (snd kv))" by simp
  qed
  then show ?case by simp
next
  case (atom_ok v)
  then show ?case by (cases v) auto
qed (simp_all add: mapE_clone_rewind)

lemma clone_ptr_Inr: "clone_ptr f (Some v) = Inr q \<longleftrightarrow> (\<exists>w. f v = Inr w \<and> q = Some w)"
  by (auto simp: clone_ptr_def result_simps)

lemma clone_Inr_storage_ok: "clone v = Inr w \<Longrightarrow> storage_ok v"
proof (induction v arbitrary: w rule: clone.induct)
  case (5 xs)
  then show ?case by (auto simp: result_simps clone_ptr_Inr dest!: mapE_InrD)
next
  case (6 m)
  then show ?case by (fastforce simp: result_simps clone_ptr_Inr dest!: mapE_InrD)
next
  case (11 m)
  then show ?case by (auto simp: result_simps clone_ptr_Inr dest!: mapE_InrD)
qed (auto simp: result_simps intro: storage_ok.atom_ok)

text \<open>
  A deep copy of a value succeeds exactly when every matrix inside it holds as many cells as its
  capacity announces and every user value inside it can be cloned.
\<close>

theorem clone_spec: "clone v = Inr w \<longleftrightarrow> storage_ok v \<and> w = rewind v"
  using clone_storage_ok clone_Inr_storage_ok by fastforce

end
