(* ===== verification/Value_Containers.thy ===== *)
theory Value_Containers
  imports Values "HOL-Library.AList"
begin

text \<open>
  The containers of \<^verbatim>\<open>vle/value\<close>: \<^verbatim>\<open>Set\<close> (a vector of owned values), \<^verbatim>\<open>Map\<close> (values by name),
  \<^verbatim>\<open>Tuple\<close> (a vector of doubles) and \<^verbatim>\<open>Table\<close> (a grid of doubles), with their bounds checks, the
  typed accessors and the loops that resize them.
\<close>

type_synonym set_value = "val option list"
type_synonym map_value = "(string \<times> val option) list"
type_synonym tuple_value = "double list"

section \<open>Tables\<close>

record table =
  t_value :: "double list"
  t_width :: nat
  t_height :: nat

definition Table_default :: table where
  "Table_default = \<lparr>t_value = [dfin 0], t_width = 1, t_height = 1\<rparr>"

definition Table_new :: "nat \<Rightarrow> nat \<Rightarrow> table result" where
  "Table_new width height =
     (if szmul width height = 0 then Inl (ArgError ''Table: bad constructor initialization'')
      else Inr \<lparr>t_value = replicate (szmul width height) (dfin 0), t_width = width, t_height = height\<rparr>)"

text \<open>The check of \<^verbatim>\<open>pp_get\<close> lets the index one past the end through.\<close>

definition Table_get :: "table \<Rightarrow> nat \<Rightarrow> nat \<Rightarrow> double result" where
  "Table_get t x y =
     (let i = szadd (szmul y (t_width t)) x
      in if i > length (t_value t) then Inl (ArgError ''Table: bad accessor'')
         else vec_get (t_value t) i)"

definition Table_put :: "table \<Rightarrow> nat \<Rightarrow> nat \<Rightarrow> double \<Rightarrow> table result" where
  "Table_put t x y d =
     (let i = szadd (szmul y (t_width t)) x
      in if i > length (t_value t) then Inl (ArgError ''Table: bad accessor'')
         else bindE (vec_set (t_value t) i d) (\<lambda>v. Inr (t\<lparr>t_value := v\<rparr>)))"

definition Table_resize :: "table \<Rightarrow> nat \<Rightarrow> nat \<Rightarrow> table result" where
  "Table_resize t width height =
     (if szmul width height = 0 then Inl (ArgError ''Table: bad constructor initialization'')
      else if width = t_width t \<and> height = t_height t then Inr t
      else
        let min_r = min (t_width t) width; min_c = min (t_height t) height
        in bindE (foldE (\<lambda>(r, c) tmp.
                    bindE (vec_get (t_value t) (szadd (szmul c (t_width t)) r))
                      (\<lambda>d. vec_set tmp (szadd (szmul c width) r) d))
                  (List.product [0..<min_r] [0..<min_c])
                  (replicate (szmul width height) (dfin 0)))
             (\<lambda>tmp. Inr \<lparr>t_value = tmp, t_width = width, t_height = height\<rparr>))"

text \<open>A table whose storage is its announced rectangle, small enough for \<^verbatim>\<open>std::size_t\<close>.\<close>

definition table_ok :: "table \<Rightarrow> bool" where
  "table_ok t \<longleftrightarrow> 0 < t_width t * t_height t \<and> t_width t * t_height t < 2 ^ 64
     \<and> length (t_value t) = t_width t * t_height t"

section \<open>Sets\<close>

definition Set_new :: "nat \<Rightarrow> set_value" where
  "Set_new n = replicate n None"

definition Set_check_index :: "set_value \<Rightarrow> nat \<Rightarrow> unit result" where
  "Set_check_index s i = (if i \<ge> length s then Inl (ArgError ''Set: too big index'') else Inr ())"

definition Set_pp_get_value :: "set_value \<Rightarrow> nat \<Rightarrow> val result" where
  "Set_pp_get_value s i =
     bindE (Set_check_index s i)
       (\<lambda>_. case s ! i of None \<Rightarrow> Inl (ArgError ''Set: empty or null value at'') | Some v \<Rightarrow> Inr v)"

definition Set_pp_add :: "set_value \<Rightarrow> val \<Rightarrow> set_value" where
  "Set_pp_add s v = s @ [Some v]"

definition Set_set :: "set_value \<Rightarrow> nat \<Rightarrow> val option \<Rightarrow> set_value result" where
  "Set_set s i v = bindE (Set_check_index s i) (\<lambda>_. Inr (s[i := v]))"

definition Set_get :: "set_value \<Rightarrow> nat \<Rightarrow> val option result" where
  "Set_get s i = bindE (Set_check_index s i) (\<lambda>_. Inr (s ! i))"

definition Set_give :: "set_value \<Rightarrow> nat \<Rightarrow> (val option \<times> set_value) result" where
  "Set_give s i = bindE (Set_check_index s i) (\<lambda>_. Inr (s ! i, s[i := None]))"

definition Set_add :: "set_value \<Rightarrow> val option \<Rightarrow> set_value" where
  "Set_add s v = s @ [v]"

definition Matrix_default :: "val matrix" where
  "Matrix_default = Matrix (replicate (256 * 1024) None) 0 0 256 1024 1 1 0 0"

definition Set_addSet :: "set_value \<Rightarrow> set_value" where
  "Set_addSet s = Set_pp_add s (VSet [])"

definition Set_addMap :: "set_value \<Rightarrow> set_value" where
  "Set_addMap s = Set_pp_add s (VMap [])"

definition Set_addMatrix :: "set_value \<Rightarrow> set_value" where
  "Set_addMatrix s = Set_pp_add s (VMatrix Matrix_default)"

definition Set_addNull :: "set_value \<Rightarrow> set_value" where
  "Set_addNull s = Set_pp_add s VNull"

definition Set_addBoolean :: "set_value \<Rightarrow> bool \<Rightarrow> set_value" where
  "Set_addBoolean s b = Set_pp_add s (VBoolean b)"

definition Set_addDouble :: "set_value \<Rightarrow> double \<Rightarrow> set_value" where
  "Set_addDouble s d = Set_pp_add s (VDouble d)"

definition Set_addInt :: "set_value \<Rightarrow> 32 word \<Rightarrow> set_value" where
  "Set_addInt s i = Set_pp_add s (VInteger i)"

definition Set_addString :: "set_value \<Rightarrow> string \<Rightarrow> set_value" where
  "Set_addString s x = Set_pp_add s (VString x)"

definition Set_addXml :: "set_value \<Rightarrow> string \<Rightarrow> set_value" where
  "Set_addXml s x = Set_pp_add s (VXml x)"

definition Set_addTable :: "set_value \<Rightarrow> nat \<Rightarrow> nat \<Rightarrow> set_value result" where
  "Set_addTable s width height =
     bindE (Table_new width height)
       (\<lambda>t. Inr (Set_pp_add s (VTable (t_width t) (t_height t) (t_value t))))"

definition Set_addTuple :: "set_value \<Rightarrow> nat \<Rightarrow> double \<Rightarrow> set_value" where
  "Set_addTuple s width d = Set_pp_add s (VTuple (replicate width d))"

definition Set_getSet :: "set_value \<Rightarrow> nat \<Rightarrow> set_value result" where
  "Set_getSet s i = bindE (Set_pp_get_value s i) toSet"

definition Set_getMap :: "set_value \<Rightarrow> nat \<Rightarrow> map_value result" where
  "Set_getMap s i = bindE (Set_pp_get_value s i) toMap"

definition Set_getMatrix :: "set_value \<Rightarrow> nat \<Rightarrow> val matrix result" where
  "Set_getMatrix s i = bindE (Set_pp_get_value s i) toMatrix"

definition Set_getBoolean :: "set_value \<Rightarrow> nat \<Rightarrow> bool result" where
  "Set_getBoolean s i = bindE (Set_pp_get_value s i) toBoolean"

definition Set_getDouble :: "set_value \<Rightarrow> nat \<Rightarrow> double result" where
  "Set_getDouble s i = bindE (Set_pp_get_value s i) toDouble"

definition Set_getInt :: "set_value \<Rightarrow> nat \<Rightarrow> 32 word result" where
  "Set_getInt s i = bindE (Set_pp_get_value s i) toInteger"

definition Set_getString :: "set_value \<Rightarrow> nat \<Rightarrow> string result" where
  "Set_getString s i = bindE (Set_pp_get_value s i) toString"

definition Set_getXml :: "set_value \<Rightarrow> nat \<Rightarrow> string result" where
  "Set_getXml s i = bindE (Set_pp_get_value s i) toXml"

definition Set_getTable :: "set_value \<Rightarrow> nat \<Rightarrow> (nat \<times> nat \<times> double list) result" where
  "Set_getTable s i = bindE (Set_pp_get_value s i) toTable"

definition Set_getTuple :: "set_value \<Rightarrow> nat \<Rightarrow> tuple_value result" where
  "Set_getTuple s i = bindE (Set_pp_get_value s i) toTuple"

definition Set_remove :: "set_value \<Rightarrow> nat \<Rightarrow> set_value result" where
  "Set_remove s i = bindE (Set_check_index s i) (\<lambda>_. Inr (take i s @ drop (Suc i) s))"

text \<open>
  \<^verbatim>\<open>std::vector::resize\<close> appends null pointers or drops the tail; the new cells then receive a copy of
  the fill value each.
\<close>

definition Set_resize :: "set_value \<Rightarrow> nat \<Rightarrow> val \<Rightarrow> set_value result" where
  "Set_resize s newSize fill =
     (if newSize = length s then Inr s
      else if newSize > length s then
        foldE (\<lambda>i v. bindE (clone fill) (\<lambda>w. vec_set v (length s + i) (Some w)))
          [0..<newSize - length s] (s @ replicate (newSize - length s) None)
      else Inr (take newSize s))"

section \<open>Maps\<close>

definition map_assign :: "map_value \<Rightarrow> string \<Rightarrow> val option \<Rightarrow> map_value" where
  "map_assign m k v = AList.update k v m"

definition Map_pp_get :: "map_value \<Rightarrow> string \<Rightarrow> val option result" where
  "Map_pp_get m name =
     (case map_of m name of None \<Rightarrow> Inl (ArgError ''Map: the key does not exist'') | Some p \<Rightarrow> Inr p)"

definition Map_pp_get_value :: "map_value \<Rightarrow> string \<Rightarrow> val result" where
  "Map_pp_get_value m name =
     bindE (Map_pp_get m name)
       (\<lambda>p. case p of None \<Rightarrow> Inl (ArgError ''Map: the key have empty (null) value'') | Some v \<Rightarrow> Inr v)"

definition Map_pp_add :: "map_value \<Rightarrow> string \<Rightarrow> val \<Rightarrow> map_value" where
  "Map_pp_add m name v = map_assign m name (Some v)"

definition Map_add :: "map_value \<Rightarrow> string \<Rightarrow> val option \<Rightarrow> map_value" where
  "Map_add m name v = map_assign m name v"

definition Map_set :: "map_value \<Rightarrow> string \<Rightarrow> val option \<Rightarrow> map_value" where
  "Map_set m name v = map_assign m name v"

definition Map_exist :: "map_value \<Rightarrow> string \<Rightarrow> bool" where
  "Map_exist m name \<longleftrightarrow> map_of m name \<noteq> None"

definition Map_get :: "map_value \<Rightarrow> string \<Rightarrow> val option result" where
  "Map_get m name = Map_pp_get m name"

definition Map_give :: "map_value \<Rightarrow> string \<Rightarrow> (val option \<times> map_value) result" where
  "Map_give m name = bindE (Map_pp_get m name) (\<lambda>p. Inr (p, map_assign m name None))"

definition Map_addMap :: "map_value \<Rightarrow> string \<Rightarrow> map_value" where
  "Map_addMap m name = Map_pp_add m name (VMap [])"

definition Map_addSet :: "map_value \<Rightarrow> string \<Rightarrow> map_value" where
  "Map_addSet m name = Map_pp_add m name (VSet [])"

definition Map_addMatrix :: "map_value \<Rightarrow> string \<Rightarrow> map_value" where
  "Map_addMatrix m name = Map_pp_add m name (VMatrix Matrix_default)"

definition Map_addNull :: "map_value \<Rightarrow> string \<Rightarrow> map_value" where
  "Map_addNull m name = Map_pp_add m name VNull"

definition Map_addString :: "map_value \<Rightarrow> string \<Rightarrow> string \<Rightarrow> map_value" where
  "Map_addString m name x = Map_pp_add m name (VString x)"

definition Map_addBoolean :: "map_value \<Rightarrow> string \<Rightarrow> bool \<Rightarrow> map_value" where
  "Map_addBoolean m name b = Map_pp_add m name (VBoolean b)"

definition Map_addInt :: "map_value \<Rightarrow> string \<Rightarrow> 32 word \<Rightarrow> map_value" where
  "Map_addInt m name i = Map_pp_add m name (VInteger i)"

definition Map_addDouble :: "map_value \<Rightarrow> string \<Rightarrow> double \<Rightarrow> map_value" where
  "Map_addDouble m name d = Map_pp_add m name (VDouble d)"

definition Map_addXml :: "map_value \<Rightarrow> string \<Rightarrow> string \<Rightarrow> map_value" where
  "Map_addXml m name x = Map_pp_add m name (VXml x)"

definition Map_addTable :: "map_value \<Rightarrow> string \<Rightarrow> nat \<Rightarrow> nat \<Rightarrow> map_value result" where
  "Map_addTable m name width height =
     bindE (Table_new width height)
       (\<lambda>t. Inr (Map_pp_add m name (VTable (t_width t) (t_height t) (t_value t))))"

definition Map_addTuple :: "map_value \<Rightarrow> string \<Rightarrow> nat \<Rightarrow> double \<Rightarrow> map_value" where
  "Map_addTuple m name width d = Map_pp_add m name (VTuple (replicate width d))"

definition Map_getMap :: "map_value \<Rightarrow> string \<Rightarrow> map_value result" where
  "Map_getMap m name = bindE (Map_pp_get_value m name) toMap"

definition Map_getSet :: "map_value \<Rightarrow> string \<Rightarrow> set_value result" where
  "Map_getSet m name = bindE (Map_pp_get_value m name) toSet"

definition Map_getMatrix :: "map_value \<Rightarrow> string \<Rightarrow> val matrix result" where
  "Map_getMatrix m name = bindE (Map_pp_get_value m name) toMatrix"

definition Map_getString :: "map_value \<Rightarrow> string \<Rightarrow> string result" where
  "Map_getString m name = bindE (Map_pp_get_value m name) toString"

definition Map_getBoolean :: "map_value \<Rightarrow> string \<Rightarrow> bool result" where
  "Map_getBoolean m name = bindE (Map_pp_get_value m name) toBoolean"

definition Map_getInt :: "map_value \<Rightarrow> string \<Rightarrow> 32 word result" where
  "Map_getInt m name = bindE (Map_pp_get_value m name) toInteger"

definition Map_getDouble :: "map_value \<Rightarrow> string \<Rightarrow> double result" where
  "Map_getDouble m name = bindE (Map_pp_get_value m name) toDouble"

definition Map_getXml :: "map_value \<Rightarrow> string \<Rightarrow> string result" where
  "Map_getXml m name = bindE (Map_pp_get_value m name) toXml"

definition Map_getTable :: "map_value \<Rightarrow> string \<Rightarrow> (nat \<times> nat \<times> double list) result" where
  "Map_getTable m name = bindE (Map_pp_get_value m name) toTable"

definition Map_getTuple :: "map_value \<Rightarrow> string \<Rightarrow> tuple_value result" where
  "Map_getTuple m name = bindE (Map_pp_get_value m name) toTuple"

text \<open>
  \<^verbatim>\<open>addMultilpleValues\<close>: the key is the first of \<^verbatim>\<open>NewKey\<close>, \<^verbatim>\<open>NewKey_1\<close>, \<^verbatim>\<open>NewKey_2\<close>, \<dots> that is not used.
\<close>

definition new_key :: "nat \<Rightarrow> string" where
  "new_key current = (if current = 0 then ''NewKey'' else ''NewKey'' @ ''_'' @ show_nat current)"

lemma new_key_inject [simp]: "new_key a = new_key b \<longleftrightarrow> a = b"
  by (auto simp: new_key_def)

function find_key :: "map_value \<Rightarrow> nat \<Rightarrow> string" where
  "find_key m current =
     (if \<not> Map_exist m (new_key current) then new_key current else find_key m (Suc current))"
  by pat_completeness auto
termination
  by (relation "measure (\<lambda>(m, current). card {i. current \<le> i \<and> new_key i \<in> dom (map_of m)})")
    (auto simp: Map_exist_def inj_def intro!: fresh_name_measure finite_dom_map_of)

declare find_key.simps [simp del]

definition Map_addMultilpleValues :: "map_value \<Rightarrow> int \<Rightarrow> val \<Rightarrow> map_value result" where
  "Map_addMultilpleValues m toadd fill =
     (if toadd \<le> 0 then Inr m
      else foldE (\<lambda>_ m. bindE (clone fill) (\<lambda>w. Inr (map_assign m (find_key m 0) (Some w))))
             [0..<nat toadd] m)"

section \<open>Tuples\<close>

definition Tuple_get :: "tuple_value \<Rightarrow> nat \<Rightarrow> double result" where
  "Tuple_get t i = (if i > length t then Inl (ArgError ''Tuple: bad accessor'') else vec_get t i)"

definition Tuple_add :: "tuple_value \<Rightarrow> double \<Rightarrow> tuple_value" where
  "Tuple_add t d = t @ [d]"

definition Tuple_remove :: "tuple_value \<Rightarrow> nat \<Rightarrow> tuple_value result" where
  "Tuple_remove t i =
     (if i < length t then Inr (take i t @ drop (Suc i) t)
      else Inl (UndefinedBehaviour ''vector::erase past the end''))"

definition Tuple_resize :: "tuple_value \<Rightarrow> nat \<Rightarrow> double \<Rightarrow> tuple_value" where
  "Tuple_resize t n d = (if n \<le> length t then take n t else t @ replicate (n - length t) d)"


section \<open>Properties of the containers\<close>

lemma table_index:
  assumes "x < w" "y < h" "w * h < 2 ^ 64"
  shows "szadd (szmul y w) x = y * w + x" "y * w + x < w * h"
proof -
  show lt: "y * w + x < w * h" using grid_index_less [OF assms(1,2)] by (simp add: mult.commute)
  with assms(3) have "y * w + x < 2 ^ 64" by simp
  then show "szadd (szmul y w) x = y * w + x" by (simp add: szmul_eq szadd_eq)
qed

lemma table_get_ok:
  assumes "table_ok t" "x < t_width t" "y < t_height t"
  shows "Table_get t x y = Inr (t_value t ! (y * t_width t + x))"
  using assms table_index [of x "t_width t" y "t_height t"]
  by (simp add: table_ok_def Table_get_def)

lemma table_copy_loop:
  assumes t: "table_ok t" and wh: "width * height < 2 ^ 64"
    and R: "R \<le> t_width t" "R \<le> width" and C: "C \<le> t_height t" "C \<le> height"
  shows "\<exists>tmp. foldE (\<lambda>(r, c) tmp. bindE (vec_get (t_value t) (szadd (szmul c (t_width t)) r))
             (\<lambda>d. vec_set tmp (szadd (szmul c width) r) d))
           (List.product [0..<R] [0..<C]) (replicate (width * height) (dfin 0)) = Inr tmp
       \<and> length tmp = width * height
       \<and> (\<forall>x y. x < width \<longrightarrow> y < height \<longrightarrow> tmp ! (y * width + x) =
            (if x < R \<and> y < C then t_value t ! (y * t_width t + x) else dfin 0))"
proof -
  let ?ps = "List.product [0..<R] [0..<C]"
  let ?idx = "\<lambda>p. snd p * width + fst p"
  let ?g = "\<lambda>p. t_value t ! (snd p * t_width t + fst p)"
  have body: "foldE (\<lambda>(r, c) tmp. bindE (vec_get (t_value t) (szadd (szmul c (t_width t)) r))
             (\<lambda>d. vec_set tmp (szadd (szmul c width) r) d)) ?ps xs
      = foldE (\<lambda>p v. vec_set v (?idx p) (?g p)) ?ps xs" for xs
  proof (rule foldE_cong)
    fix p and v :: "double list"
    assume "p \<in> set ?ps"
    then have "fst p < R" "snd p < C" by auto
    then show "(case p of (r, c) \<Rightarrow> \<lambda>tmp. bindE (vec_get (t_value t) (szadd (szmul c (t_width t)) r))
             (\<lambda>d. vec_set tmp (szadd (szmul c width) r) d)) v = vec_set v (?idx p) (?g p)"
      using t wh R C table_index [of "fst p" "t_width t" "snd p" "t_height t"]
        table_index [of "fst p" width "snd p" height]
      by (simp add: table_ok_def split_beta)
  qed
  have inj: "\<And>p q. p \<in> set ?ps \<Longrightarrow> q \<in> set ?ps \<Longrightarrow> ?idx p = ?idx q \<Longrightarrow> p = q"
  proof -
    fix p q
    assume "p \<in> set ?ps" "q \<in> set ?ps" "?idx p = ?idx q"
    moreover from this(1,2) have "fst p < width" "fst q < width" using R by auto
    ultimately show "p = q" using grid_index_inject [of "fst p" width "fst q" "snd p" "snd q"]
      by (simp add: prod_eq_iff)
  qed
  have bound: "\<And>p. p \<in> set ?ps \<Longrightarrow> ?idx p < width * height"
    using table_index(2) [OF _ _ wh] R C by auto
  have "\<exists>ys. foldE (\<lambda>p v. vec_set v (?idx p) (?g p)) ?ps (replicate (width * height) (dfin 0)) = Inr ys
      \<and> length ys = length (replicate (width * height) (dfin 0))
      \<and> (\<forall>p \<in> set ?ps. ys ! ?idx p = ?g p)
      \<and> (\<forall>i. i \<notin> ?idx ` set ?ps \<longrightarrow> ys ! i = replicate (width * height) (dfin 0) ! i)"
  proof (rule foldE_vec_set)
    show "?idx p < length (replicate (width * height) (dfin 0))" if "p \<in> set ?ps" for p
      using bound [OF that] by simp
    show "?g p = ?g q" if "p \<in> set ?ps" "q \<in> set ?ps" "?idx p = ?idx q" for p q
      using inj [OF that] by simp
  qed
  then obtain tmp where tmp: "foldE (\<lambda>p v. vec_set v (?idx p) (?g p)) ?ps
        (replicate (width * height) (dfin 0)) = Inr tmp" "length tmp = width * height"
      "\<forall>p \<in> set ?ps. tmp ! ?idx p = ?g p"
      "\<forall>i. i \<notin> ?idx ` set ?ps \<longrightarrow> tmp ! i = replicate (width * height) (dfin 0) ! i"
    by (auto simp del: set_product)
  have "tmp ! (y * width + x) = (if x < R \<and> y < C then t_value t ! (y * t_width t + x) else dfin 0)"
    if "x < width" "y < height" for x y
  proof (cases "x < R \<and> y < C")
    case True
    then show ?thesis using tmp(3) by (auto dest!: bspec [of _ _ "(x, y)"])
  next
    case False
    then have "y * width + x \<notin> ?idx ` set ?ps"
    proof (intro notI, elim imageE)
      fix p
      assume p: "y * width + x = ?idx p" "p \<in> set ?ps"
      then have "fst p < R" "snd p < C" by auto
      with p(1) that(1) R(2) have "y = snd p \<and> x = fst p" by (intro grid_index_inject) auto
      with False \<open>fst p < R\<close> \<open>snd p < C\<close> show False by simp
    qed
    with False that tmp(4) table_index(2) [of x width y height] wh show ?thesis by auto
  qed
  with tmp(1,2) show ?thesis by (auto simp: body)
qed

text \<open>
  Resizing a table to a non-empty rectangle keeps the storage in step with the announced size,
  keeps every cell that exists before and after, and zeroes the cells it adds.
\<close>

theorem Table_resize_spec:
  assumes "table_ok t" "0 < width * height" "width * height < 2 ^ 64"
  shows "\<exists>t'. Table_resize t width height = Inr t' \<and> table_ok t'
    \<and> t_width t' = width \<and> t_height t' = height
    \<and> (\<forall>x y. x < width \<longrightarrow> y < height \<longrightarrow> Table_get t' x y =
         (if x < t_width t \<and> y < t_height t then Table_get t x y else Inr (dfin 0)))"
proof (cases "width = t_width t \<and> height = t_height t")
  case True
  with assms show ?thesis by (intro exI [of _ t]) (simp add: Table_resize_def szmul_eq)
next
  case False
  let ?R = "min (t_width t) width" and ?C = "min (t_height t) height"
  from table_copy_loop [OF assms(1,3), of ?R ?C] obtain tmp
    where tmp: "foldE (\<lambda>(r, c) tmp. bindE (vec_get (t_value t) (szadd (szmul c (t_width t)) r))
             (\<lambda>d. vec_set tmp (szadd (szmul c width) r) d))
           (List.product [0..<?R] [0..<?C]) (replicate (width * height) (dfin 0)) = Inr tmp"
      and len: "length tmp = width * height"
      and cells: "\<And>x y. x < width \<Longrightarrow> y < height \<Longrightarrow> tmp ! (y * width + x) =
            (if x < ?R \<and> y < ?C then t_value t ! (y * t_width t + x) else dfin 0)" by auto
  define t' where "t' = \<lparr>t_value = tmp, t_width = width, t_height = height\<rparr>"
  have ok: "table_ok t'" using assms len by (simp add: table_ok_def t'_def)
  have run: "Table_resize t width height = Inr t'"
    using False assms tmp by (auto simp: Table_resize_def szmul_eq t'_def Let_def)
  have "Table_get t' x y =
         (if x < t_width t \<and> y < t_height t then Table_get t x y else Inr (dfin 0))"
    if "x < width" "y < height" for x y
    using that ok assms(1) cells [OF that] by (simp add: table_get_ok t'_def)
  with ok run show ?thesis by (auto simp: t'_def)
qed

theorem Table_resize_spec_witness:
  "\<exists>t'. Table_resize \<lparr>t_value = [dfin 1, dfin 2], t_width = 2, t_height = 1\<rparr> 1 2 = Inr t'
    \<and> Table_get t' 0 0 = Inr (dfin 1) \<and> Table_get t' 0 1 = Inr (dfin 0)"
proof -
  let ?t = "\<lparr>t_value = [dfin 1, dfin 2], t_width = 2, t_height = 1\<rparr>"
  have "table_ok ?t" by (simp add: table_ok_def)
  from Table_resize_spec [OF this, of 1 2] obtain t' where t': "Table_resize ?t 1 2 = Inr t'"
    and get: "\<And>x y. x < 1 \<Longrightarrow> y < 2 \<Longrightarrow> Table_get t' x y =
         (if x < 2 \<and> y < 1 then Table_get ?t x y else Inr (dfin 0))" by auto
  have "Table_get ?t 0 0 = Inr (dfin 1)" by (simp add: Table_get_def szmul_def szadd_def)
  with get [of 0 0] get [of 0 1] t' show ?thesis by auto
qed

text \<open>
  The accessors of a tuple check the index against the size the wrong way: they return the real
  for every index below the size, throw for every index above it, and read past the end of the
  storage for the index equal to it.
\<close>

theorem Tuple_get_branches:
  "Tuple_get t i =
     (if i < length t then Inr (t ! i)
      else if i = length t then Inl (UndefinedBehaviour ''vector index'')
      else Inl (ArgError ''Tuple: bad accessor''))"
  by (simp add: Tuple_get_def vec_get_def)

lemma Set_resize_grow:
  assumes "clone fill = Inr w"
  shows "n \<le> k \<Longrightarrow> foldE (\<lambda>i v. bindE (clone fill) (\<lambda>w. vec_set v (length s + i) (Some w))) [0..<n]
     (s @ replicate k None) = Inr (s @ replicate n (Some w) @ replicate (k - n) None)"
proof (induction n)
  case 0
  then show ?case by simp
next
  case (Suc n)
  then obtain j where j: "k - n = Suc j" by (cases "k - n") auto
  then have "(s @ replicate n (Some w) @ replicate (k - n) None)[length s + n := Some w]
      = s @ replicate n (Some w) @ Some w # replicate j None"
    by (simp add: list_update_append)
  also have "\<dots> = s @ replicate (Suc n) (Some w) @ replicate (k - Suc n) None"
    using j by (simp add: replicate_app_Cons_same)
  finally show ?case using Suc assms j by (simp add: foldE_append)
qed

text \<open>
  Resizing a set to a size keeps the cells below both sizes and fills every new cell with a copy
  of the given value of its own.
\<close>

theorem Set_resize_spec:
  assumes "storage_ok fill"
  shows "Set_resize s n fill = Inr (take n s @ replicate (n - length s) (Some (rewind fill)))"
  using Set_resize_grow [OF clone_storage_ok [OF assms], of "n - length s" "n - length s" s]
  by (simp add: Set_resize_def)

theorem Set_resize_spec_witness:
  "Set_resize [None] 3 (VInteger 7) = Inr [None, Some (VInteger 7), Some (VInteger 7)]"
proof -
  have "storage_ok (VInteger 7)" by (rule storage_ok.atom_ok) simp
  from Set_resize_spec [OF this, of "[None]" 3] show ?thesis by (simp add: numeral_eq_Suc)
qed

lemma find_key_unused: "\<not> Map_exist m (find_key m current)"
proof (induction m current rule: find_key.induct)
  case (1 m current)
  then show ?case by (cases "Map_exist m (new_key current)") (simp_all add: find_key.simps [of m current])
qed

lemma map_of_map_assign [simp]: "map_of (map_assign m k v) = (map_of m)(k \<mapsto> v)"
  by (simp add: map_assign_def update_conv')

lemma addMultilpleValues_loop:
  assumes "clone fill = Inr w"
  shows "\<exists>m'. foldE (\<lambda>_ m. bindE (clone fill) (\<lambda>w. Inr (map_assign m (find_key m 0) (Some w))))
       [0..<n] m = Inr m'
     \<and> (\<forall>k. Map_exist m k \<longrightarrow> map_of m' k = map_of m k)
     \<and> (\<forall>k. \<not> Map_exist m k \<longrightarrow> map_of m' k \<noteq> None \<longrightarrow> map_of m' k = Some (Some w))
     \<and> card (dom (map_of m')) = card (dom (map_of m)) + n"
proof (induction n)
  case 0
  then show ?case by (auto simp: Map_exist_def)
next
  case (Suc n)
  then obtain m' where m':
    "foldE (\<lambda>_ m. bindE (clone fill) (\<lambda>w. Inr (map_assign m (find_key m 0) (Some w)))) [0..<n] m
      = Inr m'"
    "\<And>k. Map_exist m k \<Longrightarrow> map_of m' k = map_of m k"
    "\<And>k. \<not> Map_exist m k \<Longrightarrow> map_of m' k \<noteq> None \<Longrightarrow> map_of m' k = Some (Some w)"
    "card (dom (map_of m')) = card (dom (map_of m)) + n" by blast
  let ?k = "find_key m' 0"
  have new: "map_of m' ?k = None" using find_key_unused [of m' 0] by (simp add: Map_exist_def)
  with m'(2) have "\<not> Map_exist m ?k" by (metis Map_exist_def)
  moreover have card: "card (dom (map_of (map_assign m' ?k (Some w)))) = card (dom (map_of m)) + Suc n"
    using new m'(4) by (simp add: card_insert_if finite_dom_map_of domIff)
  ultimately show ?case using m'(1-3) assms
    by (intro exI [of _ "map_assign m' ?k (Some w)"] conjI card) (auto simp: foldE_append)
qed

text \<open>
  Adding several values to a map under generated names always ends, binds exactly that many new
  names to copies of the fill value, and changes no entry the map had.
\<close>

theorem Map_addMultilpleValues_spec:
  assumes "storage_ok fill"
  shows "\<exists>m'. Map_addMultilpleValues m toadd fill = Inr m'
     \<and> (\<forall>k. Map_exist m k \<longrightarrow> Map_get m' k = Map_get m k)
     \<and> (\<forall>k. \<not> Map_exist m k \<longrightarrow> Map_exist m' k \<longrightarrow> Map_get m' k = Inr (Some (rewind fill)))
     \<and> card (dom (map_of m')) = card (dom (map_of m)) + nat toadd"
proof -
  from addMultilpleValues_loop [OF clone_storage_ok [OF assms], of "nat toadd" m]
  obtain m' where m': "Map_addMultilpleValues m toadd fill = Inr m'"
    "\<forall>k. Map_exist m k \<longrightarrow> map_of m' k = map_of m k"
    "\<forall>k. \<not> Map_exist m k \<longrightarrow> map_of m' k \<noteq> None \<longrightarrow> map_of m' k = Some (Some (rewind fill))"
    "card (dom (map_of m')) = card (dom (map_of m)) + nat toadd"
    by (cases "toadd \<le> 0") (auto simp: Map_addMultilpleValues_def)
  have get: "Map_get m' k = Inr p \<longleftrightarrow> map_of m' k = Some p" for k p
    by (auto simp: Map_get_def Map_pp_get_def split: option.splits)
  from m' show ?thesis by (intro exI [of _ m'] conjI) (auto simp: get, auto simp: Map_get_def Map_pp_get_def Map_exist_def)
qed

theorem Map_addMultilpleValues_spec_witness:
  "\<exists>m'. Map_addMultilpleValues [(''NewKey'', Some VNull)] 2 (VBoolean True) = Inr m'
     \<and> Map_get m' ''NewKey'' = Inr (Some VNull) \<and> card (dom (map_of m')) = 3"
proof -
  have "storage_ok (VBoolean True)" by (rule storage_ok.atom_ok) simp
  from Map_addMultilpleValues_spec [OF this, of "[(''NewKey'', Some VNull)]" 2] show ?thesis
    by (auto simp: Map_exist_def Map_get_def Map_pp_get_def)
qed

end
