(* ===== verification/Value_Matrix.thy ===== *)
theory Value_Matrix
  imports Value_Containers
begin

text \<open>
  The class \<^verbatim>\<open>Matrix\<close> of \<^verbatim>\<open>vle/value\<close>: a grid of owned values stored row by row in a vector whose
  capacity may exceed the visible rectangle, with a cursor for sequential filling.
\<close>

section \<open>Operations\<close>

definition Matrix_new :: "nat \<Rightarrow> nat \<Rightarrow> nat \<Rightarrow> nat \<Rightarrow> 'v matrix" where
  "Matrix_new columns rows resizeColumns resizeRows =
     Matrix (replicate (szmul columns rows) None) columns rows columns rows
       resizeColumns resizeRows 0 0"

definition Matrix_new_max :: "nat \<Rightarrow> nat \<Rightarrow> nat \<Rightarrow> nat \<Rightarrow> nat \<Rightarrow> nat \<Rightarrow> 'v matrix result" where
  "Matrix_new_max columns rows columnmax rowmax resizeColumns resizeRows =
     (if szmul columnmax rowmax = 0 then Inl (ArgError ''Matrix: bad constructor initialization'')
      else if columns > columnmax then Inl (ArgError ''Matrix: Number of columns error'')
      else if rows > rowmax then Inl (ArgError ''Matrix: Number of row error'')
      else Inr (Matrix (replicate (szmul columnmax rowmax) None) columns rows columnmax rowmax
                  resizeColumns resizeRows 0 0))"

text \<open>The row check lets the row one past the last visible one through.\<close>

definition Matrix_check_index :: "'v matrix \<Rightarrow> nat \<Rightarrow> nat \<Rightarrow> unit result" where
  "Matrix_check_index m column row =
     (if \<not> (column < m_nbcol m \<and> row \<le> m_nbrow m) then Inl (ArgError ''Matrix: bad access'')
      else Inr ())"

definition Matrix_index :: "'v matrix \<Rightarrow> nat \<Rightarrow> nat \<Rightarrow> nat" where
  "Matrix_index m column row = szadd (szmul row (m_nbcolmax m)) column"

definition set_cells :: "'v matrix \<Rightarrow> 'v option list \<Rightarrow> 'v matrix" where
  "set_cells m cells =
     Matrix cells (m_nbcol m) (m_nbrow m) (m_nbcolmax m) (m_nbrowmax m)
       (m_stepcol m) (m_steprow m) (m_lastX m) (m_lastY m)"

definition set_dims :: "'v matrix \<Rightarrow> nat \<Rightarrow> nat \<Rightarrow> 'v matrix" where
  "set_dims m columns rows =
     Matrix (m_matrix m) columns rows (m_nbcolmax m) (m_nbrowmax m)
       (m_stepcol m) (m_steprow m) (m_lastX m) (m_lastY m)"

definition Matrix_pp_get_value :: "'v matrix \<Rightarrow> nat \<Rightarrow> nat \<Rightarrow> 'v result" where
  "Matrix_pp_get_value m column row =
     bindE (Matrix_check_index m column row)
       (\<lambda>_. bindE (vec_get (m_matrix m) (Matrix_index m column row))
          (\<lambda>p. case p of None \<Rightarrow> Inl (ArgError ''Matrix: empty or null value'') | Some v \<Rightarrow> Inr v))"

definition Matrix_set :: "'v matrix \<Rightarrow> nat \<Rightarrow> nat \<Rightarrow> 'v option \<Rightarrow> 'v matrix result" where
  "Matrix_set m column row v =
     bindE (Matrix_check_index m column row)
       (\<lambda>_. bindE (vec_set (m_matrix m) (Matrix_index m column row) v)
          (\<lambda>cells. Inr (set_cells m cells)))"

definition Matrix_add :: "'v matrix \<Rightarrow> nat \<Rightarrow> nat \<Rightarrow> 'v option \<Rightarrow> 'v matrix result" where
  "Matrix_add m column row v =
     bindE (Matrix_check_index m column row)
       (\<lambda>_. bindE (vec_set (m_matrix m) (Matrix_index m column row) v)
          (\<lambda>cells. Inr (set_cells m cells)))"

definition Matrix_pp_add :: "'v matrix \<Rightarrow> nat \<Rightarrow> nat \<Rightarrow> 'v \<Rightarrow> 'v matrix result" where
  "Matrix_pp_add m column row v = Matrix_set m column row (Some v)"

definition Matrix_get :: "'v matrix \<Rightarrow> nat \<Rightarrow> nat \<Rightarrow> 'v option result" where
  "Matrix_get m column row =
     bindE (Matrix_check_index m column row)
       (\<lambda>_. vec_get (m_matrix m) (Matrix_index m column row))"

definition Matrix_give :: "'v matrix \<Rightarrow> nat \<Rightarrow> nat \<Rightarrow> ('v option \<times> 'v matrix) result" where
  "Matrix_give m column row =
     bindE (Matrix_get m column row)
       (\<lambda>p. bindE (vec_set (m_matrix m) (Matrix_index m column row) None)
          (\<lambda>cells. Inr (p, set_cells m cells)))"

definition Matrix_clear :: "'v matrix \<Rightarrow> 'v matrix" where
  "Matrix_clear m =
     Matrix (map (\<lambda>_. None) (m_matrix m)) (m_nbcol m) (m_nbrow m) (m_nbcolmax m) (m_nbrowmax m)
       (m_stepcol m) (m_steprow m) 0 0"

definition Matrix_addNull :: "val matrix \<Rightarrow> nat \<Rightarrow> nat \<Rightarrow> val matrix result" where
  "Matrix_addNull m column row = Matrix_pp_add m column row VNull"

definition Matrix_addBoolean :: "val matrix \<Rightarrow> nat \<Rightarrow> nat \<Rightarrow> bool \<Rightarrow> val matrix result" where
  "Matrix_addBoolean m column row b = Matrix_pp_add m column row (VBoolean b)"

definition Matrix_addDouble :: "val matrix \<Rightarrow> nat \<Rightarrow> nat \<Rightarrow> double \<Rightarrow> val matrix result" where
  "Matrix_addDouble m column row d = Matrix_pp_add m column row (VDouble d)"

definition Matrix_addInt :: "val matrix \<Rightarrow> nat \<Rightarrow> nat \<Rightarrow> 32 word \<Rightarrow> val matrix result" where
  "Matrix_addInt m column row i = Matrix_pp_add m column row (VInteger i)"

definition Matrix_addString :: "val matrix \<Rightarrow> nat \<Rightarrow> nat \<Rightarrow> string \<Rightarrow> val matrix result" where
  "Matrix_addString m column row s = Matrix_pp_add m column row (VString s)"

definition Matrix_addXml :: "val matrix \<Rightarrow> nat \<Rightarrow> nat \<Rightarrow> string \<Rightarrow> val matrix result" where
  "Matrix_addXml m column row s = Matrix_pp_add m column row (VXml s)"

definition Matrix_addTuple :: "val matrix \<Rightarrow> nat \<Rightarrow> nat \<Rightarrow> nat \<Rightarrow> double \<Rightarrow> val matrix result" where
  "Matrix_addTuple m column row width d = Matrix_pp_add m column row (VTuple (replicate width d))"

definition Matrix_addTable :: "val matrix \<Rightarrow> nat \<Rightarrow> nat \<Rightarrow> nat \<Rightarrow> nat \<Rightarrow> val matrix result" where
  "Matrix_addTable m column row width height =
     bindE (Table_new width height)
       (\<lambda>t. Matrix_pp_add m column row (VTable (t_width t) (t_height t) (t_value t)))"

definition Matrix_addSet :: "val matrix \<Rightarrow> nat \<Rightarrow> nat \<Rightarrow> val matrix result" where
  "Matrix_addSet m column row = Matrix_pp_add m column row (VSet [])"

definition Matrix_addMap :: "val matrix \<Rightarrow> nat \<Rightarrow> nat \<Rightarrow> val matrix result" where
  "Matrix_addMap m column row = Matrix_pp_add m column row (VMap [])"

definition Matrix_addMatrix :: "val matrix \<Rightarrow> nat \<Rightarrow> nat \<Rightarrow> val matrix result" where
  "Matrix_addMatrix m column row = Matrix_pp_add m column row (VMatrix Matrix_default)"

definition Matrix_getBoolean :: "val matrix \<Rightarrow> nat \<Rightarrow> nat \<Rightarrow> bool result" where
  "Matrix_getBoolean m column row = bindE (Matrix_pp_get_value m column row) toBoolean"

definition Matrix_getDouble :: "val matrix \<Rightarrow> nat \<Rightarrow> nat \<Rightarrow> double result" where
  "Matrix_getDouble m column row = bindE (Matrix_pp_get_value m column row) toDouble"

definition Matrix_getInt :: "val matrix \<Rightarrow> nat \<Rightarrow> nat \<Rightarrow> 32 word result" where
  "Matrix_getInt m column row = bindE (Matrix_pp_get_value m column row) toInteger"

definition Matrix_getString :: "val matrix \<Rightarrow> nat \<Rightarrow> nat \<Rightarrow> string result" where
  "Matrix_getString m column row = bindE (Matrix_pp_get_value m column row) toString"

definition Matrix_getXml :: "val matrix \<Rightarrow> nat \<Rightarrow> nat \<Rightarrow> string result" where
  "Matrix_getXml m column row = bindE (Matrix_pp_get_value m column row) toXml"

definition Matrix_getTuple :: "val matrix \<Rightarrow> nat \<Rightarrow> nat \<Rightarrow> tuple_value result" where
  "Matrix_getTuple m column row = bindE (Matrix_pp_get_value m column row) toTuple"

definition Matrix_getTable :: "val matrix \<Rightarrow> nat \<Rightarrow> nat \<Rightarrow> (nat \<times> nat \<times> double list) result" where
  "Matrix_getTable m column row = bindE (Matrix_pp_get_value m column row) toTable"

definition Matrix_getSet :: "val matrix \<Rightarrow> nat \<Rightarrow> nat \<Rightarrow> set_value result" where
  "Matrix_getSet m column row = bindE (Matrix_pp_get_value m column row) toSet"

definition Matrix_getMap :: "val matrix \<Rightarrow> nat \<Rightarrow> nat \<Rightarrow> map_value result" where
  "Matrix_getMap m column row = bindE (Matrix_pp_get_value m column row) toMap"

definition Matrix_getMatrix :: "val matrix \<Rightarrow> nat \<Rightarrow> nat \<Rightarrow> val matrix result" where
  "Matrix_getMatrix m column row = bindE (Matrix_pp_get_value m column row) toMatrix"

text \<open>
  \<^verbatim>\<open>reserve\<close> moves the visible cells into a vector of the new capacity: each move leaves a null
  pointer behind, in a vector that is then discarded.
\<close>

definition move_cell :: "nat \<Rightarrow> nat \<Rightarrow> nat \<times> nat
    \<Rightarrow> 'v option list \<times> 'v option list \<Rightarrow> ('v option list \<times> 'v option list) result" where
  "move_cell src_width dst_width = (\<lambda>(r, c) (tmp, cells).
     bindE (vec_get cells (szadd (szmul r src_width) c))
       (\<lambda>v. bindE (vec_set tmp (szadd (szmul r dst_width) c) v)
          (\<lambda>tmp. bindE (vec_set cells (szadd (szmul r src_width) c) None)
             (\<lambda>cells. Inr (tmp, cells)))))"

definition Matrix_reserve :: "'v matrix \<Rightarrow> nat \<Rightarrow> nat \<Rightarrow> 'v matrix result" where
  "Matrix_reserve m columnmax rowmax =
     (if szmul columnmax rowmax = 0 then Inl (ArgError ''Matrix: bad reserve operation'')
      else if columnmax \<le> m_nbcolmax m \<and> rowmax \<le> m_nbrowmax m then Inr m
      else
        bindE (foldE (move_cell (m_nbcolmax m) columnmax)
                 (List.product [0..<m_nbrow m] [0..<m_nbcol m])
                 (replicate (szmul columnmax rowmax) None, m_matrix m))
          (\<lambda>(tmp, _). Inr (Matrix tmp (m_nbcol m) (m_nbrow m) columnmax rowmax
                              (m_stepcol m) (m_steprow m) (m_lastX m) (m_lastY m))))"

definition fill_cells :: "nat \<Rightarrow> 'v option \<Rightarrow> (nat \<times> nat) list \<Rightarrow> 'v option list \<Rightarrow> 'v option list result" where
  "fill_cells width v = foldE (\<lambda>(r, c) cells. vec_set cells (szadd (szmul r width) c) v)"

definition Matrix_resize :: "'v matrix \<Rightarrow> nat \<Rightarrow> nat \<Rightarrow> 'v matrix result" where
  "Matrix_resize m columns rows =
     (if szmul columns rows = 0 then Inr (set_dims m columns rows)
      else
        bindE (if columns \<ge> m_nbcolmax m \<or> rows \<ge> m_nbrowmax m
               then Matrix_reserve m (szadd columns (m_stepcol m)) (szadd rows (m_steprow m))
               else Inr m)
          (\<lambda>m'. let r_lo = min (m_nbrow m') rows; r_hi = max (m_nbrow m') rows;
                    c_lo = min (m_nbcol m') columns; c_hi = max (m_nbcol m') columns
                in bindE (fill_cells (m_nbcolmax m') None
                            (List.product [r_lo..<r_hi] [0..<c_hi]) (m_matrix m'))
                   (\<lambda>cells. bindE (fill_cells (m_nbcolmax m') None
                            (List.product [0..<r_hi] [c_lo..<c_hi]) cells)
                      (\<lambda>cells. Inr (set_dims (set_cells m' cells) columns rows)))))"

text \<open>The overload with a default value: its loops run one row and one column further.\<close>

definition Matrix_resize_value :: "val matrix \<Rightarrow> nat \<Rightarrow> nat \<Rightarrow> val option \<Rightarrow> val matrix result" where
  "Matrix_resize_value m columns rows value =
     (if szmul columns rows = 0 then Inr (set_dims m columns rows)
      else
        bindE (if columns \<ge> m_nbcolmax m \<or> rows \<ge> m_nbrowmax m
               then Matrix_reserve m (szadd columns (m_stepcol m)) (szadd rows (m_steprow m))
               else Inr m)
          (\<lambda>m'. let r_lo = min (m_nbrow m') rows; r_hi = max (m_nbrow m') rows;
                    c_lo = min (m_nbcol m') columns; c_hi = max (m_nbcol m') columns
                in bindE (case value of None \<Rightarrow> Inl (UndefinedBehaviour ''null pointer'') | Some v \<Rightarrow> clone v)
                   (\<lambda>w. bindE (fill_cells (m_nbcolmax m') (Some w)
                            (List.product [r_lo..<Suc r_hi] [0..<Suc c_hi]) (m_matrix m'))
                   (\<lambda>cells. bindE (fill_cells (m_nbcolmax m') (Some w)
                            (List.product [0..<Suc r_hi] [c_lo..<Suc c_hi]) cells)
                      (\<lambda>cells. Inr (set_dims (set_cells m' cells) columns rows))))))"

definition Matrix_increaseAllocation :: "'v matrix \<Rightarrow> nat \<Rightarrow> nat \<Rightarrow> 'v matrix result" where
  "Matrix_increaseAllocation m columns rows =
     Matrix_resize m (max (m_nbcol m) columns) (max (m_nbrow m) rows)"

definition Matrix_addColumn :: "'v matrix \<Rightarrow> 'v matrix result" where
  "Matrix_addColumn m = Matrix_resize m (szadd (m_nbcol m) 1) (m_nbrow m)"

definition Matrix_addRow :: "'v matrix \<Rightarrow> 'v matrix result" where
  "Matrix_addRow m = Matrix_resize m (m_nbcol m) (szadd (m_nbrow m) 1)"

definition Matrix_moveLastCell :: "'v matrix \<Rightarrow> 'v matrix" where
  "Matrix_moveLastCell m =
     (let x = szadd (m_lastX m) 1;
          (x', y') = (if x \<ge> m_nbcol m then
                        (let y = szadd (m_lastY m) 1 in (0, if y \<ge> m_nbrow m then 0 else y))
                      else (x, m_lastY m))
      in Matrix (m_matrix m) (m_nbcol m) (m_nbrow m) (m_nbcolmax m) (m_nbrowmax m)
           (m_stepcol m) (m_steprow m) x' y')"

definition Matrix_addToLastCell :: "'v matrix \<Rightarrow> 'v option \<Rightarrow> 'v matrix result" where
  "Matrix_addToLastCell m v =
     bindE (vec_set (m_matrix m) (Matrix_index m (m_lastX m) (m_lastY m)) v)
       (\<lambda>cells. Inr (set_cells m cells))"

definition Matrix_setResizeColumn :: "'v matrix \<Rightarrow> nat \<Rightarrow> 'v matrix" where
  "Matrix_setResizeColumn m colstep =
     Matrix (m_matrix m) (m_nbcol m) (m_nbrow m) (m_nbcolmax m) (m_nbrowmax m)
       (if colstep = 0 then m_stepcol m else colstep) (m_steprow m) (m_lastX m) (m_lastY m)"

definition Matrix_setResizeRow :: "'v matrix \<Rightarrow> nat \<Rightarrow> 'v matrix" where
  "Matrix_setResizeRow m rowstep =
     Matrix (m_matrix m) (m_nbcol m) (m_nbrow m) (m_nbcolmax m) (m_nbrowmax m)
       (m_stepcol m) (if rowstep = 0 then m_steprow m else rowstep) (m_lastX m) (m_lastY m)"

section \<open>Well-formed matrices\<close>

definition matrix_wf :: "'v matrix \<Rightarrow> bool" where
  "matrix_wf m \<longleftrightarrow> m_nbcol m \<le> m_nbcolmax m \<and> m_nbrow m \<le> m_nbrowmax m
     \<and> m_nbcolmax m * m_nbrowmax m < 2 ^ 64 \<and> length (m_matrix m) = m_nbcolmax m * m_nbrowmax m"

definition cell :: "'v matrix \<Rightarrow> nat \<Rightarrow> nat \<Rightarrow> 'v option" where
  "cell m column row = m_matrix m ! (row * m_nbcolmax m + column)"

lemma set_cells_sel [simp]:
  "m_matrix (set_cells m cs) = cs" "m_nbcol (set_cells m cs) = m_nbcol m"
  "m_nbrow (set_cells m cs) = m_nbrow m" "m_nbcolmax (set_cells m cs) = m_nbcolmax m"
  "m_nbrowmax (set_cells m cs) = m_nbrowmax m"
  by (simp_all add: set_cells_def)

lemma set_dims_sel [simp]:
  "m_matrix (set_dims m c r) = m_matrix m" "m_nbcol (set_dims m c r) = c"
  "m_nbrow (set_dims m c r) = r" "m_nbcolmax (set_dims m c r) = m_nbcolmax m"
  "m_nbrowmax (set_dims m c r) = m_nbrowmax m"
  by (simp_all add: set_dims_def)

lemma Matrix_get_cell:
  assumes "matrix_wf m" "column < m_nbcol m" "row < m_nbrow m"
  shows "Matrix_get m column row = Inr (cell m column row)"
  using assms table_index [of column "m_nbcolmax m" row "m_nbrowmax m"]
  by (simp add: matrix_wf_def Matrix_get_def Matrix_check_index_def Matrix_index_def cell_def)

lemma Matrix_set_cell:
  assumes "matrix_wf m" "column < m_nbcol m" "row < m_nbrow m"
  shows "Matrix_set m column row v =
    Inr (set_cells m ((m_matrix m)[row * m_nbcolmax m + column := v]))"
  using assms table_index [of column "m_nbcolmax m" row "m_nbrowmax m"]
  by (simp add: matrix_wf_def Matrix_set_def Matrix_check_index_def Matrix_index_def)

text \<open>
  C36. Writing a cell of a well-formed matrix and reading the matrix back gives the value written at
  that cell and the old values at every other visible cell, and keeps the matrix well formed.
\<close>

theorem Matrix_set_get:
  assumes "matrix_wf m" "c < m_nbcol m" "r < m_nbrow m"
  shows "\<exists>m'. Matrix_set m c r v = Inr m' \<and> matrix_wf m'
    \<and> (\<forall>c' r'. c' < m_nbcol m \<longrightarrow> r' < m_nbrow m \<longrightarrow>
          Matrix_get m' c' r' = (if c' = c \<and> r' = r then Inr v else Matrix_get m c' r'))"
proof -
  define m' where "m' = set_cells m ((m_matrix m)[r * m_nbcolmax m + c := v])"
  have wf: "matrix_wf m'" using assms(1) by (simp add: matrix_wf_def m'_def)
  have "cell m' c' r' = (if c' = c \<and> r' = r then v else cell m c' r')"
    if "c' < m_nbcol m" "r' < m_nbrow m" for c' r'
  proof -
    have "c < m_nbcolmax m" "c' < m_nbcolmax m" using assms that by (auto simp: matrix_wf_def)
    then have "r * m_nbcolmax m + c = r' * m_nbcolmax m + c' \<longleftrightarrow> c' = c \<and> r' = r"
      using grid_index_inject [of c "m_nbcolmax m" c' r r'] by auto
    moreover have "r * m_nbcolmax m + c < length (m_matrix m)"
      using assms table_index(2) [of c "m_nbcolmax m" r "m_nbrowmax m"] by (simp add: matrix_wf_def)
    ultimately show ?thesis by (auto simp: cell_def m'_def)
  qed
  with assms wf show ?thesis
    by (intro exI [of _ m']) (auto simp: Matrix_set_cell Matrix_get_cell m'_def)
qed

theorem Matrix_set_get_witness:
  "\<exists>m'. Matrix_set (Matrix_new 2 2 3 3) 0 0 (Some VNull) = Inr m'
    \<and> Matrix_get m' 0 0 = Inr (Some VNull) \<and> Matrix_get m' 0 1 = Inr None"
proof -
  let ?m = "Matrix_new 2 2 3 3 :: val matrix"
  have wf: "matrix_wf ?m" by (simp add: matrix_wf_def Matrix_new_def szmul_def)
  have dims: "m_nbcol ?m = 2" "m_nbrow ?m = 2" by (simp_all add: Matrix_new_def)
  from Matrix_set_get [OF wf, of 0 0 "Some VNull"] obtain m'
    where m': "Matrix_set ?m 0 0 (Some VNull) = Inr m'"
      and get: "\<And>c r. c < 2 \<Longrightarrow> r < 2 \<Longrightarrow>
        Matrix_get m' c r = (if c = 0 \<and> r = 0 then Inr (Some VNull) else Matrix_get ?m c r)"
    by (auto simp: dims)
  have "Matrix_get ?m 0 1 = Inr None"
    using wf by (simp add: Matrix_get_cell dims cell_def) (simp add: Matrix_new_def szmul_def)
  with m' get [of 0 0] get [of 0 1] show ?thesis by auto
qed

text \<open>
  C38. On a matrix with no spare row, the bounds check accepts the row just after the last one for
  every column, and the access then reads past the end of the storage.
\<close>

theorem Matrix_get_last_row:
  assumes "matrix_wf m" "m_nbrow m = m_nbrowmax m" "c < m_nbcol m"
    and "m_nbcolmax m * m_nbrowmax m + c < 2 ^ 64"
  shows "Matrix_check_index m c (m_nbrow m) = Inr ()
    \<and> Matrix_get m c (m_nbrow m) = Inl (UndefinedBehaviour ''vector index'')"
proof
  show check: "Matrix_check_index m c (m_nbrow m) = Inr ()"
    using assms(3) by (simp add: Matrix_check_index_def)
  have "Matrix_index m c (m_nbrow m) = m_nbcolmax m * m_nbrowmax m + c"
    using assms by (simp add: Matrix_index_def szmul_eq szadd_eq mult.commute matrix_wf_def)
  then show "Matrix_get m c (m_nbrow m) = Inl (UndefinedBehaviour ''vector index'')"
    using assms(1) check by (simp add: Matrix_get_def vec_get_def matrix_wf_def)
qed

theorem Matrix_get_last_row_witness:
  "Matrix_get (Matrix_new 1 1 0 0 :: val matrix) 0 1 = Inl (UndefinedBehaviour ''vector index'')"
proof -
  let ?m = "Matrix_new 1 1 0 0 :: val matrix"
  have "matrix_wf ?m" "m_nbrow ?m = m_nbrowmax ?m" "0 < m_nbcol ?m"
      "m_nbcolmax ?m * m_nbrowmax ?m + 0 < 2 ^ 64"
    by (simp_all add: matrix_wf_def Matrix_new_def szmul_def)
  from Matrix_get_last_row [OF this] show ?thesis by (simp add: Matrix_new_def)
qed

section \<open>Resizing\<close>

lemma fill_cells_spec:
  assumes "\<And>r c. (r, c) \<in> set ps \<Longrightarrow> r < h \<and> c < w" "w * h < 2 ^ 64" "length cells = w * h"
  shows "\<exists>cells'. fill_cells w v ps cells = Inr cells' \<and> length cells' = w * h
    \<and> (\<forall>r c. r < h \<longrightarrow> c < w \<longrightarrow>
         cells' ! (r * w + c) = (if (r, c) \<in> set ps then v else cells ! (r * w + c)))"
proof -
  let ?idx = "\<lambda>p. fst p * w + snd p"
  have body: "fill_cells w v ps cells = foldE (\<lambda>p xs. vec_set xs (?idx p) v) ps cells"
    unfolding fill_cells_def
  proof (rule foldE_cong)
    fix p and xs :: "'a option list"
    assume "p \<in> set ps"
    then show "(case p of (r, c) \<Rightarrow> \<lambda>cells. vec_set cells (szadd (szmul r w) c) v) xs = vec_set xs (?idx p) v"
      using assms(1) [of "fst p" "snd p"] table_index(1) [OF _ _ assms(2)] by (simp add: split_beta)
  qed
  have "\<exists>ys. foldE (\<lambda>p xs. vec_set xs (?idx p) v) ps cells = Inr ys \<and> length ys = length cells
      \<and> (\<forall>p \<in> set ps. ys ! ?idx p = v) \<and> (\<forall>i. i \<notin> ?idx ` set ps \<longrightarrow> ys ! i = cells ! i)"
  proof (rule foldE_vec_set)
    show "?idx p < length cells" if "p \<in> set ps" for p
      using that assms(1) [of "fst p" "snd p"] table_index(2) [OF _ _ assms(2)] assms(3) by simp
  qed simp
  then obtain ys where ys: "fill_cells w v ps cells = Inr ys" "length ys = w * h"
      "\<forall>p \<in> set ps. ys ! ?idx p = v" "\<forall>i. i \<notin> ?idx ` set ps \<longrightarrow> ys ! i = cells ! i"
    using assms(3) by (auto simp: body)
  have "ys ! (r * w + c) = (if (r, c) \<in> set ps then v else cells ! (r * w + c))"
    if "r < h" "c < w" for r c
  proof (cases "(r, c) \<in> set ps")
    case True
    then show ?thesis using ys(3) by (auto dest!: bspec [of _ _ "(r, c)"])
  next
    case False
    then have "r * w + c \<notin> ?idx ` set ps"
      using assms(1) grid_index_inject [of c w _ r] that(2) by (auto simp: image_iff) blast
    with False ys(4) show ?thesis by simp
  qed
  with ys(1,2) show ?thesis by blast
qed

lemma foldE_move:
  assumes "distinct ps" "inj_on src (set ps)" "inj_on dst (set ps)"
    and "\<And>p. p \<in> set ps \<Longrightarrow> src p < length cells \<and> dst p < length tmp"
  shows "\<exists>tmp' cells'. foldE (\<lambda>p (tmp, cells). bindE (vec_get cells (src p))
      (\<lambda>v. bindE (vec_set tmp (dst p) v)
        (\<lambda>tmp. bindE (vec_set cells (src p) None) (\<lambda>cells. Inr (tmp, cells))))) ps (tmp, cells)
      = Inr (tmp', cells')
    \<and> length tmp' = length tmp \<and> (\<forall>p \<in> set ps. tmp' ! dst p = cells ! src p)
    \<and> (\<forall>i. i \<notin> dst ` set ps \<longrightarrow> tmp' ! i = tmp ! i)"
  using assms
proof (induction ps arbitrary: tmp cells)
  case Nil
  then show ?case by simp
next
  case (Cons p ps)
  let ?tmp = "tmp[dst p := cells ! src p]" and ?cells = "cells[src p := None]"
  let ?f = "\<lambda>p (tmp, cells). bindE (vec_get cells (src p))
      (\<lambda>v. bindE (vec_set tmp (dst p) v)
        (\<lambda>tmp. bindE (vec_set cells (src p) None) (\<lambda>cells. Inr (tmp, cells))))"
  from Cons.prems have "\<exists>tmp' cells'. foldE ?f ps (?tmp, ?cells) = Inr (tmp', cells')
    \<and> length tmp' = length ?tmp \<and> (\<forall>q \<in> set ps. tmp' ! dst q = ?cells ! src q)
    \<and> (\<forall>i. i \<notin> dst ` set ps \<longrightarrow> tmp' ! i = ?tmp ! i)"
    by (intro Cons.IH) auto
  then obtain tmp' cells' where IH: "foldE ?f ps (?tmp, ?cells) = Inr (tmp', cells')"
    "length tmp' = length ?tmp" "\<And>q. q \<in> set ps \<Longrightarrow> tmp' ! dst q = ?cells ! src q"
    "\<And>i. i \<notin> dst ` set ps \<Longrightarrow> tmp' ! i = ?tmp ! i" by blast
  have p: "src p < length cells" "dst p < length tmp" using Cons.prems(4) [of p] by auto
  have "dst p \<notin> dst ` set ps" "src p \<notin> src ` set ps" using Cons.prems(1-3) by auto
  with IH(3,4) p have "tmp' ! dst p = cells ! src p" "\<And>q. q \<in> set ps \<Longrightarrow> tmp' ! dst q = cells ! src q"
    by (auto simp: nth_list_update)
  with IH p show ?case by (intro exI [of _ tmp'] exI [of _ cells']) auto
qed

lemma reserve_loop:
  assumes wf: "matrix_wf m" and cap: "cm * rm < 2 ^ 64" and fit: "m_nbcol m \<le> cm" "m_nbrow m \<le> rm"
  shows "\<exists>tmp cells. foldE (move_cell (m_nbcolmax m) cm)
       (List.product [0..<m_nbrow m] [0..<m_nbcol m]) (replicate (cm * rm) None, m_matrix m)
       = Inr (tmp, cells) \<and> length tmp = cm * rm
    \<and> (\<forall>r c. r < m_nbrow m \<longrightarrow> c < m_nbcol m \<longrightarrow> tmp ! (r * cm + c) = cell m c r)"
proof -
  let ?ps = "List.product [0..<m_nbrow m] [0..<m_nbcol m]"
  let ?src = "\<lambda>p. fst p * m_nbcolmax m + snd p" and ?dst = "\<lambda>p. fst p * cm + snd p"
  let ?f = "\<lambda>p (tmp, cells). bindE (vec_get cells (?src p))
      (\<lambda>v. bindE (vec_set tmp (?dst p) v)
        (\<lambda>tmp. bindE (vec_set cells (?src p) None) (\<lambda>cells. Inr (tmp, cells))))"
  have le: "m_nbcol m \<le> m_nbcolmax m" "m_nbrow m \<le> m_nbrowmax m"
    and old: "m_nbcolmax m * m_nbrowmax m < 2 ^ 64" "length (m_matrix m) = m_nbcolmax m * m_nbrowmax m"
    using wf by (auto simp: matrix_wf_def)
  have body: "foldE (move_cell (m_nbcolmax m) cm) ?ps s = foldE ?f ?ps s" for s :: "'a option list \<times> _"
  proof (rule foldE_cong)
    fix p and t :: "'a option list \<times> 'a option list"
    assume "p \<in> set ?ps"
    then have "fst p < m_nbrow m" "snd p < m_nbcol m" by auto
    then show "move_cell (m_nbcolmax m) cm p t = ?f p t"
      using le fit old(1) cap table_index(1) [of "snd p" "m_nbcolmax m" "fst p" "m_nbrowmax m"]
        table_index(1) [of "snd p" cm "fst p" rm]
      by (simp add: move_cell_def split_beta)
  qed
  have inj: "inj_on (\<lambda>p. fst p * w + snd p) (set ?ps)" if "m_nbcol m \<le> w" for w
    using that grid_index_inject [of _ w] by (auto intro!: inj_onI dest!: grid_index_inject [rotated 2])
  have "\<exists>tmp' cells'. foldE ?f ?ps (replicate (cm * rm) None, m_matrix m) = Inr (tmp', cells')
    \<and> length tmp' = length (replicate (cm * rm) (None :: 'a option))
    \<and> (\<forall>p \<in> set ?ps. tmp' ! ?dst p = m_matrix m ! ?src p)
    \<and> (\<forall>i. i \<notin> ?dst ` set ?ps \<longrightarrow> tmp' ! i = replicate (cm * rm) None ! i)"
  proof (rule foldE_move)
    show "?src p < length (m_matrix m) \<and> ?dst p < length (replicate (cm * rm) (None :: 'a option))"
      if "p \<in> set ?ps" for p
      using that le fit old cap table_index(2) [of "snd p" "m_nbcolmax m" "fst p" "m_nbrowmax m"]
        table_index(2) [of "snd p" cm "fst p" rm] by auto
  qed (use inj le fit in \<open>auto simp: distinct_product\<close>)
  then show ?thesis unfolding body by (auto simp: cell_def)
qed

lemma Matrix_reserve_spec:
  assumes wf: "matrix_wf m" and cap: "0 < cm * rm" "cm * rm < 2 ^ 64"
    and fit: "m_nbcol m \<le> cm" "m_nbrow m \<le> rm"
  shows "\<exists>m'. Matrix_reserve m cm rm = Inr m' \<and> matrix_wf m' \<and> m_nbcol m' = m_nbcol m
    \<and> m_nbrow m' = m_nbrow m
    \<and> (m_nbcolmax m' = cm \<and> m_nbrowmax m' = rm
       \<or> cm \<le> m_nbcolmax m' \<and> rm \<le> m_nbrowmax m' \<and> m' = m)
    \<and> (\<forall>r c. r < m_nbrow m \<longrightarrow> c < m_nbcol m \<longrightarrow> cell m' c r = cell m c r)"
proof (cases "cm \<le> m_nbcolmax m \<and> rm \<le> m_nbrowmax m")
  case True
  with assms show ?thesis by (intro exI [of _ m]) (simp add: Matrix_reserve_def szmul_eq)
next
  case False
  from reserve_loop [OF wf cap(2) fit] obtain tmp cells where loop:
    "foldE (move_cell (m_nbcolmax m) cm) (List.product [0..<m_nbrow m] [0..<m_nbcol m])
       (replicate (cm * rm) None, m_matrix m) = Inr (tmp, cells)" "length tmp = cm * rm"
    "\<And>r c. r < m_nbrow m \<Longrightarrow> c < m_nbcol m \<Longrightarrow> tmp ! (r * cm + c) = cell m c r" by blast
  have run: "Matrix_reserve m cm rm = Inr (Matrix tmp (m_nbcol m) (m_nbrow m) cm rm
      (m_stepcol m) (m_steprow m) (m_lastX m) (m_lastY m))"
    using False cap loop(1) by (auto simp: Matrix_reserve_def szmul_eq)
  show ?thesis
    unfolding run using loop(2,3) cap fit by (auto simp: matrix_wf_def cell_def)
qed

text \<open>The first half of a resize: capacity for the new rectangle, with the visible cells unchanged.\<close>

lemma resize_reserve:
  assumes wf: "matrix_wf m" and pos: "0 < columns * rows"
    and cap: "(columns + m_stepcol m) * (rows + m_steprow m) < 2 ^ 64"
    and fit: "columns < m_nbcolmax m \<and> rows < m_nbrowmax m
      \<or> m_nbcol m \<le> columns + m_stepcol m \<and> m_nbrow m \<le> rows + m_steprow m"
  shows "\<exists>m'. (if columns \<ge> m_nbcolmax m \<or> rows \<ge> m_nbrowmax m
        then Matrix_reserve m (szadd columns (m_stepcol m)) (szadd rows (m_steprow m)) else Inr m) = Inr m'
    \<and> matrix_wf m' \<and> m_nbcol m' = m_nbcol m \<and> m_nbrow m' = m_nbrow m
    \<and> columns \<le> m_nbcolmax m' \<and> rows \<le> m_nbrowmax m'
    \<and> (\<forall>r c. r < m_nbrow m \<longrightarrow> c < m_nbcol m \<longrightarrow> cell m' c r = cell m c r)"
proof (cases "columns \<ge> m_nbcolmax m \<or> rows \<ge> m_nbrowmax m")
  case True
  let ?cm = "columns + m_stepcol m" and ?rm = "rows + m_steprow m"
  have "?cm < 2 ^ 64" "?rm < 2 ^ 64" by (rule le_less_trans [OF _ cap], use pos in simp)+
  then have sz: "szadd columns (m_stepcol m) = ?cm" "szadd rows (m_steprow m) = ?rm"
    by (simp_all add: szadd_eq)
  have "0 < ?cm * ?rm" using pos by simp
  from True fit have "m_nbcol m \<le> ?cm" "m_nbrow m \<le> ?rm" by auto
  from Matrix_reserve_spec [OF wf \<open>0 < ?cm * ?rm\<close> cap this] True show ?thesis
    unfolding sz by fastforce
next
  case False
  then show ?thesis using wf by auto
qed

text \<open>The second half: the cells between the old and the new rectangle are emptied.\<close>

lemma resize_blank:
  fixes m :: "'v matrix" and columns rows :: nat
  defines "r_hi \<equiv> max (m_nbrow m) rows" and "c_hi \<equiv> max (m_nbcol m) columns"
  assumes wf: "matrix_wf m" and le: "columns \<le> m_nbcolmax m" "rows \<le> m_nbrowmax m"
  shows "\<exists>cs1 cs2.
      fill_cells (m_nbcolmax m) None (List.product [min (m_nbrow m) rows..<r_hi] [0..<c_hi]) (m_matrix m) = Inr cs1
    \<and> fill_cells (m_nbcolmax m) None (List.product [0..<r_hi] [min (m_nbcol m) columns..<c_hi]) cs1 = Inr cs2
    \<and> length cs2 = m_nbcolmax m * m_nbrowmax m
    \<and> (\<forall>c r. c < columns \<longrightarrow> r < rows \<longrightarrow> cs2 ! (r * m_nbcolmax m + c) =
         (if c < m_nbcol m \<and> r < m_nbrow m then cell m c r else None))"
proof -
  let ?w = "m_nbcolmax m" and ?h = "m_nbrowmax m"
  let ?p1 = "List.product [min (m_nbrow m) rows..<r_hi] [0..<c_hi]"
  let ?p2 = "List.product [0..<r_hi] [min (m_nbcol m) columns..<c_hi]"
  have wh: "?w * ?h < 2 ^ 64" "length (m_matrix m) = ?w * ?h" "m_nbcol m \<le> ?w" "m_nbrow m \<le> ?h"
    using wf by (auto simp: matrix_wf_def)
  have "\<And>r c. (r, c) \<in> set ?p1 \<Longrightarrow> r < ?h \<and> c < ?w" using wh(3,4) le by (auto simp: r_hi_def c_hi_def)
  from fill_cells_spec [OF this wh(1,2), where v = None] obtain cs1 where cs1:
    "fill_cells ?w None ?p1 (m_matrix m) = Inr cs1" "length cs1 = ?w * ?h"
    "\<And>r c. r < ?h \<Longrightarrow> c < ?w \<Longrightarrow> cs1 ! (r * ?w + c) =
        (if (r, c) \<in> set ?p1 then None else m_matrix m ! (r * ?w + c))" by blast
  have "\<And>r c. (r, c) \<in> set ?p2 \<Longrightarrow> r < ?h \<and> c < ?w" using wh(3,4) le by (auto simp: r_hi_def c_hi_def)
  from fill_cells_spec [OF this wh(1) cs1(2), where v = None] obtain cs2 where cs2:
    "fill_cells ?w None ?p2 cs1 = Inr cs2" "length cs2 = ?w * ?h"
    "\<And>r c. r < ?h \<Longrightarrow> c < ?w \<Longrightarrow> cs2 ! (r * ?w + c) =
        (if (r, c) \<in> set ?p2 then None else cs1 ! (r * ?w + c))" by blast
  have "cs2 ! (r * ?w + c) = (if c < m_nbcol m \<and> r < m_nbrow m then cell m c r else None)"
    if "c < columns" "r < rows" for c r
    using that le cs1(3) [of r c] cs2(3) [of r c] by (auto simp: cell_def r_hi_def c_hi_def)
  with cs1(1) cs2(1,2) show ?thesis by blast
qed

text \<open>
  C35. Resizing a matrix to a non-empty rectangle, when the new capacity holds the old visible
  rectangle, keeps the matrix well formed, keeps every cell visible before and after, and leaves the
  cells it adds empty.
\<close>

theorem Matrix_resize_spec:
  assumes wf: "matrix_wf m" and pos: "0 < columns * rows"
    and cap: "(columns + m_stepcol m) * (rows + m_steprow m) < 2 ^ 64"
    and fit: "columns < m_nbcolmax m \<and> rows < m_nbrowmax m
      \<or> m_nbcol m \<le> columns + m_stepcol m \<and> m_nbrow m \<le> rows + m_steprow m"
  shows "\<exists>m'. Matrix_resize m columns rows = Inr m' \<and> matrix_wf m'
    \<and> m_nbcol m' = columns \<and> m_nbrow m' = rows
    \<and> (\<forall>c r. c < columns \<longrightarrow> r < rows \<longrightarrow> Matrix_get m' c r =
         (if c < m_nbcol m \<and> r < m_nbrow m then Matrix_get m c r else Inr None))"
proof -
  have "columns * rows \<le> (columns + m_stepcol m) * (rows + m_steprow m)" by (intro mult_mono) auto
  with cap pos have nz: "szmul columns rows \<noteq> 0" by (simp add: szmul_eq)
  from resize_reserve [OF assms] obtain m' where m':
    "(if columns \<ge> m_nbcolmax m \<or> rows \<ge> m_nbrowmax m
      then Matrix_reserve m (szadd columns (m_stepcol m)) (szadd rows (m_steprow m)) else Inr m) = Inr m'"
    "matrix_wf m'" "m_nbcol m' = m_nbcol m" "m_nbrow m' = m_nbrow m"
    "columns \<le> m_nbcolmax m'" "rows \<le> m_nbrowmax m'"
    "\<And>r c. r < m_nbrow m \<Longrightarrow> c < m_nbcol m \<Longrightarrow> cell m' c r = cell m c r" by blast
  from resize_blank [OF m'(2,5,6)] obtain cs1 cs2 where cs:
    "fill_cells (m_nbcolmax m') None (List.product [min (m_nbrow m') rows..<max (m_nbrow m') rows]
       [0..<max (m_nbcol m') columns]) (m_matrix m') = Inr cs1"
    "fill_cells (m_nbcolmax m') None (List.product [0..<max (m_nbrow m') rows]
       [min (m_nbcol m') columns..<max (m_nbcol m') columns]) cs1 = Inr cs2"
    "length cs2 = m_nbcolmax m' * m_nbrowmax m'"
    "\<And>c r. c < columns \<Longrightarrow> r < rows \<Longrightarrow> cs2 ! (r * m_nbcolmax m' + c) =
         (if c < m_nbcol m' \<and> r < m_nbrow m' then cell m' c r else None)" by blast
  define mf where "mf = set_dims (set_cells m' cs2) columns rows"
  have run: "Matrix_resize m columns rows = Inr mf"
    using nz m'(1) cs(1,2) by (simp add: Matrix_resize_def mf_def Let_def)
  have wff: "matrix_wf mf" using m'(2,5,6) cs(3) by (simp add: matrix_wf_def mf_def)
  have "cell mf c r = (if c < m_nbcol m \<and> r < m_nbrow m then cell m c r else None)"
    if "c < columns" "r < rows" for c r
    using cs(4) [OF that] m'(3,4,7) by (simp add: cell_def mf_def)
  moreover have "Matrix_get mf c r = Inr (cell mf c r)" if "c < columns" "r < rows" for c r
    using that by (intro Matrix_get_cell [OF wff]) (simp_all add: mf_def)
  ultimately show ?thesis using run wff by (auto simp: mf_def Matrix_get_cell [OF wf])
qed

theorem Matrix_resize_spec_witness:
  "\<exists>m'. Matrix_resize (Matrix [Some VNull] 1 1 1 1 3 3 0 0) 2 2 = Inr m'
    \<and> Matrix_get m' 0 0 = Inr (Some VNull) \<and> Matrix_get m' 1 1 = Inr None"
proof -
  let ?m = "Matrix [Some VNull] 1 1 1 1 3 3 0 0 :: val matrix"
  have wf: "matrix_wf ?m" by (simp add: matrix_wf_def)
  from Matrix_resize_spec [OF wf, of 2 2] obtain m'
    where m': "Matrix_resize ?m 2 2 = Inr m'"
      and get: "\<And>c r. c < 2 \<Longrightarrow> r < 2 \<Longrightarrow> Matrix_get m' c r =
         (if c < 1 \<and> r < 1 then Matrix_get ?m c r else Inr None)" by auto
  have "Matrix_get ?m 0 0 = Inr (Some VNull)" using wf by (simp add: Matrix_get_cell cell_def)
  with m' get [of 0 0] get [of 1 1] show ?thesis by auto
qed

lemma foldE_fails:
  assumes "x \<in> set xs" "I s" "\<And>y s. I s \<Longrightarrow> (case f y s of Inl e \<Rightarrow> e = err | Inr t \<Rightarrow> I t)" "\<And>s. I s \<Longrightarrow> f x s = Inl err"
  shows "foldE f xs s = Inl err"
  using assms(1,2)
proof (induction xs arbitrary: s)
  case (Cons y ys)
  then show ?case using assms(3) [of s y] assms(4) [of s] by (cases "f y s") auto
qed simp

text \<open>
  C37. The other case of a resize that reallocates: when the last cell of the old rectangle, at the width of the new storage, lies
  beyond the new storage, the move of the cells writes past its end, whatever the cells hold. This happens when
  rows are removed while columns are added, and the row step does not give enough rows back.
\<close>

theorem Matrix_resize_overflow:
  assumes wf: "matrix_wf m" and pos: "0 < columns * rows" "0 < m_nbcol m" "0 < m_nbrow m"
    and cap: "(columns + m_stepcol m) * (rows + m_steprow m) < 2 ^ 64" "m_nbrow m * (columns + m_stepcol m) + m_nbcol m < 2 ^ 64"
    and realloc: "m_nbcolmax m \<le> columns \<or> m_nbrowmax m \<le> rows"
      "\<not> (columns + m_stepcol m \<le> m_nbcolmax m \<and> rows + m_steprow m \<le> m_nbrowmax m)"
    and beyond: "(columns + m_stepcol m) * (rows + m_steprow m) \<le> (m_nbrow m - 1) * (columns + m_stepcol m) + (m_nbcol m - 1)"
  shows "Matrix_resize m columns rows = Inl (UndefinedBehaviour ''vector index'')"
proof -
  define cm where "cm = columns + m_stepcol m"
  define rm where "rm = rows + m_steprow m"
  define last where "last = (m_nbrow m - 1, m_nbcol m - 1)"
  have rc: "0 < columns" "0 < rows" using pos(1) by auto
  have c: "cm * rm < 2 ^ 64" using cap(1) by (simp add: cm_def rm_def)
  have "cm * 1 \<le> cm * rm" "1 * rm \<le> cm * rm" unfolding cm_def rm_def using rc by (intro mult_mono; simp)+
  then have lt: "cm < 2 ^ 64" "rm < 2 ^ 64" using c by linarith+
  have "columns * rows \<le> cm * rm" unfolding cm_def rm_def by (intro mult_mono) simp_all
  then have sz: "szmul columns rows = columns * rows" "szadd columns (m_stepcol m) = cm" "szadd rows (m_steprow m) = rm" "szmul cm rm = cm * rm"
    using c lt by (simp_all add: szmul_def szadd_def cm_def [symmetric] rm_def [symmetric])
  have "(m_nbrow m - 1) * cm \<le> m_nbrow m * cm" by (intro mult_right_mono) simp_all
  then have "(m_nbrow m - 1) * cm + (m_nbcol m - 1) < 2 ^ 64" "(m_nbrow m - 1) * cm < 2 ^ 64"
    using cap(2) unfolding cm_def [symmetric] by linarith+
  then have at: "szadd (szmul (fst last) cm) (snd last) = fst last * cm + snd last"
    by (simp add: szmul_def szadd_def last_def)
  have "foldE (move_cell (m_nbcolmax m) cm) (List.product [0..<m_nbrow m] [0..<m_nbcol m]) (replicate (cm * rm) None, m_matrix m)
    = Inl (UndefinedBehaviour ''vector index'')"
  proof (rule foldE_fails [where I = "\<lambda>(tmp, cells). length tmp = cm * rm" and x = last])
    show "last \<in> set (List.product [0..<m_nbrow m] [0..<m_nbcol m])" using pos(2,3) by (simp add: last_def)
    show "move_cell (m_nbcolmax m) cm last s = Inl (UndefinedBehaviour ''vector index'')"
      if "case s of (tmp, cells) \<Rightarrow> length tmp = cm * rm" for s :: "'a option list \<times> 'a option list"
      using that at beyond by (cases s) (auto simp: move_cell_def split_beta vec_get_def vec_set_def last_def cm_def rm_def)
  qed (auto simp: move_cell_def vec_get_def vec_set_def bindE_def split: sum.splits if_splits)
  moreover have "cm * rm \<noteq> 0" using rc by (simp add: cm_def rm_def)
  moreover have "\<not> (cm \<le> m_nbcolmax m \<and> rm \<le> m_nbrowmax m)" using realloc(2) by (simp add: cm_def rm_def)
  ultimately have "Matrix_reserve m cm rm = Inl (UndefinedBehaviour ''vector index'')" by (auto simp: Matrix_reserve_def sz(4))
  then show ?thesis using realloc(1) rc by (auto simp: Matrix_resize_def sz(1-3))
qed

theorem Matrix_resize_overflow_witness:
  "Matrix_resize (Matrix [None, Some VNull, None] 1 3 1 3 0 0 0 0) 2 1 = Inl (UndefinedBehaviour ''vector index'')"
  by (rule Matrix_resize_overflow) (simp_all add: matrix_wf_def)

end
