(* ===== verification/Event_Heap.thy ===== *)
theory Event_Heap
  imports IEEE_Double
begin

text \<open>
  The priority queue of the scheduler, \<^verbatim>\<open>boost::heap::fibonacci_heap<HeapElement>\<close>, is third-party code:
  its operations are a record of functions that the scheduler gets as an argument, and the locale
  below states what the scheduler relies on. An entry is a date with a simulator; a handle names an
  entry for as long as it is in the heap. The locale is interpreted on an executable heap.
\<close>

type_synonym time = double
type_synonym sim_id = nat

record ('q, 'h) heap_ops =
  heap_empty :: "'q \<Rightarrow> bool"
  heap_top :: "'q \<Rightarrow> time \<times> sim_id"
  heap_pop :: "'q \<Rightarrow> 'q"
  heap_emplace :: "time \<Rightarrow> sim_id \<Rightarrow> 'q \<Rightarrow> 'h \<times> 'q"
  heap_update :: "'h \<Rightarrow> time \<Rightarrow> 'q \<Rightarrow> 'q"
  heap_erase :: "'h \<Rightarrow> 'q \<Rightarrow> 'q"

definition no_nan :: "('h \<Rightarrow> (time \<times> sim_id) option) \<Rightarrow> bool" where
  "no_nan m \<longleftrightarrow> (\<forall>h t x. m h = Some (t, x) \<longrightarrow> t \<noteq> dnan)"

locale event_heap =
  fixes H :: "('q, 'h) heap_ops"
    and elems :: "'q \<Rightarrow> 'h \<Rightarrow> (time \<times> sim_id) option"
    and top_handle :: "'q \<Rightarrow> 'h"
    and invar :: "'q \<Rightarrow> bool"
  assumes finite_elems: "invar q \<Longrightarrow> finite (dom (elems q))"
    and heap_empty: "invar q \<Longrightarrow> heap_empty H q \<longleftrightarrow> elems q = Map.empty"
    and heap_top: "invar q \<Longrightarrow> elems q \<noteq> Map.empty \<Longrightarrow> elems q (top_handle q) = Some (heap_top H q)"
    and heap_min: "invar q \<Longrightarrow> no_nan (elems q) \<Longrightarrow> elems q h = Some (t, x) \<Longrightarrow> dle (fst (heap_top H q)) t"
    and heap_pop: "invar q \<Longrightarrow> elems q \<noteq> Map.empty \<Longrightarrow>
      invar (heap_pop H q) \<and> elems (heap_pop H q) = (elems q)(top_handle q := None)"
    and heap_emplace: "invar q \<Longrightarrow> heap_emplace H t x q = (h, q') \<Longrightarrow>
      invar q' \<and> elems q h = None \<and> elems q' = (elems q)(h \<mapsto> (t, x))"
    and heap_update: "invar q \<Longrightarrow> elems q h = Some (t0, x) \<Longrightarrow>
      invar (heap_update H h t q) \<and> elems (heap_update H h t q) = (elems q)(h \<mapsto> (t, x))"
    and heap_erase: "invar q \<Longrightarrow> elems q h \<noteq> None \<Longrightarrow>
      invar (heap_erase H h q) \<and> elems (heap_erase H h q) = (elems q)(h := None)"
begin

lemma card_pop:
  assumes "invar q" "elems q \<noteq> Map.empty"
  shows "card (dom (elems (heap_pop H q))) < card (dom (elems q))"
proof -
  have "dom (elems (heap_pop H q)) = dom (elems q) - {top_handle q}"
    using heap_pop [OF assms] by simp
  moreover have "top_handle q \<in> dom (elems q)" using heap_top [OF assms] by auto
  ultimately show ?thesis using finite_elems [OF assms(1)] by (metis card_Diff1_less)
qed

end

section \<open>An executable heap\<close>

text \<open>Entries with their handles in a list; the handles are numbers.\<close>

type_synonym list_heap = "(nat \<times> time \<times> sim_id) list"

fun min_entry :: "list_heap \<Rightarrow> nat \<times> time \<times> sim_id" where
  "min_entry [] = (0, dinf, 0)"
| "min_entry [e] = e"
| "min_entry (e # es) = (let m = min_entry es in if dle (fst (snd e)) (fst (snd m)) then e else m)"

definition list_heap_ops :: "(list_heap, nat) heap_ops" where
  "list_heap_ops = \<lparr>
     heap_empty = (\<lambda>q. q = []),
     heap_top = (\<lambda>q. snd (min_entry q)),
     heap_pop = (\<lambda>q. filter (\<lambda>e. fst e \<noteq> fst (min_entry q)) q),
     heap_emplace = (\<lambda>t x q. let h = Suc (Max (set (0 # map fst q))) in (h, (h, t, x) # q)),
     heap_update = (\<lambda>h t q. map (\<lambda>e. if fst e = h then (h, t, snd (snd e)) else e) q),
     heap_erase = (\<lambda>h q. filter (\<lambda>e. fst e \<noteq> h) q)\<rparr>"

definition list_heap_ok :: "list_heap \<Rightarrow> bool" where
  "list_heap_ok q \<longleftrightarrow> distinct (map fst q)"

lemma min_entry_in: "q \<noteq> [] \<Longrightarrow> min_entry q \<in> set q"
  by (induction q rule: min_entry.induct) (auto simp: Let_def)

lemma min_entry_le:
  assumes "\<forall>e \<in> set q. fst (snd e) \<noteq> dnan" "e \<in> set q"
  shows "dle (fst (snd (min_entry q))) (fst (snd e))"
  using assms
proof (induction q arbitrary: e rule: min_entry.induct)
  case (3 a b es)
  let ?m = "min_entry (b # es)"
  have IH: "dle (fst (snd ?m)) (fst (snd x))" if "x \<in> set (b # es)" for x
    using that "3.prems"(1) by (intro "3.IH") auto
  have "?m \<in> set (b # es)" by (rule min_entry_in) simp
  then have ok: "fst (snd ?m) \<noteq> dnan" "fst (snd a) \<noteq> dnan" using "3.prems"(1) by auto
  show ?case
  proof (cases "dle (fst (snd a)) (fst (snd ?m))")
    case True
    have "dle (fst (snd a)) (fst (snd e))" if "e \<in> set (b # es)"
      using True IH [OF that] by (auto simp: double_simps)
    then show ?thesis using True "3.prems"(2) ok by (auto simp: Let_def double_simps)
  next
    case False
    then have "dle (fst (snd ?m)) (fst (snd a))" using ok by (auto simp: double_simps)
    then show ?thesis using False IH [of e] "3.prems"(2) by (cases "e = a") (simp_all add: Let_def)
  qed
qed (auto simp: double_simps)

lemma map_of_filter_key: "map_of (filter (\<lambda>e. fst e \<noteq> k) q) = (map_of q)(k := None)"
  by (induction q) auto

lemma map_of_set_time:
  "map_of (map (\<lambda>e. if fst e = h then (h, t, snd (snd e)) else e) q) h' =
     (if h' = h then map_option (\<lambda>e. (t, snd e)) (map_of q h) else map_of q h')"
  by (induction q) auto

interpretation list_heap: event_heap list_heap_ops map_of "\<lambda>q. fst (min_entry q)" list_heap_ok
proof unfold_locales
  fix q :: list_heap and t :: time and x h q'
  assume ok: "list_heap_ok q"
  show "finite (dom (map_of q))" by (rule finite_dom_map_of)
  show "heap_empty list_heap_ops q \<longleftrightarrow> map_of q = Map.empty" by (simp add: list_heap_ops_def)
  {
    assume "map_of q \<noteq> Map.empty"
    then have "min_entry q \<in> set q" by (intro min_entry_in) auto
    with ok show "map_of q (fst (min_entry q)) = Some (heap_top list_heap_ops q)"
      by (simp add: list_heap_ops_def list_heap_ok_def)
    show "list_heap_ok (heap_pop list_heap_ops q) \<and>
        map_of (heap_pop list_heap_ops q) = (map_of q)(fst (min_entry q) := None)"
      using ok by (simp add: list_heap_ops_def list_heap_ok_def map_of_filter_key distinct_map_filter)
  }
  {
    assume nn: "no_nan (map_of q)" and e: "map_of q h = Some (t, x)"
    have "\<forall>e \<in> set q. fst (snd e) \<noteq> dnan"
      using nn ok by (fastforce simp: no_nan_def list_heap_ok_def)
    from min_entry_le [OF this map_of_SomeD [OF e]]
    show "dle (fst (heap_top list_heap_ops q)) t" by (simp add: list_heap_ops_def)
  }
  {
    assume "heap_emplace list_heap_ops t x q = (h, q')"
    then have q': "h = Suc (Max (set (0 # map fst q)))" "q' = (h, t, x) # q"
      by (auto simp: list_heap_ops_def Let_def)
    have "\<forall>k \<in> set (0 # map fst q). k < h"
      using Max_ge [of "set (0 # map fst q)"] unfolding q'(1) by (meson List.finite_set le_imp_less_Suc)
    then have "h \<notin> set (map fst q)" by auto
    then show "list_heap_ok q' \<and> map_of q h = None \<and> map_of q' = (map_of q)(h \<mapsto> (t, x))"
      using ok by (auto simp: q'(2) list_heap_ok_def map_of_eq_None_iff)
  }
  {
    fix t0
    assume e: "map_of q h = Some (t0, x)"
    have "map (fst \<circ> (\<lambda>e. if fst e = h then (h, t, snd (snd e)) else e)) q = map fst q" by simp
    with ok e show "list_heap_ok (heap_update list_heap_ops h t q) \<and>
        map_of (heap_update list_heap_ops h t q) = (map_of q)(h \<mapsto> (t, x))"
      by (simp only: list_heap_ok_def list_heap_ops_def heap_ops.simps map_map) (simp add: map_of_set_time fun_eq_iff)
  }
  assume "map_of q h \<noteq> None"
  show "list_heap_ok (heap_erase list_heap_ops h q) \<and> map_of (heap_erase list_heap_ops h q) = (map_of q)(h := None)"
    using ok by (simp add: list_heap_ops_def list_heap_ok_def map_of_filter_key distinct_map_filter)
qed

end
