(* ===== verification/Std_Maps.thy ===== *)
theory Std_Maps
  imports Prelude
begin

text \<open>
  The ordered containers of the C++ standard library that the program uses: \<^verbatim>\<open>std::map\<close> as an
  association list in key order without repeated keys, \<^verbatim>\<open>std::multimap\<close> as an association list in
  key order in which entries with equal keys keep their insertion order.
\<close>

section \<open>std::map\<close>

text \<open>\<^verbatim>\<open>m[k] = v\<close>: replaces the value, or inserts the key at its place.\<close>

fun smap_update :: "'k::linorder \<Rightarrow> 'v \<Rightarrow> ('k \<times> 'v) list \<Rightarrow> ('k \<times> 'v) list" where
  "smap_update k v [] = [(k, v)]"
| "smap_update k v ((a, b) # m) =
     (if k < a then (k, v) # (a, b) # m
      else if k = a then (k, v) # m
      else (a, b) # smap_update k v m)"

text \<open>\<^verbatim>\<open>m.insert({k, v})\<close>: leaves a present key alone.\<close>

definition smap_insert :: "'k::linorder \<Rightarrow> 'v \<Rightarrow> ('k \<times> 'v) list \<Rightarrow> ('k \<times> 'v) list" where
  "smap_insert k v m = (case map_of m k of None \<Rightarrow> smap_update k v m | Some _ \<Rightarrow> m)"

text \<open>\<^verbatim>\<open>m.erase(k)\<close>.\<close>

definition smap_erase :: "'k \<Rightarrow> ('k \<times> 'v) list \<Rightarrow> ('k \<times> 'v) list" where
  "smap_erase k m = filter (\<lambda>e. fst e \<noteq> k) m"

definition smap_ok :: "('k::linorder \<times> 'v) list \<Rightarrow> bool" where
  "smap_ok m \<longleftrightarrow> sorted_wrt (<) (map fst m)"

text \<open>What a client may rely on: lookups after each operation, and the order of the keys.\<close>

locale ordered_map =
  fixes update :: "'k::linorder \<Rightarrow> 'v \<Rightarrow> 'm \<Rightarrow> 'm"
    and insert_new :: "'k \<Rightarrow> 'v \<Rightarrow> 'm \<Rightarrow> 'm"
    and erase :: "'k \<Rightarrow> 'm \<Rightarrow> 'm"
    and lookup :: "'m \<Rightarrow> 'k \<Rightarrow> 'v option"
    and keys :: "'m \<Rightarrow> 'k list"
    and invar :: "'m \<Rightarrow> bool"
  assumes lookup_update: "lookup (update k v m) = (lookup m)(k \<mapsto> v)"
    and lookup_insert: "lookup (insert_new k v m) = (case lookup m k of None \<Rightarrow> (lookup m)(k \<mapsto> v) | Some _ \<Rightarrow> lookup m)"
    and lookup_erase: "lookup (erase k m) = (lookup m)(k := None)"
    and set_keys: "set (keys m) = dom (lookup m)"
    and invar_update: "invar m \<Longrightarrow> invar (update k v m)"
    and invar_insert: "invar m \<Longrightarrow> invar (insert_new k v m)"
    and invar_erase: "invar m \<Longrightarrow> invar (erase k m)"
    and keys_ascending: "invar m \<Longrightarrow> sorted_wrt (<) (keys m)"
begin

lemma keys_determined:
  assumes "invar m" "invar m'" "lookup m = lookup m'"
  shows "keys m = keys m'"
proof (rule sorted_distinct_set_unique)
  show "sorted (keys m)" "sorted (keys m')" "distinct (keys m)" "distinct (keys m')"
    using keys_ascending [OF assms(1)] keys_ascending [OF assms(2)]
    by (auto simp: strict_sorted_iff)
  show "set (keys m) = set (keys m')" using assms(3) by (simp add: set_keys)
qed

lemma keys_update_present:
  assumes "invar m" "lookup m k = Some v'"
  shows "keys (update k v m) = keys m"
proof (rule sorted_distinct_set_unique)
  show "sorted (keys (update k v m))" "sorted (keys m)" "distinct (keys (update k v m))" "distinct (keys m)"
    using keys_ascending [OF invar_update [OF assms(1)]] keys_ascending [OF assms(1)]
    by (auto simp: strict_sorted_iff)
  show "set (keys (update k v m)) = set (keys m)"
    using assms(2) by (auto simp: set_keys lookup_update)
qed

end

lemma map_of_smap_update [simp]: "map_of (smap_update k v m) = (map_of m)(k \<mapsto> v)"
  by (induction m) auto

lemma map_of_smap_insert:
  "map_of (smap_insert k v m) = (case map_of m k of None \<Rightarrow> (map_of m)(k \<mapsto> v) | Some _ \<Rightarrow> map_of m)"
  by (simp add: smap_insert_def split: option.splits)

lemma map_of_smap_erase [simp]: "map_of (smap_erase k m) = (map_of m)(k := None)"
  by (induction m) (auto simp: smap_erase_def)

lemma keys_smap_update: "fst ` set (smap_update k v m) = insert k (fst ` set m)"
proof -
  have "dom (map_of (smap_update k v m)) = insert k (dom (map_of m))" by simp
  then show ?thesis by (simp only: dom_map_of_conv_image_fst)
qed

lemma smap_ok_update: "smap_ok m \<Longrightarrow> smap_ok (smap_update k v m)"
proof (induction m)
  case (Cons e m)
  obtain a b where e: "e = (a, b)" by force
  have "\<forall>x \<in> fst ` set m. a < x" "smap_ok m" using Cons.prems by (auto simp: smap_ok_def e)
  moreover from this have "\<forall>x \<in> fst ` set (smap_update k v m). a < x" if "a < k"
    using that by (simp add: keys_smap_update)
  ultimately show ?case using Cons.IH by (auto simp: smap_ok_def e)
qed (simp add: smap_ok_def)

interpretation std_map: ordered_map smap_update smap_insert smap_erase map_of "map fst" smap_ok
proof unfold_locales
  fix k :: "'a" and v :: 'b and m :: "('a \<times> 'b) list"
  show "map_of (smap_insert k v m)
      = (case map_of m k of None \<Rightarrow> (map_of m)(k \<mapsto> v) | Some _ \<Rightarrow> map_of m)"
    by (rule map_of_smap_insert)
  show "set (map fst m) = dom (map_of m)" by (simp add: dom_map_of_conv_image_fst)
  show "smap_ok m \<Longrightarrow> smap_ok (smap_insert k v m)"
    by (simp add: smap_insert_def smap_ok_update split: option.split)
  show "smap_ok m \<Longrightarrow> smap_ok (smap_erase k m)"
    by (simp add: smap_ok_def smap_erase_def sorted_wrt_map sorted_wrt_filter)
  show "smap_ok m \<Longrightarrow> sorted_wrt (<) (map fst m)" by (simp add: smap_ok_def)
qed (simp_all add: smap_ok_update)

section \<open>std::multimap\<close>

text \<open>\<^verbatim>\<open>m.insert({k, v})\<close>: after the entries with smaller or equal keys.\<close>

fun mmap_insert :: "'k::linorder \<Rightarrow> 'v \<Rightarrow> ('k \<times> 'v) list \<Rightarrow> ('k \<times> 'v) list" where
  "mmap_insert k v [] = [(k, v)]"
| "mmap_insert k v (e # m) = (if k < fst e then (k, v) # e # m else e # mmap_insert k v m)"

text \<open>\<^verbatim>\<open>m.equal_range(k)\<close> and \<^verbatim>\<open>m.erase(k)\<close>.\<close>

definition mmap_range :: "'k \<Rightarrow> ('k \<times> 'v) list \<Rightarrow> ('k \<times> 'v) list" where
  "mmap_range k m = filter (\<lambda>e. fst e = k) m"

definition mmap_erase :: "'k \<Rightarrow> ('k \<times> 'v) list \<Rightarrow> ('k \<times> 'v) list" where
  "mmap_erase k m = filter (\<lambda>e. fst e \<noteq> k) m"

lemma mset_mmap_insert [simp]: "mset (mmap_insert k v m) = add_mset (k, v) (mset m)"
  by (induction m) auto

lemma set_mmap_insert [simp]: "set (mmap_insert k v m) = insert (k, v) (set m)"
  by (induction m) auto

lemma mmap_range_insert:
  "sorted (map fst m) \<Longrightarrow>
   mmap_range k (mmap_insert k' v m) = mmap_range k m @ (if k = k' then [(k', v)] else [])"
proof (induction m)
  case (Cons e m)
  show ?case
  proof (cases "k' < fst e")
    case True
    with Cons.prems have "k = k' \<Longrightarrow> filter (\<lambda>e. fst e = k) (e # m) = []"
      by (auto simp: filter_empty_conv)
    with True show ?thesis by (auto simp: mmap_range_def)
  next
    case False
    with Cons show ?thesis by (auto simp: mmap_range_def)
  qed
qed (simp add: mmap_range_def)

lemma sorted_mmap_insert: "sorted (map fst m) \<Longrightarrow> sorted (map fst (mmap_insert k v m))"
  by (induction m) auto

end
