(* ===== verification/Effects.thy ===== *)
theory Effects
  imports Prelude
begin

text \<open>
  Procedures that mutate objects and may throw. A procedure takes the state and returns either a
  value or the exception it threw, in both cases with the state it left: what was written before a
  \<^verbatim>\<open>throw\<close> stays written. \<open>wp\<close> is the predicate transformer the proofs use: the procedure returns
  (it does not throw) and its value and final state satisfy the condition.
\<close>

datatype ('s, 'a) outcome = Ret 'a 's | Exn vle_error 's

type_synonym ('s, 'a) proc = "'s \<Rightarrow> ('s, 'a) outcome"

definition retS :: "'a \<Rightarrow> ('s, 'a) proc" where
  "retS x s = Ret x s"

definition throwS :: "vle_error \<Rightarrow> ('s, 'a) proc" where
  "throwS e s = Exn e s"

definition bindS :: "('s, 'a) proc \<Rightarrow> ('a \<Rightarrow> ('s, 'b) proc) \<Rightarrow> ('s, 'b) proc" where
  "bindS m f s = (case m s of Ret x t \<Rightarrow> f x t | Exn e t \<Rightarrow> Exn e t)"

definition thenS :: "('s, 'a) proc \<Rightarrow> ('s, 'b) proc \<Rightarrow> ('s, 'b) proc" where
  "thenS m k = bindS m (\<lambda>_. k)"

definition getS :: "('s, 's) proc" where
  "getS s = Ret s s"

definition liftS :: "'a result \<Rightarrow> ('s, 'a) proc" where
  "liftS r s = (case r of Inl e \<Rightarrow> Exn e s | Inr x \<Rightarrow> Ret x s)"

definition updS :: "('s \<Rightarrow> 's) \<Rightarrow> ('s, unit) proc" where
  "updS f s = Ret () (f s)"

definition assertS :: "('s \<Rightarrow> bool) \<Rightarrow> string \<Rightarrow> ('s, unit) proc" where
  "assertS P msg s = (if P s then Ret () s else Exn (AssertionFailed msg) s)"

text \<open>
  What \<^verbatim>\<open>catch (const std::exception&)\<close> catches: a failed assertion, undefined behaviour and a call that
  does not return are not exceptions.
\<close>

definition is_exception :: "vle_error \<Rightarrow> bool" where
  "is_exception e = (case e of AssertionFailed _ \<Rightarrow> False | UndefinedBehaviour _ \<Rightarrow> False | NonTermination \<Rightarrow> False | _ \<Rightarrow> True)"

definition catchS :: "('s, 'a) proc \<Rightarrow> (vle_error \<Rightarrow> ('s, 'a) proc) \<Rightarrow> ('s, 'a) proc" where
  "catchS m h s = (case m s of Ret x t \<Rightarrow> Ret x t | Exn e t \<Rightarrow> if is_exception e then h e t else Exn e t)"

text \<open>A loop over the entries of a container.\<close>

fun forS :: "('a \<Rightarrow> ('s, unit) proc) \<Rightarrow> 'a list \<Rightarrow> ('s, unit) proc" where
  "forS f [] = retS ()"
| "forS f (x # xs) = thenS (f x) (forS f xs)"

definition wp :: "('s, 'a) proc \<Rightarrow> 's \<Rightarrow> ('a \<Rightarrow> 's \<Rightarrow> bool) \<Rightarrow> bool" where
  "wp m s P = (case m s of Ret x t \<Rightarrow> P x t | Exn _ _ \<Rightarrow> False)"

named_theorems wp_simps \<open>weakest preconditions of the procedures\<close>

lemma wp_retS [wp_simps]: "wp (retS x) s P = P x s"
  by (simp add: wp_def retS_def)

lemma wp_throwS [wp_simps]: "\<not> wp (throwS e) s P"
  by (simp add: wp_def throwS_def)

lemma wp_bindS [wp_simps]: "wp (bindS m f) s P = wp m s (\<lambda>x t. wp (f x) t P)"
  by (simp add: wp_def bindS_def split: outcome.split)

lemma wp_thenS [wp_simps]: "wp (thenS m k) s P = wp m s (\<lambda>_ t. wp k t P)"
  by (simp add: thenS_def wp_bindS)

lemma wp_getS [wp_simps]: "wp getS s P = P s s"
  by (simp add: wp_def getS_def)

lemma wp_liftS [wp_simps]: "wp (liftS r) s P = (\<exists>x. r = Inr x \<and> P x s)"
  by (cases r) (simp_all add: wp_def liftS_def)

lemma wp_updS [wp_simps]: "wp (updS f) s P = P () (f s)"
  by (simp add: wp_def updS_def)

lemma wp_assertS [wp_simps]: "wp (assertS Q msg) s P = (Q s \<and> P () s)"
  by (simp add: wp_def assertS_def)

lemma wp_catchS: "wp m s P \<Longrightarrow> wp (catchS m h) s P"
  by (simp add: wp_def catchS_def split: outcome.splits)

lemma wp_if [wp_simps]: "wp (if b then m else k) s P = (if b then wp m s P else wp k s P)"
  by simp

lemma wp_iff: "wp m s P \<longleftrightarrow> (\<exists>x t. m s = Ret x t \<and> P x t)"
  by (cases "m s") (simp_all add: wp_def)

lemma wp_mono: "wp m s P \<Longrightarrow> (\<And>x t. P x t \<Longrightarrow> Q x t) \<Longrightarrow> wp m s Q"
  by (auto simp: wp_iff)

lemma wp_conj: "wp m s P \<Longrightarrow> wp m s Q \<Longrightarrow> wp m s (\<lambda>x t. P x t \<and> Q x t)"
  by (auto simp: wp_iff)

text \<open>The rule of the loops: an invariant over the entries still to be visited.\<close>

lemma wp_forS:
  assumes "I xs s" and "\<And>x xs s. I (x # xs) s \<Longrightarrow> wp (f x) s (\<lambda>_. I xs)"
  shows "wp (forS f xs) s (\<lambda>_. I [])"
  using assms(1)
proof (induction xs arbitrary: s)
  case Nil
  then show ?case by (simp add: wp_simps)
next
  case (Cons x xs)
  from assms(2) [OF Cons.prems] have "wp (f x) s (\<lambda>_ t. wp (forS f xs) t (\<lambda>_. I []))"
    by (rule wp_mono) (rule Cons.IH)
  then show ?case by (simp add: wp_simps)
qed

lemma bindS_Ret [simp]: "m s = Ret x t \<Longrightarrow> bindS m f s = f x t"
  by (simp add: bindS_def)

lemma bindS_Exn [simp]: "m s = Exn e t \<Longrightarrow> bindS m f s = Exn e t"
  by (simp add: bindS_def)

lemma bindS_eq_Ret: "bindS m f s = Ret y u \<longleftrightarrow> (\<exists>x t. m s = Ret x t \<and> f x t = Ret y u)"
  by (cases "m s") auto

lemma bindS_eq_Exn:
  "bindS m f s = Exn e u \<longleftrightarrow> m s = Exn e u \<or> (\<exists>x t. m s = Ret x t \<and> f x t = Exn e u)"
  by (cases "m s") auto

lemma Ret_eq_if_wp: "wp m s (\<lambda>x t. x = y \<and> t = u) \<longleftrightarrow> m s = Ret y u"
  by (auto simp: wp_iff)

text \<open>
  An invariant that a procedure keeps whether it returns or throws: the state of an object in the
  hands of a client that catches exceptions.
\<close>

definition final :: "('s, 'a) outcome \<Rightarrow> 's" where
  "final r = (case r of Ret _ s \<Rightarrow> s | Exn _ s \<Rightarrow> s)"

definition preserves :: "('s \<Rightarrow> bool) \<Rightarrow> ('s, 'a) proc \<Rightarrow> bool" where
  "preserves I m \<longleftrightarrow> (\<forall>s. I s \<longrightarrow> I (final (m s)))"

lemma final_simps [simp]: "final (Ret x s) = s" "final (Exn e s) = s"
  by (simp_all add: final_def)

lemma preservesD: "preserves I m \<Longrightarrow> I s \<Longrightarrow> I (final (m s))"
  by (simp add: preserves_def)

named_theorems preserves_intros \<open>procedures that keep an invariant\<close>

lemma preserves_pure [preserves_intros]:
  "preserves I (retS x)" "preserves I (throwS e)" "preserves I getS" "preserves I (liftS r)" "preserves I (assertS P msg)"
  by (simp_all add: preserves_def retS_def throwS_def getS_def liftS_def assertS_def split: sum.split)

lemma preserves_updS: "(\<And>s. I s \<Longrightarrow> I (f s)) \<Longrightarrow> preserves I (updS f)"
  by (simp add: preserves_def updS_def)

lemma preserves_bindS [preserves_intros]: "preserves I m \<Longrightarrow> (\<And>x. preserves I (f x)) \<Longrightarrow> preserves I (bindS m f)"
  unfolding preserves_def
proof (intro allI impI)
  fix s
  assume "\<forall>s. I s \<longrightarrow> I (final (m s))" "\<And>x. \<forall>s. I s \<longrightarrow> I (final (f x s))" "I s"
  then show "I (final (bindS m f s))" by (cases "m s") (auto simp: bindS_def dest: spec [of _ s])
qed

lemma preserves_thenS [preserves_intros]: "preserves I m \<Longrightarrow> preserves I k \<Longrightarrow> preserves I (thenS m k)"
  by (simp add: thenS_def preserves_bindS)

lemma preserves_if [preserves_intros]: "(b \<Longrightarrow> preserves I m) \<Longrightarrow> (\<not> b \<Longrightarrow> preserves I k) \<Longrightarrow> preserves I (if b then m else k)"
  by simp

lemma preserves_forS [preserves_intros]: "(\<And>x. x \<in> set xs \<Longrightarrow> preserves I (f x)) \<Longrightarrow> preserves I (forS f xs)"
  by (induction xs) (simp_all add: preserves_pure preserves_thenS)

lemmas effect_defs = bindS_def thenS_def retS_def throwS_def getS_def liftS_def

text \<open>What a procedure that only reads returns.\<close>

definition outcome_result :: "('s, 'a) outcome \<Rightarrow> 'a result" where
  "outcome_result r = (case r of Ret x _ \<Rightarrow> Inr x | Exn e _ \<Rightarrow> Inl e)"

lemma wp_read_result [wp_simps]: "wp (liftS (outcome_result (m r))) s P = wp m r (\<lambda>x _. P x s)"
  unfolding wp_liftS by (cases "m r") (simp_all add: outcome_result_def wp_def)

text \<open>The rule with the elements that were processed.\<close>

lemma wp_forS_prefix:
  assumes "J [] s" and "\<And>pre x post s. xs = pre @ x # post \<Longrightarrow> J pre s \<Longrightarrow> wp (f x) s (\<lambda>_. J (pre @ [x]))"
  shows "wp (forS f xs) s (\<lambda>_. J xs)"
proof -
  have "wp (forS f xs) s (\<lambda>_ t. \<exists>pre. xs = pre @ [] \<and> J pre t)"
  proof (rule wp_forS [where I = "\<lambda>ys t. \<exists>pre. xs = pre @ ys \<and> J pre t"])
    show "\<exists>pre. xs = pre @ xs \<and> J pre s" using assms(1) by (intro exI [of _ "[]"]) simp
  next
    fix y ys t
    assume "\<exists>pre. xs = pre @ y # ys \<and> J pre t"
    then obtain pre where pre: "xs = pre @ y # ys" "J pre t" by blast
    show "wp (f y) t (\<lambda>_ t'. \<exists>pre. xs = pre @ ys \<and> J pre t')"
      by (rule wp_mono [OF assms(2) [OF pre]]) (use pre(1) in \<open>auto intro: exI [of _ "pre @ [y]"]\<close>)
  qed
  then show ?thesis by simp
qed

end
