(* ===== verification/Model_Ports.thy ===== *)
theory Model_Ports
  imports Std_Maps Effects
begin

text \<open>
  \<^verbatim>\<open>vpz/ModelPortList\<close> and the store of models. Models are shared and mutated through pointers, so
  the graph is a store from addresses to objects; a connection list is a \<^verbatim>\<open>std::map\<close> from port names
  to \<^verbatim>\<open>ModelPortList\<close>, a \<^verbatim>\<open>std::multimap\<close> from model addresses to port names. The four connection
  lists (\<^verbatim>\<open>m_inPortList\<close>, \<^verbatim>\<open>m_outPortList\<close> of every model, \<^verbatim>\<open>m_internalInputList\<close>,
  \<^verbatim>\<open>m_internalOutputList\<close> of coupled models) are named by \<open>side\<close>.
\<close>

section \<open>ModelPortList\<close>

type_synonym addr = nat
type_synonym port_list = "(addr \<times> string) list"
type_synonym connection_list = "(string \<times> port_list) list"
type_synonym model_list = "(string \<times> addr) list"

definition ModelPortList_add :: "addr option \<Rightarrow> string \<Rightarrow> port_list \<Rightarrow> port_list result" where
  "ModelPortList_add model portname lst = (case model of
     None \<Rightarrow> Inl (DevsGraphError ''Cannot add model port in an empty model'')
   | Some m \<Rightarrow> Inr (mmap_insert m portname lst))"

text \<open>
  The loop of \<^verbatim>\<open>ModelPortList::remove\<close> walks the range of entries of one model with two iterators,
  here positions \<open>it\<close> and \<open>previous\<close> in the list of that range's port names. Erasing the entry at
  \<open>previous\<close> moves the iterator behind it one place down.
\<close>

function remove_loop :: "string \<Rightarrow> string list \<Rightarrow> nat \<Rightarrow> nat \<Rightarrow> string list" where
  "remove_loop portname r it previous =
     (if it < length r then
        (if r ! it = portname then
           (if it = previous then
              remove_loop portname (take previous r @ drop (Suc previous) r) it it
            else remove_loop portname (take it r @ drop (Suc it) r) previous previous)
         else remove_loop portname r (Suc it) it)
      else r)"
  by pat_completeness auto
termination
  by (relation "inv_image (less_than <*lex*> less_than) (\<lambda>(p, r, it, prev). (length r, length r - it))")
    auto

declare remove_loop.simps [simp del]

definition ModelPortList_remove :: "addr option \<Rightarrow> string \<Rightarrow> port_list \<Rightarrow> port_list result" where
  "ModelPortList_remove model portname lst = (case model of
     None \<Rightarrow> Inl (DevsGraphError ''Cannot remove model port in an empty model'')
   | Some m \<Rightarrow>
       Inr (filter (\<lambda>e. fst e < m) lst
            @ map (Pair m) (remove_loop portname (map snd (mmap_range m lst)) 0 0)
            @ filter (\<lambda>e. m < fst e) lst))"

definition ModelPortList_erase :: "addr \<Rightarrow> port_list \<Rightarrow> port_list" where
  "ModelPortList_erase model lst = mmap_erase model lst"

fun ModelPortList_merge :: "port_list \<Rightarrow> port_list \<Rightarrow> port_list" where
  "ModelPortList_merge [] lst = lst"
| "ModelPortList_merge (e # es) lst = ModelPortList_merge es (mmap_insert (fst e) (snd e) lst)"

definition ModelPortList_exist :: "addr \<Rightarrow> string \<Rightarrow> port_list \<Rightarrow> bool" where
  "ModelPortList_exist model portname lst = list_ex (\<lambda>e. snd e = portname) (mmap_range model lst)"

lemma remove_loop_spec:
  assumes "previous \<le> it" "it \<le> Suc previous" "it \<le> length r"
    and "portname \<notin> set (take it r)"
  shows "remove_loop portname r it previous = filter (\<lambda>x. x \<noteq> portname) r"
  using assms
proof (induction portname r it previous rule: remove_loop.induct)
  case (1 portname r it previous)
  note step = remove_loop.simps [of portname r it previous]
  show ?case
  proof (cases "it < length r")
    case False
    with "1.prems" have "filter (\<lambda>x. x \<noteq> portname) r = r" by (auto intro!: filter_True)
    with False step show ?thesis by simp
  next
    case True
    let ?r = "take it r @ drop (Suc it) r"
    have split: "r = take it r @ r ! it # drop (Suc it) r" using True by (rule id_take_nth_drop)
    have flt: "filter (\<lambda>x. x \<noteq> portname) ?r = filter (\<lambda>x. x \<noteq> portname) r" if "r ! it = portname"
    proof -
      have "filter (\<lambda>x. x \<noteq> portname) r
          = filter (\<lambda>x. x \<noteq> portname) (take it r @ r ! it # drop (Suc it) r)"
        using split by simp
      with that show ?thesis by simp
    qed
    show ?thesis
    proof (cases "r ! it = portname")
      case False
      have "portname \<notin> set (take (Suc it) r)"
        using "1.prems"(4) True False by (simp add: take_Suc_conv_app_nth)
      then have "remove_loop portname r (Suc it) it = filter (\<lambda>x. x \<noteq> portname) r"
        using True False by (intro "1.IH"(3)) auto
      with True False step show ?thesis by simp
    next
      case match: True
      have small: "portname \<notin> set (take previous (take it r @ drop (Suc it) r))"
        using "1.prems" True set_take_subset_set_take [of previous it r] by (auto simp: min_def)
      show ?thesis
      proof (cases "it = previous")
        case eq: True
        have "remove_loop portname ?r it it = filter (\<lambda>x. x \<noteq> portname) ?r"
          using "1.IH"(1) True match eq small by simp
        with True match eq step flt show ?thesis by simp
      next
        case ne: False
        have "remove_loop portname ?r previous previous = filter (\<lambda>x. x \<noteq> portname) ?r"
          using "1.IH"(2) True match ne small "1.prems" by simp
        with True match ne step flt show ?thesis by simp
      qed
    qed
  qed
qed

text \<open>What a port list holds is determined by how often each end occurs in it.\<close>

lemma count_ModelPortList_add:
  "count_list (mmap_insert m p l) e = count_list l e + (if e = (m, p) then 1 else 0)"
  by (simp flip: count_mset)

lemma count_list_filter: "count_list (filter P l) e = (if P e then count_list l e else 0)"
  by (induction l) auto

lemma count_list_Pair: "count_list (map (Pair m) xs) (a, q) = (if a = m then count_list xs q else 0)"
  by (induction xs) auto

lemma count_list_range: "count_list (map snd (mmap_range m l)) q = count_list l (m, q)"
  by (induction l) (auto simp: mmap_range_def)

lemma sorted_Pair: "sorted (map fst (map (Pair m) xs))"
  by (induction xs) auto

lemma count_ModelPortList_remove:
  "ModelPortList_remove (Some m) p l = Inr l' \<Longrightarrow>
   count_list l' e = (if e = (m, p) then 0 else count_list l e)"
proof -
  assume "ModelPortList_remove (Some m) p l = Inr l'"
  then have l': "l' = filter (\<lambda>e. fst e < m) l
      @ map (Pair m) (filter (\<lambda>x. x \<noteq> p) (map snd (mmap_range m l)))
      @ filter (\<lambda>e. m < fst e) l"
    by (simp add: ModelPortList_remove_def remove_loop_spec)
  obtain a q where "e = (a, q)" by force
  then show ?thesis
    by (cases a m rule: linorder_cases) (simp_all add: l' count_list_filter count_list_Pair count_list_range)
qed

lemma count_ModelPortList_erase:
  "count_list (ModelPortList_erase m l) e = (if fst e = m then 0 else count_list l e)"
  by (induction l) (auto simp: ModelPortList_erase_def mmap_erase_def)

lemma count_ModelPortList_merge:
  "count_list (ModelPortList_merge es l) e = count_list es e + count_list l e"
  by (induction es l rule: ModelPortList_merge.induct) (auto simp: count_ModelPortList_add)

lemma ModelPortList_exist_iff: "ModelPortList_exist m p l \<longleftrightarrow> (m, p) \<in> set l"
  by (force simp: ModelPortList_exist_def mmap_range_def list_ex_iff)

lemma sorted_ModelPortList_remove:
  assumes "sorted (map fst l)" "ModelPortList_remove (Some m) p l = Inr l'"
  shows "sorted (map fst l')"
proof -
  have "l' = filter (\<lambda>e. fst e < m) l
      @ map (Pair m) (filter (\<lambda>x. x \<noteq> p) (map snd (mmap_range m l)))
      @ filter (\<lambda>e. m < fst e) l"
    using assms(2) by (simp add: ModelPortList_remove_def remove_loop_spec)
  moreover have "sorted (map fst (filter P l))" for P
    using assms(1) by (rule sorted_filter)
  ultimately show ?thesis
    using sorted_Pair [of m "filter (\<lambda>x. x \<noteq> p) (map snd (mmap_range m l))"]
    by (auto simp: sorted_append)
qed

text \<open>
  C11. \<^verbatim>\<open>ModelPortList::remove\<close>, whose loop erases behind a trailing iterator, ends, removes every
  entry of the given model and port, however often it was added, and nothing else, and keeps the
  order of the multimap.
\<close>

theorem ModelPortList_remove_spec:
  assumes "sorted (map fst l)"
  shows "\<exists>l'. ModelPortList_remove (Some m) p l = Inr l' \<and> l' = filter (\<lambda>e. e \<noteq> (m, p)) l
           \<and> sorted (map fst l') \<and> \<not> ModelPortList_exist m p l'"
proof -
  obtain l' where l': "ModelPortList_remove (Some m) p l = Inr l'"
    by (simp add: ModelPortList_remove_def)
  then have eq: "l' = filter (\<lambda>e. fst e < m) l
      @ map (Pair m) (filter (\<lambda>x. x \<noteq> p) (map snd (mmap_range m l)))
      @ filter (\<lambda>e. m < fst e) l"
    by (simp add: ModelPortList_remove_def remove_loop_spec)
  have "l' = filter (\<lambda>e. e \<noteq> (m, p)) l"
    unfolding eq mmap_range_def using assms
  proof (induction l)
    case (Cons e l)
    obtain a q where e: "e = (a, q)" by force
    have above: "\<forall>x \<in> set l. a \<le> fst x" using Cons.prems by (auto simp: e)
    have none: "filter (\<lambda>e. fst e < m) l = []" if "m \<le> a" using above that by (auto simp: filter_empty_conv)
    have nor: "filter (\<lambda>e. fst e = m) l = []" if "m < a" using above that by (auto simp: filter_empty_conv)
    show ?case using Cons e none nor by (cases a m rule: linorder_cases) auto
  qed simp
  moreover have "sorted (map fst l')" using assms l' by (rule sorted_ModelPortList_remove)
  ultimately show ?thesis using l' by (simp add: ModelPortList_exist_iff)
qed

theorem ModelPortList_remove_spec_witness:
  "\<exists>l'. ModelPortList_remove (Some 2) ''in'' [(1, ''x''), (2, ''in''), (2, ''a''), (2, ''in''), (3, ''in'')] = Inr l'
     \<and> l' = [(1, ''x''), (2, ''a''), (3, ''in'')] \<and> sorted (map fst l') \<and> \<not> ModelPortList_exist 2 ''in'' l'"
  using ModelPortList_remove_spec [of "[(1, ''x''), (2, ''in''), (2, ''a''), (2, ''in''), (3, ''in'')]" 2 "''in''"]
  by simp

end
