(* ===== verification/Model_Graph.thy ===== *)
theory Model_Graph
  imports Model_Ports
begin

text \<open>
  The graph of models of \<^verbatim>\<open>vpz/BaseModel.cpp\<close>, \<^verbatim>\<open>vpz/AtomicModel.cpp\<close> and \<^verbatim>\<open>vpz/CoupledModel.cpp\<close>:
  objects, ports, connections and the tree of coupled models. A \<^verbatim>\<open>BaseModel*\<close> is an address of the
  store, or none for the null pointer; following an address that holds no object is undefined
  behaviour. Procedures keep the order of the statements of the code, so that what was written
  before an exception is in the store the exception leaves.
\<close>

section \<open>Objects\<close>

record atomic_data =
  m_conditions :: "string list"
  m_dynamics :: string
  m_observables :: string
  m_debug :: bool

record coupled_data =
  m_modelList :: model_list
  m_internalInputList :: connection_list
  m_internalOutputList :: connection_list
  m_srcConnections :: "addr list"
  m_dstConnections :: "addr list"

datatype model_kind = Atomic atomic_data | Coupled coupled_data

record base_model =
  m_parent :: "addr option"
  m_inPortList :: connection_list
  m_outPortList :: connection_list
  m_x :: int
  m_y :: int
  m_width :: int
  m_height :: int
  m_name :: string
  m_kind :: model_kind

type_synonym graph = "addr \<Rightarrow> base_model option"
type_synonym 'a gproc = "(graph, 'a) proc"

definition isAtomic :: "base_model \<Rightarrow> bool" where
  "isAtomic n = (case m_kind n of Atomic _ \<Rightarrow> True | Coupled _ \<Rightarrow> False)"

definition isCoupled :: "base_model \<Rightarrow> bool" where
  "isCoupled n = (case m_kind n of Atomic _ \<Rightarrow> False | Coupled _ \<Rightarrow> True)"

definition deref :: "addr \<Rightarrow> base_model gproc" where
  "deref a s = (case s a of None \<Rightarrow> Exn (UndefinedBehaviour ''dangling pointer'') s | Some n \<Rightarrow> Ret n s)"

definition deref_coupled :: "addr \<Rightarrow> coupled_data gproc" where
  "deref_coupled a = bindS (deref a) (\<lambda>n. case m_kind n of
     Atomic _ \<Rightarrow> throwS (UndefinedBehaviour ''not a coupled model'') | Coupled c \<Rightarrow> retS c)"

definition modify :: "addr \<Rightarrow> (base_model \<Rightarrow> base_model) \<Rightarrow> unit gproc" where
  "modify a f = bindS (deref a) (\<lambda>n s. Ret () (s(a \<mapsto> f n)))"

definition modify_coupled :: "addr \<Rightarrow> (coupled_data \<Rightarrow> coupled_data) \<Rightarrow> unit gproc" where
  "modify_coupled a f = bindS (deref_coupled a) (\<lambda>c. modify a (m_kind_update (\<lambda>_. Coupled (f c))))"

definition getName :: "addr \<Rightarrow> string gproc" where
  "getName a = bindS (deref a) (\<lambda>n. retS (m_name n))"

definition getParent :: "addr \<Rightarrow> addr option gproc" where
  "getParent a = bindS (deref a) (\<lambda>n. retS (m_parent n))"

definition setParent :: "addr \<Rightarrow> addr option \<Rightarrow> unit gproc" where
  "setParent a cp = modify a (m_parent_update (\<lambda>_. cp))"

definition getModelList :: "addr \<Rightarrow> model_list gproc" where
  "getModelList a = bindS (deref_coupled a) (\<lambda>c. retS (m_modelList c))"

section \<open>The four connection lists\<close>

datatype side = In | Out | IntIn | IntOut

definition node_conns :: "side \<Rightarrow> base_model \<Rightarrow> connection_list option" where
  "node_conns d n = (case d of
     In \<Rightarrow> Some (m_inPortList n)
   | Out \<Rightarrow> Some (m_outPortList n)
   | IntIn \<Rightarrow> (case m_kind n of Atomic _ \<Rightarrow> None | Coupled c \<Rightarrow> Some (m_internalInputList c))
   | IntOut \<Rightarrow> (case m_kind n of Atomic _ \<Rightarrow> None | Coupled c \<Rightarrow> Some (m_internalOutputList c)))"

definition set_node_conns :: "side \<Rightarrow> connection_list \<Rightarrow> base_model \<Rightarrow> base_model" where
  "set_node_conns d l n = (case d of
     In \<Rightarrow> n\<lparr>m_inPortList := l\<rparr>
   | Out \<Rightarrow> n\<lparr>m_outPortList := l\<rparr>
   | IntIn \<Rightarrow> (case m_kind n of Atomic _ \<Rightarrow> n | Coupled c \<Rightarrow> n\<lparr>m_kind := Coupled (c\<lparr>m_internalInputList := l\<rparr>)\<rparr>)
   | IntOut \<Rightarrow> (case m_kind n of Atomic _ \<Rightarrow> n | Coupled c \<Rightarrow> n\<lparr>m_kind := Coupled (c\<lparr>m_internalOutputList := l\<rparr>)\<rparr>))"

text \<open>
  \<^verbatim>\<open>getInputPortList\<close>, \<^verbatim>\<open>getOutputPortList\<close>, \<^verbatim>\<open>getInternalInputPortList\<close>,
  \<^verbatim>\<open>getInternalOutputPortList\<close> return references; \<open>getPortList\<close> reads one, \<open>putPortList\<close> writes it.
\<close>

definition getPortList :: "side \<Rightarrow> addr \<Rightarrow> connection_list gproc" where
  "getPortList d a = bindS (deref a) (\<lambda>n. case node_conns d n of
     None \<Rightarrow> throwS (UndefinedBehaviour ''not a coupled model'') | Some l \<Rightarrow> retS l)"

definition putPortList :: "side \<Rightarrow> addr \<Rightarrow> connection_list \<Rightarrow> unit gproc" where
  "putPortList d a l = modify a (set_node_conns d l)"

text \<open>Assignment through a reference to the mapped value of a key that is present.\<close>

definition ref_set :: "'k \<Rightarrow> 'v \<Rightarrow> ('k \<times> 'v) list \<Rightarrow> ('k \<times> 'v) list" where
  "ref_set k v m = map (\<lambda>e. if fst e = k then (k, v) else e) m"

definition getPort :: "side \<Rightarrow> addr \<Rightarrow> string \<Rightarrow> port_list gproc" where
  "getPort d a name = bindS (getPortList d a) (\<lambda>l. case map_of l name of
     None \<Rightarrow> throwS (DevsGraphError (case d of
         In \<Rightarrow> ''Model have no input port'' | Out \<Rightarrow> ''Model have no output port''
       | IntIn \<Rightarrow> ''Coupled model have no input port'' | IntOut \<Rightarrow> ''Coupled model have no output port''))
   | Some p \<Rightarrow> retS p)"

definition getInPort :: "addr \<Rightarrow> string \<Rightarrow> port_list gproc" where
  "getInPort = getPort In"

definition getOutPort :: "addr \<Rightarrow> string \<Rightarrow> port_list gproc" where
  "getOutPort = getPort Out"

definition getInternalInPort :: "addr \<Rightarrow> string \<Rightarrow> port_list gproc" where
  "getInternalInPort = getPort IntIn"

definition getInternalOutPort :: "addr \<Rightarrow> string \<Rightarrow> port_list gproc" where
  "getInternalOutPort = getPort IntOut"

text \<open>
  A statement that obtains the reference with one of the four getters and calls an operation of
  \<^verbatim>\<open>ModelPortList\<close> on it.
\<close>

definition onPort :: "side \<Rightarrow> addr \<Rightarrow> string \<Rightarrow> (port_list \<Rightarrow> port_list result) \<Rightarrow> unit gproc" where
  "onPort d a name f =
     bindS (getPort d a name) (\<lambda>p.
     bindS (liftS (f p)) (\<lambda>p'.
     bindS (getPortList d a) (\<lambda>l. putPortList d a (ref_set name p' l))))"

abbreviation port_add :: "side \<Rightarrow> addr \<Rightarrow> string \<Rightarrow> addr \<Rightarrow> string \<Rightarrow> unit gproc" where
  "port_add d a name b port \<equiv> onPort d a name (ModelPortList_add (Some b) port)"

abbreviation port_remove :: "side \<Rightarrow> addr \<Rightarrow> string \<Rightarrow> addr \<Rightarrow> string \<Rightarrow> unit gproc" where
  "port_remove d a name b port \<equiv> onPort d a name (ModelPortList_remove (Some b) port)"

abbreviation port_erase :: "side \<Rightarrow> addr \<Rightarrow> string \<Rightarrow> addr \<Rightarrow> unit gproc" where
  "port_erase d a name b \<equiv> onPort d a name (\<lambda>l. Inr (ModelPortList_erase b l))"

abbreviation port_clear :: "side \<Rightarrow> addr \<Rightarrow> string \<Rightarrow> unit gproc" where
  "port_clear d a name \<equiv> onPort d a name (\<lambda>_. Inr [])"

definition existPort :: "side \<Rightarrow> addr \<Rightarrow> string \<Rightarrow> bool gproc" where
  "existPort d a name = bindS (getPortList d a) (\<lambda>l. retS (map_of l name \<noteq> None))"

definition existInputPort :: "addr \<Rightarrow> string \<Rightarrow> bool gproc" where
  "existInputPort = existPort In"

definition existOutputPort :: "addr \<Rightarrow> string \<Rightarrow> bool gproc" where
  "existOutputPort = existPort Out"

definition existInternalInputPort :: "addr \<Rightarrow> string \<Rightarrow> bool gproc" where
  "existInternalInputPort = existPort IntIn"

definition existInternalOutputPort :: "addr \<Rightarrow> string \<Rightarrow> bool gproc" where
  "existInternalOutputPort = existPort IntOut"

text \<open>\<^verbatim>\<open>addInputPort\<close> and \<^verbatim>\<open>addOutputPort\<close> return a reference; the model leaves it to the caller.\<close>

definition addPort :: "side \<Rightarrow> side \<Rightarrow> addr \<Rightarrow> string \<Rightarrow> unit gproc" where
  "addPort d i a name =
     bindS (getPortList d a) (\<lambda>l.
     case map_of l name of
       None \<Rightarrow>
         bindS (deref a) (\<lambda>n.
         thenS (if isCoupled n
                then bindS (getPortList i a) (\<lambda>k. putPortList i a (smap_insert name [] k))
                else retS ())
           (putPortList d a (smap_insert name [] l)))
     | Some _ \<Rightarrow> retS ())"

definition addInputPort :: "addr \<Rightarrow> string \<Rightarrow> unit gproc" where
  "addInputPort = addPort In IntIn"

definition addOutputPort :: "addr \<Rightarrow> string \<Rightarrow> unit gproc" where
  "addOutputPort = addPort Out IntOut"

definition addInputPorts :: "addr \<Rightarrow> string list \<Rightarrow> unit gproc" where
  "addInputPorts a lst = forS (addInputPort a) lst"

definition addOutputPorts :: "addr \<Rightarrow> string list \<Rightarrow> unit gproc" where
  "addOutputPorts a lst = forS (addOutputPort a) lst"

text \<open>
  \<^verbatim>\<open>delInputPort\<close> and \<^verbatim>\<open>delOutputPort\<close>. The loops visit the entries of a port list of this model and
  write to port lists of the other side, so that visiting the entries as they are at the start of
  the loop is what the iterators do.
\<close>

definition delPort :: "side \<Rightarrow> side \<Rightarrow> side \<Rightarrow> addr \<Rightarrow> string \<Rightarrow> unit gproc" where
  "delPort d other i a name =
     bindS (getPort d a name) (\<lambda>lst.
     bindS (getParent a) (\<lambda>parent.
     thenS (forS (\<lambda>elem.
              if Some (fst elem) \<noteq> parent then port_erase other (fst elem) (snd elem) a
              else port_erase i (fst elem) (snd elem) a) lst)
     (bindS (deref a) (\<lambda>n.
      thenS (if isCoupled n
             then bindS (getPort i a name) (\<lambda>intern.
                  thenS (forS (\<lambda>jt. port_erase d (fst jt) (snd jt) a) intern) (port_clear i a name))
             else retS ())
      (thenS (port_clear d a name)
       (bindS (getPortList d a) (\<lambda>l. putPortList d a (smap_erase name l))))))))"

definition delInputPort :: "addr \<Rightarrow> string \<Rightarrow> unit gproc" where
  "delInputPort = delPort In Out IntIn"

definition delOutputPort :: "addr \<Rightarrow> string \<Rightarrow> unit gproc" where
  "delOutputPort = delPort Out In IntOut"

text \<open>\<^verbatim>\<open>addInPort\<close> and \<^verbatim>\<open>addOutPort\<close>, and the two renamings that use them.\<close>

definition addEnds :: "side \<Rightarrow> side \<Rightarrow> side \<Rightarrow> addr \<Rightarrow> port_list \<Rightarrow> port_list \<Rightarrow> string \<Rightarrow> unit gproc" where
  "addEnds d other i a lst intern name =
     bindS (getParent a) (\<lambda>parent.
     thenS (forS (\<lambda>elem.
              if Some (fst elem) \<noteq> parent then port_add other (fst elem) (snd elem) a name
              else port_add i (fst elem) (snd elem) a name) lst)
     (bindS (deref a) (\<lambda>n.
        if isCoupled n then forS (\<lambda>jt. port_add d (fst jt) (snd jt) a name) intern else retS ())))"

definition addInPort :: "addr \<Rightarrow> port_list \<Rightarrow> port_list \<Rightarrow> string \<Rightarrow> unit gproc" where
  "addInPort = addEnds In Out IntIn"

definition addOutPort :: "addr \<Rightarrow> port_list \<Rightarrow> port_list \<Rightarrow> string \<Rightarrow> unit gproc" where
  "addOutPort = addEnds Out In IntOut"

definition renamePort :: "side \<Rightarrow> side \<Rightarrow> side \<Rightarrow> addr \<Rightarrow> string \<Rightarrow> string \<Rightarrow> unit gproc" where
  "renamePort d other i a old_name new_name =
     bindS (getPortList d a) (\<lambda>l.
     case map_of l old_name of
       None \<Rightarrow> throwS (UndefinedBehaviour ''end iterator of the port list'')
     | Some connect \<Rightarrow>
         bindS (deref a) (\<lambda>n.
         bindS (if isCoupled n then getPort i a old_name else retS []) (\<lambda>internalConnect.
         thenS (delPort d other i a old_name)
         (bindS (getPortList d a) (\<lambda>l'.
          case map_of l' new_name of
            None \<Rightarrow>
              thenS (if isCoupled n
                     then bindS (getPortList i a) (\<lambda>k. putPortList i a (smap_insert new_name internalConnect k))
                     else retS ())
              (thenS (addEnds d other i a connect internalConnect new_name)
               (bindS (getPortList d a) (\<lambda>l''. putPortList d a (smap_insert new_name connect l''))))
          | Some _ \<Rightarrow> retS ())))))"

definition renameInputPort :: "addr \<Rightarrow> string \<Rightarrow> string \<Rightarrow> unit gproc" where
  "renameInputPort = renamePort In Out IntIn"

definition renameOutputPort :: "addr \<Rightarrow> string \<Rightarrow> string \<Rightarrow> unit gproc" where
  "renameOutputPort = renamePort Out In IntOut"

text \<open>\<^verbatim>\<open>getInputPortIndex\<close> and \<^verbatim>\<open>getOutputPortIndex\<close>: the position of the port in the map.\<close>

fun distance_to :: "'k \<Rightarrow> ('k \<times> 'v) list \<Rightarrow> nat option" where
  "distance_to k [] = None"
| "distance_to k (e # m) = (if fst e = k then Some 0 else map_option Suc (distance_to k m))"

definition numeric_cast_int :: "nat \<Rightarrow> int result" where
  "numeric_cast_int n = (if n < 2 ^ 31 then Inr (int n) else Inl NumericCastError)"

definition getPortIndex :: "side \<Rightarrow> string \<Rightarrow> addr \<Rightarrow> string \<Rightarrow> int gproc" where
  "getPortIndex d msg a name = bindS (getPortList d a) (\<lambda>l. case distance_to name l of
     None \<Rightarrow> throwS (DevsGraphError msg) | Some i \<Rightarrow> liftS (numeric_cast_int i))"

definition getInputPortIndex :: "addr \<Rightarrow> string \<Rightarrow> int gproc" where
  "getInputPortIndex = getPortIndex In ''Input port not exist in model''"

definition getOutputPortIndex :: "addr \<Rightarrow> string \<Rightarrow> int gproc" where
  "getOutputPortIndex = getPortIndex Out ''Output port not exist in model''"

end
