(* ===== verification/Coupled_Model.thy ===== *)
theory Coupled_Model
  imports Model_Graph
begin

text \<open>
  The operations of \<^verbatim>\<open>vpz/CoupledModel.cpp\<close> and the parts of \<^verbatim>\<open>vpz/BaseModel.cpp\<close> that work on the
  tree of models: connections, sub-models, renaming, moving models to another coupled model.
  \<open>this\<close> is the address of the coupled model whose method is called. A constructor gets the address
  of the object it builds as an argument.
\<close>

section \<open>Looking up models\<close>

definition exist :: "addr \<Rightarrow> string \<Rightarrow> bool gproc" where
  "exist this name = bindS (getModelList this) (\<lambda>ml. retS (map_of ml name \<noteq> None))"

definition CoupledModel_findModel :: "addr \<Rightarrow> string \<Rightarrow> addr option gproc" where
  "CoupledModel_findModel this name = bindS (getModelList this) (\<lambda>ml. retS (map_of ml name))"

definition AtomicModel_findModel :: "addr \<Rightarrow> string \<Rightarrow> addr option gproc" where
  "AtomicModel_findModel this name =
     bindS (getName this) (\<lambda>n. retS (if n = name then Some this else None))"

definition findModel :: "addr \<Rightarrow> string \<Rightarrow> addr option gproc" where
  "findModel this name = bindS (deref this) (\<lambda>n.
     if isAtomic n then AtomicModel_findModel this name else CoupledModel_findModel this name)"

text \<open>\<^verbatim>\<open>boost::split\<close> at the commas: always at least one piece.\<close>

fun split_commas :: "string \<Rightarrow> string list" where
  "split_commas [] = [[]]"
| "split_commas (c # cs) =
     (if c = CHR '','' then [] # split_commas cs
      else (case split_commas cs of [] \<Rightarrow> [[c]] | w # ws \<Rightarrow> (c # w) # ws))"

fun follow_path :: "addr \<Rightarrow> string list \<Rightarrow> addr option gproc" where
  "follow_path cur [] = retS (Some cur)"
| "follow_path cur (w # ws) = bindS (deref cur) (\<lambda>n.
     if isAtomic n then retS None
     else bindS (getModelList cur) (\<lambda>ml. case map_of ml w of
            None \<Rightarrow> retS None | Some next \<Rightarrow> follow_path next ws))"

definition findModelFromPath :: "addr \<Rightarrow> string \<Rightarrow> addr option gproc" where
  "findModelFromPath this path = follow_path this (split_commas path)"

fun getModel_walk :: "addr \<Rightarrow> addr list \<Rightarrow> addr gproc" where
  "getModel_walk cpl [] = retS cpl"
| "getModel_walk cpl (other # rest) =
     bindS (getName other) (\<lambda>name.
     bindS (CoupledModel_findModel cpl name) (\<lambda>tmp. case tmp of
       None \<Rightarrow> throwS (DevsGraphError ''Model not found'')
     | Some t \<Rightarrow> bindS (deref t) (\<lambda>n.
         if \<not> isCoupled n then throwS (DevsGraphError ''Model is not a coupled model'')
         else if m_name n \<noteq> name then throwS (DevsGraphError ''Model have not the same parent'')
         else getModel_walk t rest)))"

definition BaseModel_getModel :: "addr \<Rightarrow> addr list \<Rightarrow> string \<Rightarrow> addr option gproc" where
  "BaseModel_getModel this lst name = (case rev lst of
     [] \<Rightarrow> findModel this name
   | other # rest \<Rightarrow> bindS (deref this) (\<lambda>n.
       if \<not> isCoupled n then throwS (DevsGraphError ''Bad use of getModel from a list'')
       else bindS (getName other) (\<lambda>oname.
         if oname \<noteq> m_name n then throwS (DevsGraphError ''Get model have not the same name'')
         else bindS (getModel_walk this rest) (\<lambda>t. CoupledModel_findModel t name))))"

section \<open>Sub-models\<close>

definition addModel :: "addr \<Rightarrow> addr \<Rightarrow> unit gproc" where
  "addModel this model =
     bindS (getName model) (\<lambda>name.
     bindS (exist this name) (\<lambda>e.
     if e then throwS (DevsGraphError ''Cannot add the model into the coupled model (it already exists)'')
     else thenS (setParent model (Some this))
            (modify_coupled this (m_modelList_update (smap_update name model)))))"

text \<open>\<^verbatim>\<open>BaseModel::rename\<close>, a static member that accepts a null pointer.\<close>

definition rename :: "addr option \<Rightarrow> string \<Rightarrow> unit gproc" where
  "rename mdl newname = (case mdl of
     None \<Rightarrow> throwS (DevsGraphError ''Cannot rename empty model'')
   | Some m \<Rightarrow> bindS (getParent m) (\<lambda>p. case p of
       None \<Rightarrow> modify m (m_name_update (\<lambda>_. newname))
     | Some parent \<Rightarrow>
         bindS (getName m) (\<lambda>oldname.
         bindS (getModelList parent) (\<lambda>ml.
         if map_of ml oldname = None then throwS (DevsGraphError ''Cannot rename a model without parent'')
         else if map_of ml newname \<noteq> None then throwS (DevsGraphError ''Coupled model already has submodel'')
         else thenS (modify m (m_name_update (\<lambda>_. newname)))
              (thenS (modify_coupled parent (m_modelList_update (smap_erase oldname)))
                (addModel parent m))))))"

definition addModel_named :: "addr \<Rightarrow> addr \<Rightarrow> string \<Rightarrow> unit gproc" where
  "addModel_named this model name =
     bindS (exist this name) (\<lambda>e.
     if e then throwS (DevsGraphError ''Cannot add the model into the coupled model (it already exists)'')
     else thenS (rename (Some model) name)
            (thenS (setParent model (Some this)) (addModel this model)))"

definition BaseModel_new :: "addr \<Rightarrow> string \<Rightarrow> model_kind \<Rightarrow> addr option \<Rightarrow> unit gproc" where
  "BaseModel_new x name k parent =
     thenS (\<lambda>s. Ret () (s(x \<mapsto> \<lparr>m_parent = parent, m_inPortList = [], m_outPortList = [],
              m_x = -1, m_y = -1, m_width = -1, m_height = -1, m_name = name, m_kind = k\<rparr>)))
       (case parent of None \<Rightarrow> retS () | Some p \<Rightarrow> addModel p x)"

definition atomic_init :: atomic_data where
  "atomic_init = \<lparr>m_conditions = [], m_dynamics = [], m_observables = [], m_debug = False\<rparr>"

definition coupled_init :: coupled_data where
  "coupled_init = \<lparr>m_modelList = [], m_internalInputList = [], m_internalOutputList = [],
                   m_srcConnections = [], m_dstConnections = []\<rparr>"

definition AtomicModel_new :: "addr \<Rightarrow> string \<Rightarrow> addr option \<Rightarrow> unit gproc" where
  "AtomicModel_new x name parent = BaseModel_new x name (Atomic atomic_init) parent"

definition CoupledModel_new :: "addr \<Rightarrow> string \<Rightarrow> addr option \<Rightarrow> unit gproc" where
  "CoupledModel_new x name parent = BaseModel_new x name (Coupled coupled_init) parent"

definition addAtomicModel :: "addr \<Rightarrow> addr \<Rightarrow> string \<Rightarrow> addr gproc" where
  "addAtomicModel this x name =
     bindS (exist this name) (\<lambda>e.
     if e then throwS (DevsGraphError ''Cannot add the model into the coupled model (it already exists)'')
     else thenS (AtomicModel_new x name (Some this))
            (thenS (modify_coupled this (m_modelList_update (smap_update name x))) (retS x)))"

definition addCoupledModel :: "addr \<Rightarrow> addr \<Rightarrow> string \<Rightarrow> addr gproc" where
  "addCoupledModel this x name =
     bindS (exist this name) (\<lambda>e.
     if e then throwS (DevsGraphError ''Cannot add the model into the coupled model (it already exists)'')
     else thenS (CoupledModel_new x name (Some this))
            (thenS (modify_coupled this (m_modelList_update (smap_update name x))) (retS x)))"

definition detachModel :: "addr \<Rightarrow> addr \<Rightarrow> unit gproc" where
  "detachModel this model =
     bindS (getName model) (\<lambda>name.
     bindS (getModelList this) (\<lambda>ml. case map_of ml name of
       Some m \<Rightarrow> thenS (setParent m None) (modify_coupled this (m_modelList_update (smap_erase name)))
     | None \<Rightarrow> throwS (DevsGraphError ''Model is not attached to the coupled model'')))"

definition attachModel :: "addr \<Rightarrow> addr \<Rightarrow> unit gproc" where
  "attachModel this model =
     bindS (getName model) (\<lambda>name.
     bindS (exist this name) (\<lambda>e.
     if e then throwS (DevsGraphError ''Cannot attach an already attached model'')
     else bindS (getParent model) (\<lambda>p.
       thenS (case p of None \<Rightarrow> retS () | Some parent \<Rightarrow> detachModel parent model)
        (bindS (getName model) (\<lambda>name'.
         thenS (modify_coupled this (m_modelList_update (smap_update name' model)))
           (setParent model (Some this)))))))"

definition detachModels :: "addr \<Rightarrow> model_list \<Rightarrow> unit gproc" where
  "detachModels this models = forS (\<lambda>e. detachModel this (snd e)) models"

definition attachModels :: "addr \<Rightarrow> model_list \<Rightarrow> unit gproc" where
  "attachModels this models = forS (\<lambda>e. attachModel this (snd e)) models"

section \<open>Connections\<close>

definition addInputConnection :: "addr \<Rightarrow> string \<Rightarrow> addr option \<Rightarrow> string \<Rightarrow> unit gproc" where
  "addInputConnection this portSrc dst portDst = (case dst of
     None \<Rightarrow> throwS (DevsGraphError ''Can not add input connection with unknown destination'')
   | Some d \<Rightarrow>
       if d = this then throwS (DevsGraphError ''Can not add input connection if destination is this coupled model'')
       else thenS (port_add IntIn this portSrc d portDst) (port_add In d portDst this portSrc))"

definition addOutputConnection :: "addr \<Rightarrow> addr option \<Rightarrow> string \<Rightarrow> string \<Rightarrow> unit gproc" where
  "addOutputConnection this src portSrc portDst = (case src of
     None \<Rightarrow> throwS (DevsGraphError ''Can not add output connection with unknown origin'')
   | Some a \<Rightarrow>
       if a = this then throwS (DevsGraphError ''Can not add output connection if source is this coupled model'')
       else thenS (port_add Out a portSrc this portDst) (port_add IntOut this portDst a portSrc))"

definition addInternalConnection ::
    "addr \<Rightarrow> addr option \<Rightarrow> string \<Rightarrow> addr option \<Rightarrow> string \<Rightarrow> unit gproc" where
  "addInternalConnection this src portSrc dst portDst = (case (src, dst) of
     (None, _) \<Rightarrow> throwS (DevsGraphError ''Cannot add internal connection with unknown origin'')
   | (Some a, None) \<Rightarrow> throwS (DevsGraphError ''Cannot add internal connection with unknown destination'')
   | (Some a, Some d) \<Rightarrow>
       if a = this then throwS (DevsGraphError ''Cannot add internal connection if source is this coupled model'')
       else if d = this then throwS (DevsGraphError ''Cannot add internal connection if destination is this coupled model'')
       else thenS (port_add Out a portSrc d portDst) (port_add In d portDst a portSrc))"

definition addInputConnection_named :: "addr \<Rightarrow> string \<Rightarrow> string \<Rightarrow> string \<Rightarrow> unit gproc" where
  "addInputConnection_named this portSrc dst portDst =
     bindS (CoupledModel_findModel this dst) (\<lambda>d. addInputConnection this portSrc d portDst)"

definition addOutputConnection_named :: "addr \<Rightarrow> string \<Rightarrow> string \<Rightarrow> string \<Rightarrow> unit gproc" where
  "addOutputConnection_named this src portSrc portDst =
     bindS (CoupledModel_findModel this src) (\<lambda>a. addOutputConnection this a portSrc portDst)"

definition addInternalConnection_named ::
    "addr \<Rightarrow> string \<Rightarrow> string \<Rightarrow> string \<Rightarrow> string \<Rightarrow> unit gproc" where
  "addInternalConnection_named this src portSrc dst portDst =
     bindS (CoupledModel_findModel this src) (\<lambda>a.
     bindS (CoupledModel_findModel this dst) (\<lambda>d. addInternalConnection this a portSrc d portDst))"

text \<open>
  Whether a connection exists is asked from both ends. \<open>both_ends\<close> is the part the three queries
  share: the two ports exist and each names the other.
\<close>

definition both_ends :: "side \<Rightarrow> addr \<Rightarrow> string \<Rightarrow> side \<Rightarrow> addr \<Rightarrow> string \<Rightarrow> bool gproc" where
  "both_ends d a p e b q =
     bindS (getPort d a p) (\<lambda>mp_src. bindS (getPort e b q) (\<lambda>mp_dst.
       retS (ModelPortList_exist b q mp_src \<and> ModelPortList_exist a p mp_dst)))"

definition existInputConnection :: "addr \<Rightarrow> string \<Rightarrow> string \<Rightarrow> string \<Rightarrow> bool gproc" where
  "existInputConnection this portsrc dst portdst =
     bindS (CoupledModel_findModel this dst) (\<lambda>m. case m of None \<Rightarrow> retS False | Some mdst \<Rightarrow>
     bindS (existInputPort mdst portdst) (\<lambda>b. if \<not> b then retS False else
     bindS (existInternalInputPort this portsrc) (\<lambda>b. if \<not> b then retS False else
     both_ends IntIn this portsrc In mdst portdst)))"

definition existOutputConnection :: "addr \<Rightarrow> string \<Rightarrow> string \<Rightarrow> string \<Rightarrow> bool gproc" where
  "existOutputConnection this src portsrc portdst =
     bindS (CoupledModel_findModel this src) (\<lambda>m. case m of None \<Rightarrow> retS False | Some msrc \<Rightarrow>
     bindS (existOutputPort msrc portsrc) (\<lambda>b. if \<not> b then retS False else
     bindS (existInternalOutputPort this portdst) (\<lambda>b. if \<not> b then retS False else
     both_ends Out msrc portsrc IntOut this portdst)))"

definition existInternalConnection ::
    "addr \<Rightarrow> string \<Rightarrow> string \<Rightarrow> string \<Rightarrow> string \<Rightarrow> bool gproc" where
  "existInternalConnection this src portsrc dst portdst =
     bindS (CoupledModel_findModel this src) (\<lambda>m.
     bindS (CoupledModel_findModel this dst) (\<lambda>m'. case (m, m') of
       (Some msrc, Some mdst) \<Rightarrow>
         bindS (existOutputPort msrc portsrc) (\<lambda>b. if \<not> b then retS False else
         bindS (existInputPort mdst portdst) (\<lambda>b. if \<not> b then retS False else
         both_ends Out msrc portsrc In mdst portdst))
     | _ \<Rightarrow> retS False))"

text \<open>
  The counting queries. \<^verbatim>\<open>nbInputConnection\<close> returns from its last guard, the counting loop behind
  it is never reached; the other two count the entries of the source port.
\<close>

definition nbInputConnection :: "addr \<Rightarrow> string \<Rightarrow> string \<Rightarrow> string \<Rightarrow> int gproc" where
  "nbInputConnection this portsrc dst portdst =
     bindS (existInputConnection this portsrc dst portdst) (\<lambda>b. retS (if b then 1 else 0))"

definition count_entries :: "addr \<Rightarrow> string \<Rightarrow> port_list \<Rightarrow> int" where
  "count_entries b q l = int (length (filter (\<lambda>e. fst e = b \<and> snd e = q) l))"

definition nbOutputConnection :: "addr \<Rightarrow> string \<Rightarrow> string \<Rightarrow> string \<Rightarrow> int gproc" where
  "nbOutputConnection this src portsrc portdst =
     bindS (existOutputConnection this src portsrc portdst) (\<lambda>b. if \<not> b then retS 0 else
     bindS (CoupledModel_findModel this src) (\<lambda>m.
     bindS (getOutPort (the m) portsrc) (\<lambda>l. retS (count_entries this portdst l))))"

definition nbInternalConnection ::
    "addr \<Rightarrow> string \<Rightarrow> string \<Rightarrow> string \<Rightarrow> string \<Rightarrow> int gproc" where
  "nbInternalConnection this src portsrc dst portdst =
     bindS (existInternalConnection this src portsrc dst portdst) (\<lambda>b. if \<not> b then retS 0 else
     bindS (CoupledModel_findModel this src) (\<lambda>m.
     bindS (CoupledModel_findModel this dst) (\<lambda>m'.
     bindS (getOutPort (the m) portsrc) (\<lambda>l. retS (count_entries (the m') portdst l)))))"

text \<open>\<^verbatim>\<open>delConnection\<close>, private and without callers: both ends are looked up among the output ports.\<close>

definition delConnection :: "addr option \<Rightarrow> string \<Rightarrow> addr option \<Rightarrow> string \<Rightarrow> unit gproc" where
  "delConnection src portSrc dst portDst = (case dst of
     None \<Rightarrow> throwS (DevsGraphError ''Cannot delete connection with unknown destination'')
   | Some d \<Rightarrow> (case src of
       None \<Rightarrow> throwS (UndefinedBehaviour ''null source'')
     | Some a \<Rightarrow> thenS (port_remove Out a portSrc d portDst) (port_remove Out d portDst a portSrc)))"

definition delInputConnection :: "addr \<Rightarrow> string \<Rightarrow> addr option \<Rightarrow> string \<Rightarrow> unit gproc" where
  "delInputConnection this portSrc dst portDst = (case dst of
     None \<Rightarrow> throwS (DevsGraphError ''Cannot delete input connection with unknown destination'')
   | Some d \<Rightarrow>
       if d = this then throwS (DevsGraphError ''Cannot delete input connection if destination is coupled model'')
       else thenS (port_remove IntIn this portSrc d portDst) (port_remove In d portDst this portSrc))"

definition delOutputConnection :: "addr \<Rightarrow> addr option \<Rightarrow> string \<Rightarrow> string \<Rightarrow> unit gproc" where
  "delOutputConnection this src portSrc portDst = (case src of
     None \<Rightarrow> throwS (DevsGraphError ''Cannot delete output connection with unknown source'')
   | Some a \<Rightarrow>
       if a = this then throwS (DevsGraphError ''Cannot delete output connection if source is coupled model'')
       else thenS (port_remove Out a portSrc this portDst) (port_remove IntOut this portDst a portSrc))"

definition delInternalConnection ::
    "addr \<Rightarrow> addr option \<Rightarrow> string \<Rightarrow> addr option \<Rightarrow> string \<Rightarrow> unit gproc" where
  "delInternalConnection this src portSrc dst portDst = (case src of
     None \<Rightarrow> throwS (DevsGraphError ''Cannot delete internal connection with unknown source'')
   | Some a \<Rightarrow>
       if a = this then throwS (DevsGraphError ''Cannot delete internal connection if source is coupled model'')
       else (case dst of
         None \<Rightarrow> throwS (DevsGraphError ''Cannot delete internal connection with unknown destination'')
       | Some d \<Rightarrow>
           if d = this then throwS (DevsGraphError ''Cannot delete internal connection if destination is coupled model'')
           else thenS (port_remove Out a portSrc d portDst) (port_remove In d portDst a portSrc)))"

definition delInputConnection_named :: "addr \<Rightarrow> string \<Rightarrow> string \<Rightarrow> string \<Rightarrow> unit gproc" where
  "delInputConnection_named this portSrc dst portDst =
     bindS (CoupledModel_findModel this dst) (\<lambda>d. delInputConnection this portSrc d portDst)"

definition delOutputConnection_named :: "addr \<Rightarrow> string \<Rightarrow> string \<Rightarrow> string \<Rightarrow> unit gproc" where
  "delOutputConnection_named this src portSrc portDst =
     bindS (CoupledModel_findModel this src) (\<lambda>a. delOutputConnection this a portSrc portDst)"

definition delInternalConnection_named ::
    "addr \<Rightarrow> string \<Rightarrow> string \<Rightarrow> string \<Rightarrow> string \<Rightarrow> unit gproc" where
  "delInternalConnection_named this src portSrc dst portDst =
     bindS (CoupledModel_findModel this src) (\<lambda>a.
     bindS (CoupledModel_findModel this dst) (\<lambda>d. delInternalConnection this a portSrc d portDst))"

text \<open>
  \<^verbatim>\<open>delAllConnection(m)\<close>: for every port of the model, the entries of the other ends that name this
  port are removed and the port is emptied. The first loop is over the input ports, the second over
  the output ports; the inner loops write only to lists of the opposite side.
\<close>

definition disconnect_port :: "addr \<Rightarrow> addr \<Rightarrow> side \<Rightarrow> side \<Rightarrow> side \<Rightarrow> string \<times> port_list \<Rightarrow> unit gproc" where
  "disconnect_port this m d other i it =
     thenS (forS (\<lambda>e. if fst e = this then port_remove i this (snd e) m (fst it)
                      else port_remove other (fst e) (snd e) m (fst it)) (snd it))
       (port_clear d m (fst it))"

definition delAllConnection :: "addr \<Rightarrow> addr option \<Rightarrow> unit gproc" where
  "delAllConnection this m = (case m of
     None \<Rightarrow> throwS (DevsGraphError ''Cannot delete all connection with an unknown model source'')
   | Some a \<Rightarrow>
       thenS (bindS (getPortList In a) (forS (disconnect_port this a In Out IntIn)))
         (bindS (getPortList Out a) (forS (disconnect_port this a Out In IntOut))))"

definition delAllConnections :: "addr \<Rightarrow> unit gproc" where
  "delAllConnections this =
     bindS (getModelList this) (forS (\<lambda>it. delAllConnection this (Some (snd it))))"

end
