(* ===== verification/Connections.thy ===== *)
theory Connections
  imports Coupled_Model
begin

text \<open>
  The invariant of the connections. A connection is stored twice, at both of its ends, in lists that
  are chosen by where the two models stand in the tree: \<open>linked\<close> says that the two copies agree, that
  connections only join siblings or a model and its parent, and that every operation that adds or
  removes connections keeps it.
\<close>

section \<open>Reading the store\<close>

definition has_port :: "graph \<Rightarrow> side \<Rightarrow> addr \<Rightarrow> string \<Rightarrow> bool" where
  "has_port s d a p = (case s a of None \<Rightarrow> False | Some n \<Rightarrow>
     (case node_conns d n of None \<Rightarrow> False | Some l \<Rightarrow> map_of l p \<noteq> None))"

definition ports :: "graph \<Rightarrow> side \<Rightarrow> addr \<Rightarrow> string \<Rightarrow> port_list" where
  "ports s d a p = (case s a of None \<Rightarrow> [] | Some n \<Rightarrow>
     (case node_conns d n of None \<Rightarrow> [] | Some l \<Rightarrow>
        (case map_of l p of None \<Rightarrow> [] | Some pl \<Rightarrow> pl)))"

text \<open>How often the end \<open>(b, q)\<close> is recorded at port \<open>p\<close> of \<open>a\<close>.\<close>

definition cnt :: "graph \<Rightarrow> side \<Rightarrow> addr \<Rightarrow> string \<Rightarrow> addr \<Rightarrow> string \<Rightarrow> nat" where
  "cnt s d a p b q = count_list (ports s d a p) (b, q)"

definition parent :: "graph \<Rightarrow> addr \<Rightarrow> addr option" where
  "parent s a = (case s a of None \<Rightarrow> None | Some n \<Rightarrow> m_parent n)"

definition models :: "graph \<Rightarrow> addr \<Rightarrow> model_list" where
  "models s a = (case s a of None \<Rightarrow> [] | Some n \<Rightarrow>
     (case m_kind n of Atomic _ \<Rightarrow> [] | Coupled c \<Rightarrow> m_modelList c))"

text \<open>Everything of an object but the contents of its port lists.\<close>

definition clear_conns :: "connection_list \<Rightarrow> connection_list" where
  "clear_conns l = map (\<lambda>e. (fst e, [])) l"

definition node_shape :: "base_model \<Rightarrow> base_model" where
  "node_shape n = n\<lparr>m_inPortList := clear_conns (m_inPortList n), m_outPortList := clear_conns (m_outPortList n),
     m_kind := (case m_kind n of Atomic x \<Rightarrow> Atomic x | Coupled c \<Rightarrow>
       Coupled (c\<lparr>m_internalInputList := clear_conns (m_internalInputList c),
                  m_internalOutputList := clear_conns (m_internalOutputList c)\<rparr>))\<rparr>"

definition shape :: "graph \<Rightarrow> addr \<Rightarrow> base_model option" where
  "shape s a = map_option node_shape (s a)"

definition set_port :: "side \<Rightarrow> addr \<Rightarrow> string \<Rightarrow> port_list \<Rightarrow> graph \<Rightarrow> graph" where
  "set_port d a p l s = (case s a of None \<Rightarrow> s | Some n \<Rightarrow>
     s(a \<mapsto> set_node_conns d (ref_set p l (the (node_conns d n))) n))"

lemma map_of_ref_set: "map_of (ref_set k v m) k' = (if k' = k \<and> map_of m k \<noteq> None then Some v else map_of m k')"
  by (induction m) (auto simp: ref_set_def)

lemma clear_conns_ref_set [simp]: "clear_conns (ref_set p l m) = clear_conns m"
  by (auto simp: clear_conns_def ref_set_def)

lemma map_of_clear_conns: "map_of (clear_conns l) p = map_option (\<lambda>_. []) (map_of l p)"
  by (induction l) (auto simp: clear_conns_def)

lemma node_conns_set:
  "node_conns d n = Some l \<Longrightarrow>
   node_conns d' (set_node_conns d l' n) = (if d' = d then Some l' else node_conns d' n)"
  by (auto simp: node_conns_def set_node_conns_def split: side.splits model_kind.splits)

lemma node_shape_set:
  "node_conns d n = Some l \<Longrightarrow> node_shape (set_node_conns d (ref_set p pl l) n) = node_shape n"
  by (auto simp: node_conns_def set_node_conns_def node_shape_def split: side.splits model_kind.splits)

lemma shape_set_port: "has_port s d a p \<Longrightarrow> shape (set_port d a p l s) = shape s"
  by (rule ext) (auto simp: shape_def set_port_def has_port_def node_shape_set split: option.splits)

lemma ports_set_port:
  assumes "has_port s d a p"
  shows "ports (set_port d a p l s) d' a' p' = (if d' = d \<and> a' = a \<and> p' = p then l else ports s d' a' p')"
  using assms
  by (auto simp: ports_def set_port_def has_port_def node_conns_set map_of_ref_set split: option.splits if_splits)

lemma set_port_node:
  assumes "has_port s d a p" "s b = Some n" "node_conns e n \<noteq> None"
  shows "\<exists>n' l'. set_port d a p l s b = Some n' \<and> node_conns e n' = Some l'"
proof -
  obtain m k where m: "s a = Some m" "node_conns d m = Some k"
    using assms(1) by (auto simp: has_port_def split: option.splits)
  show ?thesis
  proof (cases "b = a")
    case True
    with m assms(2,3) node_conns_set [OF m(2), of e] show ?thesis by (cases "e = d") (auto simp: set_port_def)
  qed (use m assms(2,3) in \<open>auto simp: set_port_def\<close>)
qed

lemma cnt_set_port:
  assumes "has_port s d a p"
  shows "cnt (set_port d a p l s) d' a' p' b q =
    (if d' = d \<and> a' = a \<and> p' = p then count_list l (b, q) else cnt s d' a' p' b q)"
  by (simp add: cnt_def ports_set_port [OF assms])

text \<open>What depends on the shape only.\<close>

lemma node_conns_shape: "node_conns d (node_shape n) = map_option clear_conns (node_conns d n)"
  by (auto simp: node_conns_def node_shape_def split: side.splits model_kind.splits)

lemma has_port_shape_def:
  "has_port s d a p = (case shape s a of None \<Rightarrow> False | Some n \<Rightarrow>
     (case node_conns d n of None \<Rightarrow> False | Some l \<Rightarrow> map_of l p \<noteq> None))"
  by (auto simp: has_port_def shape_def node_conns_shape map_of_clear_conns split: option.splits)

lemma parent_shape_def: "parent s a = (case shape s a of None \<Rightarrow> None | Some n \<Rightarrow> m_parent n)"
  by (auto simp: parent_def shape_def node_shape_def split: option.splits)

lemma models_shape_def:
  "models s a = (case shape s a of None \<Rightarrow> [] | Some n \<Rightarrow>
     (case m_kind n of Atomic _ \<Rightarrow> [] | Coupled c \<Rightarrow> m_modelList c))"
  by (auto simp: models_def shape_def node_shape_def split: option.splits model_kind.splits)

lemma shape_cong:
  assumes "shape s = shape t"
  shows "has_port s = has_port t" "parent s = parent t" "models s = models t"
    "s a = None \<longleftrightarrow> t a = None"
proof -
  show "has_port s = has_port t" by (intro ext) (simp add: has_port_shape_def assms)
  show "parent s = parent t" by (intro ext) (simp add: parent_shape_def assms)
  show "models s = models t" by (intro ext) (simp add: models_shape_def assms)
  show "s a = None \<longleftrightarrow> t a = None" using fun_cong [OF assms, of a] by (auto simp: shape_def)
qed

section \<open>Preconditions of the port operations\<close>

lemma wp_deref [wp_simps]: "wp (deref a) s P = (\<exists>n. s a = Some n \<and> P n s)"
  by (simp add: wp_def deref_def split: option.split)

lemma wp_getName [wp_simps]: "wp (getName a) s P = (\<exists>n. s a = Some n \<and> P (m_name n) s)"
  by (simp add: getName_def wp_simps)

lemma wp_getParent [wp_simps]: "wp (getParent a) s P = (s a \<noteq> None \<and> P (parent s a) s)"
  by (auto simp: getParent_def wp_simps parent_def)

lemma wp_getPortList [wp_simps]:
  "wp (getPortList d a) s P = (\<exists>n l. s a = Some n \<and> node_conns d n = Some l \<and> P l s)"
  by (auto simp: getPortList_def wp_simps wp_def throwS_def retS_def deref_def bindS_def split: option.splits)

lemma wp_putPortList [wp_simps]:
  "wp (putPortList d a l) s P = (\<exists>n. s a = Some n \<and> P () (s(a \<mapsto> set_node_conns d l n)))"
  by (auto simp: putPortList_def modify_def deref_def bindS_def wp_def split: option.splits)

lemma wp_getPort [wp_simps]:
  "wp (getPort d a p) s P = (has_port s d a p \<and> P (ports s d a p) s)"
  by (auto simp: getPort_def wp_def getPortList_def deref_def bindS_def throwS_def retS_def
      has_port_def ports_def split: option.splits)

lemma wp_onPort [wp_simps]:
  "wp (onPort d a p f) s P =
     (has_port s d a p \<and> (\<exists>l. f (ports s d a p) = Inr l \<and> P () (set_port d a p l s)))"
  by (auto simp: onPort_def wp_simps has_port_def set_port_def split: option.splits)

lemma ModelPortList_add_Some [simp]: "ModelPortList_add (Some b) q l = Inr (mmap_insert b q l)"
  by (simp add: ModelPortList_add_def)


section \<open>Both ends of a connection\<close>

text \<open>Where the other end of a connection is stored, and which pairs of models may be connected.\<close>

definition other_side :: "graph \<Rightarrow> side \<Rightarrow> addr \<Rightarrow> addr \<Rightarrow> side" where
  "other_side s d a b = (case d of
     Out \<Rightarrow> if parent s a = Some b then IntOut else In
   | In \<Rightarrow> if parent s a = Some b then IntIn else Out
   | IntIn \<Rightarrow> In
   | IntOut \<Rightarrow> Out)"

definition may_connect :: "graph \<Rightarrow> side \<Rightarrow> addr \<Rightarrow> addr \<Rightarrow> bool" where
  "may_connect s d a b = (case d of
     Out \<Rightarrow> parent s a = Some b \<or> (parent s a = parent s b \<and> parent s a \<noteq> None)
   | In \<Rightarrow> parent s a = Some b \<or> (parent s a = parent s b \<and> parent s a \<noteq> None)
   | IntIn \<Rightarrow> parent s b = Some a
   | IntOut \<Rightarrow> parent s b = Some a)"

definition linked :: "graph \<Rightarrow> bool" where
  "linked s \<longleftrightarrow> (\<forall>a. parent s a \<noteq> Some a)
     \<and> (\<forall>d a p b q. cnt s d a p b q =
          (if may_connect s d a b then cnt s (other_side s d a b) b q a p else 0))"

lemma other_side_other:
  assumes "\<And>a. parent s a \<noteq> Some a" "may_connect s d a b"
  shows "may_connect s (other_side s d a b) b a" "other_side s (other_side s d a b) b a = d"
    "other_side s d a b \<noteq> d"
  using assms by (auto simp: other_side_def may_connect_def dest: sym split: side.splits)

lemma linked_parent: "linked s \<Longrightarrow> parent s a \<noteq> Some a"
  by (simp add: linked_def)

lemma linked_cnt:
  "linked s \<Longrightarrow> may_connect s d a b \<Longrightarrow> cnt s d a p b q = cnt s (other_side s d a b) b q a p"
  by (simp add: linked_def)

lemma linked_may_connect: "linked s \<Longrightarrow> cnt s d a p b q \<noteq> 0 \<Longrightarrow> may_connect s d a b"
  by (metis linked_def)

lemma ports_no_port: "\<not> has_port s d a p \<Longrightarrow> ports s d a p = []"
  by (simp add: ports_def has_port_def split: option.splits)

lemma linked_D:
  assumes "linked s" "(b, q) \<in> set (ports s d a p)"
  shows "may_connect s d a b" "(a, p) \<in> set (ports s (other_side s d a b) b q)"
    "has_port s (other_side s d a b) b q"
proof -
  have "cnt s d a p b q \<noteq> 0" using assms(2) by (simp add: cnt_def count_list_0_iff)
  with assms(1) show mc: "may_connect s d a b" by (rule linked_may_connect)
  then have "cnt s (other_side s d a b) b q a p \<noteq> 0"
    using \<open>cnt s d a p b q \<noteq> 0\<close> linked_cnt [OF assms(1) mc] by simp
  then show *: "(a, p) \<in> set (ports s (other_side s d a b) b q)"
    by (simp add: cnt_def count_list_0_iff)
  then show "has_port s (other_side s d a b) b q"
    using ports_no_port by fastforce
qed

text \<open>
  A store with the same shape whose two copies of every connection changed alike is linked again.
  Adding and removing one connection are the two instances.
\<close>

lemma other_side_cong: "parent s = parent t \<Longrightarrow> other_side s = other_side t"
  by (intro ext) (simp add: other_side_def)

lemma may_connect_cong: "parent s = parent t \<Longrightarrow> may_connect s = may_connect t"
  by (intro ext) (simp add: may_connect_def split: side.split)

text \<open>The entry \<open>(b, q)\<close> at port \<open>p\<close> of \<open>a\<close> and its copy at the other end.\<close>

definition same_link :: "graph \<Rightarrow> side \<Rightarrow> addr \<Rightarrow> string \<Rightarrow> addr \<Rightarrow> string
    \<Rightarrow> side \<Rightarrow> addr \<Rightarrow> string \<Rightarrow> addr \<Rightarrow> string \<Rightarrow> bool" where
  "same_link s d a p b q d' a' p' b' q' \<longleftrightarrow>
     (d', a', p', b', q') = (d, a, p, b, q) \<or> (d', a', p', b', q') = (other_side s d a b, b, q, a, p)"

text \<open>The store \<open>t\<close> is \<open>s\<close> with the count of one connection changed by \<open>g\<close> at both ends, and linked.\<close>

definition link_changed :: "(nat \<Rightarrow> nat) \<Rightarrow> graph \<Rightarrow> side \<Rightarrow> addr \<Rightarrow> string \<Rightarrow> addr \<Rightarrow> string \<Rightarrow> graph \<Rightarrow> bool" where
  "link_changed g s d a p b q t \<longleftrightarrow> linked t \<and> shape t = shape s
     \<and> (\<forall>d' a' p' b' q'. cnt t d' a' p' b' q' =
          (if same_link s d a p b q d' a' p' b' q' then g (cnt s d' a' p' b' q') else cnt s d' a' p' b' q'))"

lemma linked_update:
  assumes "linked s" and sh: "shape t = shape s" and mc: "may_connect s d a b"
    and upd: "\<And>d' a' p' b' q'. cnt t d' a' p' b' q' =
      (if same_link s d a p b q d' a' p' b' q' then f (cnt s d' a' p' b' q') else cnt s d' a' p' b' q')"
  shows "linked t"
proof -
  have par: "parent t = parent s" using sh by (rule shape_cong)
  note cong = other_side_cong [OF par] may_connect_cong [OF par]
  have irr: "parent s x \<noteq> Some x" for x using assms(1) by (rule linked_parent)
  have no: "same_link s d a p b q d' a' p' b' q' \<Longrightarrow> may_connect s d' a' b'" for d' a' p' b' q'
    using mc other_side_other(1) [OF irr mc] by (auto simp: same_link_def)
  have sym: "may_connect s d' a' b' \<Longrightarrow>
      same_link s d a p b q (other_side s d' a' b') b' q' a' p' = same_link s d a p b q d' a' p' b' q'"
    for d' a' p' b' q'
    using other_side_other [OF irr mc] other_side_other [OF irr, of d' a' b']
    unfolding same_link_def by (auto simp: other_side_def split: side.splits if_splits)
  show ?thesis
    unfolding linked_def par cong
  proof (intro conjI allI)
    fix d' a' p' b' q'
    show "cnt t d' a' p' b' q' = (if may_connect s d' a' b' then cnt t (other_side s d' a' b') b' q' a' p' else 0)"
    proof (cases "may_connect s d' a' b'")
      case True
      with sym [OF True] linked_cnt [OF assms(1) True] show ?thesis by (simp add: upd)
    next
      case False
      have "cnt s d' a' p' b' q' = 0" using False linked_may_connect [OF assms(1)] by blast
      with False no show ?thesis by (auto simp: upd)
    qed
  qed (use irr in simp)
qed

section \<open>The contract of the connecting operations\<close>

text \<open>
  Input, output and internal connections differ in the lists that hold their two ends and in the
  places of the two models. What they share is the contract below: the operation that adds
  (removes) a connection writes the two ends one after the other. The laws that follow from it are
  proved once.
\<close>

locale connection_kind =
  fixes d e :: side
    and joins :: "graph \<Rightarrow> addr \<Rightarrow> addr \<Rightarrow> addr \<Rightarrow> bool"
    and add del :: "addr \<Rightarrow> addr \<Rightarrow> string \<Rightarrow> addr \<Rightarrow> string \<Rightarrow> unit gproc"
  assumes joins_may_connect: "linked s \<Longrightarrow> joins s this a b \<Longrightarrow> may_connect s d a b"
    and joins_other_side: "linked s \<Longrightarrow> joins s this a b \<Longrightarrow> other_side s d a b = e"
    and add_both: "linked s \<Longrightarrow> joins s this a b \<Longrightarrow>
      add this a p b q s = thenS (port_add d a p b q) (port_add e b q a p) s"
    and del_both: "linked s \<Longrightarrow> joins s this a b \<Longrightarrow>
      del this a p b q s = thenS (port_remove d a p b q) (port_remove e b q a p) s"
begin

lemma sides_differ: "linked s \<Longrightarrow> joins s this a b \<Longrightarrow> d \<noteq> e"
  using other_side_other(3) [of s d a b] joins_may_connect joins_other_side linked_parent by metis

lemma update_both:
  assumes lk: "linked s" and j: "joins s this a b" and hp: "has_port s d a p" "has_port s e b q"
    and f: "\<And>m r l. \<exists>l'. f m r l = Inr l' \<and> (\<forall>x. count_list l' x = (if x = (m, r) then g (count_list l x) else count_list l x))"
  shows "wp (thenS (onPort d a p (f b q)) (onPort e b q (f a p))) s (\<lambda>_. link_changed g s d a p b q)"
proof -
  have ne: "d \<noteq> e" using lk j by (rule sides_differ)
  obtain l1 where l1: "f b q (ports s d a p) = Inr l1"
    "\<And>x. count_list l1 x = (if x = (b, q) then g (count_list (ports s d a p) x) else count_list (ports s d a p) x)"
    using f [of b q "ports s d a p"] by blast
  obtain l2 where l2: "f a p (ports s e b q) = Inr l2"
    "\<And>x. count_list l2 x = (if x = (a, p) then g (count_list (ports s e b q) x) else count_list (ports s e b q) x)"
    using f [of a p "ports s e b q"] by blast
  let ?u = "set_port d a p l1 s"
  let ?t = "set_port e b q l2 ?u"
  have hpu: "has_port ?u e b q"
    using hp shape_cong(1) [OF shape_set_port [OF hp(1)]] by simp
  have pu: "ports ?u e b q = ports s e b q" using ne by (simp add: ports_set_port [OF hp(1)])
  have sh: "shape ?t = shape s" by (simp add: shape_set_port [OF hpu] shape_set_port [OF hp(1)])
  have os: "other_side s d a b = e" using lk j by (rule joins_other_side)
  have c: "cnt ?t d' a' p' b' q' =
      (if same_link s d a p b q d' a' p' b' q' then g (cnt s d' a' p' b' q') else cnt s d' a' p' b' q')"
    for d' a' p' b' q'
    using ne by (auto simp: ports_set_port [OF hpu] ports_set_port [OF hp(1)] l1(2) l2(2) same_link_def os cnt_def)
  have "linked ?t" using lk sh joins_may_connect [OF lk j] c by (rule linked_update)
  with sh c show ?thesis using hp(1) hpu l1(1) l2(1) by (simp add: wp_simps pu link_changed_def)
qed

lemma add_spec:
  assumes lk: "linked s" and j: "joins s this a b" and hp: "has_port s d a p" "has_port s e b q"
  shows "wp (add this a p b q) s (\<lambda>_. link_changed Suc s d a p b q)"
proof -
  have "wp (thenS (port_add d a p b q) (port_add e b q a p)) s (\<lambda>_. link_changed Suc s d a p b q)"
    using lk j hp
    by (rule update_both [of s this a b p q "\<lambda>m. ModelPortList_add (Some m)"])
      (auto simp: count_ModelPortList_add)
  then show ?thesis by (simp add: wp_def add_both [OF lk j])
qed

lemma del_spec:
  assumes lk: "linked s" and j: "joins s this a b" and hp: "has_port s d a p" "has_port s e b q"
  shows "wp (del this a p b q) s (\<lambda>_. link_changed (\<lambda>_. 0) s d a p b q)"
proof -
  have "\<exists>l'. ModelPortList_remove (Some m) r l = Inr l' \<and>
      (\<forall>x. count_list l' x = (if x = (m, r) then 0 else count_list l x))" for m r l
  proof -
    obtain l' where l': "ModelPortList_remove (Some m) r l = Inr l'" by (simp add: ModelPortList_remove_def)
    with count_ModelPortList_remove [OF l'] show ?thesis by blast
  qed
  then have "wp (thenS (port_remove d a p b q) (port_remove e b q a p)) s (\<lambda>_. link_changed (\<lambda>_. 0) s d a p b q)"
    by (rule update_both [OF lk j hp, of "\<lambda>m. ModelPortList_remove (Some m)" "\<lambda>_. 0"])
  then show ?thesis by (simp add: wp_def del_both [OF lk j])
qed

text \<open>An exception at the second end leaves the first end written.\<close>

lemma add_missing_end:
  assumes lk: "linked s" and j: "joins s this a b" and hp: "has_port s d a p" "\<not> has_port s e b q"
    and n: "s b = Some n" "node_conns e n \<noteq> None"
  shows "\<exists>msg t. add this a p b q s = Exn (DevsGraphError msg) t \<and> cnt t d a p b q = Suc (cnt s d a p b q) \<and> \<not> linked t"
proof -
  let ?t = "set_port d a p (mmap_insert b q (ports s d a p)) s"
  have sh: "shape ?t = shape s" by (rule shape_set_port [OF hp(1)])
  have npt: "\<not> has_port ?t e b q" using hp(2) shape_cong(1) [OF sh] by simp
  have par: "parent ?t = parent s" using sh by (rule shape_cong)
  have "port_add d a p b q s = Ret () ?t"
    using hp(1) by (simp flip: Ret_eq_if_wp add: wp_simps)
  moreover obtain msg where "port_add e b q a p ?t = Exn (DevsGraphError msg) ?t"
  proof -
    obtain n' l where "?t b = Some n'" "node_conns e n' = Some l"
      using set_port_node [OF hp(1) n] by blast
    with npt that show ?thesis
      by (auto simp: onPort_def getPort_def getPortList_def deref_def bindS_def throwS_def retS_def has_port_def
          split: option.splits)
  qed
  ultimately have "add this a p b q s = Exn (DevsGraphError msg) ?t"
    by (simp add: add_both [OF lk j] thenS_def)
  moreover have c: "cnt ?t d a p b q = Suc (cnt s d a p b q)"
    by (simp add: cnt_set_port [OF hp(1)] count_ModelPortList_add) (simp add: cnt_def)
  moreover have "\<not> linked ?t"
  proof
    assume "linked ?t"
    then have "cnt ?t d a p b q = cnt ?t e b q a p"
      using joins_may_connect [OF lk j] joins_other_side [OF lk j]
      by (metis linked_cnt par other_side_cong may_connect_cong)
    with c npt show False by (simp add: cnt_def ports_no_port)
  qed
  ultimately show ?thesis by blast
qed

end

text \<open>The three kinds of connections of \<^verbatim>\<open>CoupledModel\<close> fulfil the contract.\<close>

interpretation input_conn: connection_kind IntIn In
  "\<lambda>s this a b. a = this \<and> parent s b = Some this"
  "\<lambda>this a p b q. addInputConnection this p (Some b) q"
  "\<lambda>this a p b q. delInputConnection this p (Some b) q"
  by unfold_locales
    (auto simp: may_connect_def other_side_def addInputConnection_def delInputConnection_def dest: linked_parent)

interpretation output_conn: connection_kind Out IntOut
  "\<lambda>s this a b. b = this \<and> parent s a = Some this"
  "\<lambda>this a p b q. addOutputConnection this (Some a) p q"
  "\<lambda>this a p b q. delOutputConnection this (Some a) p q"
  by unfold_locales
    (auto simp: may_connect_def other_side_def addOutputConnection_def delOutputConnection_def dest: linked_parent)

interpretation internal_conn: connection_kind Out In
  "\<lambda>s this a b. parent s a = Some this \<and> parent s b = Some this"
  "\<lambda>this a p b q. addInternalConnection this (Some a) p (Some b) q"
  "\<lambda>this a p b q. delInternalConnection this (Some a) p (Some b) q"
  by unfold_locales
    (auto simp: may_connect_def other_side_def addInternalConnection_def delInternalConnection_def dest: linked_parent)

end
