(* ===== verification/Disconnection.thy ===== *)
theory Disconnection
  imports Connections
begin

text \<open>
  \<^verbatim>\<open>CoupledModel::delAllConnection\<close>: its loops over the ports of a model and over their entries end
  without an exception on a linked graph and remove exactly the connections the model takes part in
  as a sub-model of its parent.
\<close>

section \<open>Removing sets of entries\<close>

text \<open>\<open>t\<close> is \<open>s\<close> without the entries of \<open>R\<close>: tuples of a list, a port in it and the end recorded there.\<close>

definition without :: "(side \<times> addr \<times> string \<times> addr \<times> string) set \<Rightarrow> graph \<Rightarrow> graph \<Rightarrow> bool" where
  "without R s t \<longleftrightarrow> shape t = shape s
     \<and> (\<forall>d a p b q. cnt t d a p b q = (if (d, a, p, b, q) \<in> R then 0 else cnt s d a p b q))"

lemma without_refl: "without {} s s"
  by (simp add: without_def)

lemma without_trans: "without R s t \<Longrightarrow> without R' t u \<Longrightarrow> without (R \<union> R') s u"
  unfolding without_def by (elim conjE, intro conjI allI) auto

lemma without_has_port: "without R s t \<Longrightarrow> has_port t = has_port s"
  by (rule shape_cong(1)) (simp add: without_def)

lemma wp_without_trans:
  assumes "wp m s (\<lambda>_. without R s)" "\<And>t. without R s t \<Longrightarrow> wp k t (\<lambda>_. without R' t)" "R \<union> R' = R''"
  shows "wp (thenS m k) s (\<lambda>_. without R'' s)"
  unfolding wp_thenS
  using assms(1)
proof (rule wp_mono)
  fix t
  assume t: "without R s t"
  from assms(2) [OF t] show "wp k t (\<lambda>_. without R'' s)"
    by (rule wp_mono) (use t without_trans assms(3) in blast)
qed

lemma wp_port_remove:
  assumes "has_port s d a p"
  shows "wp (port_remove d a p b q) s (\<lambda>_. without {(d, a, p, b, q)} s)"
proof -
  obtain l where l: "ModelPortList_remove (Some b) q (ports s d a p) = Inr l"
    by (simp add: ModelPortList_remove_def)
  have "without {(d, a, p, b, q)} s (set_port d a p l s)"
    using count_ModelPortList_remove [OF l]
    by (auto simp: without_def shape_set_port [OF assms] cnt_set_port [OF assms]) (auto simp: cnt_def)
  with l assms show ?thesis by (simp add: wp_onPort)
qed

lemma wp_port_clear:
  assumes "has_port s d a p"
  shows "wp (port_clear d a p) s (\<lambda>_. without {x. \<exists>b q. x = (d, a, p, b, q)} s)"
  using assms by (auto simp: wp_onPort without_def shape_set_port cnt_set_port)

lemma remove_entries:
  assumes "\<forall>e \<in> set es. has_port s (os (fst e)) (fst e) (snd e)"
  shows "wp (forS (\<lambda>e. port_remove (os (fst e)) (fst e) (snd e) m p) es) s
    (\<lambda>_. without ((\<lambda>e. (os (fst e), fst e, snd e, m, p)) ` set es) s)"
  using assms
proof (induction es arbitrary: s)
  case Nil
  show ?case by (simp add: wp_simps without_refl)
next
  case (Cons e es)
  have "wp (port_remove (os (fst e)) (fst e) (snd e) m p) s (\<lambda>_. without {(os (fst e), fst e, snd e, m, p)} s)"
    using Cons.prems by (intro wp_port_remove) simp
  then show ?case
    unfolding forS.simps
    by (rule wp_without_trans [OF _ Cons.IH]) (use Cons.prems without_has_port in auto)
qed

definition port_entries :: "side \<Rightarrow> (addr \<Rightarrow> side) \<Rightarrow> addr \<Rightarrow> connection_list \<Rightarrow> (side \<times> addr \<times> string \<times> addr \<times> string) set" where
  "port_entries d os m l = (\<Union>it \<in> set l. {x. \<exists>b q. x = (d, m, fst it, b, q)}
     \<union> (\<lambda>e. (os (fst e), fst e, snd e, m, fst it)) ` set (snd it))"

lemma disconnect_ports:
  assumes "\<forall>it \<in> set l. has_port s d m (fst it) \<and> (\<forall>e \<in> set (snd it). has_port s (os (fst e)) (fst e) (snd e))"
    and os: "\<And>b. os b = (if b = this then i else other)"
  shows "wp (forS (disconnect_port this m d other i) l) s (\<lambda>_. without (port_entries d os m l) s)"
  using assms(1)
proof (induction l arbitrary: s)
  case Nil
  show ?case by (simp add: wp_simps without_refl port_entries_def)
next
  case (Cons it l)
  have body: "(\<lambda>e. if fst e = this then port_remove i this (snd e) m (fst it) else port_remove other (fst e) (snd e) m (fst it))
      = (\<lambda>e. port_remove (os (fst e)) (fst e) (snd e) m (fst it))"
    by (auto simp: os fun_eq_iff)
  have "wp (disconnect_port this m d other i it) s (\<lambda>_. without (port_entries d os m [it]) s)"
    unfolding disconnect_port_def body
  proof (rule wp_without_trans [OF remove_entries wp_port_clear])
    show "(\<lambda>e. (os (fst e), fst e, snd e, m, fst it)) ` set (snd it) \<union> {x. \<exists>b q. x = (d, m, fst it, b, q)}
        = port_entries d os m [it]"
      by (auto simp: port_entries_def)
  qed (use Cons.prems without_has_port in auto)
  then show ?case
    unfolding forS.simps
    by (rule wp_without_trans [OF _ Cons.IH])
      (use Cons.prems without_has_port in \<open>auto simp: port_entries_def\<close>)
qed

section \<open>delAllConnection\<close>

text \<open>The keys of the connection lists are unique, as in every \<^verbatim>\<open>std::map\<close>.\<close>

definition keys_ok :: "graph \<Rightarrow> bool" where
  "keys_ok s \<longleftrightarrow> (\<forall>a n d l. s a = Some n \<longrightarrow> node_conns d n = Some l \<longrightarrow> distinct (map fst l))"

lemma keys_ok_shape_def: "keys_ok s \<longleftrightarrow> (\<forall>a n d l. shape s a = Some n \<longrightarrow> node_conns d n = Some l \<longrightarrow> distinct (map fst l))"
proof -
  have "map fst (clear_conns l) = map fst l" for l by (simp add: clear_conns_def)
  then have "distinct (map fst l)"
    if "\<forall>a n d l. shape s a = Some n \<longrightarrow> node_conns d n = Some l \<longrightarrow> distinct (map fst l)"
      "s a = Some n" "node_conns d n = Some l" for a n d l
    using that(1) [rule_format, of a "node_shape n" d "clear_conns l"] that(2,3)
    by (simp add: shape_def node_conns_shape)
  then show ?thesis
    by (auto simp: keys_ok_def shape_def node_conns_shape clear_conns_def comp_def)
qed

lemma keys_ok_cong: "shape s = shape t \<Longrightarrow> keys_ok s = keys_ok t"
  by (simp add: keys_ok_shape_def)

lemma in_port_entries:
  "(d', a, p, b, q) \<in> port_entries d os m l \<longleftrightarrow>
     (d' = d \<and> a = m \<and> p \<in> fst ` set l) \<or> (b = m \<and> d' = os a \<and> (\<exists>pl. (q, pl) \<in> set l \<and> (a, p) \<in> set pl))"
  by (auto simp: port_entries_def image_iff) force+

lemma mem_port_entries:
  assumes "keys_ok s" "s m = Some n" "node_conns d n = Some l"
  shows "(d', a, p, b, q) \<in> port_entries d os m l \<longleftrightarrow>
    (d' = d \<and> a = m \<and> has_port s d m p) \<or> (b = m \<and> d' = os a \<and> cnt s d m q a p \<noteq> 0)"
proof -
  have "p \<in> fst ` set l \<longleftrightarrow> has_port s d m p"
    using assms(2,3) by (simp add: has_port_def map_of_eq_None_iff)
  moreover have "distinct (map fst l)" using assms by (simp add: keys_ok_def)
  then have key: "(q, pl) \<in> set l \<longleftrightarrow> map_of l q = Some pl" for pl by simp
  have "(\<exists>pl. (q, pl) \<in> set l \<and> (a, p) \<in> set pl) \<longleftrightarrow> cnt s d m q a p \<noteq> 0"
    unfolding key using assms(2,3) by (cases "map_of l q") (simp_all add: cnt_def ports_def count_list_0_iff)
  ultimately show ?thesis by (simp add: in_port_entries)
qed

text \<open>The entries of the connections of \<open>m\<close> with its siblings and its parent.\<close>

definition outer_entries :: "graph \<Rightarrow> addr \<Rightarrow> (side \<times> addr \<times> string \<times> addr \<times> string) set" where
  "outer_entries s m = {x. \<exists>d a p b q. x = (d, a, p, b, q) \<and>
     ((a = m \<and> d \<in> {In, Out})
      \<or> (b = m \<and> (d \<in> {In, Out} \<and> parent s a \<noteq> Some m \<or> d \<in> {IntIn, IntOut} \<and> parent s m = Some a)))}"

lemma linked_without_outer:
  assumes lk: "linked s" and w: "without (outer_entries s m) s t"
  shows "linked t"
proof -
  have par: "parent t = parent s" using w by (intro shape_cong(2)) (simp add: without_def)
  note cong = other_side_cong [OF par] may_connect_cong [OF par]
  have irr: "parent s x \<noteq> Some x" for x using lk by (rule linked_parent)
  have sym: "(other_side s d a b, b, q, a, p) \<in> outer_entries s m \<longleftrightarrow> (d, a, p, b, q) \<in> outer_entries s m"
    if "may_connect s d a b" for d a p b q
    using that irr by (auto simp: outer_entries_def other_side_def may_connect_def split: side.splits if_splits)
  have zero: "cnt s d a p b q = 0" if "\<not> may_connect s d a b" for d a p b q
    using that linked_may_connect [OF lk] by blast
  show ?thesis
    unfolding linked_def par cong
    using irr w sym zero linked_cnt [OF lk] by (simp add: without_def)
qed

lemma linked_sides:
  assumes "linked s" "parent s m = Some this"
  shows "other_side s In m b = (if b = this then IntIn else Out)"
    "other_side s Out m b = (if b = this then IntOut else In)" "m \<noteq> this"
  using assms linked_parent [of s m] by (auto simp: other_side_def)

text \<open>The loop over the input ports, then the loop over the output ports.\<close>

lemma two_phases:
  assumes lk: "linked s" and par: "parent s m = Some this" and ok: "keys_ok s"
    and l: "s m = Some n" "node_conns In n = Some l"
    and t: "without (port_entries In (other_side s In m) m l) s t"
    and k: "t m = Some n'" "node_conns Out n' = Some k"
    and u: "without (port_entries Out (other_side s Out m) m k) t u"
  shows "without (outer_entries s m) s u"
proof -
  have irr: "parent s x \<noteq> Some x" for x using lk by (rule linked_parent)
  have ok': "keys_ok t" using ok t keys_ok_cong [of t s] by (simp add: without_def)
  note sides = linked_sides [OF lk par]
  have "cnt u d a p b q = (if (d, a, p, b, q) \<in> outer_entries s m then 0 else cnt s d a p b q)" for d a p b q
  proof (cases "cnt s d a p b q = 0")
    case True
    with t u show ?thesis by (simp add: without_def)
  next
    case False
    have hp: "has_port s d a p" by (rule ccontr) (use False ports_no_port in \<open>simp add: cnt_def\<close>)
    have mc: "may_connect s d a b" using lk False by (rule linked_may_connect)
    have other: "cnt s (other_side s d a b) b q a p \<noteq> 0" using False linked_cnt [OF lk mc] by simp
    have ct: "cnt t Out m q a p = (if a = m \<and> cnt s In m p m q \<noteq> 0 then 0 else cnt s Out m q a p)"
      using t sides(3) by (auto simp: without_def mem_port_entries [OF ok l] sides)
    have "(d, a, p, b, q) \<in> outer_entries s m \<longleftrightarrow>
        (d, a, p, b, q) \<in> port_entries In (other_side s In m) m l \<union> port_entries Out (other_side s Out m) m k"
      unfolding Un_iff mem_port_entries [OF ok l] mem_port_entries [OF ok' k] without_has_port [OF t]
      using hp mc other irr ct linked_may_connect [OF lk, of In m q a p] linked_may_connect [OF lk, of Out m q a p] par
      by (cases d) (auto simp: outer_entries_def may_connect_def sides other_side_def split: if_splits)
    with t u show ?thesis by (simp add: without_def)
  qed
  moreover have "shape u = shape s" using t u by (simp add: without_def)
  ultimately show ?thesis by (simp add: without_def)
qed

lemma port_list_entries:
  assumes "t m = Some n" "keys_ok t" "d \<in> {In, Out}"
  obtains l where "node_conns d n = Some l"
    "\<forall>it \<in> set l. has_port t d m (fst it) \<and> snd it = ports t d m (fst it)"
proof -
  obtain l where l: "node_conns d n = Some l" using assms(3) by (auto simp: node_conns_def)
  then have "distinct (map fst l)" using assms by (auto simp: keys_ok_def)
  with l assms(1) have "\<forall>it \<in> set l. has_port t d m (fst it) \<and> snd it = ports t d m (fst it)"
    by (auto simp: has_port_def ports_def)
  with l show ?thesis by (rule that)
qed

lemma ports_without: "without R s t \<Longrightarrow> e \<in> set (ports t d a p) \<Longrightarrow> e \<in> set (ports s d a p)"
proof -
  assume t: "without R s t" and e: "e \<in> set (ports t d a p)"
  have "cnt t d a p (fst e) (snd e) \<noteq> 0" using e by (simp add: cnt_def count_list_0_iff)
  then have "cnt s d a p (fst e) (snd e) \<noteq> 0" using t by (auto simp: without_def split: if_splits)
  then show ?thesis by (simp add: cnt_def count_list_0_iff)
qed

lemma wp_delAllConnection:
  assumes lk: "linked s" and ok: "keys_ok s" and par: "parent s m = Some this"
  shows "wp (delAllConnection this (Some m)) s (\<lambda>_. without (outer_entries s m) s)"
proof -
  obtain n where n: "s m = Some n" using par by (auto simp: parent_def split: option.splits)
  note sides = linked_sides [OF lk par]
  have entry: "has_port s (other_side s d m (fst e)) (fst e) (snd e)" if "e \<in> set (ports s d m p)" for d p e
    using that by (intro linked_D(3) [OF lk]) (simp add: prod.collapse)
  obtain l where l: "node_conns In n = Some l"
    "\<forall>it \<in> set l. has_port s In m (fst it) \<and> snd it = ports s In m (fst it)"
    using n ok by (rule port_list_entries [where d = In]) auto
  have first: "wp (forS (disconnect_port this m In Out IntIn) l) s (\<lambda>_. without (port_entries In (other_side s In m) m l) s)"
    using l(2) entry [of _ In] by (intro disconnect_ports) (auto simp flip: sides(1))
  have second: "wp (bindS (getPortList Out m) (forS (disconnect_port this m Out In IntOut))) t (\<lambda>_. without (outer_entries s m) s)"
    if t: "without (port_entries In (other_side s In m) m l) s t" for t
  proof -
    have sh: "shape t = shape s" using t by (simp add: without_def)
    obtain n' where n': "t m = Some n'" using n shape_cong(4) [OF sh, of m] by auto
    have ok': "keys_ok t" using ok keys_ok_cong [OF sh] by simp
    obtain k where k: "node_conns Out n' = Some k"
      "\<forall>it \<in> set k. has_port t Out m (fst it) \<and> snd it = ports t Out m (fst it)"
      using n' ok' by (rule port_list_entries [where d = Out]) auto
    have "wp (forS (disconnect_port this m Out In IntOut) k) t (\<lambda>_. without (port_entries Out (other_side s Out m) m k) t)"
      using k(2) entry [OF ports_without [OF t]] without_has_port [OF t]
      by (intro disconnect_ports) (auto simp flip: sides(2))
    then have "wp (forS (disconnect_port this m Out In IntOut) k) t (\<lambda>_. without (outer_entries s m) s)"
      by (rule wp_mono) (rule two_phases [OF lk par ok n l(1) t n' k(1)])
    with n' k(1) show ?thesis by (auto simp: wp_simps)
  qed
  from wp_mono [OF first second] show ?thesis
    using n l(1) by (auto simp: delAllConnection_def wp_simps)
qed

end
