(* ===== verification/Connection_Properties.thy ===== *)
theory Connection_Properties
  imports Disconnection
begin

text \<open>
  The properties of the connections of a graph of models, on top of the invariant \<open>linked\<close>, and the
  operations for which the invariant fails.
\<close>

section \<open>A check of the invariant, and a small graph\<close>

definition linked_check :: "addr list \<Rightarrow> graph \<Rightarrow> bool" where
  "linked_check as s = list_all (\<lambda>a. parent s a \<noteq> Some a \<and>
     list_all (\<lambda>d. case s a of None \<Rightarrow> True | Some n \<Rightarrow>
       (case node_conns d n of None \<Rightarrow> True | Some l \<Rightarrow>
          list_all (\<lambda>e. list_all (\<lambda>x. may_connect s d a (fst x) \<and>
            cnt s d a (fst e) (fst x) (snd x) = cnt s (other_side s d a (fst x)) (fst x) (snd x) a (fst e)) (snd e)) l))
       [In, Out, IntIn, IntOut]) as"

lemma linked_if_check:
  assumes "linked_check as s" "dom s \<subseteq> set as"
  shows "linked s"
proof -
  have irr: "parent s a \<noteq> Some a" for a
  proof (cases "s a = None")
    case False
    then have "a \<in> set as" using assms(2) by auto
    with assms(1) show ?thesis by (auto simp: linked_check_def list_all_iff)
  qed (simp add: parent_def)
  have entry: "may_connect s d a b \<and> cnt s d a p b q = cnt s (other_side s d a b) b q a p"
    if "cnt s d a p b q \<noteq> 0" for d a p b q
  proof -
    have mem: "(b, q) \<in> set (ports s d a p)" using that by (simp add: cnt_def count_list_0_iff)
    then obtain n l pl where n: "s a = Some n" "node_conns d n = Some l" "map_of l p = Some pl" "(b, q) \<in> set pl"
      by (cases "s a"; cases "node_conns d (the (s a))"; cases "map_of (the (node_conns d (the (s a)))) p")
        (auto simp: ports_def)
    have "a \<in> set as" using n(1) assms(2) by auto
    moreover have "d \<in> set [In, Out, IntIn, IntOut]" by (cases d) auto
    ultimately have "list_all (\<lambda>e. list_all (\<lambda>x. may_connect s d a (fst x) \<and>
            cnt s d a (fst e) (fst x) (snd x) = cnt s (other_side s d a (fst x)) (fst x) (snd x) a (fst e)) (snd e)) l"
      using assms(1) n(1,2) by (fastforce simp: linked_check_def list_all_iff)
    with map_of_SomeD [OF n(3)] n(4) show ?thesis by (fastforce simp: list_all_iff)
  qed
  have "cnt s d a p b q = (if may_connect s d a b then cnt s (other_side s d a b) b q a p else 0)" for d a p b q
  proof (cases "may_connect s d a b")
    case True
    then show ?thesis
      using entry [of d a p b q] entry [of "other_side s d a b" b q a p] other_side_other [OF irr True] by force
  next
    case False
    then show ?thesis using entry [of d a p b q] by auto
  qed
  with irr show ?thesis by (simp add: linked_def)
qed

definition keys_check :: "addr list \<Rightarrow> graph \<Rightarrow> bool" where
  "keys_check as s = list_all (\<lambda>a. case s a of None \<Rightarrow> True | Some n \<Rightarrow>
     list_all (\<lambda>d. case node_conns d n of None \<Rightarrow> True | Some l \<Rightarrow> distinct (map fst l)) [In, Out, IntIn, IntOut]) as"

lemma keys_if_check:
  assumes "keys_check as s" "dom s \<subseteq> set as"
  shows "keys_ok s"
  unfolding keys_ok_def
proof (intro allI impI)
  fix a n d l
  assume n: "s a = Some n" "node_conns d n = Some l"
  then have "a \<in> set as" using assms(2) by auto
  moreover have "d \<in> set [In, Out, IntIn, IntOut]" by (cases d) auto
  ultimately show "distinct (map fst l)" using assms(1) n by (fastforce simp: keys_check_def list_all_iff)
qed

text \<open>
  A coupled model \<^verbatim>\<open>top\<close> with the atomic model \<^verbatim>\<open>a\<close> and the coupled model \<^verbatim>\<open>c\<close>, which holds the atomic
  model \<^verbatim>\<open>x\<close>: \<^verbatim>\<open>a.o\<close> is connected to \<^verbatim>\<open>c.i\<close> twice, \<^verbatim>\<open>c.i\<close> to \<^verbatim>\<open>x.i\<close>, \<^verbatim>\<open>x.o\<close> to \<^verbatim>\<open>c.o\<close>, \<^verbatim>\<open>c.o\<close> to \<^verbatim>\<open>a.i\<close>.
\<close>

definition sample :: graph where
  "sample = [
     0 \<mapsto> \<lparr>m_parent = None, m_inPortList = [], m_outPortList = [], m_x = -1, m_y = -1, m_width = -1, m_height = -1,
        m_name = ''top'', m_kind = Coupled (coupled_init\<lparr>m_modelList := [(''a'', 1), (''c'', 2)]\<rparr>)\<rparr>,
     1 \<mapsto> \<lparr>m_parent = Some 0, m_inPortList = [(''i'', [(2, ''o'')])], m_outPortList = [(''o'', [(2, ''i''), (2, ''i'')])],
        m_x = -1, m_y = -1, m_width = -1, m_height = -1, m_name = ''a'', m_kind = Atomic atomic_init\<rparr>,
     2 \<mapsto> \<lparr>m_parent = Some 0, m_inPortList = [(''i'', [(1, ''o''), (1, ''o'')])], m_outPortList = [(''o'', [(1, ''i'')])],
        m_x = -1, m_y = -1, m_width = -1, m_height = -1, m_name = ''c'',
        m_kind = Coupled (coupled_init\<lparr>m_modelList := [(''x'', 3)],
          m_internalInputList := [(''i'', [(3, ''i'')])], m_internalOutputList := [(''o'', [(3, ''o'')])]\<rparr>)\<rparr>,
     3 \<mapsto> \<lparr>m_parent = Some 2, m_inPortList = [(''i'', [(2, ''i'')])], m_outPortList = [(''o'', [(2, ''o'')])],
        m_x = -1, m_y = -1, m_width = -1, m_height = -1, m_name = ''x'', m_kind = Atomic atomic_init\<rparr>]"

lemma dom_sample: "dom sample = {0, 1, 2, 3}"
  by (auto simp: sample_def)

lemma sample_nodes:
  "sample 0 = Some \<lparr>m_parent = None, m_inPortList = [], m_outPortList = [], m_x = -1, m_y = -1, m_width = -1, m_height = -1,
        m_name = ''top'', m_kind = Coupled (coupled_init\<lparr>m_modelList := [(''a'', 1), (''c'', 2)]\<rparr>)\<rparr>"
  "sample (Suc 0) = Some \<lparr>m_parent = Some 0, m_inPortList = [(''i'', [(2, ''o'')])], m_outPortList = [(''o'', [(2, ''i''), (2, ''i'')])],
        m_x = -1, m_y = -1, m_width = -1, m_height = -1, m_name = ''a'', m_kind = Atomic atomic_init\<rparr>"
  "sample 2 = Some \<lparr>m_parent = Some 0, m_inPortList = [(''i'', [(1, ''o''), (1, ''o'')])], m_outPortList = [(''o'', [(1, ''i'')])],
        m_x = -1, m_y = -1, m_width = -1, m_height = -1, m_name = ''c'',
        m_kind = Coupled (coupled_init\<lparr>m_modelList := [(''x'', 3)],
          m_internalInputList := [(''i'', [(3, ''i'')])], m_internalOutputList := [(''o'', [(3, ''o'')])]\<rparr>)\<rparr>"
  "sample 3 = Some \<lparr>m_parent = Some 2, m_inPortList = [(''i'', [(2, ''i'')])], m_outPortList = [(''o'', [(2, ''o'')])],
        m_x = -1, m_y = -1, m_width = -1, m_height = -1, m_name = ''x'', m_kind = Atomic atomic_init\<rparr>"
  by (simp_all add: sample_def)

lemmas read_store = parent_def has_port_def ports_def cnt_def models_def node_conns_def coupled_init_def

lemma sample_linked: "linked sample"
  by (rule linked_if_check [of "[0, 1, 2, 3]"])
    (simp_all add: dom_sample linked_check_def sample_nodes read_store may_connect_def other_side_def)

lemma sample_keys_ok: "keys_ok sample"
  by (rule keys_if_check [of "[0, 1, 2, 3]"])
    (simp_all add: dom_sample keys_check_def sample_nodes read_store)

lemma sample_parent: "parent sample (Suc 0) = Some 0" "parent sample 2 = Some 0" "parent sample 3 = Some 2"
  by (simp_all add: parent_def sample_nodes)

section \<open>Adding and removing connections\<close>

text \<open>
  C8. \<^verbatim>\<open>addInputConnection\<close>, \<^verbatim>\<open>addOutputConnection\<close> and \<^verbatim>\<open>addInternalConnection\<close> between ports that exist, of
  sub-models of this coupled model, return; the connection is counted once more at both of its
  ends, all others are untouched, and the two copies of every connection of the graph agree again.
\<close>

theorem addConnection_spec:
  assumes "linked s"
  shows "(parent s b = Some this \<and> has_port s IntIn this p \<and> has_port s In b q \<longrightarrow>
      (\<exists>t. addInputConnection this p (Some b) q s = Ret () t \<and> link_changed Suc s IntIn this p b q t))
    \<and> (parent s a = Some this \<and> has_port s Out a p \<and> has_port s IntOut this q \<longrightarrow>
      (\<exists>t. addOutputConnection this (Some a) p q s = Ret () t \<and> link_changed Suc s Out a p this q t))
    \<and> (parent s a = Some this \<and> parent s b = Some this \<and> has_port s Out a p \<and> has_port s In b q \<longrightarrow>
      (\<exists>t. addInternalConnection this (Some a) p (Some b) q s = Ret () t \<and> link_changed Suc s Out a p b q t))"
  using assms input_conn.add_spec [where s = s and this = this and a = this and b = b and p = p and q = q]
    output_conn.add_spec [where s = s and this = this and a = a and b = this and p = p and q = q]
    internal_conn.add_spec [where s = s and this = this and a = a and b = b and p = p and q = q]
  by (auto simp: wp_iff)

theorem addConnection_spec_witness:
  "\<exists>t. addInternalConnection 0 (Some (Suc 0)) ''o'' (Some (Suc 0)) ''i'' sample = Ret () t
     \<and> link_changed Suc sample Out (Suc 0) ''o'' (Suc 0) ''i'' t"
  using addConnection_spec [OF sample_linked, of "Suc 0" 0 "''o''" "''i''" "Suc 0"]
  by (simp add: sample_parent read_store sample_nodes)

text \<open>
  C9. \<^verbatim>\<open>delInputConnection\<close>, \<^verbatim>\<open>delOutputConnection\<close> and \<^verbatim>\<open>delInternalConnection\<close> return, remove the
  connection at both ends, however often it was added, touch nothing else and leave the graph
  linked.
\<close>

theorem delConnection_spec:
  assumes "linked s"
  shows "(parent s b = Some this \<and> has_port s IntIn this p \<and> has_port s In b q \<longrightarrow>
      (\<exists>t. delInputConnection this p (Some b) q s = Ret () t \<and> link_changed (\<lambda>_. 0) s IntIn this p b q t))
    \<and> (parent s a = Some this \<and> has_port s Out a p \<and> has_port s IntOut this q \<longrightarrow>
      (\<exists>t. delOutputConnection this (Some a) p q s = Ret () t \<and> link_changed (\<lambda>_. 0) s Out a p this q t))
    \<and> (parent s a = Some this \<and> parent s b = Some this \<and> has_port s Out a p \<and> has_port s In b q \<longrightarrow>
      (\<exists>t. delInternalConnection this (Some a) p (Some b) q s = Ret () t \<and> link_changed (\<lambda>_. 0) s Out a p b q t))"
  using assms input_conn.del_spec [where s = s and this = this and a = this and b = b and p = p and q = q]
    output_conn.del_spec [where s = s and this = this and a = a and b = this and p = p and q = q]
    internal_conn.del_spec [where s = s and this = this and a = a and b = b and p = p and q = q]
  by (auto simp: wp_iff)

theorem delConnection_spec_witness:
  "\<exists>t. delInternalConnection 0 (Some (Suc 0)) ''o'' (Some 2) ''i'' sample = Ret () t
     \<and> link_changed (\<lambda>_. 0) sample Out (Suc 0) ''o'' 2 ''i'' t"
  using delConnection_spec [OF sample_linked, of 2 0 "''o''" "''i''" "Suc 0"]
  by (simp add: sample_parent read_store sample_nodes)

text \<open>
  C30. When the destination has no such port, \<^verbatim>\<open>addInternalConnection\<close> throws only after it recorded the
  connection at the source: the exception leaves a connection with one end, and the two copies
  disagree.
\<close>

theorem addInternalConnection_half:
  assumes "linked s" "parent s a = Some this" "parent s b = Some this"
    and "has_port s Out a p" "\<not> has_port s In b q"
  shows "\<exists>msg t. addInternalConnection this (Some a) p (Some b) q s = Exn (DevsGraphError msg) t
    \<and> cnt t Out a p b q = Suc (cnt s Out a p b q) \<and> \<not> linked t"
proof -
  obtain n where "s b = Some n" using assms(3) by (auto simp: parent_def split: option.splits)
  then show ?thesis using assms by (intro internal_conn.add_missing_end) (auto simp: node_conns_def)
qed

theorem addInternalConnection_half_witness:
  "\<exists>msg t. addInternalConnection 0 (Some (Suc 0)) ''o'' (Some 2) ''none'' sample = Exn (DevsGraphError msg) t
    \<and> cnt t Out (Suc 0) ''o'' 2 ''none'' = 1 \<and> \<not> linked t"
  using addInternalConnection_half [OF sample_linked, of "Suc 0" 0 2 "''o''" "''none''"]
  by (simp add: sample_parent read_store sample_nodes)

text \<open>
  C6. \<^verbatim>\<open>delAllConnection(m)\<close> on a sub-model ends without an exception on a linked graph, removes exactly
  the connections of the model with its siblings and its parent, at both ends, keeps the
  connections inside the model, and leaves the graph linked.
\<close>

theorem delAllConnection_spec:
  assumes "linked s" "keys_ok s" "parent s m = Some this"
  shows "\<exists>t. delAllConnection this (Some m) s = Ret () t \<and> linked t \<and> shape t = shape s
    \<and> (\<forall>d a p b q. cnt t d a p b q = (if (d, a, p, b, q) \<in> outer_entries s m then 0 else cnt s d a p b q))"
proof -
  obtain t where t: "delAllConnection this (Some m) s = Ret () t" "without (outer_entries s m) s t"
    using wp_delAllConnection [OF assms] by (auto simp: wp_iff)
  with linked_without_outer [OF assms(1) t(2)] show ?thesis by (simp add: without_def)
qed

theorem delAllConnection_spec_witness:
  "\<exists>t. delAllConnection 0 (Some 2) sample = Ret () t \<and> linked t \<and> shape t = shape sample
    \<and> cnt t Out (Suc 0) ''o'' 2 ''i'' = 0 \<and> cnt t In (Suc 0) ''i'' 2 ''o'' = 0 \<and> cnt t IntIn 2 ''i'' 3 ''i'' = 1"
proof -
  have "(Out, Suc 0, ''o'', 2, ''i'') \<in> outer_entries sample 2"
    "(In, Suc 0, ''i'', 2, ''o'') \<in> outer_entries sample 2"
    "(IntIn, 2, ''i'', 3, ''i'') \<notin> outer_entries sample 2"
    by (simp_all add: outer_entries_def sample_parent)
  moreover have "cnt sample IntIn 2 ''i'' 3 ''i'' = 1"
    by (simp add: read_store sample_nodes)
  ultimately show ?thesis
    using delAllConnection_spec [OF sample_linked sample_keys_ok sample_parent(2)] by force
qed

end
