(* ===== verification/Worklist.thy ===== *)
theory Worklist
  imports Prelude
begin

text \<open>
  Loops that take an item from a work list, emit some results and put further items on the list:
  the breadth-first walk of \<^verbatim>\<open>BaseModel::getAtomicModelList\<close> and the depth-first walks of
  \<^verbatim>\<open>getAtomicModelsTarget\<close> and \<^verbatim>\<open>getAtomicModelsSource\<close>. The order in which items are taken does not
  matter for what the loop returns as a set, or as a multiset.
\<close>

locale worklist =
  fixes ok :: "'i \<Rightarrow> bool"
    and succ :: "'i \<Rightarrow> 'i list"
    and out :: "'i \<Rightarrow> 'o list"
    and rank :: "'i \<Rightarrow> nat"
    and push :: "'i list \<Rightarrow> 'i list \<Rightarrow> 'i list"
    and emit :: "'o list \<Rightarrow> 'o list \<Rightarrow> 'o list"
    and loop :: "'i list \<Rightarrow> 'o list \<Rightarrow> 'o list result option"
  assumes succ_ok: "ok x \<Longrightarrow> y \<in> set (succ x) \<Longrightarrow> ok y"
    and succ_rank: "ok x \<Longrightarrow> y \<in> set (succ x) \<Longrightarrow> rank y < rank x"
    and mset_push: "mset (push new old) = mset new + mset old"
    and mset_emit: "mset (emit outs r) = mset outs + mset r"
    and loop_Nil: "loop [] r = Some (Inr r)"
    and loop_Cons: "ok x \<Longrightarrow> loop (x # q) r = loop (push (succ x) q) (emit (out x) r)"
begin

lemma loop_induct [consumes 1, case_names Nil Cons]:
  assumes "\<forall>x \<in> set q. ok x"
    and "\<And>r. P [] r"
    and "\<And>x q r. ok x \<Longrightarrow> \<forall>y \<in> set q. ok y \<Longrightarrow> P (push (succ x) q) (emit (out x) r) \<Longrightarrow> P (x # q) r"
  shows "P q r"
  using assms(1)
proof (induction "mset (map rank q)" arbitrary: q r rule: wf_induct_rule [OF wf_mult [OF wf_less_than]])
  case (1 q)
  show ?case
  proof (cases q)
    case Nil
    with assms(2) show ?thesis by simp
  next
    case (Cons x q')
    have ok: "ok x" "\<forall>y \<in> set q'. ok y" using 1(2) Cons by auto
    have new: "mset (map rank (push (succ x) q')) = mset (map rank q') + mset (map rank (succ x))"
      by (simp add: mset_push)
    have "(mset (map rank q') + mset (map rank (succ x)), mset (map rank q') + {#rank x#}) \<in> mult less_than"
      using succ_rank [OF ok(1)] by (intro one_step_implies_mult) auto
    then have less: "(mset (map rank (push (succ x) q')), mset (map rank q)) \<in> mult less_than"
      unfolding new Cons by (simp add: add.commute)
    have "set (push (succ x) q') = set (succ x) \<union> set q'"
      using arg_cong [OF mset_push, of set_mset] by simp
    then have "\<forall>y \<in> set (push (succ x) q'). ok y" using ok succ_ok by auto
    from assms(3) [OF ok 1(1) [OF less this]] show ?thesis unfolding Cons .
  qed
qed

definition yields :: "'i \<Rightarrow> 'o set" where
  "yields x = {v. \<exists>y. (x, y) \<in> {(x, y). y \<in> set (succ x)}\<^sup>* \<and> v \<in> set (out y)}"

lemma yields_unfold: "yields x = set (out x) \<union> (\<Union>y \<in> set (succ x). yields y)"
proof (intro set_eqI iffI)
  fix v
  assume "v \<in> yields x"
  then show "v \<in> set (out x) \<union> (\<Union>y \<in> set (succ x). yields y)"
    unfolding yields_def by (auto elim: converse_rtranclE)
next
  fix v
  assume "v \<in> set (out x) \<union> (\<Union>y \<in> set (succ x). yields y)"
  then show "v \<in> yields x"
    unfolding yields_def by (auto intro: converse_rtrancl_into_rtrancl)
qed

theorem loop_set:
  assumes "\<forall>x \<in> set q. ok x"
  shows "\<exists>r'. loop q r = Some (Inr r') \<and> set r' = set r \<union> (\<Union>x \<in> set q. yields x)"
  using assms
proof (induction q r rule: loop_induct)
  case (Nil r)
  show ?case by (simp add: loop_Nil)
next
  case (Cons x q r)
  have "set (push (succ x) q) = set (succ x) \<union> set q"
    using arg_cong [OF mset_push, of set_mset] by simp
  moreover have "set (emit (out x) r) = set (out x) \<union> set r"
    using arg_cong [OF mset_emit, of set_mset] by simp
  ultimately show ?case
    using Cons.IH yields_unfold [of x] by (auto simp: loop_Cons [OF Cons.hyps(1)])
qed

end

text \<open>When the results below each item are known as a multiset, so is the result of the loop.\<close>

locale counted_worklist = worklist +
  fixes total :: "'a \<Rightarrow> 'b multiset"
  assumes total_unfold: "ok x \<Longrightarrow> total x = mset (out x) + (\<Sum>y \<in># mset (succ x). total y)"
begin

theorem loop_mset:
  assumes "\<forall>x \<in> set q. ok x"
  shows "\<exists>r'. loop q r = Some (Inr r') \<and> mset r' = mset r + (\<Sum>x \<in># mset q. total x)"
  using assms
proof (induction q r rule: loop_induct)
  case (Nil r)
  show ?case by (simp add: loop_Nil)
next
  case (Cons x q r)
  then show ?case
    by (auto simp: loop_Cons [OF Cons.hyps(1)] mset_push mset_emit total_unfold [OF Cons.hyps(1)] add_ac)
qed

end

end
