(* ===== verification/Model_Tree.thy ===== *)
theory Model_Tree
  imports Connection_Properties Worklist
begin

text \<open>
  The tree of models: every coupled model lists its sub-models by name and every sub-model points to
  its parent. \<^verbatim>\<open>getAtomicModelList\<close> walks the tree breadth first.
\<close>

section \<open>Well-formed trees\<close>

definition parent_rel :: "graph \<Rightarrow> (addr \<times> addr) set" where
  "parent_rel s = {(a, c). parent s a = Some c}"

definition tree_ok :: "graph \<Rightarrow> bool" where
  "tree_ok s \<longleftrightarrow> finite (dom s) \<and> acyclic (parent_rel s)
     \<and> (\<forall>c name a. (name, a) \<in> set (models s c) \<longrightarrow>
          (\<exists>n. s a = Some n \<and> m_name n = name \<and> m_parent n = Some c))
     \<and> (\<forall>a n c. s a = Some n \<longrightarrow> m_parent n = Some c \<longrightarrow> (m_name n, a) \<in> set (models s c))
     \<and> (\<forall>c. smap_ok (models s c))"

definition atomic_at :: "graph \<Rightarrow> addr \<Rightarrow> bool" where
  "atomic_at s a \<longleftrightarrow> (case s a of None \<Rightarrow> False | Some n \<Rightarrow> isAtomic n)"

definition coupled_at :: "graph \<Rightarrow> addr \<Rightarrow> bool" where
  "coupled_at s a \<longleftrightarrow> (case s a of None \<Rightarrow> False | Some n \<Rightarrow> isCoupled n)"

lemma isCoupled_iff: "isCoupled n \<longleftrightarrow> \<not> isAtomic n"
  by (simp add: isAtomic_def isCoupled_def split: model_kind.split)

lemma coupled_or_atomic: "s a \<noteq> None \<Longrightarrow> coupled_at s a \<longleftrightarrow> \<not> atomic_at s a"
  by (auto simp: coupled_at_def atomic_at_def isCoupled_iff)

lemma tree_child: "tree_ok s \<Longrightarrow> (name, a) \<in> set (models s c) \<Longrightarrow> parent s a = Some c \<and> s a \<noteq> None"
  by (fastforce simp: tree_ok_def parent_def)

lemma tree_child_iff: "tree_ok s \<Longrightarrow> parent s a = Some c \<longleftrightarrow> a \<in> snd ` set (models s c)"
proof
  assume t: "tree_ok s" and p: "parent s a = Some c"
  then obtain n where "s a = Some n" "m_parent n = Some c" by (auto simp: parent_def split: option.splits)
  then show "a \<in> snd ` set (models s c)" using t by (force simp: tree_ok_def)
qed (auto dest: tree_child)

lemma tree_parent_coupled: "tree_ok s \<Longrightarrow> parent s a = Some c \<Longrightarrow> coupled_at s c"
proof -
  assume "tree_ok s" "parent s a = Some c"
  then have "models s c \<noteq> []" by (auto simp: tree_child_iff)
  then show ?thesis
    by (auto simp: models_def coupled_at_def isCoupled_def split: option.splits model_kind.splits)
qed

lemma tree_irrefl: "tree_ok s \<Longrightarrow> parent s a \<noteq> Some a"
  by (auto simp: tree_ok_def acyclic_def parent_rel_def)

lemma tree_no_swap: "tree_ok s \<Longrightarrow> parent s a = Some b \<Longrightarrow> parent s b \<noteq> Some a"
proof
  assume t: "tree_ok s" and "parent s a = Some b" "parent s b = Some a"
  then have "(a, a) \<in> (parent_rel s)\<^sup>+" by (auto simp: parent_rel_def intro: trancl_into_trancl2)
  with t show False by (auto simp: tree_ok_def acyclic_def)
qed

lemma distinct_children: "tree_ok s \<Longrightarrow> distinct (map snd (models s c))"
proof -
  assume t: "tree_ok s"
  then have "distinct (map fst (models s c))"
    by (auto simp: tree_ok_def smap_ok_def strict_sorted_iff)
  then have "distinct (models s c)" by (simp add: distinct_map)
  moreover have "inj_on snd (set (models s c))"
  proof (rule inj_onI)
    fix x y
    assume xy: "x \<in> set (models s c)" "y \<in> set (models s c)" "snd x = snd y"
    have "\<exists>n. s (snd z) = Some n \<and> m_name n = fst z" if "z \<in> set (models s c)" for z
      using t that by (cases z) (fastforce simp: tree_ok_def)
    from this [OF xy(1)] this [OF xy(2)] xy(3) show "x = y" by (auto simp: prod_eq_iff)
  qed
  ultimately show ?thesis by (simp add: distinct_map)
qed

text \<open>The depth of a model: how many ancestors it has.\<close>

definition ancestors :: "graph \<Rightarrow> addr \<Rightarrow> addr set" where
  "ancestors s a = {c. (a, c) \<in> (parent_rel s)\<^sup>+}"

definition depth :: "graph \<Rightarrow> addr \<Rightarrow> nat" where
  "depth s a = card (ancestors s a)"

lemma finite_parent_rel: "tree_ok s \<Longrightarrow> finite (parent_rel s)"
proof -
  assume t: "tree_ok s"
  have "parent_rel s \<subseteq> dom s \<times> dom s"
    using tree_parent_coupled [OF t]
    by (force simp: parent_rel_def parent_def coupled_at_def split: option.splits)
  with t show ?thesis by (auto simp: tree_ok_def intro: finite_subset)
qed

lemma finite_ancestors: "tree_ok s \<Longrightarrow> finite (ancestors s a)"
proof -
  assume "tree_ok s"
  then have "finite ((parent_rel s)\<^sup>+)" by (simp add: finite_parent_rel)
  moreover have "ancestors s a \<subseteq> snd ` ((parent_rel s)\<^sup>+)" by (force simp: ancestors_def)
  ultimately show ?thesis by (meson finite_imageI finite_subset)
qed

lemma depth_child: "tree_ok s \<Longrightarrow> parent s a = Some c \<Longrightarrow> depth s a = Suc (depth s c)"
proof -
  assume t: "tree_ok s" and p: "parent s a = Some c"
  have "ancestors s a = insert c (ancestors s c)"
  proof (intro set_eqI iffI)
    fix x
    assume "x \<in> ancestors s a"
    then show "x \<in> insert c (ancestors s c)"
      using p by (auto simp: ancestors_def parent_rel_def elim: converse_tranclE)
  next
    fix x
    have "(a, c) \<in> parent_rel s" using p by (simp add: parent_rel_def)
    moreover assume "x \<in> insert c (ancestors s c)"
    ultimately show "x \<in> ancestors s a"
      by (auto simp: ancestors_def intro: trancl_into_trancl2)
  qed
  moreover have "c \<notin> ancestors s c" using t by (auto simp: ancestors_def tree_ok_def acyclic_def)
  ultimately show ?thesis using finite_ancestors [OF t, of c] by (simp add: depth_def)
qed

lemma depth_le: "tree_ok s \<Longrightarrow> s a \<noteq> None \<Longrightarrow> depth s a \<le> card (dom s)"
proof -
  assume t: "tree_ok s"
  have "ancestors s a \<subseteq> dom s"
  proof
    fix c
    assume "c \<in> ancestors s a"
    then have "\<exists>b. parent s b = Some c"
      by (auto simp: ancestors_def parent_rel_def elim: tranclE)
    with tree_parent_coupled [OF t] show "c \<in> dom s"
      by (force simp: coupled_at_def split: option.splits)
  qed
  with t show ?thesis unfolding depth_def by (intro card_mono) (auto simp: tree_ok_def)
qed

section \<open>getAtomicModelList\<close>

text \<open>
  One turn of the loop handles the front of the queue: the atomic sub-models are appended to the
  result, the coupled ones to the queue. Nothing in the code bounds the loop; it is defined as a
  partial function and ends by the theorem below.
\<close>

fun split_children :: "graph \<Rightarrow> model_list \<Rightarrow> (addr list \<times> addr list) result" where
  "split_children s [] = Inr ([], [])"
| "split_children s (elem # v) = (case s (snd elem) of
     None \<Rightarrow> Inl (UndefinedBehaviour ''dangling pointer'')
   | Some n \<Rightarrow> bindE (split_children s v) (\<lambda>(atoms, cpls).
       Inr (if isAtomic n then (snd elem # atoms, cpls) else (atoms, snd elem # cpls))))"

partial_function (option) atomic_loop :: "graph \<Rightarrow> addr list \<Rightarrow> addr list \<Rightarrow> addr list result option" where
  "atomic_loop s queue list = (case queue of
     [] \<Rightarrow> Some (Inr list)
   | m # queue' \<Rightarrow> (case split_children s (models s m) of
       Inl e \<Rightarrow> Some (Inl e)
     | Inr (atoms, cpls) \<Rightarrow> atomic_loop s (queue' @ cpls) (list @ atoms)))"

definition getAtomicModelList :: "graph \<Rightarrow> addr \<Rightarrow> addr list \<Rightarrow> addr list result option" where
  "getAtomicModelList s model list = (case s model of
     None \<Rightarrow> Some (Inl (UndefinedBehaviour ''dangling pointer''))
   | Some n \<Rightarrow> if isAtomic n then Some (Inr (list @ [model])) else atomic_loop s [model] list)"

lemma split_children_spec:
  assumes "\<forall>e \<in> set v. s (snd e) \<noteq> None"
  shows "split_children s v =
    Inr (filter (atomic_at s) (map snd v), filter (coupled_at s) (map snd v))"
  using assms by (induction v) (auto simp: atomic_at_def coupled_at_def isCoupled_iff)

text \<open>The atomic models strictly below a model.\<close>

definition atomic_below :: "graph \<Rightarrow> addr \<Rightarrow> addr set" where
  "atomic_below s c = {a. atomic_at s a \<and> c \<in> ancestors s a}"

lemma atomic_below_unfold:
  assumes t: "tree_ok s"
  shows "atomic_below s c = {a \<in> snd ` set (models s c). atomic_at s a}
    \<union> (\<Union>b \<in> {b \<in> snd ` set (models s c). coupled_at s b}. atomic_below s b)"
proof (intro set_eqI iffI)
  fix a
  assume "a \<in> atomic_below s c"
  then have at: "atomic_at s a" and tr: "(a, c) \<in> (parent_rel s)\<^sup>+" by (auto simp: atomic_below_def ancestors_def)
  from tr show "a \<in> {a \<in> snd ` set (models s c). atomic_at s a}
    \<union> (\<Union>b \<in> {b \<in> snd ` set (models s c). coupled_at s b}. atomic_below s b)"
  proof (cases rule: tranclE)
    case base
    with at t show ?thesis by (simp add: parent_rel_def tree_child_iff)
  next
    case (step b)
    then have "b \<in> snd ` set (models s c)" using t by (simp add: parent_rel_def tree_child_iff)
    moreover have "coupled_at s b"
      using step(1) tree_parent_coupled [OF t] by (auto simp: parent_rel_def elim: tranclE)
    ultimately show ?thesis using step(1) at by (auto simp: atomic_below_def ancestors_def)
  qed
next
  fix a
  assume "a \<in> {a \<in> snd ` set (models s c). atomic_at s a}
    \<union> (\<Union>b \<in> {b \<in> snd ` set (models s c). coupled_at s b}. atomic_below s b)"
  then show "a \<in> atomic_below s c"
  proof (elim UnE UN_E)
    assume "a \<in> {a \<in> snd ` set (models s c). atomic_at s a}"
    then show ?thesis using t by (auto simp: atomic_below_def ancestors_def parent_rel_def simp flip: tree_child_iff)
  next
    fix b
    assume "b \<in> {b \<in> snd ` set (models s c). coupled_at s b}" "a \<in> atomic_below s b"
    then have "(b, c) \<in> parent_rel s" "(a, b) \<in> (parent_rel s)\<^sup>+" "atomic_at s a"
      using t by (auto simp: atomic_below_def ancestors_def parent_rel_def simp flip: tree_child_iff)
    then show ?thesis by (auto simp: atomic_below_def ancestors_def)
  qed
qed

lemma finite_below: "tree_ok s \<Longrightarrow> finite (atomic_below s c)"
proof -
  assume "tree_ok s"
  moreover have "atomic_below s c \<subseteq> dom s" by (auto simp: atomic_below_def atomic_at_def split: option.splits)
  ultimately show ?thesis by (auto simp: tree_ok_def intro: finite_subset)
qed

lemma ancestors_chain: "x \<in> ancestors s a \<Longrightarrow> y \<in> ancestors s a \<Longrightarrow> x = y \<or> x \<in> ancestors s y \<or> y \<in> ancestors s x"
proof -
  assume "x \<in> ancestors s a" "y \<in> ancestors s a"
  moreover have "single_valued (parent_rel s)" by (auto simp: single_valued_def parent_rel_def)
  ultimately have "(x, y) \<in> (parent_rel s)\<^sup>* \<or> (y, x) \<in> (parent_rel s)\<^sup>*"
    using single_valued_confluent [of "parent_rel s" a x y] by (simp add: ancestors_def trancl_into_rtrancl)
  then show ?thesis by (auto simp: ancestors_def rtrancl_eq_or_trancl)
qed

text \<open>The subtrees of two different sub-models of a coupled model have no model in common.\<close>

lemma below_siblings_disjoint:
  assumes t: "tree_ok s" and "parent s x = Some c" "parent s y = Some c" "x \<noteq> y"
  shows "x \<notin> ancestors s y" "atomic_below s x \<inter> atomic_below s y = {}"
proof -
  have no: "u \<notin> ancestors s v" if "parent s u = Some c" "parent s v = Some c" for u v
  proof
    assume "u \<in> ancestors s v"
    then have "depth s u < depth s v"
    proof -
      have "ancestors s u \<subset> ancestors s v"
        using \<open>u \<in> ancestors s v\<close> t by (auto simp: ancestors_def tree_ok_def acyclic_def)
      then show ?thesis unfolding depth_def by (rule psubset_card_mono [OF finite_ancestors [OF t]])
    qed
    with depth_child [OF t that(1)] depth_child [OF t that(2)] show False by simp
  qed
  show "x \<notin> ancestors s y" using assms by (intro no)
  show "atomic_below s x \<inter> atomic_below s y = {}"
    using ancestors_chain no assms by (force simp: atomic_below_def)
qed

lemma sum_mset_set_disjoint:
  assumes "distinct xs" "\<And>x. finite (B x)" "\<And>x y. x \<in> set xs \<Longrightarrow> y \<in> set xs \<Longrightarrow> x \<noteq> y \<Longrightarrow> B x \<inter> B y = {}"
  shows "(\<Sum>x \<in># mset xs. mset_set (B x)) = mset_set (\<Union>x \<in> set xs. B x)"
  using assms
proof (induction xs)
  case (Cons x xs)
  have "B x \<inter> (\<Union>y \<in> set xs. B y) = {}" using Cons.prems(1,3) by auto
  then have "mset_set (B x \<union> (\<Union>y \<in> set xs. B y)) = mset_set (B x) + mset_set (\<Union>y \<in> set xs. B y)"
    using Cons.prems(2) by (intro mset_set_Union) auto
  with Cons show ?case by simp
qed simp

lemma below_total:
  assumes t: "tree_ok s"
  shows "mset_set (atomic_below s c) = mset (filter (atomic_at s) (map snd (models s c)))
    + (\<Sum>b \<in># mset (filter (coupled_at s) (map snd (models s c))). mset_set (atomic_below s b))"
proof -
  let ?ch = "map snd (models s c)"
  have child: "parent s b = Some c" if "b \<in> set ?ch" for b using that t by (auto dest: tree_child)
  have d: "distinct ?ch" by (rule distinct_children [OF t])
  have sum: "(\<Sum>b \<in># mset (filter (coupled_at s) ?ch). mset_set (atomic_below s b))
      = mset_set (\<Union>b \<in> set (filter (coupled_at s) ?ch). atomic_below s b)"
  proof (rule sum_mset_set_disjoint)
    fix x y
    assume "x \<in> set (filter (coupled_at s) ?ch)" "y \<in> set (filter (coupled_at s) ?ch)" "x \<noteq> y"
    then show "atomic_below s x \<inter> atomic_below s y = {}"
      using child by (intro below_siblings_disjoint(2) [OF t]) auto
  qed (use d finite_below [OF t] in auto)
  have atoms: "mset (filter (atomic_at s) ?ch) = mset_set {a \<in> set ?ch. atomic_at s a}"
    using mset_set_set [of "filter (atomic_at s) ?ch"] d by (simp del: mset_filter)
  have disj: "{a \<in> set ?ch. atomic_at s a} \<inter> (\<Union>b \<in> set (filter (coupled_at s) ?ch). atomic_below s b) = {}"
  proof -
    have False if "a \<in> set ?ch" "b \<in> set ?ch" "a \<in> atomic_below s b" for a b
    proof -
      have "depth s b < depth s a"
        using that(3) t unfolding depth_def
        by (intro psubset_card_mono finite_ancestors) (auto simp: atomic_below_def ancestors_def tree_ok_def acyclic_def)
      with depth_child [OF t child [OF that(1)]] depth_child [OF t child [OF that(2)]] show False by simp
    qed
    then show ?thesis by auto
  qed
  have "atomic_below s c = {a \<in> set ?ch. atomic_at s a} \<union> (\<Union>b \<in> set (filter (coupled_at s) ?ch). atomic_below s b)"
    using atomic_below_unfold [OF t, of c] by auto
  then show ?thesis
    unfolding sum atoms using disj finite_below [OF t] by (simp add: mset_set_Union)
qed

interpretation bfs: counted_worklist
  "\<lambda>c. tree_ok s \<and> coupled_at s c" "\<lambda>c. filter (coupled_at s) (map snd (models s c))"
  "\<lambda>c. filter (atomic_at s) (map snd (models s c))" "\<lambda>c. card (dom s) - depth s c"
  "\<lambda>new old. old @ new" "\<lambda>new old. old @ new" "atomic_loop s" "\<lambda>c. mset_set (atomic_below s c)"
  for s
proof unfold_locales
  fix x y r q
  assume x: "tree_ok s \<and> coupled_at s x"
  show "mset_set (atomic_below s x) = mset (filter (atomic_at s) (map snd (models s x)))
      + (\<Sum>y \<in># mset (filter (coupled_at s) (map snd (models s x))). mset_set (atomic_below s y))"
    using x by (intro below_total) simp
  have "\<forall>e \<in> set (models s x). s (snd e) \<noteq> None" using x by (auto dest: tree_child)
  then show "atomic_loop s (x # q) r = atomic_loop s (q @ filter (coupled_at s) (map snd (models s x)))
      (r @ filter (atomic_at s) (map snd (models s x)))"
    by (subst atomic_loop.simps) (simp add: split_children_spec)
  assume y: "y \<in> set (filter (coupled_at s) (map snd (models s x)))"
  then show "tree_ok s \<and> coupled_at s y" using x by simp
  have "parent s y = Some x" "s y \<noteq> None" using x y by (auto dest: tree_child)
  with x depth_child [of s y x] depth_le [of s y]
  show "card (dom s) - depth s y < card (dom s) - depth s x" by simp
qed (simp_all add: atomic_loop.simps)

text \<open>The list that \<^verbatim>\<open>getAtomicModelList\<close> builds.\<close>

definition atomic_list :: "graph \<Rightarrow> addr \<Rightarrow> addr list \<Rightarrow> bool" where
  "atomic_list g node as \<longleftrightarrow> getAtomicModelList g node [] = Some (Inr as)"

lemma atomic_list_total:
  assumes "tree_ok g" "g node \<noteq> None"
  shows "\<exists>as. atomic_list g node as \<and> distinct as \<and> set as = (if atomic_at g node then {node} else atomic_below g node)"
proof (cases "atomic_at g node")
  case True
  then show ?thesis using assms by (auto simp: atomic_list_def getAtomicModelList_def atomic_at_def split: option.splits)
next
  case False
  then have c: "coupled_at g node" using assms(2) by (auto simp: atomic_at_def coupled_at_def isCoupled_iff split: option.splits)
  then obtain r where "getAtomicModelList g node [] = Some (Inr r)" "mset r = mset_set (atomic_below g node)"
    using bfs.loop_mset [where s = g and q = "[node]" and r = "[]"] assms
    by (auto simp: getAtomicModelList_def coupled_at_def isCoupled_iff split: option.splits)
  moreover from this(2) have S: "set r = atomic_below g node" using finite_below [OF assms(1), of node] by (metis finite_set_mset_mset_set set_mset_mset)
  moreover have "distinct r" using arg_cong [OF calculation(2), of size] S by (intro card_distinct) simp
  ultimately show ?thesis using False by (auto simp: atomic_list_def)
qed

text \<open>
  C10. \<^verbatim>\<open>getAtomicModelList\<close> on a well-formed tree ends and appends to the list every atomic model below
  the given model exactly once.
\<close>

theorem getAtomicModelList_spec:
  assumes "tree_ok s" "coupled_at s c"
  shows "\<exists>r. getAtomicModelList s c list = Some (Inr r) \<and> mset r = mset list + mset_set (atomic_below s c)"
  using bfs.loop_mset [where s = s and q = "[c]" and r = list] assms
  by (auto simp: getAtomicModelList_def coupled_at_def isCoupled_iff split: option.splits)

lemma sample_tree_ok: "tree_ok sample"
proof -
  have par: "parent_rel sample = {(Suc 0, 0), (2, 0), (3, 2)}"
    by (auto simp: parent_rel_def parent_def sample_def split: if_splits option.splits)
  have "parent_rel sample \<subseteq> (less_than)\<inverse>" by (auto simp: par)
  then have "acyclic (parent_rel sample)"
    by (meson acyclic_converse acyclic_subset wf_acyclic wf_less_than)
  moreover have "models sample c = (if c = 0 then [(''a'', 1), (''c'', 2)] else if c = 2 then [(''x'', 3)] else [])" for c
    by (simp add: models_def sample_def coupled_init_def)
  ultimately show ?thesis
    unfolding tree_ok_def
    by (auto simp: dom_sample sample_nodes smap_ok_def) (auto simp: sample_def split: if_splits)
qed

theorem getAtomicModelList_spec_witness:
  "\<exists>r. getAtomicModelList sample 0 [] = Some (Inr r) \<and> mset r = mset [] + mset_set (atomic_below sample 0)"
  by (rule getAtomicModelList_spec [OF sample_tree_ok])
    (simp add: coupled_at_def sample_nodes isCoupled_def)

end
