(* ===== verification/Traversal.thy ===== *)
theory Traversal
  imports Model_Tree
begin

text \<open>
  \<^verbatim>\<open>BaseModel::getAtomicModelsTarget\<close> and \<^verbatim>\<open>getAtomicModelsSource\<close>: the walks along the connections,
  through the borders of coupled models, from a port of a model to the ports of the atomic models at
  the other end. The coordinator builds the targets of every simulator with the first one.
\<close>

section \<open>The two walks\<close>

text \<open>
  An item of the stack is a port list, named by its list, model and port; the model is the second
  component of the pairs of the code. \<open>up\<close> is the list that is followed when a connection leaves the
  parent, \<open>down\<close> the one when it enters a coupled model.
\<close>

type_synonym item = "side \<times> addr \<times> string"

fun visit :: "side \<Rightarrow> side \<Rightarrow> graph \<Rightarrow> addr \<Rightarrow> port_list \<Rightarrow> item list \<Rightarrow> port_list \<Rightarrow> (item list \<times> port_list) result" where
  "visit up down s source [] stack res = Inr (stack, res)"
| "visit up down s source (it # its) stack res = (case s (fst it) of
     None \<Rightarrow> Inl (UndefinedBehaviour ''dangling pointer'')
   | Some mdl \<Rightarrow>
       if isAtomic mdl then
         bindE (ModelPortList_add (Some (fst it)) (snd it) res) (visit up down s source its stack)
       else
         (let d = (if parent s source = Some (fst it) then up else down) in
          if has_port s d (fst it) (snd it) then visit up down s source its ((d, it) # stack) res
          else Inl (DevsGraphError ''Coupled model have no port'')))"

partial_function (option) walk_loop :: "side \<Rightarrow> side \<Rightarrow> graph \<Rightarrow> item list \<Rightarrow> port_list \<Rightarrow> port_list result option" where
  "walk_loop up down s stack res = (case stack of
     [] \<Rightarrow> Some (Inr res)
   | (d, source, p) # stack' \<Rightarrow> (case visit up down s source (ports s d source p) stack' res of
       Inl e \<Rightarrow> Some (Inl e)
     | Inr (stack'', res') \<Rightarrow> walk_loop up down s stack'' res'))"

definition getAtomicModelsTarget :: "graph \<Rightarrow> addr \<Rightarrow> string \<Rightarrow> port_list \<Rightarrow> port_list result option" where
  "getAtomicModelsTarget s this portname res =
     (case getOutPort this portname s of
        Exn e _ \<Rightarrow> Some (Inl e)
      | Ret _ _ \<Rightarrow> walk_loop Out IntIn s [(Out, this, portname)] res)"

definition getAtomicModelsSource :: "graph \<Rightarrow> addr \<Rightarrow> string \<Rightarrow> port_list \<Rightarrow> port_list result option" where
  "getAtomicModelsSource s this portname res =
     (case getInPort this portname s of
        Exn e _ \<Rightarrow> Some (Inl e)
      | Ret _ _ \<Rightarrow> walk_loop In IntOut s [(In, this, portname)] res)"

section \<open>Termination and what the walks find\<close>

text \<open>
  The ports of a coupled model come in pairs, one seen from outside and one from inside; an inside
  port that is left over from a deleted port has no connections.
\<close>

definition mirrored :: "graph \<Rightarrow> bool" where
  "mirrored s \<longleftrightarrow> (\<forall>c q. coupled_at s c \<longrightarrow>
      (has_port s In c q \<longrightarrow> has_port s IntIn c q) \<and> (has_port s Out c q \<longrightarrow> has_port s IntOut c q)
      \<and> (ports s IntIn c q \<noteq> [] \<longrightarrow> has_port s In c q) \<and> (ports s IntOut c q \<noteq> [] \<longrightarrow> has_port s Out c q))"

definition walk_succ :: "side \<Rightarrow> side \<Rightarrow> graph \<Rightarrow> item \<Rightarrow> item list" where
  "walk_succ up down s x = (case x of (d, a, p) \<Rightarrow>
     map (\<lambda>it. (if parent s a = Some (fst it) then up else down, it))
       (filter (\<lambda>it. coupled_at s (fst it)) (ports s d a p)))"

definition walk_out :: "graph \<Rightarrow> item \<Rightarrow> port_list" where
  "walk_out s x = (case x of (d, a, p) \<Rightarrow> filter (\<lambda>it. atomic_at s (fst it)) (ports s d a p))"

definition graph_ok :: "graph \<Rightarrow> bool" where
  "graph_ok s \<longleftrightarrow> linked s \<and> tree_ok s \<and> mirrored s"

definition walk_dirs :: "side \<Rightarrow> side \<Rightarrow> bool" where
  "walk_dirs up down \<longleftrightarrow> (up, down) \<in> {(Out, IntIn), (In, IntOut)}"

definition walk_ok :: "side \<Rightarrow> side \<Rightarrow> graph \<Rightarrow> item \<Rightarrow> bool" where
  "walk_ok up down s x \<longleftrightarrow> walk_dirs up down \<and> graph_ok s
     \<and> (case x of (d, a, p) \<Rightarrow> d \<in> {up, down} \<and> has_port s d a p)"

definition walk_rank :: "side \<Rightarrow> graph \<Rightarrow> item \<Rightarrow> nat" where
  "walk_rank up s x = (case x of (d, a, p) \<Rightarrow>
     if d = up then Suc (card (dom s)) + depth s a else card (dom s) - depth s a)"

lemma has_port_node: "has_port s d a p \<Longrightarrow> s a \<noteq> None"
  by (auto simp: has_port_def split: option.splits)

lemma entry_node:
  assumes "graph_ok s" "it \<in> set (ports s d a p)"
  shows "s (fst it) \<noteq> None"
  using linked_D(3) [of s "fst it" "snd it" d a p] assms has_port_node by (simp add: graph_ok_def)

text \<open>The side that is followed from an entry has the port.\<close>

lemma entry_has_port:
  assumes ok: "graph_ok s" and dir: "walk_dirs up down" "d \<in> {up, down}"
    and it: "it \<in> set (ports s d a p)" and c: "coupled_at s (fst it)"
  shows "has_port s (if parent s a = Some (fst it) then up else down) (fst it) (snd it)"
proof -
  obtain b q where b: "it = (b, q)" by force
  have lk: "linked s" and t: "tree_ok s" and mi: "mirrored s" using ok by (auto simp: graph_ok_def)
  have mc: "may_connect s d a b" and hp: "has_port s (other_side s d a b) b q"
    and ne: "ports s (other_side s d a b) b q \<noteq> []"
    using linked_D [OF lk, of b q d a p] it b by auto
  show ?thesis
    using mc hp ne dir c mi tree_no_swap [OF t, of a b]
    by (auto simp: b walk_dirs_def other_side_def may_connect_def mirrored_def split: if_splits)
qed

lemma visit_spec:
  assumes ok: "graph_ok s" and dir: "walk_dirs up down" "d \<in> {up, down}"
    and "set its \<subseteq> set (ports s d a p)"
  shows "visit up down s a its stack res =
    Inr (rev (map (\<lambda>it. (if parent s a = Some (fst it) then up else down, it)) (filter (\<lambda>it. coupled_at s (fst it)) its)) @ stack,
         fold (\<lambda>it. mmap_insert (fst it) (snd it)) (filter (\<lambda>it. atomic_at s (fst it)) its) res)"
  using assms(4)
proof (induction its arbitrary: stack res)
  case (Cons it its)
  have it: "it \<in> set (ports s d a p)" using Cons.prems by simp
  obtain n where n: "s (fst it) = Some n" using entry_node [OF ok it] by auto
  show ?case
  proof (cases "isAtomic n")
    case True
    with n Cons show ?thesis by (simp add: atomic_at_def coupled_at_def isCoupled_iff)
  next
    case False
    then have "coupled_at s (fst it)" "\<not> atomic_at s (fst it)" using n by (simp_all add: coupled_at_def atomic_at_def isCoupled_iff)
    with n False Cons entry_has_port [OF ok dir it] show ?thesis by (simp add: Let_def)
  qed
qed simp

lemma mset_fold_insert: "mset (fold (\<lambda>it. mmap_insert (fst it) (snd it)) its res) = mset its + mset res"
  by (induction its arbitrary: res) auto

interpretation walk: worklist "walk_ok up down s" "walk_succ up down s" "walk_out s" "walk_rank up s"
  "\<lambda>new old. rev new @ old" "fold (\<lambda>it. mmap_insert (fst it) (snd it))" "walk_loop up down s"
  for up down s
proof unfold_locales
  fix x y :: item and q r
  assume x: "walk_ok up down s x"
  obtain d a p where xd: "x = (d, a, p)" by (cases x)
  have ok: "graph_ok s" and dir: "walk_dirs up down" "d \<in> {up, down}" and hp: "has_port s d a p"
    using x by (auto simp: walk_ok_def xd)
  show "walk_loop up down s (x # q) r = walk_loop up down s (rev (walk_succ up down s x) @ q)
      (fold (\<lambda>it. mmap_insert (fst it) (snd it)) (walk_out s x) r)"
    by (subst walk_loop.simps) (simp add: xd visit_spec [OF ok dir order.refl] walk_succ_def walk_out_def)
  assume "y \<in> set (walk_succ up down s x)"
  then obtain it where it: "it \<in> set (ports s d a p)" "coupled_at s (fst it)"
    and y: "y = (if parent s a = Some (fst it) then up else down, it)"
    by (auto simp: walk_succ_def xd)
  show "walk_ok up down s y"
    using ok dir entry_has_port [OF ok dir it] by (cases it) (auto simp: walk_ok_def y)
  have lk: "linked s" and t: "tree_ok s" using ok by (auto simp: graph_ok_def)
  have mc: "may_connect s d a (fst it)" using linked_D(1) [OF lk, of "fst it" "snd it" d a p] it by simp
  have le: "depth s a \<le> card (dom s)" "depth s (fst it) \<le> card (dom s)"
    using depth_le [OF t] has_port_node [OF hp] entry_node [OF ok it(1)] by auto
  obtain b r' where b: "it = (b, r')" by force
  have ud: "up \<noteq> down" using dir by (auto simp: walk_dirs_def)
  have down: "parent s b = Some a" if "d = down" using mc dir that by (auto simp: b walk_dirs_def may_connect_def)
  show "walk_rank up s y < walk_rank up s x"
  proof (cases "parent s a = Some b")
    case True
    then have "d = up" using down dir tree_no_swap [OF t True] by auto
    with depth_child [OF t True] True show ?thesis by (simp add: walk_rank_def y xd b)
  next
    case False
    show ?thesis
    proof (cases "d = up")
      case True
      with False ud show ?thesis by (simp add: walk_rank_def y xd b)
    next
      case d: False
      with dir have "parent s b = Some a" by (intro down) auto
      with d False ud le depth_child [OF t this] show ?thesis by (simp add: walk_rank_def y xd b)
    qed
  qed
qed (simp_all add: walk_loop.simps mset_fold_insert)

section \<open>Targets and sources\<close>

text \<open>
  What the walks look for: the atomic ends reached from a port along a chain of port lists, each
  entered through an entry that names a coupled model. The specification is a relation between
  ports and does not mention stacks.
\<close>

inductive reaches :: "side \<Rightarrow> side \<Rightarrow> graph \<Rightarrow> item \<Rightarrow> addr \<times> string \<Rightarrow> bool" for up down s where
  reaches_atomic: "e \<in> set (ports s d a p) \<Longrightarrow> atomic_at s (fst e) \<Longrightarrow> reaches up down s (d, a, p) e"
| reaches_up: "(c, r) \<in> set (ports s d a p) \<Longrightarrow> coupled_at s c \<Longrightarrow> parent s a = Some c
    \<Longrightarrow> reaches up down s (up, c, r) e \<Longrightarrow> reaches up down s (d, a, p) e"
| reaches_down: "(c, r) \<in> set (ports s d a p) \<Longrightarrow> coupled_at s c \<Longrightarrow> parent s a \<noteq> Some c
    \<Longrightarrow> reaches up down s (down, c, r) e \<Longrightarrow> reaches up down s (d, a, p) e"

lemma walk_succ_iff:
  "(d', c, r) \<in> set (walk_succ up down s (d, a, p)) \<longleftrightarrow>
     (c, r) \<in> set (ports s d a p) \<and> coupled_at s c \<and> d' = (if parent s a = Some c then up else down)"
  by (force simp: walk_succ_def image_iff)

lemma reaches_iff: "reaches up down s x e \<longleftrightarrow> e \<in> walk.yields up down s x"
proof
  assume "reaches up down s x e"
  then show "e \<in> walk.yields up down s x"
  proof induction
    case (reaches_atomic e d a p)
    then show ?case by (subst walk.yields_unfold) (auto simp: walk_out_def)
  next
    case (reaches_up c r d a p e)
    then have "(up, c, r) \<in> set (walk_succ up down s (d, a, p))" by (simp add: walk_succ_iff)
    with reaches_up.IH show ?case by (subst walk.yields_unfold) blast
  next
    case (reaches_down c r d a p e)
    then have "(down, c, r) \<in> set (walk_succ up down s (d, a, p))" by (simp add: walk_succ_iff)
    with reaches_down.IH show ?case by (subst walk.yields_unfold) blast
  qed
next
  assume "e \<in> walk.yields up down s x"
  then obtain y where y: "(x, y) \<in> {(x, y). y \<in> set (walk_succ up down s x)}\<^sup>*" and e: "e \<in> set (walk_out s y)"
    by (auto simp: walk.yields_def)
  from y show "reaches up down s x e"
  proof (induction rule: converse_rtrancl_induct)
    case base
    with e show ?case by (cases y) (auto simp: walk_out_def intro: reaches_atomic)
  next
    case (step x z)
    then show ?case
      by (cases x, cases z) (auto simp: walk_succ_iff intro: reaches_up reaches_down split: if_splits)
  qed
qed

lemma walk_result:
  assumes "graph_ok s" "walk_dirs up down" "has_port s up a p"
  shows "\<exists>r'. walk_loop up down s [(up, a, p)] r = Some (Inr r') \<and> set r' = set r \<union> Collect (reaches up down s (up, a, p))"
  using walk.loop_set [where up = up and down = down and s = s and q = "[(up, a, p)]" and r = r] assms
  by (auto simp: walk_ok_def reaches_iff)

lemma walk_target:
  assumes "graph_ok s" "has_port s Out a p"
  shows "\<exists>r'. getAtomicModelsTarget s a p r = Some (Inr r') \<and> set r' = set r \<union> Collect (reaches Out IntIn s (Out, a, p))"
proof -
  have "wp (getOutPort a p) s (\<lambda>_ _. True)" using assms(2) by (simp add: getOutPort_def wp_simps)
  then obtain l t where "getOutPort a p s = Ret l t" by (auto simp: wp_iff)
  then show ?thesis
    using walk_result [OF assms(1) _ assms(2), of IntIn r] by (simp add: getAtomicModelsTarget_def walk_dirs_def)
qed

lemma walk_source:
  assumes "graph_ok s" "has_port s In a p"
  shows "\<exists>r'. getAtomicModelsSource s a p r = Some (Inr r') \<and> set r' = set r \<union> Collect (reaches In IntOut s (In, a, p))"
proof -
  have "wp (getInPort a p) s (\<lambda>_ _. True)" using assms(2) by (simp add: getInPort_def wp_simps)
  then obtain l t where "getInPort a p s = Ret l t" by (auto simp: wp_iff)
  then show ?thesis
    using walk_result [OF assms(1) _ assms(2), of IntOut r] by (simp add: getAtomicModelsSource_def walk_dirs_def)
qed

text \<open>
  C5. \<^verbatim>\<open>getAtomicModelsTarget\<close> ends on every well-formed graph, throws nothing for a port that exists, and
  adds to the result exactly the input ports of atomic models that are reached from the port, up
  through the output ports of the enclosing models and down through the input ports of coupled ones.
\<close>

theorem getAtomicModelsTarget_spec:
  assumes "graph_ok s" "has_port s Out a p"
  shows "\<exists>r'. getAtomicModelsTarget s a p r = Some (Inr r') \<and> set r' = set r \<union> Collect (reaches Out IntIn s (Out, a, p))"
  by (rule walk_target [OF assms])

lemma sample_graph_ok: "graph_ok sample"
proof -
  have "mirrored sample"
    unfolding mirrored_def
    by (auto simp: coupled_at_def isCoupled_def sample_def read_store split: option.splits if_splits model_kind.splits)
  with sample_linked sample_tree_ok show ?thesis by (simp add: graph_ok_def)
qed

theorem getAtomicModelsTarget_spec_witness:
  "\<exists>r'. getAtomicModelsTarget sample (Suc 0) ''o'' [] = Some (Inr r')
     \<and> set r' = set [] \<union> Collect (reaches Out IntIn sample (Out, Suc 0, ''o''))"
  by (rule getAtomicModelsTarget_spec [OF sample_graph_ok]) (simp add: read_store sample_nodes)

text \<open>Going back along a connection: the list that holds its other end, and the list the opposite walk follows from there.\<close>

lemma link_back:
  assumes ok: "graph_ok s" and dirs: "walk_dirs up down" "walk_dirs up' down'" "up \<noteq> up'"
    and d: "d \<in> {up, down}" and e: "(c, r) \<in> set (ports s d a p)"
  shows "(a, p) \<in> set (ports s (if parent s a = Some c then down' else up') c r)"
    "(if parent s c = Some a then up' else down') = (if d = up then down' else up')"
proof -
  have lk: "linked s" and t: "tree_ok s" using ok by (auto simp: graph_ok_def)
  have mc: "may_connect s d a c" and m: "(a, p) \<in> set (ports s (other_side s d a c) c r)"
    using linked_D [OF lk e] by auto
  have "other_side s d a c = (if parent s a = Some c then down' else up')"
    using dirs d mc tree_no_swap [OF t, of a c]
    by (auto simp: walk_dirs_def other_side_def may_connect_def)
  with m show "(a, p) \<in> set (ports s (if parent s a = Some c then down' else up') c r)" by simp
  show "(if parent s c = Some a then up' else down') = (if d = up then down' else up')"
    using dirs d mc tree_no_swap [OF t, of a c] tree_irrefl [OF t, of a]
    by (auto simp: walk_dirs_def may_connect_def)
qed

text \<open>
  What the opposite walk reaches from the near end of a connection it also reaches from the far
  end. From an atomic model the only thing to be reached is its port.
\<close>

definition back_goal :: "side \<Rightarrow> side \<Rightarrow> graph \<Rightarrow> side \<Rightarrow> addr \<Rightarrow> string \<Rightarrow> addr \<times> string \<Rightarrow> bool" where
  "back_goal up down s d a p g \<longleftrightarrow>
     (if atomic_at s a then g = (a, p) else coupled_at s a \<and> reaches up down s (d, a, p) g)"

lemma back_step:
  assumes ok: "graph_ok s" and dirs: "walk_dirs up down" "walk_dirs up' down'" "up \<noteq> up'"
    and d: "d \<in> {up, down}" and e: "(c, r) \<in> set (ports s d a p)"
    and g: "back_goal up' down' s (if d = up then down' else up') a p g"
  shows "reaches up' down' s (if parent s a = Some c then down' else up', c, r) g"
proof -
  note bk = link_back [OF ok dirs d e]
  show ?thesis
  proof (cases "atomic_at s a")
    case True
    then have "g = (a, p)" using g by (simp add: back_goal_def)
    with bk(1) True show ?thesis by (auto intro: reaches_atomic)
  next
    case False
    then have "coupled_at s a" "reaches up' down' s (if parent s c = Some a then up' else down', a, p) g"
      using g bk(2) by (auto simp: back_goal_def)
    with bk(1) show ?thesis
      by (cases "parent s c = Some a") (auto intro: reaches_up reaches_down)
  qed
qed

lemma coupled_not_atomic: "coupled_at s c \<Longrightarrow> \<not> atomic_at s c"
  by (auto simp: coupled_at_def atomic_at_def isCoupled_iff split: option.splits)

lemma reaches_back:
  assumes "reaches up down s x e" and ok: "graph_ok s" and dirs: "walk_dirs up down" "walk_dirs up' down'" "up \<noteq> up'"
  shows "x = (d, a, p) \<Longrightarrow> d \<in> {up, down} \<Longrightarrow> back_goal up' down' s (if d = up then down' else up') a p g
    \<Longrightarrow> reaches up' down' s (up', e) g"
  using assms(1)
proof (induction arbitrary: d a p rule: reaches.induct)
  case (reaches_atomic e d0 a0 p0)
  obtain b q where e: "e = (b, q)" by force
  have "tree_ok s" using ok by (simp add: graph_ok_def)
  then have np: "parent s a \<noteq> Some b"
    using reaches_atomic.hyps(2) coupled_not_atomic by (auto simp: e dest: tree_parent_coupled)
  have "(b, q) \<in> set (ports s d a p)" using reaches_atomic by (simp add: e)
  from back_step [OF ok dirs reaches_atomic.prems(2) this reaches_atomic.prems(3)] np
  show ?case by (simp add: e)
next
  case (reaches_up c r d0 a0 p0 e)
  have "(c, r) \<in> set (ports s d a p)" "parent s a = Some c" using reaches_up by auto
  from back_step [OF ok dirs reaches_up.prems(2) this(1) reaches_up.prems(3)] this(2)
  have "back_goal up' down' s down' c r g"
    using reaches_up.hyps(2) by (simp add: back_goal_def coupled_not_atomic)
  then show ?case by (intro reaches_up.IH [of up c r]) auto
next
  case (reaches_down c r d0 a0 p0 e)
  have "(c, r) \<in> set (ports s d a p)" "parent s a \<noteq> Some c" using reaches_down by auto
  from back_step [OF ok dirs reaches_down.prems(2) this(1) reaches_down.prems(3)] this(2)
  have "back_goal up' down' s up' c r g"
    using reaches_down.hyps(2) by (simp add: back_goal_def coupled_not_atomic)
  moreover have "down \<noteq> up" using dirs by (auto simp: walk_dirs_def)
  ultimately show ?case by (intro reaches_down.IH [of down c r]) auto
qed

text \<open>
  C7. The two walks are inverse to each other: on a well-formed graph, an input port of an atomic model
  is among the targets of an output port exactly when that output port is among the sources of the
  input port.
\<close>

theorem targets_iff_sources:
  assumes ok: "graph_ok s" and at: "atomic_at s a" "atomic_at s b" and hp: "has_port s Out a p" "has_port s In b q"
  shows "\<exists>T S. getAtomicModelsTarget s a p [] = Some (Inr T) \<and> getAtomicModelsSource s b q [] = Some (Inr S)
    \<and> ((b, q) \<in> set T \<longleftrightarrow> (a, p) \<in> set S)"
proof -
  have dirs: "walk_dirs Out IntIn" "walk_dirs In IntOut" by (simp_all add: walk_dirs_def)
  have "\<exists>T. getAtomicModelsTarget s a p [] = Some (Inr T) \<and> set T = Collect (reaches Out IntIn s (Out, a, p))"
    "\<exists>S. getAtomicModelsSource s b q [] = Some (Inr S) \<and> set S = Collect (reaches In IntOut s (In, b, q))"
    using walk_target [OF ok hp(1), of "[]"] walk_source [OF ok hp(2), of "[]"] by simp_all
  moreover have "reaches Out IntIn s (Out, a, p) (b, q) \<longleftrightarrow> reaches In IntOut s (In, b, q) (a, p)"
  proof
    assume "reaches Out IntIn s (Out, a, p) (b, q)"
    from reaches_back [OF this ok dirs _ refl, of "(a, p)"] at show "reaches In IntOut s (In, b, q) (a, p)"
      by (simp add: back_goal_def)
  next
    assume "reaches In IntOut s (In, b, q) (a, p)"
    from reaches_back [OF this ok dirs(2,1) _ refl, of "(b, q)"] at show "reaches Out IntIn s (Out, a, p) (b, q)"
      by (simp add: back_goal_def)
  qed
  ultimately show ?thesis by auto
qed

theorem targets_iff_sources_witness:
  "\<exists>T S. getAtomicModelsTarget sample (Suc 0) ''o'' [] = Some (Inr T) \<and> getAtomicModelsSource sample 3 ''i'' [] = Some (Inr S)
    \<and> ((3, ''i'') \<in> set T \<longleftrightarrow> (Suc 0, ''o'') \<in> set S)"
  by (rule targets_iff_sources [OF sample_graph_ok])
    (simp_all add: read_store sample_nodes atomic_at_def isAtomic_def)

end
