(* ===== verification/Simulator.thy ===== *)
theory Simulator
  imports Event_Heap Traversal Values
begin

text \<open>
  \<^verbatim>\<open>devs/Simulator.cpp\<close> and \<^verbatim>\<open>devs/Time.hpp\<close>: the simulator of one atomic model, with its pending external
  events, its output, its next date and its targets. The user's \<^verbatim>\<open>Dynamics\<close> is code outside the
  program: a record of functions on a user state, each of which may throw.
\<close>

section \<open>Time\<close>

abbreviation infinity :: time where "infinity \<equiv> dinf"
abbreviation negativeInfinity :: time where "negativeInfinity \<equiv> dninf"

definition isInfinity :: "time \<Rightarrow> bool" where
  "isInfinity t \<longleftrightarrow> deq t infinity \<or> deq t negativeInfinity"

definition isNegativeInfinity :: "time \<Rightarrow> bool" where
  "isNegativeInfinity t \<longleftrightarrow> deq t negativeInfinity"

definition isNan :: "time \<Rightarrow> bool" where
  "isNan t \<longleftrightarrow> \<not> deq t t"

lemma isInfinity_iff: "isInfinity t \<longleftrightarrow> t = dinf \<or> t = dninf"
  by (auto simp: isInfinity_def double_simps)

lemma isNegativeInfinity_iff: "isNegativeInfinity t \<longleftrightarrow> t = dninf"
  by (auto simp: isNegativeInfinity_def double_simps)

section \<open>Events, user models, simulators\<close>

text \<open>\<^verbatim>\<open>ExternalEvent\<close>: a shared value, possibly null, and the name of a port.\<close>

record external_event =
  ev_attributes :: "val option"
  ev_port :: string

record observation =
  obs_view :: string
  obs_port :: string
  obs_value :: "val option"

record 'u dynamics_ops =
  dyn_init :: "time \<Rightarrow> ('u, time) proc"
  dyn_output :: "time \<Rightarrow> ('u \<times> external_event list, unit) proc"
  dyn_timeAdvance :: "('u, time) proc"
  dyn_internalTransition :: "time \<Rightarrow> ('u, unit) proc"
  dyn_externalTransition :: "external_event list \<Rightarrow> time \<Rightarrow> ('u, unit) proc"
  dyn_confluentTransitions :: "time \<Rightarrow> external_event list \<Rightarrow> ('u, unit) proc"
  dyn_observation :: "time \<Rightarrow> string \<Rightarrow> string \<Rightarrow> 'u \<Rightarrow> val option result"
  dyn_finish :: "('u, unit) proc"

text \<open>The confluent transition a \<^verbatim>\<open>Dynamics\<close> inherits when it does not override it.\<close>

definition Dynamics_confluentTransitions :: "'u dynamics_ops \<Rightarrow> time \<Rightarrow> external_event list \<Rightarrow> ('u, unit) proc" where
  "Dynamics_confluentTransitions D t evs = thenS (dyn_internalTransition D t) (dyn_externalTransition D evs t)"

text \<open>
  \<^verbatim>\<open>DynamicsObserver\<close>: the views and ports to observe after each function of the model. A model without
  event views has no observer.
\<close>

record observer =
  ppOutput :: "(string \<times> string) list"
  ppInternal :: "(string \<times> string) list"
  ppExternal :: "(string \<times> string) list"
  ppConfluent :: "(string \<times> string) list"
  ppFinish :: "(string \<times> string) list"

type_synonym target = "sim_id option \<times> string"

record ('h, 'u) simulator =
  sim_dynamics :: 'u
  sim_observer :: "observer option"
  sim_executive :: bool
  sim_model :: addr
  sim_targets :: "(string \<times> target) list"
  sim_external :: "external_event list"
  sim_result :: "external_event list"
  sim_observations :: "observation list"
  sim_tn :: time
  sim_handle :: "'h option"
  sim_internal :: bool

type_synonym ('h, 'u, 'a) sproc = "(('h, 'u) simulator, 'a) proc"

definition Simulator_new :: "addr \<Rightarrow> 'u \<Rightarrow> bool \<Rightarrow> ('h, 'u) simulator" where
  "Simulator_new a u e = \<lparr>sim_dynamics = u, sim_observer = None, sim_executive = e, sim_model = a, sim_targets = [], sim_external = [],
     sim_result = [], sim_observations = [], sim_tn = negativeInfinity, sim_handle = None, sim_internal = False\<rparr>"

text \<open>A call of the user's code, on the user's state of this simulator.\<close>

definition call_user :: "('u, 'a) proc \<Rightarrow> ('h, 'u, 'a) sproc" where
  "call_user m sm = (case m (sim_dynamics sm) of
     Ret x u \<Rightarrow> Ret x (sm\<lparr>sim_dynamics := u\<rparr>) | Exn e u \<Rightarrow> Exn e (sm\<lparr>sim_dynamics := u\<rparr>))"

text \<open>
  The loops of \<^verbatim>\<open>DynamicsObserver\<close>: an entry is appended first and gets its value from the model, so that
  a throwing \<^verbatim>\<open>observation\<close> leaves an entry without a value.
\<close>

definition observe :: "'u dynamics_ops \<Rightarrow> (observer \<Rightarrow> (string \<times> string) list) \<Rightarrow> time \<Rightarrow> ('h, 'u, unit) sproc" where
  "observe D pp t = bindS getS (\<lambda>sm. case sim_observer sm of
     None \<Rightarrow> retS ()
   | Some ob \<Rightarrow> forS (\<lambda>elem.
       thenS (updS (\<lambda>sm. sm\<lparr>sim_observations := sim_observations sm @ [\<lparr>obs_view = fst elem, obs_port = snd elem, obs_value = None\<rparr>]\<rparr>))
      (bindS getS (\<lambda>sm.
       bindS (liftS (dyn_observation D t (fst elem) (snd elem) (sim_dynamics sm))) (\<lambda>v.
         updS (\<lambda>sm. sm\<lparr>sim_observations := butlast (sim_observations sm) @ [(last (sim_observations sm))\<lparr>obs_value := v\<rparr>]\<rparr>)))))
       (pp ob))"

text \<open>The user's output function appends to \<^verbatim>\<open>m_result\<close>.\<close>

definition call_output :: "'u dynamics_ops \<Rightarrow> time \<Rightarrow> ('h, 'u, unit) sproc" where
  "call_output D t sm = (case dyn_output D t (sim_dynamics sm, sim_result sm) of
     Ret _ (u, evs) \<Rightarrow> Ret () (sm\<lparr>sim_dynamics := u, sim_result := evs\<rparr>)
   | Exn e (u, evs) \<Rightarrow> Exn e (sm\<lparr>sim_dynamics := u, sim_result := evs\<rparr>))"

definition Simulator_output :: "'u dynamics_ops \<Rightarrow> time \<Rightarrow> ('h, 'u, unit) sproc" where
  "Simulator_output D t =
     thenS (assertS (\<lambda>sm. sim_result sm = []) ''m_result.empty()'')
    (thenS (call_output D t) (observe D ppOutput t))"

definition Simulator_finish :: "'u dynamics_ops \<Rightarrow> ('h, 'u, unit) sproc" where
  "Simulator_finish D = thenS (call_user (dyn_finish D)) (observe D ppFinish infinity)"

definition timeAdvance :: "'u dynamics_ops \<Rightarrow> ('h, 'u, time) sproc" where
  "timeAdvance D = bindS (call_user (dyn_timeAdvance D)) (\<lambda>tn.
     if dless tn (dfin 0) then throwS (ModellingError ''Negative time advance'') else retS tn)"

definition Simulator_init :: "'u dynamics_ops \<Rightarrow> time \<Rightarrow> ('h, 'u, time) sproc" where
  "Simulator_init D t = bindS (call_user (dyn_init D t)) (\<lambda>tn.
     if dless tn (dfin 0) then throwS (ModellingError ''Negative init function'')
     else thenS (updS (\<lambda>sm. sm\<lparr>sim_tn := dadd tn t\<rparr>)) (retS (dadd tn t)))"

definition set_tn :: "'u dynamics_ops \<Rightarrow> time \<Rightarrow> ('h, 'u, time) sproc" where
  "set_tn D t = bindS (timeAdvance D) (\<lambda>tn. thenS (updS (\<lambda>sm. sm\<lparr>sim_tn := dadd tn t\<rparr>)) (retS (dadd tn t)))"

definition confluentTransitions :: "'u dynamics_ops \<Rightarrow> time \<Rightarrow> ('h, 'u, time) sproc" where
  "confluentTransitions D t =
     thenS (assertS (\<lambda>sm. sim_external sm \<noteq> []) ''Simulator d-conf error'')
    (thenS (assertS sim_internal ''Simulator d-conf error'')
    (bindS getS (\<lambda>sm.
     thenS (call_user (dyn_confluentTransitions D t (sim_external sm)))
    (thenS (observe D ppConfluent t)
    (thenS (updS (\<lambda>sm. sm\<lparr>sim_external := [], sim_internal := False\<rparr>)) (set_tn D t))))))"

definition internalTransition :: "'u dynamics_ops \<Rightarrow> time \<Rightarrow> ('h, 'u, time) sproc" where
  "internalTransition D t =
     thenS (assertS sim_internal ''Simulator d-int error'')
    (thenS (call_user (dyn_internalTransition D t))
    (thenS (observe D ppInternal t)
    (thenS (updS (\<lambda>sm. sm\<lparr>sim_internal := False\<rparr>)) (set_tn D t))))"

definition externalTransition :: "'u dynamics_ops \<Rightarrow> time \<Rightarrow> ('h, 'u, time) sproc" where
  "externalTransition D t =
     thenS (assertS (\<lambda>sm. sim_external sm \<noteq> []) ''Simulator d-ext error'')
    (bindS getS (\<lambda>sm.
     thenS (call_user (dyn_externalTransition D (sim_external sm) t))
    (thenS (observe D ppExternal t)
    (thenS (updS (\<lambda>sm. sm\<lparr>sim_external := []\<rparr>)) (set_tn D t)))))"

text \<open>
  The choice of the transition, written out in \<^verbatim>\<open>Coordinator::run\<close> for dynamics and for executives and in
  \<^verbatim>\<open>simulator_process\<close>.
\<close>

definition transition :: "'u dynamics_ops \<Rightarrow> time \<Rightarrow> ('h, 'u, time) sproc" where
  "transition D t = bindS getS (\<lambda>sm.
     if sim_internal sm then
       (if sim_external sm = [] then internalTransition D t else confluentTransitions D t)
     else externalTransition D t)"

text \<open>
  \<^verbatim>\<open>simulator_process\<close> of \<^verbatim>\<open>devs/Thread.hpp\<close>, the job of the worker threads: exceptions are caught and
  reported by the returned value. A failed assertion is not an exception.
\<close>

definition simulator_process :: "'u dynamics_ops \<Rightarrow> time \<Rightarrow> ('h, 'u, bool) sproc" where
  "simulator_process D t sm = (case transition D t sm of
     Ret _ sm' \<Rightarrow> Ret True sm'
   | Exn e sm' \<Rightarrow> if is_exception e then Ret False sm' else Exn e sm')"

section \<open>Targets\<close>

text \<open>
  \<^verbatim>\<open>updateSimulatorTargets\<close> asks the graph for the atomic models behind a port; \<open>get_simulator\<close> is the
  \<^verbatim>\<open>m_simulator\<close> pointer of an atomic model. A port without targets gets one entry with a null pointer.
\<close>

definition updateSimulatorTargets :: "graph \<Rightarrow> (addr \<Rightarrow> sim_id option) \<Rightarrow> string \<Rightarrow> ('h, 'u, unit) sproc" where
  "updateSimulatorTargets g get_simulator port =
     thenS (updS (sim_targets_update (mmap_erase port)))
    (bindS getS (\<lambda>sm.
     case getAtomicModelsTarget g (sim_model sm) port [] of
       None \<Rightarrow> throwS NonTermination
     | Some r \<Rightarrow> bindS (liftS r) (\<lambda>result.
         if result = [] then updS (sim_targets_update (mmap_insert port (None, [])))
         else forS (\<lambda>elem. updS (sim_targets_update (mmap_insert port (get_simulator (fst elem), snd elem)))) result)))"

text \<open>
  The range of iterators is returned as the list of its entries. Its first entry is read without a
  test, so an empty range would be an access through the end iterator.
\<close>

fun range_targets :: "(string \<times> target) list \<Rightarrow> target list result" where
  "range_targets [] = Inl (UndefinedBehaviour ''end iterator of the targets'')"
| "range_targets (x # xs) = Inr (if fst (snd x) = None then [] else map snd (x # xs))"

definition targets :: "graph \<Rightarrow> (addr \<Rightarrow> sim_id option) \<Rightarrow> string \<Rightarrow> ('h, 'u, target list) sproc" where
  "targets g get_simulator port =
     bindS getS (\<lambda>sm.
     thenS (if mmap_range port (sim_targets sm) = [] then updateSimulatorTargets g get_simulator port else retS ())
    (bindS getS (\<lambda>sm. liftS (range_targets (mmap_range port (sim_targets sm))))))"

definition removeTargetPort :: "string \<Rightarrow> ('h, 'u) simulator \<Rightarrow> ('h, 'u) simulator" where
  "removeTargetPort port = sim_targets_update (\<lambda>m. case mmap_range port m of [] \<Rightarrow> m | x # _ \<Rightarrow> remove1 x m)"

definition addTargetPort :: "string \<Rightarrow> ('h, 'u, unit) sproc" where
  "addTargetPort port =
     thenS (assertS (\<lambda>sm. mmap_range port (sim_targets sm) = []) ''mTargets.find(port) == mTargets.end()'')
       (updS (sim_targets_update (mmap_insert port (None, []))))"

end
