(* ===== verification/Thread_Pool.thy ===== *)
theory Thread_Pool
  imports Simulator
begin

text \<open>
  The pool of \<^verbatim>\<open>devs/Thread.hpp\<close>: \<^verbatim>\<open>for_each\<close> in the calling thread and \<^verbatim>\<open>run\<close> in the workers take blocks of
  jobs from a shared counter. The steps are the atomic accesses to \<^verbatim>\<open>m_block_id\<close> and \<^verbatim>\<open>m_block_count\<close> and
  the processing of one job, interleaved in any order; memory is sequentially consistent here,
  although the program uses relaxed atomics. The store maps a simulator to its state and \<open>f\<close> is what
  \<^verbatim>\<open>simulator_process\<close> makes of it, an arbitrary function.
\<close>

section \<open>Threads and steps\<close>

text \<open>
  The place of a thread in its code. The calling thread is number 0; \<open>Work b i e\<close> is the loop over the
  jobs of block \<open>b\<close>, about to process job \<open>i\<close> of those before \<open>e\<close>.
\<close>

datatype place = Call | Stored | Fetch | Work nat nat nat | Waiting | Returned

record 'a pool =
  m_block_id :: int
  m_block_count :: int
  pc :: "nat \<Rightarrow> place"
  store :: "sim_id \<Rightarrow> 'a"

definition block_number :: "nat \<Rightarrow> sim_id list \<Rightarrow> nat" where
  "block_number bs jobs = length jobs div bs + (if length jobs mod bs \<noteq> 0 then 1 else 0)"

definition block_end :: "nat \<Rightarrow> sim_id list \<Rightarrow> nat \<Rightarrow> nat" where
  "block_end bs jobs b = min (length jobs) (b * bs + bs)"

inductive pool_step :: "nat \<Rightarrow> nat \<Rightarrow> sim_id list \<Rightarrow> ('a \<Rightarrow> 'a) \<Rightarrow> 'a pool \<Rightarrow> 'a pool \<Rightarrow> bool"
  for n bs jobs f where
  store_count: "pc s 0 = Call \<Longrightarrow>
    pool_step n bs jobs f s (s\<lparr>m_block_count := int (block_number bs jobs), pc := (pc s)(0 := Stored)\<rparr>)"
| store_id: "pc s 0 = Stored \<Longrightarrow>
    pool_step n bs jobs f s (s\<lparr>m_block_id := int (block_number bs jobs), pc := (pc s)(0 := Fetch)\<rparr>)"
| fetch_block: "w \<le> n \<Longrightarrow> pc s w = Fetch \<Longrightarrow> m_block_id s = int b \<Longrightarrow>
    pool_step n bs jobs f s
      (s\<lparr>m_block_id := m_block_id s - 1, pc := (pc s)(w := Work b (b * bs) (block_end bs jobs b))\<rparr>)"
| fetch_last: "pc s 0 = Fetch \<Longrightarrow> m_block_id s < 0 \<Longrightarrow>
    pool_step n bs jobs f s (s\<lparr>m_block_id := m_block_id s - 1, pc := (pc s)(0 := Waiting)\<rparr>)"
| fetch_idle: "w \<le> n \<Longrightarrow> w \<noteq> 0 \<Longrightarrow> pc s w = Fetch \<Longrightarrow> m_block_id s < 0 \<Longrightarrow>
    pool_step n bs jobs f s (s\<lparr>m_block_id := m_block_id s - 1\<rparr>)"
| process_job: "w \<le> n \<Longrightarrow> pc s w = Work b i e \<Longrightarrow> i < e \<Longrightarrow>
    pool_step n bs jobs f s
      (s\<lparr>store := (store s)(jobs ! i := f (store s (jobs ! i))), pc := (pc s)(w := Work b (Suc i) e)\<rparr>)"
| finish_block: "w \<le> n \<Longrightarrow> pc s w = Work b i e \<Longrightarrow> \<not> i < e \<Longrightarrow>
    pool_step n bs jobs f s (s\<lparr>m_block_count := m_block_count s - 1, pc := (pc s)(w := Fetch)\<rparr>)"
| wait_again: "pc s 0 = Waiting \<Longrightarrow> 0 \<le> m_block_count s \<Longrightarrow> pool_step n bs jobs f s s"
| wait_over: "pc s 0 = Waiting \<Longrightarrow> m_block_count s < 0 \<Longrightarrow>
    pool_step n bs jobs f s (s\<lparr>pc := (pc s)(0 := Returned)\<rparr>)"

text \<open>
  A call of \<^verbatim>\<open>for_each\<close>: the workers are between two blocks and the counter of the blocks is negative,
  as the constructor and every earlier call leave it.
\<close>

definition called :: "(sim_id \<Rightarrow> 'a) \<Rightarrow> 'a pool \<Rightarrow> bool" where
  "called st s \<longleftrightarrow> m_block_id s < 0 \<and> pc s = (\<lambda>_. Fetch)(0 := Call) \<and> store s = st"

inductive pool_run :: "nat \<Rightarrow> nat \<Rightarrow> sim_id list \<Rightarrow> ('a \<Rightarrow> 'a) \<Rightarrow> (sim_id \<Rightarrow> 'a) \<Rightarrow> 'a pool \<Rightarrow> bool"
  for n bs jobs f st where
  call: "called st s \<Longrightarrow> pool_run n bs jobs f st s"
| step: "pool_run n bs jobs f st s \<Longrightarrow> pool_step n bs jobs f s t \<Longrightarrow> pool_run n bs jobs f st t"

section \<open>The invariant\<close>

fun block_of :: "place \<Rightarrow> nat option" where
  "block_of (Work b i e) = Some b"
| "block_of _ = None"

fun passed :: "nat \<Rightarrow> place \<Rightarrow> nat \<Rightarrow> bool" where
  "passed bs (Work b i e) j \<longleftrightarrow> j div bs = b \<and> j < i"
| "passed bs _ j \<longleftrightarrow> False"

fun place_ok :: "nat \<Rightarrow> sim_id list \<Rightarrow> place \<Rightarrow> bool" where
  "place_ok bs jobs (Work b i e) \<longleftrightarrow> e = block_end bs jobs b \<and> b * bs \<le> i \<and> i \<le> max e (b * bs)"
| "place_ok bs jobs _ \<longleftrightarrow> True"

definition held :: "nat \<Rightarrow> (nat \<Rightarrow> place) \<Rightarrow> nat set" where
  "held n p = {b. \<exists>w \<le> n. block_of (p w) = Some b}"

text \<open>The places of the jobs processed so far, and the store this leaves.\<close>

definition processed :: "nat \<Rightarrow> nat \<Rightarrow> sim_id list \<Rightarrow> nat set \<Rightarrow> (nat \<Rightarrow> place) \<Rightarrow> nat set" where
  "processed n bs jobs fin p = {j. j < length jobs \<and> (j div bs \<in> fin \<or> (\<exists>w \<le> n. passed bs (p w) j))}"

definition applied :: "('a \<Rightarrow> 'a) \<Rightarrow> sim_id list \<Rightarrow> nat set \<Rightarrow> (sim_id \<Rightarrow> 'a) \<Rightarrow> sim_id \<Rightarrow> 'a" where
  "applied f jobs J st x = (if \<exists>j \<in> J. jobs ! j = x then f (st x) else st x)"

text \<open>The blocks taken from the counter are finished or held by exactly one thread.\<close>

definition one_holder :: "nat \<Rightarrow> (nat \<Rightarrow> place) \<Rightarrow> bool" where
  "one_holder n p \<longleftrightarrow> (\<forall>w \<le> n. \<forall>w' \<le> n. \<forall>b. block_of (p w) = Some b \<longrightarrow> block_of (p w') = Some b \<longrightarrow> w' = w)"

definition taken :: "nat \<Rightarrow> nat \<Rightarrow> sim_id list \<Rightarrow> nat set \<Rightarrow> 'a pool \<Rightarrow> bool" where
  "taken n bs jobs fin s \<longleftrightarrow>
     {b. m_block_id s < int b \<and> b \<le> block_number bs jobs} = fin \<union> held n (pc s)
     \<and> fin \<inter> held n (pc s) = {} \<and> m_block_id s \<le> int (block_number bs jobs)
     \<and> m_block_count s = int (block_number bs jobs) - int (card fin)
     \<and> one_holder n (pc s) \<and> (\<forall>w \<le> n. place_ok bs jobs (pc s w))"

definition sharing :: "nat \<Rightarrow> nat \<Rightarrow> sim_id list \<Rightarrow> ('a \<Rightarrow> 'a) \<Rightarrow> (sim_id \<Rightarrow> 'a) \<Rightarrow> 'a pool \<Rightarrow> bool" where
  "sharing n bs jobs f st s \<longleftrightarrow>
     (\<exists>fin. taken n bs jobs fin s \<and> store s = applied f jobs (processed n bs jobs fin (pc s)) st)"

definition workers_idle :: "nat \<Rightarrow> (nat \<Rightarrow> place) \<Rightarrow> bool" where
  "workers_idle n p \<longleftrightarrow> (\<forall>w \<le> n. w \<noteq> 0 \<longrightarrow> p w = Fetch)"

definition pool_inv :: "nat \<Rightarrow> nat \<Rightarrow> sim_id list \<Rightarrow> ('a \<Rightarrow> 'a) \<Rightarrow> (sim_id \<Rightarrow> 'a) \<Rightarrow> 'a pool \<Rightarrow> bool" where
  "pool_inv n bs jobs f st s \<longleftrightarrow> (\<forall>w \<le> n. w \<noteq> 0 \<longrightarrow> pc s w = Fetch \<or> block_of (pc s w) \<noteq> None) \<and>
     (case pc s 0 of
        Call \<Rightarrow> m_block_id s < 0 \<and> workers_idle n (pc s) \<and> store s = st
      | Stored \<Rightarrow> m_block_id s < 0 \<and> m_block_count s = int (block_number bs jobs) \<and> workers_idle n (pc s) \<and> store s = st
      | Returned \<Rightarrow> m_block_id s < 0 \<and> workers_idle n (pc s) \<and> store s = applied f jobs {..<length jobs} st
      | Waiting \<Rightarrow> m_block_id s < 0 \<and> sharing n bs jobs f st s
      | _ \<Rightarrow> sharing n bs jobs f st s)"

section \<open>Every step keeps the invariant\<close>

lemma job_block: "0 < bs \<Longrightarrow> j < length jobs \<Longrightarrow> j div bs \<le> block_number bs jobs"
  using div_le_mono [of j "length jobs" bs] by (simp add: block_number_def)

lemma in_block_iff: "0 < (bs :: nat) \<Longrightarrow> j div bs = b \<longleftrightarrow> b * bs \<le> j \<and> j < b * bs + bs"
  by (metis add.commute div_nat_eqI dividend_less_times_div div_times_less_eq_dividend mult.commute mult_Suc)

lemma block_of_Some: "block_of q = Some b \<longleftrightarrow> (\<exists>i e. q = Work b i e)"
  by (cases q) auto

lemma ex_place: "w \<le> n \<Longrightarrow> (\<exists>v \<le> n. P (p v)) \<longleftrightarrow> P (p w) \<or> (\<exists>v \<le> n. v \<noteq> w \<and> P (p v))"
  by auto

lemma ex_place_upd: "w \<le> n \<Longrightarrow> (\<exists>v \<le> n. P ((p(w := q)) v)) \<longleftrightarrow> P q \<or> (\<exists>v \<le> n. v \<noteq> w \<and> P (p v))"
  by auto

lemma held_upd:
  assumes "w \<le> n"
  shows "held n (p(w := q)) = set_option (block_of q) \<union> {b. \<exists>v \<le> n. v \<noteq> w \<and> block_of (p v) = Some b}"
  unfolding held_def using ex_place_upd [OF assms, where P = "\<lambda>q. block_of q = Some _"] by auto

lemma held_place:
  assumes "w \<le> n"
  shows "held n p = set_option (block_of (p w)) \<union> {b. \<exists>v \<le> n. v \<noteq> w \<and> block_of (p v) = Some b}"
  using held_upd [OF assms, of p "p w"] by simp

lemma processed_upd:
  assumes "w \<le> n"
  shows "processed n bs jobs fin (p(w := q)) = {j. j < length jobs \<and>
    (j div bs \<in> fin \<or> passed bs q j \<or> (\<exists>v \<le> n. v \<noteq> w \<and> passed bs (p v) j))}"
  unfolding processed_def using ex_place_upd [OF assms, where P = "\<lambda>q. passed bs q _"] by auto

lemma processed_place:
  assumes "w \<le> n"
  shows "processed n bs jobs fin p = {j. j < length jobs \<and>
    (j div bs \<in> fin \<or> passed bs (p w) j \<or> (\<exists>v \<le> n. v \<noteq> w \<and> passed bs (p v) j))}"
  using processed_upd [OF assms, of bs jobs fin p "p w"] by simp

lemma one_holder_upd:
  assumes "one_holder n p" "w \<le> n" "\<And>v b. v \<le> n \<Longrightarrow> v \<noteq> w \<Longrightarrow> block_of q = Some b \<Longrightarrow> block_of (p v) \<noteq> Some b"
  shows "one_holder n (p(w := q))"
  using assms unfolding one_holder_def by (metis fun_upd_apply)

lemma finite_taken: "taken n bs jobs fin s \<Longrightarrow> finite fin"
  by (auto simp: taken_def intro: finite_subset [of fin "{..block_number bs jobs}"])

lemma sharing_fetch:
  assumes sh: "sharing n bs jobs f st s" and w: "w \<le> n" "pc s w = Fetch" "m_block_id s = int b" and bs: "0 < bs"
  shows "sharing n bs jobs f st
    (s\<lparr>m_block_id := m_block_id s - 1, pc := (pc s)(w := Work b (b * bs) (block_end bs jobs b))\<rparr>)"
proof -
  let ?q = "Work b (b * bs) (block_end bs jobs b)"
  obtain fin where fin: "taken n bs jobs fin s" "store s = applied f jobs (processed n bs jobs fin (pc s)) st"
    using sh by (auto simp: sharing_def)
  have b: "b \<notin> fin" "b \<notin> held n (pc s)" "b \<le> block_number bs jobs"
    using fin(1) w(3) unfolding taken_def by auto
  have ids: "{c. m_block_id s - 1 < int c \<and> c \<le> block_number bs jobs} =
      insert b {c. m_block_id s < int c \<and> c \<le> block_number bs jobs}" using w(3) b(3) by auto
  have held: "held n ((pc s)(w := ?q)) = insert b (held n (pc s))"
    using held_upd [OF w(1), of "pc s" ?q] held_place [OF w(1), of "pc s"] w(2) by simp
  have "one_holder n ((pc s)(w := ?q))"
    using fin(1) b(2) w(1) by (intro one_holder_upd) (auto simp: taken_def held_def)
  then have "taken n bs jobs fin (s\<lparr>m_block_id := m_block_id s - 1, pc := (pc s)(w := ?q)\<rparr>)"
    using fin(1) b w(1) unfolding taken_def by (simp add: ids held)
  moreover have "processed n bs jobs fin ((pc s)(w := ?q)) = processed n bs jobs fin (pc s)"
    unfolding processed_upd [OF w(1)] processed_place [OF w(1), of bs jobs fin "pc s"] using w(2) bs by (auto simp: in_block_iff)
  ultimately show ?thesis using fin(2) by (auto simp: sharing_def)
qed

lemma sharing_negative:
  assumes sh: "sharing n bs jobs f st s" and w: "w \<le> n" "m_block_id s < 0" "block_of (pc s w) = None" "block_of q = None"
  shows "sharing n bs jobs f st (s\<lparr>m_block_id := m_block_id s - 1, pc := (pc s)(w := q)\<rparr>)"
proof -
  obtain fin where fin: "taken n bs jobs fin s" "store s = applied f jobs (processed n bs jobs fin (pc s)) st"
    using sh by (auto simp: sharing_def)
  have "held n ((pc s)(w := q)) = held n (pc s)"
    using held_upd [OF w(1), of "pc s" q] held_place [OF w(1), of "pc s"] w(3,4) by simp
  moreover have "place_ok bs jobs q" "\<not> passed bs q j" "\<not> passed bs (pc s w) j" for j
    using w(3,4) by (cases q; simp; cases "pc s w"; simp)+
  then have "processed n bs jobs fin ((pc s)(w := q)) = processed n bs jobs fin (pc s)" "place_ok bs jobs q"
    unfolding processed_upd [OF w(1)] processed_place [OF w(1), of bs jobs fin "pc s"] by auto
  moreover have "{b. m_block_id s - 1 < int b \<and> b \<le> block_number bs jobs} = {b. m_block_id s < int b \<and> b \<le> block_number bs jobs}"
    using w(2) by auto
  moreover have "one_holder n ((pc s)(w := q))"
    using fin(1) w(1,4) by (intro one_holder_upd) (auto simp: taken_def)
  ultimately have "taken n bs jobs fin (s\<lparr>m_block_id := m_block_id s - 1, pc := (pc s)(w := q)\<rparr>)"
    using fin(1) w(2) unfolding taken_def by simp
  with fin(2) \<open>processed n bs jobs fin ((pc s)(w := q)) = processed n bs jobs fin (pc s)\<close> show ?thesis
    by (auto simp: sharing_def)
qed

lemma processed_process:
  assumes w: "w \<le> n" "pc s w = Work b i e" "i < e" and t: "taken n bs jobs fin s" and bs: "0 < bs"
  shows "processed n bs jobs fin ((pc s)(w := Work b (Suc i) e)) = insert i (processed n bs jobs fin (pc s))"
    "i \<notin> processed n bs jobs fin (pc s)" "i < length jobs"
proof -
  have ok: "place_ok bs jobs (pc s w)" and one: "one_holder n (pc s)" using t w(1) by (auto simp: taken_def)
  then have i: "i < length jobs" "i div bs = b" using w bs by (auto simp: block_end_def in_block_iff)
  have "b \<in> held n (pc s)" using w(1,2) by (auto simp: held_def intro!: exI [of _ w])
  then have "b \<notin> fin" using t by (auto simp: taken_def)
  moreover have "\<not> passed bs (pc s v) i" if "v \<le> n" "v \<noteq> w" for v
    using one that w(1,2) i(2) unfolding one_holder_def by (cases "pc s v") auto
  ultimately show "i \<notin> processed n bs jobs fin (pc s)"
    unfolding processed_place [OF w(1), of bs jobs fin "pc s"] using i w(2) by auto
  show "processed n bs jobs fin ((pc s)(w := Work b (Suc i) e)) = insert i (processed n bs jobs fin (pc s))"
    unfolding processed_upd [OF w(1)] processed_place [OF w(1), of bs jobs fin "pc s"]
    using i w(2) by (auto simp: less_Suc_eq)
qed (use assms in \<open>auto simp: taken_def block_end_def\<close>)

lemma sharing_process:
  assumes sh: "sharing n bs jobs f st s" and w: "w \<le> n" "pc s w = Work b i e" "i < e" and bs: "0 < bs"
    and d: "distinct jobs"
  shows "sharing n bs jobs f st
    (s\<lparr>store := (store s)(jobs ! i := f (store s (jobs ! i))), pc := (pc s)(w := Work b (Suc i) e)\<rparr>)"
proof -
  obtain fin where fin: "taken n bs jobs fin s" "store s = applied f jobs (processed n bs jobs fin (pc s)) st"
    using sh by (auto simp: sharing_def)
  note pr = processed_process [OF w fin(1) bs]
  have held: "held n ((pc s)(w := Work b (Suc i) e)) = held n (pc s)"
    using held_upd [OF w(1), of "pc s" "Work b (Suc i) e"] held_place [OF w(1), of "pc s"] w(2) by simp
  have one: "one_holder n ((pc s)(w := Work b (Suc i) e))"
    using fin(1) w(1,2) by (intro one_holder_upd) (auto simp: taken_def one_holder_def)
  have "place_ok bs jobs (pc s w)" using fin(1) w(1) by (simp add: taken_def)
  then have "taken n bs jobs fin (s\<lparr>store := (store s)(jobs ! i := f (store s (jobs ! i))), pc := (pc s)(w := Work b (Suc i) e)\<rparr>)"
    using fin(1) w one held unfolding taken_def by simp
  moreover have "\<not> (\<exists>j \<in> processed n bs jobs fin (pc s). jobs ! j = jobs ! i)"
    using pr(2,3) d by (auto simp: processed_def nth_eq_iff_index_eq)
  then have "(store s)(jobs ! i := f (store s (jobs ! i))) = applied f jobs (insert i (processed n bs jobs fin (pc s))) st"
    by (auto simp: fin(2) applied_def fun_eq_iff)
  ultimately show ?thesis using pr(1) by (auto simp: sharing_def)
qed

lemma sharing_finish:
  assumes sh: "sharing n bs jobs f st s" and w: "w \<le> n" "pc s w = Work b i e" "\<not> i < e" and bs: "0 < bs"
  shows "sharing n bs jobs f st (s\<lparr>m_block_count := m_block_count s - 1, pc := (pc s)(w := Fetch)\<rparr>)"
proof -
  obtain fin where fin: "taken n bs jobs fin s" "store s = applied f jobs (processed n bs jobs fin (pc s)) st"
    using sh by (auto simp: sharing_def)
  have one: "one_holder n (pc s)" and ok: "place_ok bs jobs (pc s w)" using fin(1) w(1) by (auto simp: taken_def)
  have b: "b \<in> held n (pc s)" "b \<notin> {b. \<exists>v \<le> n. v \<noteq> w \<and> block_of (pc s v) = Some b}"
    using one w(1,2) by (auto simp: held_def one_holder_def intro!: exI [of _ w])
  then have nb: "b \<notin> fin" using fin(1) by (auto simp: taken_def)
  have held: "held n (pc s) = insert b (held n ((pc s)(w := Fetch)))" "b \<notin> held n ((pc s)(w := Fetch))"
    using held_upd [OF w(1), of "pc s" Fetch] held_place [OF w(1), of "pc s"] w(2) b(2) by auto
  have "one_holder n ((pc s)(w := Fetch))" using one w(1) by (rule one_holder_upd) simp
  then have "taken n bs jobs (insert b fin) (s\<lparr>m_block_count := m_block_count s - 1, pc := (pc s)(w := Fetch)\<rparr>)"
    using fin(1) nb finite_taken [OF fin(1)] held unfolding taken_def by auto
  moreover have "j < i" if "j < length jobs" "j div bs = b" for j
    using that w(2,3) ok bs by (auto simp: block_end_def in_block_iff)
  then have "processed n bs jobs (insert b fin) ((pc s)(w := Fetch)) = processed n bs jobs fin (pc s)"
    unfolding processed_upd [OF w(1)] processed_place [OF w(1), of bs jobs fin "pc s"] using w(2) by auto
  ultimately show ?thesis using fin(2) by (auto simp: sharing_def)
qed


lemma all_finished:
  assumes "sharing n bs jobs f st s" "m_block_count s < 0" "0 < bs"
  shows "store s = applied f jobs {..<length jobs} st" "held n (pc s) = {}"
proof -
  obtain fin where fin: "taken n bs jobs fin s" "store s = applied f jobs (processed n bs jobs fin (pc s)) st"
    using assms(1) by (auto simp: sharing_def)
  have sub: "fin \<union> held n (pc s) \<subseteq> {..block_number bs jobs}" using fin(1) by (auto simp: taken_def)
  have "card {..block_number bs jobs} \<le> card fin" using fin(1) assms(2) by (simp add: taken_def)
  then have all: "fin = {..block_number bs jobs}" using sub by (intro card_seteq) auto
  then have "processed n bs jobs fin (pc s) = {..<length jobs}"
    using job_block [OF assms(3)] by (auto simp: processed_def)
  then show "store s = applied f jobs {..<length jobs} st" using fin(2) by simp
  show "held n (pc s) = {}" using fin(1) sub all by (auto simp: taken_def)
qed

lemma pool_inv_called: "called st s \<Longrightarrow> pool_inv n bs jobs f st s"
  by (simp add: called_def pool_inv_def workers_idle_def)

lemma idle_if_none_held:
  "held n p = {} \<Longrightarrow> \<forall>w \<le> n. w \<noteq> 0 \<longrightarrow> p w = Fetch \<or> block_of (p w) \<noteq> None \<Longrightarrow> workers_idle n p"
  by (auto simp: workers_idle_def held_def)

lemma sharing_start:
  assumes "workers_idle n p" "p 0 = Fetch"
  shows "sharing n bs jobs f st
    \<lparr>m_block_id = int (block_number bs jobs), m_block_count = int (block_number bs jobs), pc = p, store = st\<rparr>"
proof -
  have w: "p w = Fetch" if "w \<le> n" for w using assms that by (cases w) (auto simp: workers_idle_def)
  then have h: "held n p = {}" "one_holder n p" by (auto simp: held_def one_holder_def)
  moreover have "processed n bs jobs {} p = {}" using w by (auto simp: processed_def)
  ultimately show ?thesis
    unfolding sharing_def by (intro exI [of _ "{}"]) (auto simp: taken_def applied_def w)
qed

lemma pool_inv_step:
  assumes "pool_step n bs jobs f s t" "pool_inv n bs jobs f st s" "0 < bs" "distinct jobs"
  shows "pool_inv n bs jobs f st t"
  using assms(1,2)
proof (induction rule: pool_step.induct)
  case (store_count s)
  then show ?case by (simp add: pool_inv_def workers_idle_def)
next
  case (store_id s)
  let ?p = "(pc s)(0 := Fetch)"
  have "workers_idle n ?p" "m_block_count s = int (block_number bs jobs)" "store s = st"
    using store_id by (auto simp: pool_inv_def workers_idle_def)
  with sharing_start [of n ?p bs jobs f st] store_id show ?case
    by (cases s) (simp add: pool_inv_def)
next
  case (fetch_block w s b)
  have "sharing n bs jobs f st s" using fetch_block by (auto simp: pool_inv_def split: place.splits)
  from sharing_fetch [OF this fetch_block(1-3) assms(3)] fetch_block
  show ?case by (auto simp: pool_inv_def split: place.splits)
next
  case (fetch_last s)
  then have "sharing n bs jobs f st s" by (simp add: pool_inv_def)
  from sharing_negative [OF this _ fetch_last(2), of 0 Waiting] fetch_last show ?case by (simp add: pool_inv_def)
next
  case (fetch_idle w s)
  have "sharing n bs jobs f st (s\<lparr>m_block_id := m_block_id s - 1, pc := (pc s)(w := Fetch)\<rparr>)" if "sharing n bs jobs f st s"
    using that fetch_idle by (intro sharing_negative) auto
  moreover have "(pc s)(w := Fetch) = pc s" using fetch_idle(3) by auto
  ultimately show ?case using fetch_idle by (auto simp: pool_inv_def split: place.splits)
next
  case (process_job w s b i e)
  then have "sharing n bs jobs f st s" by (auto simp: pool_inv_def workers_idle_def split: place.splits)
  from sharing_process [OF this process_job(1-3) assms(3,4)] process_job
  show ?case by (auto simp: pool_inv_def workers_idle_def split: place.splits)
next
  case (finish_block w s b i e)
  then have "sharing n bs jobs f st s" by (auto simp: pool_inv_def workers_idle_def split: place.splits)
  from sharing_finish [OF this finish_block(1-3) assms(3)] finish_block
  show ?case by (auto simp: pool_inv_def workers_idle_def split: place.splits)
next
  case (wait_again s)
  then show ?case by simp
next
  case (wait_over s)
  then have sh: "sharing n bs jobs f st s" by (simp add: pool_inv_def)
  note fin = all_finished [OF sh wait_over(2) assms(3)]
  have "workers_idle n (pc s)" using idle_if_none_held [OF fin(2)] wait_over(3) by (simp add: pool_inv_def)
  then show ?case using wait_over fin(1) by (simp add: pool_inv_def workers_idle_def)
qed

lemma pool_inv_run:
  assumes "pool_run n bs jobs f st s" "0 < bs" "distinct jobs"
  shows "pool_inv n bs jobs f st s"
  using assms(1) by induction (auto intro: pool_inv_called pool_inv_step assms)


section \<open>The call returns\<close>

text \<open>
  The work left: every step of a thread other than an idle fetch of a worker or a repeated wait
  decreases it, so only a scheduler that never runs a busy thread can delay the return.
\<close>

fun place_cost :: "place \<Rightarrow> nat" where
  "place_cost (Work b i e) = Suc (e - i)"
| "place_cost _ = 0"

fun caller_cost :: "nat \<Rightarrow> place \<Rightarrow> nat" where
  "caller_cost c Call = c + 4"
| "caller_cost c Stored = c + 3"
| "caller_cost c Waiting = 1"
| "caller_cost c Returned = 0"
| "caller_cost c _ = 2"

definition blocks_cost :: "nat \<Rightarrow> int \<Rightarrow> nat" where
  "blocks_cost bs k = nat (k + 1) * (bs + 2)"

definition pool_cost :: "nat \<Rightarrow> nat \<Rightarrow> sim_id list \<Rightarrow> 'a pool \<Rightarrow> nat" where
  "pool_cost n bs jobs s = blocks_cost bs (m_block_id s) + (\<Sum>w \<le> n. place_cost (pc s w))
     + caller_cost (blocks_cost bs (int (block_number bs jobs))) (pc s 0)"

lemma sum_place_upd:
  fixes n :: nat
  assumes "w \<le> n"
  shows "(\<Sum>v \<le> n. place_cost ((p(w := q)) v)) + place_cost (p w) = (\<Sum>v \<le> n. place_cost (p v)) + place_cost q"
proof -
  have w: "w \<in> {..n}" using assms by simp
  have "(\<Sum>v \<in> {..n} - {w}. place_cost ((p(w := q)) v)) = (\<Sum>v \<in> {..n} - {w}. place_cost (p v))"
    by (rule sum.cong) auto
  then show ?thesis
    using sum.remove [OF finite_atMost w, of "\<lambda>v. place_cost ((p(w := q)) v)"]
      sum.remove [OF finite_atMost w, of "\<lambda>v. place_cost (p v)"] by simp
qed

lemma blocks_cost_take: "blocks_cost bs (int b) = blocks_cost bs (int b - 1) + bs + 2"
  by (simp add: blocks_cost_def nat_add_distrib)

lemma block_length: "block_end bs jobs b - b * bs \<le> bs"
  by (simp add: block_end_def)

lemma fetch_cost:
  assumes "w \<le> n" "pc s w = Fetch" "m_block_id s = int b"
  shows "pool_cost n bs jobs (s\<lparr>m_block_id := m_block_id s - 1, pc := (pc s)(w := Work b (b * bs) (block_end bs jobs b))\<rparr>)
    < pool_cost n bs jobs s"
  using sum_place_upd [OF assms(1), of "pc s" "Work b (b * bs) (block_end bs jobs b)"] assms(2,3)
    blocks_cost_take [of bs b] block_length [of bs jobs b]
  by (cases "w = 0") (simp_all add: pool_cost_def)

lemma work_cost:
  assumes "w \<le> n" "pc s w = Work b i e" "place_cost q < place_cost (pc s w)" "caller_cost 0 q = 2"
    and "\<And>c. caller_cost c q = 2"
  shows "pool_cost n bs jobs (s\<lparr>pc := (pc s)(w := q)\<rparr>) < pool_cost n bs jobs s"
  using sum_place_upd [OF assms(1), of "pc s" q] assms by (cases "w = 0") (simp_all add: pool_cost_def)

lemma pool_progress:
  assumes "pool_inv n bs jobs f st s" "pc s 0 \<noteq> Returned" "0 < bs"
  shows "\<exists>t. pool_step n bs jobs f s t \<and> pool_cost n bs jobs t < pool_cost n bs jobs s"
proof -
  have work: "\<exists>t. pool_step n bs jobs f s t \<and> pool_cost n bs jobs t < pool_cost n bs jobs s"
    if w: "w \<le> n" "pc s w = Work b i e" for w b i e
  proof (cases "i < e")
    case True
    with pool_step.process_job [OF w True, of bs jobs f] work_cost [OF w, of "Work b (Suc i) e"] w
    show ?thesis by (intro exI conjI) (auto simp: pool_cost_def)
  next
    case False
    with pool_step.finish_block [OF w False, of bs jobs f] work_cost [OF w, of Fetch] w
    show ?thesis by (intro exI conjI) (auto simp: pool_cost_def)
  qed
  show ?thesis
  proof (cases "pc s 0")
    case Call
    with pool_step.store_count [OF Call, of n bs jobs f] sum_place_upd [of 0 n "pc s" Stored]
    show ?thesis by (intro exI conjI) (auto simp: pool_cost_def)
  next
    case Stored
    with pool_step.store_id [OF Stored, of n bs jobs f] sum_place_upd [of 0 n "pc s" Fetch] assms(1)
    show ?thesis by (intro exI conjI) (auto simp: pool_cost_def pool_inv_def blocks_cost_def)
  next
    case Fetch
    show ?thesis
    proof (cases "m_block_id s < 0")
      case True
      with pool_step.fetch_last [OF Fetch True, of n bs jobs f] sum_place_upd [of 0 n "pc s" Waiting] Fetch
      show ?thesis by (intro exI conjI) (auto simp: pool_cost_def blocks_cost_def)
    next
      case False
      then have b: "m_block_id s = int (nat (m_block_id s))" by simp
      show ?thesis
        using pool_step.fetch_block [OF le0 Fetch b, of n bs jobs f] fetch_cost [OF le0 Fetch b, of n bs jobs] by blast
    qed
  next
    case (Work b i e)
    then show ?thesis using work [of 0] by simp
  next
    case Waiting
    show ?thesis
    proof (cases "m_block_count s < 0")
      case True
      with pool_step.wait_over [OF Waiting True, of n bs jobs f] sum_place_upd [of 0 n "pc s" Returned] Waiting
      show ?thesis by (intro exI conjI) (auto simp: pool_cost_def)
    next
      case False
      obtain fin where fin: "taken n bs jobs fin s" and neg: "m_block_id s < 0"
        using assms(1) Waiting by (auto simp: pool_inv_def sharing_def)
      have "held n (pc s) \<noteq> {}"
      proof
        assume "held n (pc s) = {}"
        moreover have "{b. m_block_id s < int b \<and> b \<le> block_number bs jobs} = {..block_number bs jobs}" using neg by auto
        ultimately have "{..block_number bs jobs} = fin" using fin by (simp add: taken_def)
        then have "card fin = Suc (block_number bs jobs)" using card_atMost [of "block_number bs jobs"] by simp
        then show False using fin False by (simp add: taken_def)
      qed
      then show ?thesis using work by (auto simp: held_def block_of_Some)
    qed
  next
    case Returned
    with assms(2) show ?thesis by simp
  qed
qed

lemma pool_returns:
  assumes "pool_run n bs jobs f st s" "0 < bs" "distinct jobs"
  shows "\<exists>t. (pool_step n bs jobs f)\<^sup>*\<^sup>* s t \<and> pool_run n bs jobs f st t \<and> pc t 0 = Returned"
  using assms(1)
proof (induction "pool_cost n bs jobs s" arbitrary: s rule: less_induct)
  case less
  show ?case
  proof (cases "pc s 0 = Returned")
    case True
    then show ?thesis using less.prems by blast
  next
    case False
    obtain t where t: "pool_step n bs jobs f s t" "pool_cost n bs jobs t < pool_cost n bs jobs s"
      using pool_progress [OF pool_inv_run [OF less.prems assms(2,3)] False assms(2)] by blast
    from less.hyps [OF t(2) pool_run.step [OF less.prems t(1)]] t(1)
    show ?thesis by (meson converse_rtranclp_into_rtranclp)
  qed
qed

section \<open>Properties\<close>

text \<open>
  C16. When \<^verbatim>\<open>for_each\<close> returns, in whatever order the caller and the workers took the blocks, every job
  was processed exactly once and nothing else was touched: the parallel loop computes what the
  sequential loop over the jobs computes, and no worker is still in a block.
\<close>

theorem for_each_spec:
  assumes run: "pool_run n bs jobs f st s" and ret: "pc s 0 = Returned" and bs: "0 < bs" and d: "distinct jobs"
  shows "store s = fold (\<lambda>x m. m(x := f (m x))) jobs st \<and> (\<forall>w. 0 < w \<and> w \<le> n \<longrightarrow> pc s w = Fetch)"
proof -
  have "pool_inv n bs jobs f st s" by (rule pool_inv_run [OF run bs d])
  then have st: "store s = applied f jobs {..<length jobs} st" and idle: "workers_idle n (pc s)"
    using ret by (auto simp: pool_inv_def)
  have "fold (\<lambda>x m. m(x := f (m x))) jobs st = (\<lambda>x. if x \<in> set jobs then f (st x) else st x)"
    using d by (induction jobs arbitrary: st) (auto simp: fun_eq_iff)
  also have "\<dots> = applied f jobs {..<length jobs} st"
    by (auto simp: applied_def fun_eq_iff in_set_conv_nth)
  finally show ?thesis using st idle by (auto simp: workers_idle_def)
qed

definition sample_pool :: "nat pool" where
  "sample_pool = \<lparr>m_block_id = -1, m_block_count = -1, pc = (\<lambda>_. Fetch)(0 := Call), store = (\<lambda>x. 10 * x)\<rparr>"

lemma sample_pool_called: "pool_run 3 2 [4, 1, 7] Suc (\<lambda>x. 10 * x) sample_pool"
  by (rule pool_run.call) (simp add: called_def sample_pool_def)

theorem for_each_spec_witness:
  "\<exists>s. pool_run 3 2 [4, 1, 7] Suc (\<lambda>x. 10 * x) s \<and> pc s 0 = Returned \<and> map (store s) [1, 2, 4, 7] = [11, 20, 41, 71]"
proof -
  obtain s where s: "pool_run 3 2 [4, 1, 7] Suc (\<lambda>x. 10 * x) s" "pc s 0 = Returned"
    using pool_returns [OF sample_pool_called] by auto
  have "store s = fold (\<lambda>x m. m(x := Suc (m x))) [4, 1, 7] (\<lambda>x. 10 * x)"
    using for_each_spec [OF s] by simp
  then show ?thesis using s by (intro exI [of _ s]) simp
qed

text \<open>
  C17. \<^verbatim>\<open>for_each\<close> cannot get stuck: from every state that a run of the pool reaches, there is a
  continuation in which it returns.
\<close>

theorem for_each_returns:
  assumes "pool_run n bs jobs f st s" "0 < bs" "distinct jobs"
  shows "\<exists>t. (pool_step n bs jobs f)\<^sup>*\<^sup>* s t \<and> pc t 0 = Returned"
  using pool_returns [OF assms] by blast

theorem for_each_returns_witness:
  "\<exists>t. (pool_step 3 2 [4, 1, 7] Suc)\<^sup>*\<^sup>* sample_pool t \<and> pc t 0 = Returned"
  using for_each_returns [OF sample_pool_called] by simp

end
