(* ===== verification/Scheduler.thy ===== *)
theory Scheduler
  imports Simulator
begin

text \<open>
  \<^verbatim>\<open>devs/Scheduler.cpp\<close>: the bag of simulators that are active at the current date and the heap of the
  dates to come. The scheduler writes to the simulators through pointers, so its state holds the
  simulators; the heap operations are the argument \<open>H\<close>.
\<close>

section \<open>State and operations\<close>

record bag =
  bag_dynamics :: "sim_id list"
  bag_executives :: "sim_id list"
  bag_unique :: "sim_id set"

record ('q, 'h, 'u) kernel =
  k_time :: time
  k_bag :: bag
  k_heap :: 'q
  k_sims :: "sim_id \<Rightarrow> ('h, 'u) simulator option"

type_synonym ('q, 'h, 'u, 'a) kproc = "(('q, 'h, 'u) kernel, 'a) proc"

definition empty_bag :: bag where
  "empty_bag = \<lparr>bag_dynamics = [], bag_executives = [], bag_unique = {}\<rparr>"

definition Scheduler_new :: "'q \<Rightarrow> ('q, 'h, 'u) kernel" where
  "Scheduler_new q = \<lparr>k_time = negativeInfinity, k_bag = empty_bag, k_heap = q, k_sims = Map.empty\<rparr>"

definition get_sim :: "sim_id \<Rightarrow> ('q, 'h, 'u, ('h, 'u) simulator) kproc" where
  "get_sim x k = (case k_sims k x of
     None \<Rightarrow> Exn (UndefinedBehaviour ''dangling simulator'') k | Some sm \<Rightarrow> Ret sm k)"

definition put_sim :: "sim_id \<Rightarrow> ('h, 'u) simulator \<Rightarrow> ('q, 'h, 'u) kernel \<Rightarrow> ('q, 'h, 'u) kernel" where
  "put_sim x sm k = k\<lparr>k_sims := (k_sims k)(x \<mapsto> sm)\<rparr>"

definition upd_sim :: "sim_id \<Rightarrow> (('h, 'u) simulator \<Rightarrow> ('h, 'u) simulator) \<Rightarrow> ('q, 'h, 'u, unit) kproc" where
  "upd_sim x f = bindS (get_sim x) (\<lambda>sm. updS (put_sim x (f sm)))"

text \<open>\<^verbatim>\<open>emplace_back\<close> into the vector of the dynamics or of the executives.\<close>

definition emplace_back :: "bool \<Rightarrow> sim_id \<Rightarrow> bag \<Rightarrow> bag" where
  "emplace_back executive x b =
     (if executive then b\<lparr>bag_executives := bag_executives b @ [x]\<rparr>
      else b\<lparr>bag_dynamics := bag_dynamics b @ [x]\<rparr>)"

definition getNextTime :: "('q, 'h) heap_ops \<Rightarrow> ('q, 'h, 'u) kernel \<Rightarrow> time" where
  "getNextTime H k = (if \<not> heap_empty H (k_heap k) then fst (heap_top H (k_heap k)) else infinity)"

text \<open>The body of the loops of \<^verbatim>\<open>init\<close> and \<^verbatim>\<open>makeNextBag\<close>: the simulator on top enters the bag.\<close>

definition pop_into_bag :: "('q, 'h) heap_ops \<Rightarrow> ('q, 'h, 'u, unit) kproc" where
  "pop_into_bag H = bindS getS (\<lambda>k.
     let x = snd (heap_top H (k_heap k)) in
     bindS (get_sim x) (\<lambda>sm.
     thenS (updS (k_bag_update (emplace_back (sim_executive sm) x)))
    (thenS (updS (k_bag_update (bag_unique_update (insert x))))
    (thenS (upd_sim x (sim_internal_update (\<lambda>_. True)))
    (thenS (upd_sim x (\<lambda>sm. sm\<lparr>sim_handle := None\<rparr>))
       (updS (k_heap_update (heap_pop H))))))))"

partial_function (option) bag_loop ::
    "('q, 'h) heap_ops \<Rightarrow> (time \<Rightarrow> bool) \<Rightarrow> ('q, 'h, 'u) kernel \<Rightarrow> (('q, 'h, 'u) kernel, unit) outcome option" where
  "bag_loop H c k =
     (if \<not> heap_empty H (k_heap k) \<and> c (fst (heap_top H (k_heap k)))
      then (case pop_into_bag H k of Ret _ k' \<Rightarrow> bag_loop H c k' | Exn e k' \<Rightarrow> Some (Exn e k'))
      else Some (Ret () k))"

definition run_loop :: "('s \<Rightarrow> ('s, 'a) outcome option) \<Rightarrow> ('s, 'a) proc" where
  "run_loop f s = (case f s of None \<Rightarrow> Exn NonTermination s | Some r \<Rightarrow> r)"

definition Scheduler_init :: "('q, 'h) heap_ops \<Rightarrow> time \<Rightarrow> ('q, 'h, 'u, unit) kproc" where
  "Scheduler_init H t =
     thenS (updS (\<lambda>k. k\<lparr>k_time := t, k_bag := empty_bag\<rparr>)) (run_loop (bag_loop H (\<lambda>top. dle top t)))"

definition makeNextBag :: "('q, 'h) heap_ops \<Rightarrow> ('q, 'h, 'u, unit) kproc" where
  "makeNextBag H =
     thenS (updS (\<lambda>k. k\<lparr>k_time := getNextTime H k, k_bag := empty_bag\<rparr>))
    (bindS getS (\<lambda>k. run_loop (bag_loop H (\<lambda>top. deq top (k_time k)))))"

definition addInternal :: "('q, 'h) heap_ops \<Rightarrow> sim_id \<Rightarrow> time \<Rightarrow> ('q, 'h, 'u, unit) kproc" where
  "addInternal H x t =
     thenS (assertS (\<lambda>_. \<not> isInfinity t) ''addInternal: infinity time?'')
    (thenS (assertS (\<lambda>_. \<not> isNegativeInfinity t) ''addInternal: infinity time?'')
    (thenS (assertS (\<lambda>k. dle (k_time k) t) ''addInternal: time < m_current_time?'')
    (bindS (get_sim x) (\<lambda>sm. case sim_handle sm of
       Some h \<Rightarrow> updS (\<lambda>k. k\<lparr>k_heap := heap_update H h t (k_heap k)\<rparr>)
     | None \<Rightarrow> bindS getS (\<lambda>k. case heap_emplace H t x (k_heap k) of (h, q) \<Rightarrow>
         thenS (updS (\<lambda>k. k\<lparr>k_heap := q\<rparr>)) (upd_sim x (\<lambda>sm. sm\<lparr>sim_handle := Some h\<rparr>)))))))"

definition addExternal :: "('q, 'h) heap_ops \<Rightarrow> sim_id \<Rightarrow> val option \<Rightarrow> string \<Rightarrow> ('q, 'h, 'u, unit) kproc" where
  "addExternal H x values portname =
     bindS (get_sim x) (\<lambda>sm.
     bindS getS (\<lambda>k.
     thenS (if x \<in> bag_unique (k_bag k) then retS ()
            else updS (\<lambda>k. k\<lparr>k_bag := emplace_back (sim_executive sm) x ((k_bag k)\<lparr>bag_unique := insert x (bag_unique (k_bag k))\<rparr>)\<rparr>))
    (thenS (upd_sim x (\<lambda>sm. sm\<lparr>sim_external := sim_external sm @ [\<lparr>ev_attributes = values, ev_port = portname\<rparr>]\<rparr>))
       (case sim_handle sm of
          None \<Rightarrow> retS ()
        | Some h \<Rightarrow>
            if dless (k_time k) (sim_tn sm) then
              thenS (updS (\<lambda>k. k\<lparr>k_heap := heap_erase H h (k_heap k)\<rparr>))
             (thenS (upd_sim x (\<lambda>sm. sm\<lparr>sim_handle := None\<rparr>))
                (assertS (\<lambda>_. \<not> sim_internal sm) ''Bad scheduler''))
            else retS ()))))"

definition delSimulator :: "('q, 'h) heap_ops \<Rightarrow> sim_id \<Rightarrow> ('q, 'h, 'u, unit) kproc" where
  "delSimulator H x =
     bindS (get_sim x) (\<lambda>sm.
     thenS (if sim_executive sm then updS (\<lambda>k. k\<lparr>k_bag := (k_bag k)\<lparr>bag_executives := removeAll x (bag_executives (k_bag k))\<rparr>\<rparr>)
            else updS (\<lambda>k. k\<lparr>k_bag := (k_bag k)\<lparr>bag_dynamics := removeAll x (bag_dynamics (k_bag k))\<rparr>\<rparr>))
    (thenS (updS (\<lambda>k. k\<lparr>k_bag := (k_bag k)\<lparr>bag_unique := bag_unique (k_bag k) - {x}\<rparr>\<rparr>))
       (case sim_handle sm of
          None \<Rightarrow> retS ()
        | Some h \<Rightarrow> thenS (updS (\<lambda>k. k\<lparr>k_heap := heap_erase H h (k_heap k)\<rparr>)) (upd_sim x (\<lambda>sm. sm\<lparr>sim_handle := None\<rparr>)))))"

section \<open>The invariant\<close>

text \<open>
  The bag lists every active simulator once, dynamics and executives apart, and \<^verbatim>\<open>unique_simulators\<close> is
  exactly the set of both.
\<close>

definition bag_ok :: "bag \<Rightarrow> (sim_id \<Rightarrow> ('h, 'u) simulator option) \<Rightarrow> bool" where
  "bag_ok b sims \<longleftrightarrow> distinct (bag_dynamics b) \<and> distinct (bag_executives b)
     \<and> bag_unique b = set (bag_dynamics b) \<union> set (bag_executives b)
     \<and> (\<forall>x \<in> set (bag_dynamics b). \<exists>sm. sims x = Some sm \<and> \<not> sim_executive sm)
     \<and> (\<forall>x \<in> set (bag_executives b). \<exists>sm. sims x = Some sm \<and> sim_executive sm)"

text \<open>
  Heap and simulators agree: a simulator has a handle exactly when the heap has an entry for it, the
  entry carries the simulator's next date, which is a finite date not before the current one, and a
  simulator in the heap has no internal event pending.
\<close>

definition agree :: "('h \<Rightarrow> (time \<times> sim_id) option) \<Rightarrow> (sim_id \<Rightarrow> ('h, 'u) simulator option) \<Rightarrow> bool" where
  "agree es sims \<longleftrightarrow>
     (\<forall>h t x. es h = Some (t, x) \<longrightarrow> (\<exists>sm. sims x = Some sm \<and> sim_handle sm = Some h \<and> sim_tn sm = t))
     \<and> (\<forall>x sm h. sims x = Some sm \<longrightarrow> sim_handle sm = Some h \<longrightarrow> es h = Some (sim_tn sm, x) \<and> \<not> sim_internal sm)"

definition dates_ok :: "time \<Rightarrow> ('h \<Rightarrow> (time \<times> sim_id) option) \<Rightarrow> bool" where
  "dates_ok now es \<longleftrightarrow> (\<forall>h t x. es h = Some (t, x) \<longrightarrow> dle now t \<and> t \<noteq> dinf)"

definition sched_from ::
    "('q \<Rightarrow> 'h \<Rightarrow> (time \<times> sim_id) option) \<Rightarrow> ('q \<Rightarrow> bool) \<Rightarrow> time \<Rightarrow> ('q, 'h, 'u) kernel \<Rightarrow> bool" where
  "sched_from elems invar now k \<longleftrightarrow> invar (k_heap k) \<and> agree (elems (k_heap k)) (k_sims k)
     \<and> dates_ok now (elems (k_heap k)) \<and> bag_ok (k_bag k) (k_sims k)"

definition sched_ok :: "('q \<Rightarrow> 'h \<Rightarrow> (time \<times> sim_id) option) \<Rightarrow> ('q \<Rightarrow> bool) \<Rightarrow> ('q, 'h, 'u) kernel \<Rightarrow> bool" where
  "sched_ok elems invar k \<longleftrightarrow> sched_from elems invar (k_time k) k"

lemma wp_get_sim [wp_simps]: "wp (get_sim x) k P = (\<exists>sm. k_sims k x = Some sm \<and> P sm k)"
  by (simp add: wp_def get_sim_def split: option.split)

lemma wp_upd_sim [wp_simps]: "wp (upd_sim x f) k P = (\<exists>sm. k_sims k x = Some sm \<and> P () (put_sim x (f sm) k))"
  by (simp add: upd_sim_def wp_simps)

lemma dle_inf: "x \<noteq> dnan \<Longrightarrow> dle x dinf"
  by (cases "dval x") (auto simp: dle_iff)

lemma dates_no_nan: "dates_ok now es \<Longrightarrow> no_nan es"
  by (auto simp: dates_ok_def no_nan_def double_simps)

lemma agree_entry:
  "agree es sims \<Longrightarrow> es h = Some (t, x) \<Longrightarrow> \<exists>sm. sims x = Some sm \<and> sim_handle sm = Some h \<and> sim_tn sm = t"
  unfolding agree_def by blast

lemma agree_handle:
  "agree es sims \<Longrightarrow> sims x = Some sm \<Longrightarrow> sim_handle sm = Some h \<Longrightarrow> es h = Some (sim_tn sm, x) \<and> \<not> sim_internal sm"
  unfolding agree_def by blast

lemma agreeI:
  assumes "\<And>h t x. es h = Some (t, x) \<Longrightarrow> \<exists>sm. sims x = Some sm \<and> sim_handle sm = Some h \<and> sim_tn sm = t"
    and "\<And>x sm h. sims x = Some sm \<Longrightarrow> sim_handle sm = Some h \<Longrightarrow> es h = Some (sim_tn sm, x) \<and> \<not> sim_internal sm"
  shows "agree es sims"
  unfolding agree_def using assms by blast

lemma agree_handles_inj: "agree es sims \<Longrightarrow> es h = Some (t, x) \<Longrightarrow> es h' = Some (t', x) \<Longrightarrow> h' = h"
  using agree_entry [of es sims h t x] agree_entry [of es sims h' t' x] by auto

section \<open>The loop that fills the bag\<close>

text \<open>The simulators with an entry whose date satisfies \<open>c\<close>, and the state without these entries.\<close>

definition due :: "('h \<Rightarrow> (time \<times> sim_id) option) \<Rightarrow> (time \<Rightarrow> bool) \<Rightarrow> sim_id set" where
  "due es c = {x. \<exists>h t. es h = Some (t, x) \<and> c t}"

definition drop_due :: "('h \<Rightarrow> (time \<times> sim_id) option) \<Rightarrow> (time \<Rightarrow> bool) \<Rightarrow> 'h \<Rightarrow> (time \<times> sim_id) option" where
  "drop_due es c h = (case es h of None \<Rightarrow> None | Some (t, x) \<Rightarrow> if c t then None else Some (t, x))"

definition activate :: "sim_id set \<Rightarrow> (sim_id \<Rightarrow> ('h, 'u) simulator option) \<Rightarrow> sim_id \<Rightarrow> ('h, 'u) simulator option" where
  "activate X sims x = (if x \<in> X then map_option (\<lambda>sm. sm\<lparr>sim_internal := True, sim_handle := None\<rparr>) (sims x) else sims x)"

definition bag_idle :: "bag \<Rightarrow> (sim_id \<Rightarrow> ('h, 'u) simulator option) \<Rightarrow> bool" where
  "bag_idle b sims \<longleftrightarrow> (\<forall>x \<in> bag_unique b. \<exists>sm. sims x = Some sm \<and> sim_handle sm = None)"

definition closed_dates :: "('h \<Rightarrow> (time \<times> sim_id) option) \<Rightarrow> (time \<Rightarrow> bool) \<Rightarrow> bool" where
  "closed_dates es c \<longleftrightarrow> (\<forall>h t x h' t' x'. es h = Some (t, x) \<longrightarrow> es h' = Some (t', x') \<longrightarrow> c t' \<longrightarrow> dle t t' \<longrightarrow> c t)"

lemma closed_dates_del: "closed_dates es c \<Longrightarrow> closed_dates (es(h := None)) c"
  unfolding closed_dates_def by (metis fun_upd_apply option.distinct(1))

definition popped :: "sim_id \<Rightarrow> ('h, 'u) simulator \<Rightarrow> 'q \<Rightarrow> ('q, 'h, 'u) kernel \<Rightarrow> ('q, 'h, 'u) kernel" where
  "popped x sm q k = k\<lparr>
     k_bag := (emplace_back (sim_executive sm) x (k_bag k))\<lparr>bag_unique := insert x (bag_unique (k_bag k))\<rparr>,
     k_heap := q, k_sims := (k_sims k)(x \<mapsto> sm\<lparr>sim_internal := True, sim_handle := None\<rparr>)\<rparr>"

lemma bag_unique_emplace_back [simp]: "bag_unique (emplace_back e x b) = bag_unique b"
  by (simp add: emplace_back_def)

lemma pop_into_bag_eq:
  assumes "heap_top H (k_heap k) = (t, x)" "k_sims k x = Some sm"
  shows "pop_into_bag H k = Ret () (popped x sm (heap_pop H (k_heap k)) k)"
  using assms
  by (simp add: pop_into_bag_def popped_def effect_defs updS_def upd_sim_def get_sim_def put_sim_def)

lemma bag_ok_popped:
  assumes "bag_ok b sims" "bag_idle b sims" "sims x = Some sm" "sim_handle sm \<noteq> None"
  shows "bag_ok ((emplace_back (sim_executive sm) x b)\<lparr>bag_unique := insert x (bag_unique b)\<rparr>)
     (sims(x \<mapsto> sm\<lparr>sim_internal := True, sim_handle := None\<rparr>))"
    "bag_idle ((emplace_back (sim_executive sm) x b)\<lparr>bag_unique := insert x (bag_unique b)\<rparr>)
     (sims(x \<mapsto> sm\<lparr>sim_internal := True, sim_handle := None\<rparr>))"
proof -
  have "x \<notin> bag_unique b" using assms by (auto simp: bag_idle_def)
  then show "bag_ok ((emplace_back (sim_executive sm) x b)\<lparr>bag_unique := insert x (bag_unique b)\<rparr>)
     (sims(x \<mapsto> sm\<lparr>sim_internal := True, sim_handle := None\<rparr>))"
    using assms(1) by (auto simp: bag_ok_def emplace_back_def)
  show "bag_idle ((emplace_back (sim_executive sm) x b)\<lparr>bag_unique := insert x (bag_unique b)\<rparr>)
     (sims(x \<mapsto> sm\<lparr>sim_internal := True, sim_handle := None\<rparr>))"
    using assms(2) by (auto simp: bag_idle_def)
qed

lemma agree_popped:
  assumes ag: "agree es sims" and h: "es h = Some (t, x)" and sm: "sims x = Some sm"
  shows "agree (es(h := None)) (sims(x \<mapsto> sm\<lparr>sim_internal := True, sim_handle := None\<rparr>))"
proof (rule agreeI)
  fix h' t' x'
  assume "(es(h := None)) h' = Some (t', x')"
  then have h': "es h' = Some (t', x')" "h' \<noteq> h" by (auto split: if_splits)
  then have "x' \<noteq> x" using agree_handles_inj [OF ag h, of h' t'] by auto
  with agree_entry [OF ag h'(1)]
  show "\<exists>sm'. (sims(x \<mapsto> sm\<lparr>sim_internal := True, sim_handle := None\<rparr>)) x' = Some sm'
      \<and> sim_handle sm' = Some h' \<and> sim_tn sm' = t'" by simp
next
  fix x' sm' h'
  assume "(sims(x \<mapsto> sm\<lparr>sim_internal := True, sim_handle := None\<rparr>)) x' = Some sm'" "sim_handle sm' = Some h'"
  then have "sims x' = Some sm'" "x' \<noteq> x" "sim_handle sm' = Some h'" by (auto split: if_splits)
  with agree_handle [OF ag this(1,3)] h
  show "(es(h := None)) h' = Some (sim_tn sm', x') \<and> \<not> sim_internal sm'" by auto
qed

lemma due_del:
  assumes ag: "agree es sims" and h: "es h = Some (t, x)" and ct: "c t"
  shows "due es c = insert x (due (es(h := None)) c)" "x \<notin> due (es(h := None)) c"
proof -
  show "due es c = insert x (due (es(h := None)) c)"
  proof (intro set_eqI iffI)
    fix y
    assume "y \<in> due es c"
    then obtain h' t' where "es h' = Some (t', y)" "c t'" by (auto simp: due_def)
    with h show "y \<in> insert x (due (es(h := None)) c)" by (cases "h' = h") (auto simp: due_def)
  next
    fix y
    assume "y \<in> insert x (due (es(h := None)) c)"
    then show "y \<in> due es c" using h ct by (auto simp: due_def split: if_splits)
  qed
  show "x \<notin> due (es(h := None)) c"
    using agree_handles_inj [OF ag h] by (fastforce simp: due_def split: if_splits)
qed

lemma drop_due_del: "es h = Some (t, x) \<Longrightarrow> c t \<Longrightarrow> drop_due (es(h := None)) c = drop_due es c"
  by (auto simp: drop_due_def fun_eq_iff)

context event_heap
begin

lemma bag_loop_spec:
  assumes "sched_from elems invar now k" "bag_idle (k_bag k) (k_sims k)" "closed_dates (elems (k_heap k)) c"
  shows "\<exists>k'. bag_loop H c k = Some (Ret () k') \<and> sched_from elems invar now k' \<and> k_time k' = k_time k
    \<and> elems (k_heap k') = drop_due (elems (k_heap k)) c
    \<and> bag_unique (k_bag k') = bag_unique (k_bag k) \<union> due (elems (k_heap k)) c
    \<and> k_sims k' = activate (due (elems (k_heap k)) c) (k_sims k)"
  using assms
proof (induction "card (dom (elems (k_heap k)))" arbitrary: k rule: less_induct)
  case less
  let ?E = "elems (k_heap k)"
  have inv: "invar (k_heap k)" and ag: "agree ?E (k_sims k)" and dt: "dates_ok now ?E" and bg: "bag_ok (k_bag k) (k_sims k)"
    using less.prems(1) by (auto simp: sched_from_def)
  show ?case
  proof (cases "?E \<noteq> Map.empty \<and> c (fst (heap_top H (k_heap k)))")
    case False
    have "\<not> c t" if "?E h = Some (t, x)" for h t x
    proof
      assume "c t"
      have ne: "?E \<noteq> Map.empty" using that by auto
      have "dle (fst (heap_top H (k_heap k))) t" using inv dates_no_nan [OF dt] that by (rule heap_min)
      with heap_top [OF inv ne] that \<open>c t\<close> less.prems(3) have "c (fst (heap_top H (k_heap k)))"
        unfolding closed_dates_def by (metis prod.collapse)
      with False ne show False by simp
    qed
    then have "due ?E c = {}" "drop_due ?E c = ?E"
      by (auto simp: due_def drop_due_def fun_eq_iff split: option.splits)
    moreover have "bag_loop H c k = Some (Ret () k)"
      using False heap_empty [OF inv] by (subst bag_loop.simps) auto
    ultimately show ?thesis using less.prems(1) by (simp add: activate_def fun_eq_iff)
  next
    case True
    obtain t x where top: "heap_top H (k_heap k) = (t, x)" by force
    have h: "?E (top_handle (k_heap k)) = Some (t, x)" using heap_top [OF inv] True top by simp
    obtain sm where sm: "k_sims k x = Some sm" "sim_handle sm = Some (top_handle (k_heap k))"
      using agree_entry [OF ag h] by blast
    let ?k = "popped x sm (heap_pop H (k_heap k)) k"
    have pop: "invar (heap_pop H (k_heap k))" "elems (heap_pop H (k_heap k)) = ?E(top_handle (k_heap k) := None)"
      using heap_pop [OF inv] True by auto
    have ok: "sched_from elems invar now ?k" "bag_idle (k_bag ?k) (k_sims ?k)"
      using pop agree_popped [OF ag h sm(1)] dt bag_ok_popped [OF bg less.prems(2) sm(1)] sm(2)
      by (auto simp: sched_from_def popped_def dates_ok_def)
    have cl: "closed_dates (elems (k_heap ?k)) c"
      using closed_dates_del [OF less.prems(3)] by (simp add: popped_def pop)
    have card: "card (dom (elems (k_heap ?k))) < card (dom ?E)"
      using card_pop [OF inv] True by (simp add: popped_def)
    obtain k' where k': "bag_loop H c ?k = Some (Ret () k')" "sched_from elems invar now k'" "k_time k' = k_time ?k"
      "elems (k_heap k') = drop_due (elems (k_heap ?k)) c"
      "bag_unique (k_bag k') = bag_unique (k_bag ?k) \<union> due (elems (k_heap ?k)) c"
      "k_sims k' = activate (due (elems (k_heap ?k)) c) (k_sims ?k)"
      using less.hyps [OF card ok cl] by blast
    have ct: "c t" using True top by simp
    have du: "due ?E c = insert x (due (elems (k_heap ?k)) c)" "x \<notin> due (elems (k_heap ?k)) c"
      using due_del [where c = c, OF ag h ct] by (auto simp: popped_def pop)
    have dd: "drop_due (elems (k_heap ?k)) c = drop_due ?E c"
      using drop_due_del [of ?E "top_handle (k_heap k)" t x c] h ct by (simp add: popped_def pop)
    have "bag_loop H c k = Some (Ret () k')"
      using True heap_empty [OF inv] k'(1) pop_into_bag_eq [OF top sm(1)] by (subst bag_loop.simps) simp
    moreover have "k_sims k' = activate (due ?E c) (k_sims k)"
      using du sm(1) unfolding k'(6) by (auto simp: activate_def popped_def fun_eq_iff)
    ultimately show ?thesis using k' du dd by (auto simp: popped_def)
  qed
qed

lemma due_now: "due es (\<lambda>t. deq t now) = {x. \<exists>h. es h = Some (now, x)}" if "now \<noteq> dnan"
  using that by (auto simp: due_def double_simps)

lemma run_loop_Some: "f s = Some r \<Longrightarrow> run_loop f s = r"
  by (simp add: run_loop_def)

lemma next_time:
  assumes "sched_ok elems invar k"
  shows "dates_ok (getNextTime H k) (elems (k_heap k))" "getNextTime H k \<noteq> dnan"
    "k_time k \<noteq> dnan \<Longrightarrow> dle (k_time k) (getNextTime H k)"
proof -
  let ?E = "elems (k_heap k)"
  have inv: "invar (k_heap k)" and dt: "dates_ok (k_time k) ?E" using assms by (auto simp: sched_ok_def sched_from_def)
  have min: "dle (fst (heap_top H (k_heap k))) t" if "?E h = Some (t, x)" for h t x
    using heap_min [OF inv dates_no_nan [OF dt] that] .
  show "dates_ok (getNextTime H k) ?E"
    using dt min heap_empty [OF inv] by (auto simp: dates_ok_def getNextTime_def)
  have top: "fst (heap_top H (k_heap k)) \<noteq> dnan \<and> dle (k_time k) (fst (heap_top H (k_heap k)))" if "?E \<noteq> Map.empty"
    using heap_top [OF inv that] dt by (cases "heap_top H (k_heap k)") (auto simp: dates_ok_def double_simps)
  show "getNextTime H k \<noteq> dnan" using top heap_empty [OF inv] by (auto simp: getNextTime_def)
  show "k_time k \<noteq> dnan \<Longrightarrow> dle (k_time k) (getNextTime H k)"
    using top heap_empty [OF inv] by (auto simp: getNextTime_def dle_inf)
qed

lemma makeNextBag_wp:
  assumes ok: "sched_ok elems invar k"
  shows "wp (makeNextBag H) k (\<lambda>_ k'. sched_ok elems invar k' \<and> k_time k' = getNextTime H k
    \<and> bag_unique (k_bag k') = {x. \<exists>h. elems (k_heap k) h = Some (getNextTime H k, x)}
    \<and> elems (k_heap k') = drop_due (elems (k_heap k)) (\<lambda>t. t = getNextTime H k)
    \<and> k_sims k' = activate (bag_unique (k_bag k')) (k_sims k))"
proof -
  let ?t = "getNextTime H k"
  let ?k = "k\<lparr>k_time := ?t, k_bag := empty_bag\<rparr>"
  note nt = next_time [OF ok]
  have start: "sched_from elems invar ?t ?k"
    using ok nt(1) by (simp add: sched_ok_def sched_from_def bag_ok_def empty_bag_def)
  have idle: "bag_idle (k_bag ?k) (k_sims ?k)" by (simp add: bag_idle_def empty_bag_def)
  have same: "deq t ?t \<longleftrightarrow> t = ?t" for t using nt(2) by (auto simp: double_simps)
  have "t = ?t" if "elems (k_heap k) h = Some (t, x)" "dle t ?t" for h t x
  proof -
    have "dle ?t t" using nt(1) that(1) by (auto simp: dates_ok_def)
    with that(2) show ?thesis using dval_inject [of t ?t] by (auto simp: dle_iff)
  qed
  then have cl: "closed_dates (elems (k_heap ?k)) (\<lambda>t. deq t ?t)"
    unfolding closed_dates_def same by auto
  from bag_loop_spec [OF start idle cl] obtain k' where k': "bag_loop H (\<lambda>t. deq t ?t) ?k = Some (Ret () k')"
    "sched_from elems invar ?t k'" "k_time k' = ?t"
    "elems (k_heap k') = drop_due (elems (k_heap k)) (\<lambda>t. deq t ?t)"
    "bag_unique (k_bag k') = due (elems (k_heap k)) (\<lambda>t. deq t ?t)"
    "k_sims k' = activate (due (elems (k_heap k)) (\<lambda>t. deq t ?t)) (k_sims k)"
    by (auto simp: empty_bag_def)
  have "makeNextBag H k = Ret () k'"
    using k'(1) by (simp add: makeNextBag_def effect_defs updS_def run_loop_def)
  then show ?thesis using k' due_now [OF nt(2)] by (simp add: wp_iff sched_ok_def same)
qed

lemma Scheduler_init_wp:
  assumes ok: "sched_from elems invar now k" and t: "t \<noteq> dnan"
  shows "wp (Scheduler_init H t) k (\<lambda>_ k'. sched_ok elems invar k' \<and> k_time k' = t
    \<and> bag_unique (k_bag k') = due (elems (k_heap k)) (\<lambda>u. dle u t)
    \<and> elems (k_heap k') = drop_due (elems (k_heap k)) (\<lambda>u. dle u t)
    \<and> k_sims k' = activate (bag_unique (k_bag k')) (k_sims k))"
proof -
  let ?k = "k\<lparr>k_time := t, k_bag := empty_bag\<rparr>"
  have start: "sched_from elems invar now ?k"
    using ok by (simp add: sched_from_def bag_ok_def empty_bag_def)
  have idle: "bag_idle (k_bag ?k) (k_sims ?k)" by (simp add: bag_idle_def empty_bag_def)
  have cl: "closed_dates (elems (k_heap ?k)) (\<lambda>u. dle u t)"
    by (auto simp: closed_dates_def double_simps)
  from bag_loop_spec [OF start idle cl] obtain k' where k': "bag_loop H (\<lambda>u. dle u t) ?k = Some (Ret () k')"
    "sched_from elems invar now k'" "k_time k' = t"
    "elems (k_heap k') = drop_due (elems (k_heap k)) (\<lambda>u. dle u t)"
    "bag_unique (k_bag k') = due (elems (k_heap k)) (\<lambda>u. dle u t)"
    "k_sims k' = activate (due (elems (k_heap k)) (\<lambda>u. dle u t)) (k_sims k)"
    by (auto simp: empty_bag_def)
  have "dates_ok t (elems (k_heap k'))"
    using ok t unfolding k'(4) by (auto simp: dates_ok_def drop_due_def sched_from_def double_simps split: option.splits if_splits)
  then have "sched_ok elems invar k'" using k'(2,3) by (simp add: sched_ok_def sched_from_def)
  moreover have "Scheduler_init H t k = Ret () k'"
    using k'(1) by (simp add: Scheduler_init_def effect_defs updS_def run_loop_def)
  ultimately show ?thesis using k' by (simp add: wp_iff)
qed

lemma addInternal_wp:
  assumes ok: "sched_ok elems invar k" and sm: "k_sims k x = Some sm" "sim_handle sm = None" "\<not> sim_internal sm"
    and t: "sim_tn sm = t" "dle (k_time k) t" "\<not> isInfinity t"
  shows "wp (addInternal H x t) k (\<lambda>_ k'. sched_ok elems invar k' \<and> k_time k' = k_time k \<and> k_bag k' = k_bag k
    \<and> (\<exists>h. elems (k_heap k) h = None \<and> elems (k_heap k') = (elems (k_heap k))(h \<mapsto> (t, x))
        \<and> k_sims k' = (k_sims k)(x \<mapsto> sm\<lparr>sim_handle := Some h\<rparr>)))"
proof -
  have inv: "invar (k_heap k)" and ag: "agree (elems (k_heap k)) (k_sims k)"
    and dt: "dates_ok (k_time k) (elems (k_heap k))" and bg: "bag_ok (k_bag k) (k_sims k)"
    using ok by (auto simp: sched_ok_def sched_from_def)
  obtain h q where hq: "heap_emplace H t x (k_heap k) = (h, q)" by force
  note e = heap_emplace [OF inv hq]
  have fresh: "elems (k_heap k) h' \<noteq> Some (t', x)" for h' t'
    using agree_entry [OF ag, of h' t' x] sm by auto
  have ag': "agree ((elems (k_heap k))(h \<mapsto> (t, x))) ((k_sims k)(x \<mapsto> sm\<lparr>sim_handle := Some h\<rparr>))"
  proof (rule agreeI)
    fix h' t' x'
    assume "((elems (k_heap k))(h \<mapsto> (t, x))) h' = Some (t', x')"
    then show "\<exists>sm'. ((k_sims k)(x \<mapsto> sm\<lparr>sim_handle := Some h\<rparr>)) x' = Some sm' \<and> sim_handle sm' = Some h' \<and> sim_tn sm' = t'"
      using agree_entry [OF ag, of h' t' x'] fresh [of h' t'] t(1) by (cases "h' = h") auto
  next
    fix x' sm' h'
    assume *: "((k_sims k)(x \<mapsto> sm\<lparr>sim_handle := Some h\<rparr>)) x' = Some sm'" "sim_handle sm' = Some h'"
    show "((elems (k_heap k))(h \<mapsto> (t, x))) h' = Some (sim_tn sm', x') \<and> \<not> sim_internal sm'"
    proof (cases "x' = x")
      case True
      with * sm t(1) show ?thesis by auto
    next
      case False
      with * have "k_sims k x' = Some sm'" by simp
      with agree_handle [OF ag this *(2)] e show ?thesis by auto
    qed
  qed
  have bg': "bag_ok (k_bag k) ((k_sims k)(x \<mapsto> sm\<lparr>sim_handle := Some h\<rparr>))"
    using bg sm(1) by (auto simp: bag_ok_def)
  show ?thesis
    using e ag' bg' dt t sm
    by (auto simp: addInternal_def wp_simps hq sched_ok_def sched_from_def put_sim_def dates_ok_def
        isInfinity_iff isNegativeInfinity_iff)
qed

text \<open>The assertions of \<^verbatim>\<open>addInternal\<close> fail for an infinite date, for NaN and for a date in the past.\<close>

lemma addInternal_assert:
  assumes "isInfinity t \<or> \<not> dle (k_time k) t"
  shows "\<exists>msg. addInternal H x t k = Exn (AssertionFailed msg) k"
  using assms by (auto simp: addInternal_def effect_defs assertS_def isNegativeInfinity_def isInfinity_def)

lemma heap_agree_del:
  assumes ag: "agree es sims" and sm: "sims x = Some sm" "sim_handle sm = Some h" and f: "sim_handle sm' = None"
  shows "agree (es(h := None)) (sims(x \<mapsto> sm'))"
proof (rule agreeI)
  fix h' t' x'
  assume "(es(h := None)) h' = Some (t', x')"
  then have h': "es h' = Some (t', x')" "h' \<noteq> h" by (auto split: if_splits)
  then have "x' \<noteq> x" using agree_entry [OF ag h'(1)] sm by auto
  with agree_entry [OF ag h'(1)]
  show "\<exists>sm''. (sims(x \<mapsto> sm')) x' = Some sm'' \<and> sim_handle sm'' = Some h' \<and> sim_tn sm'' = t'" by simp
next
  fix x' sm'' h'
  assume *: "(sims(x \<mapsto> sm')) x' = Some sm''" "sim_handle sm'' = Some h'"
  then have x': "x' \<noteq> x" "sims x' = Some sm''" using f by (auto split: if_splits)
  moreover have "h' \<noteq> h"
    using agree_handle [OF ag x'(2) *(2)] agree_handle [OF ag sm] x'(1) by auto
  ultimately show "(es(h := None)) h' = Some (sim_tn sm'', x') \<and> \<not> sim_internal sm''"
    using agree_handle [OF ag x'(2) *(2)] by simp
qed

lemma agree_same_handle:
  assumes "agree es sims" "sims x = Some sm" "sim_handle sm' = sim_handle sm" "sim_tn sm' = sim_tn sm" "sim_internal sm' = sim_internal sm"
  shows "agree es (sims(x \<mapsto> sm'))"
proof (rule agreeI)
  fix h t y
  assume "es h = Some (t, y)"
  from agree_entry [OF assms(1) this] assms(2-5)
  show "\<exists>sm''. (sims(x \<mapsto> sm')) y = Some sm'' \<and> sim_handle sm'' = Some h \<and> sim_tn sm'' = t" by auto
next
  fix y sm'' h
  assume "(sims(x \<mapsto> sm')) y = Some sm''" "sim_handle sm'' = Some h"
  with agree_handle [OF assms(1), of y sm'' h] agree_handle [OF assms(1,2), of h] assms(3-5)
  show "es h = Some (sim_tn sm'', y) \<and> \<not> sim_internal sm''" by (cases "y = x") auto
qed

lemma bag_ok_external:
  assumes "bag_ok b sims" "sims x = Some sm" "sim_executive sm' = sim_executive sm"
  shows "bag_ok (if x \<in> bag_unique b then b else emplace_back (sim_executive sm) x (b\<lparr>bag_unique := insert x (bag_unique b)\<rparr>))
    (sims(x \<mapsto> sm'))"
  using assms by (auto simp: bag_ok_def emplace_back_def)

lemma addExternal_wp:
  assumes ok: "sched_ok elems invar k" and sm: "k_sims k x = Some sm"
  shows "wp (addExternal H x v p) k (\<lambda>_ k'. sched_ok elems invar k' \<and> k_time k' = k_time k
    \<and> bag_unique (k_bag k') = insert x (bag_unique (k_bag k))
    \<and> k_sims k' = (k_sims k)(x \<mapsto> sm\<lparr>sim_external := sim_external sm @ [\<lparr>ev_attributes = v, ev_port = p\<rparr>],
         sim_handle := (if dless (k_time k) (sim_tn sm) then None else sim_handle sm)\<rparr>))"
proof -
  let ?ev = "\<lparr>ev_attributes = v, ev_port = p\<rparr>"
  let ?bag = "if x \<in> bag_unique (k_bag k) then k_bag k
      else emplace_back (sim_executive sm) x ((k_bag k)\<lparr>bag_unique := insert x (bag_unique (k_bag k))\<rparr>)"
  have inv: "invar (k_heap k)" and ag: "agree (elems (k_heap k)) (k_sims k)"
    and dt: "dates_ok (k_time k) (elems (k_heap k))" and bg: "bag_ok (k_bag k) (k_sims k)"
    using ok by (auto simp: sched_ok_def sched_from_def)
  have uniq: "bag_unique ?bag = insert x (bag_unique (k_bag k))" by auto
  show ?thesis
  proof (cases "\<exists>h. sim_handle sm = Some h \<and> dless (k_time k) (sim_tn sm)")
    case True
    then obtain h where h: "sim_handle sm = Some h" "dless (k_time k) (sim_tn sm)" by blast
    let ?sm = "sm\<lparr>sim_external := sim_external sm @ [?ev], sim_handle := None\<rparr>"
    have eh: "elems (k_heap k) h = Some (sim_tn sm, x)" "\<not> sim_internal sm" using agree_handle [OF ag sm h(1)] by auto
    note er = heap_erase [OF inv, of h]
    have "sched_ok elems invar (k\<lparr>k_bag := ?bag, k_heap := heap_erase H h (k_heap k), k_sims := (k_sims k)(x \<mapsto> ?sm)\<rparr>)"
      using er eh(1) heap_agree_del [OF ag sm h(1), of ?sm] bag_ok_external [OF bg sm, of ?sm] dt
      by (auto simp: sched_ok_def sched_from_def dates_ok_def)
    then show ?thesis
      using sm h eh uniq by (auto simp: addExternal_def wp_simps put_sim_def)
  next
    case False
    let ?sm = "sm\<lparr>sim_external := sim_external sm @ [?ev]\<rparr>"
    have "sched_ok elems invar (k\<lparr>k_bag := ?bag, k_sims := (k_sims k)(x \<mapsto> ?sm)\<rparr>)"
      using inv dt agree_same_handle [OF ag sm, of ?sm] bag_ok_external [OF bg sm, of ?sm]
      by (auto simp: sched_ok_def sched_from_def)
    moreover have "sm\<lparr>sim_external := sim_external sm @ [?ev],
         sim_handle := (if dless (k_time k) (sim_tn sm) then None else sim_handle sm)\<rparr> = ?sm"
      using False by (cases "sim_handle sm") auto
    ultimately show ?thesis
      using sm False uniq by (cases "sim_handle sm") (auto simp: addExternal_def wp_simps put_sim_def)
  qed
qed

lemma delSimulator_wp:
  assumes ok: "sched_ok elems invar k" and sm: "k_sims k x = Some sm"
  shows "wp (delSimulator H x) k (\<lambda>_ k'. sched_ok elems invar k' \<and> k_time k' = k_time k
    \<and> bag_unique (k_bag k') = bag_unique (k_bag k) - {x}
    \<and> (\<forall>h t y. elems (k_heap k') h = Some (t, y) \<longleftrightarrow> elems (k_heap k) h = Some (t, y) \<and> y \<noteq> x)
    \<and> k_sims k' = (k_sims k)(x \<mapsto> sm\<lparr>sim_handle := None\<rparr>))"
proof -
  have inv: "invar (k_heap k)" and ag: "agree (elems (k_heap k)) (k_sims k)"
    and dt: "dates_ok (k_time k) (elems (k_heap k))" and bg: "bag_ok (k_bag k) (k_sims k)"
    using ok by (auto simp: sched_ok_def sched_from_def)
  let ?bag = "(if sim_executive sm then (k_bag k)\<lparr>bag_executives := removeAll x (bag_executives (k_bag k))\<rparr>
      else (k_bag k)\<lparr>bag_dynamics := removeAll x (bag_dynamics (k_bag k))\<rparr>)\<lparr>bag_unique := bag_unique (k_bag k) - {x}\<rparr>"
  have bg': "bag_ok ?bag ((k_sims k)(x \<mapsto> sm\<lparr>sim_handle := None\<rparr>))"
    using bg sm by (auto simp: bag_ok_def distinct_removeAll)
  show ?thesis
  proof (cases "sim_handle sm")
    case None
    then have "sm\<lparr>sim_handle := None\<rparr> = sm" by simp
    with sm have same: "(k_sims k)(x \<mapsto> sm\<lparr>sim_handle := None\<rparr>) = k_sims k" by auto
    have "elems (k_heap k) h \<noteq> Some (t, x)" for h t using agree_entry [OF ag, of h t x] sm None by auto
    then show ?thesis
      unfolding same using inv ag dt bg' [unfolded same] sm None
      by (auto simp: delSimulator_def wp_simps sched_ok_def sched_from_def split: if_splits)
  next
    case (Some h)
    have eh: "elems (k_heap k) h = Some (sim_tn sm, x)" using agree_handle [OF ag sm Some] by simp
    note er = heap_erase [OF inv, of h]
    have ent: "elems (heap_erase H h (k_heap k)) h' = Some (t, y) \<longleftrightarrow> elems (k_heap k) h' = Some (t, y) \<and> y \<noteq> x" for h' t y
      using er eh agree_handles_inj [OF ag eh, of h' t] by auto
    have "sched_ok elems invar (k\<lparr>k_bag := ?bag, k_heap := heap_erase H h (k_heap k), k_sims := (k_sims k)(x \<mapsto> sm\<lparr>sim_handle := None\<rparr>)\<rparr>)"
      using er eh heap_agree_del [OF ag sm Some, of "sm\<lparr>sim_handle := None\<rparr>"] bg' dt
      by (auto simp: sched_ok_def sched_from_def dates_ok_def)
    with sm Some ent show ?thesis
      by (auto simp: delSimulator_def wp_simps put_sim_def split: if_splits)
  qed
qed

end

section \<open>Properties of the scheduler\<close>

text \<open>Three simulators: two due at the same date, one of them an executive, and one due later.\<close>

definition sample_sim :: "bool \<Rightarrow> int \<Rightarrow> nat \<Rightarrow> (nat, unit) simulator" where
  "sample_sim e t h = (Simulator_new 0 () e)\<lparr>sim_tn := dfin t, sim_handle := Some h\<rparr>"

definition sample_kernel :: "(list_heap, nat, unit) kernel" where
  "sample_kernel = \<lparr>k_time = dfin 0, k_bag = empty_bag, k_heap = [(7, dfin 2, 0), (8, dfin 1, 1), (9, dfin 1, 2)],
     k_sims = [0 \<mapsto> sample_sim False 2 7, 1 \<mapsto> sample_sim True 1 8, 2 \<mapsto> sample_sim False 1 9]\<rparr>"

lemmas small_dates = double_simps fp_round_small dfin_inject dfin_not_inf

lemma sample_kernel_ok: "sched_ok map_of list_heap_ok sample_kernel"
proof -
  have "agree (map_of (k_heap sample_kernel)) (k_sims sample_kernel)"
    by (rule agreeI) (auto simp: sample_kernel_def sample_sim_def Simulator_new_def split: if_splits)
  then show ?thesis
    by (auto simp: sched_ok_def sched_from_def sample_kernel_def list_heap_ok_def dates_ok_def bag_ok_def empty_bag_def
        small_dates split: if_splits)
qed

lemma sample_next: "getNextTime list_heap_ops sample_kernel = dfin 1"
  by (simp add: getNextTime_def list_heap_ops_def sample_kernel_def Let_def small_dates)

text \<open>
  C4. \<^verbatim>\<open>makeNextBag\<close> ends, moves the current date to the earliest date of the heap, never back, and puts
  into the bag, each once, exactly the simulators whose entry has that date: they lose their entry
  and get an internal event, and every entry that stays is later. The invariant that ties handles,
  heap entries, next dates and the bag together is kept.
\<close>

theorem makeNextBag_spec:
  assumes H: "event_heap H elems top_handle invar" and ok: "sched_ok elems invar k" and t: "k_time k \<noteq> dnan"
  shows "\<exists>k'. makeNextBag H k = Ret () k' \<and> sched_ok elems invar k'
    \<and> k_time k' = getNextTime H k \<and> dle (k_time k) (k_time k')
    \<and> distinct (bag_dynamics (k_bag k') @ bag_executives (k_bag k'))
    \<and> set (bag_dynamics (k_bag k') @ bag_executives (k_bag k')) = {x. \<exists>h. elems (k_heap k) h = Some (k_time k', x)}
    \<and> (\<forall>h u x. elems (k_heap k') h = Some (u, x) \<longleftrightarrow> elems (k_heap k) h = Some (u, x) \<and> dless (k_time k') u)
    \<and> k_sims k' = activate (bag_unique (k_bag k')) (k_sims k)"
proof -
  obtain k' where k': "makeNextBag H k = Ret () k'" "sched_ok elems invar k'" "k_time k' = getNextTime H k"
    "bag_unique (k_bag k') = {x. \<exists>h. elems (k_heap k) h = Some (getNextTime H k, x)}"
    "elems (k_heap k') = drop_due (elems (k_heap k)) (\<lambda>t. t = getNextTime H k)"
    "k_sims k' = activate (bag_unique (k_bag k')) (k_sims k)"
    using event_heap.makeNextBag_wp [OF H ok] by (auto simp: wp_iff)
  note nt = event_heap.next_time [OF H ok]
  have bg: "bag_ok (k_bag k') (k_sims k')" using k'(2) by (simp add: sched_ok_def sched_from_def)
  then have "distinct (bag_dynamics (k_bag k') @ bag_executives (k_bag k'))" by (fastforce simp: bag_ok_def)
  moreover have "elems (k_heap k') h = Some (u, x) \<longleftrightarrow> elems (k_heap k) h = Some (u, x) \<and> dless (k_time k') u" for h u x
  proof -
    have "dless (getNextTime H k) u \<longleftrightarrow> u \<noteq> getNextTime H k" if "elems (k_heap k) h = Some (u, x)"
      using nt(1) that dval_inject [of u "getNextTime H k"] by (force simp: dates_ok_def double_simps)
    then show ?thesis unfolding k'(3,5) by (auto simp: drop_due_def split: option.splits)
  qed
  ultimately show ?thesis using k' nt(3) [OF t] bg by (auto simp: bag_ok_def)
qed

theorem makeNextBag_spec_witness:
  "\<exists>k'. makeNextBag list_heap_ops sample_kernel = Ret () k' \<and> k_time k' = dfin 1
    \<and> set (bag_dynamics (k_bag k') @ bag_executives (k_bag k')) = {1, 2}"
proof -
  have "{x. \<exists>h. map_of (k_heap sample_kernel) h = Some (dfin 1, x)} = {1, 2}"
    by (auto simp: sample_kernel_def small_dates intro: exI [of _ 8] exI [of _ 9] split: if_splits)
  moreover have t: "k_time sample_kernel \<noteq> dnan" by (simp add: sample_kernel_def)
  obtain k' where "makeNextBag list_heap_ops sample_kernel = Ret () k'" "k_time k' = dfin 1"
    "set (bag_dynamics (k_bag k') @ bag_executives (k_bag k')) = {x. \<exists>h. map_of (k_heap sample_kernel) h = Some (k_time k', x)}"
    using makeNextBag_spec [OF list_heap.event_heap_axioms sample_kernel_ok t] unfolding sample_next by blast
  ultimately show ?thesis by (intro exI [of _ k']) simp
qed

text \<open>
  C12. \<^verbatim>\<open>addExternal\<close> never fails its assertion: it puts the simulator into the bag if it is not there,
  appends the event to its pending ones, and withdraws its heap entry exactly when its next date is
  later than now; nothing else changes and the invariant is kept.
\<close>

theorem addExternal_spec:
  assumes H: "event_heap H elems top_handle invar" and ok: "sched_ok elems invar k" and sm: "k_sims k x = Some sm"
  shows "\<exists>k'. addExternal H x v p k = Ret () k' \<and> sched_ok elems invar k' \<and> k_time k' = k_time k
    \<and> bag_unique (k_bag k') = insert x (bag_unique (k_bag k))
    \<and> k_sims k' = (k_sims k)(x \<mapsto> sm\<lparr>sim_external := sim_external sm @ [\<lparr>ev_attributes = v, ev_port = p\<rparr>],
         sim_handle := (if dless (k_time k) (sim_tn sm) then None else sim_handle sm)\<rparr>)"
  using event_heap.addExternal_wp [OF H ok sm] by (auto simp: wp_iff)

theorem addExternal_spec_witness:
  "\<exists>k'. addExternal list_heap_ops 0 None ''in'' sample_kernel = Ret () k' \<and> sched_ok map_of list_heap_ok k'
    \<and> bag_unique (k_bag k') = {0} \<and> map_option sim_handle (k_sims k' 0) = Some None"
proof -
  have sm: "k_sims sample_kernel 0 = Some (sample_sim False 2 7)" by (simp add: sample_kernel_def)
  have "dless (k_time sample_kernel) (sim_tn (sample_sim False 2 7))"
    by (simp add: sample_kernel_def sample_sim_def small_dates)
  moreover have "bag_unique (k_bag sample_kernel) = {}" by (simp add: sample_kernel_def empty_bag_def)
  ultimately show ?thesis
    using addExternal_spec [OF list_heap.event_heap_axioms sample_kernel_ok sm, of None "''in''"] by auto
qed

text \<open>
  C13. \<^verbatim>\<open>addInternal\<close> accepts exactly the finite dates that are not in the past: for a simulator without an
  entry whose next date is such a date it adds one entry and keeps the invariant; an infinite date,
  a date before now, and NaN, which a time advance of NaN produces, fail its assertions.
\<close>

theorem addInternal_spec:
  assumes H: "event_heap H elems top_handle invar" and ok: "sched_ok elems invar k"
    and sm: "k_sims k x = Some sm" "sim_handle sm = None" "\<not> sim_internal sm"
  shows "(\<not> isInfinity (sim_tn sm) \<and> dle (k_time k) (sim_tn sm) \<longrightarrow>
     (\<exists>k' h. addInternal H x (sim_tn sm) k = Ret () k' \<and> sched_ok elems invar k' \<and> k_time k' = k_time k \<and> k_bag k' = k_bag k
      \<and> elems (k_heap k) h = None \<and> elems (k_heap k') = (elems (k_heap k))(h \<mapsto> (sim_tn sm, x))
      \<and> k_sims k' = (k_sims k)(x \<mapsto> sm\<lparr>sim_handle := Some h\<rparr>)))
    \<and> (isInfinity (sim_tn sm) \<or> \<not> dle (k_time k) (sim_tn sm) \<longrightarrow>
     (\<exists>msg. addInternal H x (sim_tn sm) k = Exn (AssertionFailed msg) k))"
proof (cases "\<not> isInfinity (sim_tn sm) \<and> dle (k_time k) (sim_tn sm)")
  case True
  then show ?thesis using event_heap.addInternal_wp [OF H ok sm refl] by (auto simp: wp_iff)
next
  case False
  then show ?thesis using event_heap.addInternal_assert [OF H, of "sim_tn sm" k x] by auto
qed

theorem addInternal_spec_witness:
  "\<exists>msg. addInternal list_heap_ops 0 dnan ((Scheduler_new [])\<lparr>k_sims := [0 \<mapsto> (Simulator_new 0 () False)\<lparr>sim_tn := dnan\<rparr>]\<rparr>)
     = Exn (AssertionFailed msg) ((Scheduler_new [])\<lparr>k_sims := [0 \<mapsto> (Simulator_new 0 () False)\<lparr>sim_tn := dnan\<rparr>]\<rparr>)"
proof -
  let ?sm = "(Simulator_new 0 () False :: (nat, unit) simulator)\<lparr>sim_tn := dnan\<rparr>"
  let ?k = "(Scheduler_new [])\<lparr>k_sims := [0 \<mapsto> ?sm]\<rparr>"
  have ok: "sched_ok map_of list_heap_ok ?k"
    by (auto simp: sched_ok_def sched_from_def Scheduler_new_def list_heap_ok_def dates_ok_def bag_ok_def empty_bag_def
        agree_def Simulator_new_def)
  have sm: "k_sims ?k 0 = Some ?sm" "sim_handle ?sm = None" "\<not> sim_internal ?sm" by (simp_all add: Simulator_new_def)
  have "\<not> dle (k_time ?k) (sim_tn ?sm)" by (simp add: double_simps)
  with addInternal_spec [OF list_heap.event_heap_axioms ok sm]
  have "\<exists>msg. addInternal list_heap_ops 0 (sim_tn ?sm) ?k = Exn (AssertionFailed msg) ?k" by blast
  then show ?thesis by simp
qed

text \<open>
  C14. \<^verbatim>\<open>delSimulator\<close> removes the simulator from the bag and its entry from the heap, leaves every other
  simulator and entry alone, and keeps the invariant.
\<close>

theorem delSimulator_spec:
  assumes H: "event_heap H elems top_handle invar" and ok: "sched_ok elems invar k" and sm: "k_sims k x = Some sm"
  shows "\<exists>k'. delSimulator H x k = Ret () k' \<and> sched_ok elems invar k' \<and> k_time k' = k_time k
    \<and> bag_unique (k_bag k') = bag_unique (k_bag k) - {x}
    \<and> (\<forall>h t y. elems (k_heap k') h = Some (t, y) \<longleftrightarrow> elems (k_heap k) h = Some (t, y) \<and> y \<noteq> x)
    \<and> k_sims k' = (k_sims k)(x \<mapsto> sm\<lparr>sim_handle := None\<rparr>)"
  using event_heap.delSimulator_wp [OF H ok sm] by (auto simp: wp_iff)

theorem delSimulator_spec_witness:
  "\<exists>k'. delSimulator list_heap_ops 1 sample_kernel = Ret () k' \<and> sched_ok map_of list_heap_ok k'"
proof -
  have sm: "k_sims sample_kernel 1 = Some (sample_sim True 1 8)" by (simp add: sample_kernel_def)
  show ?thesis using delSimulator_spec [OF list_heap.event_heap_axioms sample_kernel_ok sm] by auto
qed

end
