(* ===== verification/Simulator_Properties.thy ===== *)
theory Simulator_Properties
  imports Simulator
begin

text \<open>
  What the operations of a simulator guarantee to the coordinator: the transitions consume the pending
  events and set the next date, the targets are the simulators behind a port.
\<close>

section \<open>Transitions\<close>

text \<open>
  User code the kernel can rely on: no function throws, and every duration is a number that is not
  negative.
\<close>

definition returns :: "('s, 'a) proc \<Rightarrow> bool" where
  "returns m \<longleftrightarrow> (\<forall>s. wp m s (\<lambda>_ _. True))"

definition gives_duration :: "('s, time) proc \<Rightarrow> bool" where
  "gives_duration m \<longleftrightarrow> (\<forall>s. wp m s (\<lambda>d _. dle (dfin 0) d))"

definition well_behaved :: "'u dynamics_ops \<Rightarrow> bool" where
  "well_behaved D \<longleftrightarrow> gives_duration (dyn_timeAdvance D) \<and> (\<forall>t. gives_duration (dyn_init D t))
     \<and> (\<forall>t. returns (dyn_output D t)) \<and> (\<forall>t. returns (dyn_internalTransition D t))
     \<and> (\<forall>t evs. returns (dyn_externalTransition D evs t)) \<and> (\<forall>t evs. returns (dyn_confluentTransitions D t evs))
     \<and> returns (dyn_finish D) \<and> (\<forall>t v p u. \<exists>x. dyn_observation D t v p u = Inr x)"

text \<open>Two states of one simulator in which only the user's state and the observations differ.\<close>

definition same_wiring :: "('h, 'u) simulator \<Rightarrow> ('h, 'u) simulator \<Rightarrow> bool" where
  "same_wiring sm sm' \<longleftrightarrow> sim_observer sm' = sim_observer sm \<and> sim_executive sm' = sim_executive sm
     \<and> sim_model sm' = sim_model sm \<and> sim_targets sm' = sim_targets sm \<and> sim_result sm' = sim_result sm
     \<and> sim_handle sm' = sim_handle sm"

text \<open>The views a simulator may report to, and those its pending observations are for.\<close>

definition all_ports :: "observer \<Rightarrow> (string \<times> string) list" where
  "all_ports ob = ppOutput ob @ ppInternal ob @ ppExternal ob @ ppConfluent ob @ ppFinish ob"

definition observed_views :: "('h, 'u) simulator \<Rightarrow> string set" where
  "observed_views sm = (case sim_observer sm of None \<Rightarrow> {} | Some ob \<Rightarrow> fst ` set (all_ports ob))"

definition pending_views :: "('h, 'u) simulator \<Rightarrow> string set" where
  "pending_views sm = obs_view ` set (sim_observations sm)"

lemma pending_views_simps [simp]:
  "pending_views (sm\<lparr>sim_dynamics := u\<rparr>) = pending_views sm" "pending_views (sm\<lparr>sim_external := l\<rparr>) = pending_views sm"
  "pending_views (sm\<lparr>sim_internal := b\<rparr>) = pending_views sm" "pending_views (sm\<lparr>sim_tn := t\<rparr>) = pending_views sm"
  "pending_views (sm\<lparr>sim_result := l\<rparr>) = pending_views sm" "pending_views (sm\<lparr>sim_handle := h\<rparr>) = pending_views sm"
  "pending_views (sm\<lparr>sim_targets := m\<rparr>) = pending_views sm"
  "pending_views (sm\<lparr>sim_observations := os @ [ob]\<rparr>) = insert (obs_view ob) (obs_view ` set os)"
  "pending_views (sm\<lparr>sim_observations := []\<rparr>) = {}"
  by (simp_all add: pending_views_def)

definition user_frame :: "('h, 'u) simulator \<Rightarrow> ('h, 'u) simulator \<Rightarrow> bool" where
  "user_frame sm sm' \<longleftrightarrow> same_wiring sm sm' \<and> sim_external sm' = sim_external sm \<and> sim_tn sm' = sim_tn sm
     \<and> sim_internal sm' = sim_internal sm \<and> pending_views sm' \<subseteq> pending_views sm \<union> observed_views sm"

lemma user_frame_refl [simp]: "user_frame sm sm"
  by (simp add: user_frame_def same_wiring_def)

lemma same_wiring_views: "same_wiring sm sm' \<Longrightarrow> observed_views sm' = observed_views sm"
  by (simp add: same_wiring_def observed_views_def)

lemma user_frame_trans: "user_frame a b \<Longrightarrow> user_frame b c \<Longrightarrow> user_frame a c"
  using same_wiring_views [of a b] by (auto simp: user_frame_def same_wiring_def)

lemma user_frame_dynamics: "user_frame sm (sm\<lparr>sim_dynamics := u\<rparr>)"
  by (simp add: user_frame_def same_wiring_def)

lemma wp_call_user [wp_simps]:
  "wp (call_user m) sm P = wp m (sim_dynamics sm) (\<lambda>x u. P x (sm\<lparr>sim_dynamics := u\<rparr>))"
  by (simp add: wp_def call_user_def split: outcome.split)

lemma wp_returns: "returns m \<Longrightarrow> (\<And>x t. P x t) \<Longrightarrow> wp m s P"
  unfolding returns_def by (rule wp_mono) blast+

lemma wp_call_returns:
  assumes "returns m"
  shows "wp (call_user m) sm (\<lambda>_. user_frame sm)"
  unfolding wp_call_user by (rule wp_returns [OF assms]) (rule user_frame_dynamics)

lemma wp_observe:
  assumes "well_behaved D" and pp: "\<And>ob. set (pp ob) \<subseteq> set (all_ports ob)"
  shows "wp (observe D pp t) sm (\<lambda>_. user_frame sm)"
proof (cases "sim_observer sm")
  case None
  then show ?thesis by (simp add: observe_def wp_simps)
next
  case (Some ob)
  have obs: "\<exists>x. dyn_observation D t v p u = Inr x" for v p u using assms(1) by (simp add: well_behaved_def)
  have body: "user_frame sm (sm'\<lparr>sim_observations := sim_observations sm' @ [\<lparr>obs_view = v, obs_port = p, obs_value = x\<rparr>]\<rparr>)"
    if "user_frame sm sm'" "(v, p) \<in> set (all_ports ob)" for sm' v p x
  proof -
    have "v \<in> observed_views sm" using that(2) Some by (force simp: observed_views_def)
    then show ?thesis using that(1) by (simp add: user_frame_def same_wiring_def pending_views_def [of sm'])
  qed
  have "wp (forS (\<lambda>elem.
       thenS (updS (\<lambda>sm. sm\<lparr>sim_observations := sim_observations sm @ [\<lparr>obs_view = fst elem, obs_port = snd elem, obs_value = None\<rparr>]\<rparr>))
      (bindS getS (\<lambda>sm.
       bindS (liftS (dyn_observation D t (fst elem) (snd elem) (sim_dynamics sm))) (\<lambda>v.
         updS (\<lambda>sm. sm\<lparr>sim_observations := butlast (sim_observations sm) @ [(last (sim_observations sm))\<lparr>obs_value := v\<rparr>]\<rparr>)))))
       (pp ob)) sm (\<lambda>_ sm'. user_frame sm sm' \<and> set [] \<subseteq> set (all_ports ob))"
  proof (rule wp_forS [where I = "\<lambda>es sm'. user_frame sm sm' \<and> set es \<subseteq> set (all_ports ob)"])
    fix elem es sm'
    assume I: "user_frame sm sm' \<and> set (elem # es) \<subseteq> set (all_ports ob)"
    obtain v p where e: "elem = (v, p)" by force
    obtain x where "dyn_observation D t v p (sim_dynamics sm') = Inr x" using obs by blast
    with I body [of sm' v p x]
    show "wp (thenS (updS (\<lambda>sm. sm\<lparr>sim_observations := sim_observations sm @ [\<lparr>obs_view = fst elem, obs_port = snd elem, obs_value = None\<rparr>]\<rparr>))
      (bindS getS (\<lambda>sm.
       bindS (liftS (dyn_observation D t (fst elem) (snd elem) (sim_dynamics sm))) (\<lambda>v.
         updS (\<lambda>sm. sm\<lparr>sim_observations := butlast (sim_observations sm) @ [(last (sim_observations sm))\<lparr>obs_value := v\<rparr>]\<rparr>)))))
      sm' (\<lambda>_ sm'. user_frame sm sm' \<and> set es \<subseteq> set (all_ports ob))"
      by (simp add: wp_simps e)
  qed (simp add: pp)
  then show ?thesis by (simp add: observe_def wp_bindS wp_getS Some)
qed

lemma wp_set_tn:
  assumes "well_behaved D"
  shows "wp (set_tn D t) sm (\<lambda>tn sm'. \<exists>d u. dle (dfin 0) d \<and> tn = dadd d t \<and> sm' = sm\<lparr>sim_dynamics := u, sim_tn := tn\<rparr>)"
proof -
  have d: "wp (dyn_timeAdvance D) (sim_dynamics sm) (\<lambda>d _. dle (dfin 0) d)"
    using assms by (simp add: well_behaved_def gives_duration_def)
  show ?thesis
    unfolding set_tn_def timeAdvance_def wp_bindS wp_call_user
    by (rule wp_mono [OF d]) (auto simp: wp_simps double_simps)
qed

text \<open>
  The transition of a simulator that is in the bag: the events are consumed and the next date is the
  present one plus the duration.
\<close>

definition stepped :: "time \<Rightarrow> ('h, 'u) simulator \<Rightarrow> ('h, 'u) simulator \<Rightarrow> bool" where
  "stepped t sm sm' \<longleftrightarrow> same_wiring sm sm' \<and> sim_external sm' = [] \<and> \<not> sim_internal sm'
     \<and> pending_views sm' \<subseteq> pending_views sm \<union> observed_views sm
     \<and> (\<exists>d. dle (dfin 0) d \<and> sim_tn sm' = dadd d t)"

lemma transition_body:
  assumes wb: "well_behaved D" and m: "returns m" and pp: "\<And>ob. set (pp ob) \<subseteq> set (all_ports ob)"
    and reset: "\<And>sm'. user_frame sm sm' \<Longrightarrow> f sm' = sm'\<lparr>sim_external := [], sim_internal := False\<rparr>"
  shows "wp (thenS (call_user m) (thenS (observe D pp t) (thenS (updS f) (set_tn D t)))) sm
    (\<lambda>tn sm'. sim_tn sm' = tn \<and> stepped t sm sm')"
  unfolding wp_thenS wp_updS
proof (rule wp_mono [OF wp_call_returns [OF m]])
  fix x sm1
  assume 1: "user_frame sm sm1"
  show "wp (observe D pp t) sm1 (\<lambda>_ sm2. wp (set_tn D t) (f sm2) (\<lambda>tn sm'. sim_tn sm' = tn \<and> stepped t sm sm'))"
  proof (rule wp_mono [OF wp_observe [OF wb pp]])
    fix y sm2
    assume "user_frame sm1 sm2"
    with 1 have 2: "user_frame sm sm2" by (rule user_frame_trans)
    show "wp (set_tn D t) (f sm2) (\<lambda>tn sm'. sim_tn sm' = tn \<and> stepped t sm sm')"
      by (rule wp_mono [OF wp_set_tn [OF wb]]) (use 2 reset [OF 2] in \<open>auto simp: stepped_def user_frame_def same_wiring_def\<close>)
  qed
qed

lemma transition_wp:
  assumes wb: "well_behaved D" and due: "sim_internal sm \<or> sim_external sm \<noteq> []"
  shows "wp (transition D t) sm (\<lambda>tn sm'. sim_tn sm' = tn \<and> stepped t sm sm')"
proof -
  have ret: "returns (dyn_internalTransition D t)" "returns (dyn_externalTransition D (sim_external sm) t)"
    "returns (dyn_confluentTransitions D t (sim_external sm))"
    using wb by (auto simp: well_behaved_def)
  have pp: "set (ppInternal ob) \<subseteq> set (all_ports ob)" "set (ppExternal ob) \<subseteq> set (all_ports ob)"
    "set (ppConfluent ob) \<subseteq> set (all_ports ob)" for ob by (auto simp: all_ports_def)
  have reset1: "sm'\<lparr>sim_internal := False\<rparr> = sm'\<lparr>sim_external := [], sim_internal := False\<rparr>"
    if "sim_external sm = []" "user_frame sm sm'" for sm'
    using that by (intro simulator.equality) (simp_all add: user_frame_def)
  have reset2: "sm'\<lparr>sim_external := []\<rparr> = sm'\<lparr>sim_external := [], sim_internal := False\<rparr>"
    if "\<not> sim_internal sm" "user_frame sm sm'" for sm'
    using that by (intro simulator.equality) (simp_all add: user_frame_def)
  consider "sim_internal sm" "sim_external sm = []" | "sim_internal sm" "sim_external sm \<noteq> []"
    | "\<not> sim_internal sm" "sim_external sm \<noteq> []" using due by blast
  then show ?thesis
  proof cases
    case 1
    have "wp (internalTransition D t) sm (\<lambda>tn sm'. sim_tn sm' = tn \<and> stepped t sm sm')"
      unfolding internalTransition_def wp_thenS [of "assertS _ _"] wp_assertS
      using 1(1) by (intro conjI transition_body [OF wb ret(1) pp(1)] reset1 [OF 1(2)])
    then show ?thesis using 1 by (simp add: transition_def wp_bindS wp_getS)
  next
    case 2
    have "wp (confluentTransitions D t) sm (\<lambda>tn sm'. sim_tn sm' = tn \<and> stepped t sm sm')"
      unfolding confluentTransitions_def wp_thenS [of "assertS _ _"] wp_assertS wp_bindS wp_getS
      using 2 by (intro conjI transition_body [OF wb ret(3) pp(3)] refl)
    then show ?thesis using 2 by (simp add: transition_def wp_bindS wp_getS)
  next
    case 3
    have "wp (externalTransition D t) sm (\<lambda>tn sm'. sim_tn sm' = tn \<and> stepped t sm sm')"
      unfolding externalTransition_def wp_thenS [of "assertS _ _"] wp_assertS wp_bindS wp_getS
      using 3(2) by (intro conjI transition_body [OF wb ret(2) pp(2)] reset2 [OF 3(1)])
    then show ?thesis using 3 by (simp add: transition_def wp_bindS wp_getS)
  qed
qed

lemma stepped_tn:
  assumes "stepped t sm sm'" "t \<noteq> dnan" "t \<noteq> dninf"
  shows "dle t (sim_tn sm')"
  using assms dadd_nonneg_ge by (auto simp: stepped_def dadd_comm [of _ t])


section \<open>Targets\<close>

text \<open>
  The cache of the targets is valid when every port is either not cached or cached as
  \<^verbatim>\<open>updateSimulatorTargets\<close> stores it for the graph.
\<close>

definition target_entries :: "(addr \<Rightarrow> sim_id option) \<Rightarrow> port_list \<Rightarrow> target list" where
  "target_entries gs r = (if r = [] then [(None, [])] else map (\<lambda>e. (gs (fst e), snd e)) r)"

definition targets_cached :: "graph \<Rightarrow> (addr \<Rightarrow> sim_id option) \<Rightarrow> ('h, 'u) simulator \<Rightarrow> bool" where
  "targets_cached g gs sm \<longleftrightarrow> sorted (map fst (sim_targets sm)) \<and>
     (\<forall>p. mmap_range p (sim_targets sm) = [] \<or>
        (\<exists>r. set r = Collect (reaches Out IntIn g (Out, sim_model sm, p))
           \<and> mmap_range p (sim_targets sm) = map (Pair p) (target_entries gs r)))"

lemma mmap_range_erase: "mmap_range p (mmap_erase q m) = (if p = q then [] else mmap_range p m)"
  by (auto simp: mmap_range_def mmap_erase_def filter_empty_conv intro: filter_cong)

lemma sorted_mmap_erase: "sorted (map fst m) \<Longrightarrow> sorted (map fst (mmap_erase q m))"
  by (simp add: mmap_erase_def sorted_filter)

lemma mmap_inserts:
  assumes "sorted (map fst m)"
  shows "sorted (map fst (fold (mmap_insert p) vs m))"
    "mmap_range q (fold (mmap_insert p) vs m) = mmap_range q m @ (if q = p then map (Pair p) vs else [])"
  using assms
  by (induction vs arbitrary: m) (auto simp: sorted_mmap_insert mmap_range_insert)

lemma forS_updS: "forS (\<lambda>x. updS (f x)) xs s = Ret () (fold f xs s)"
  by (induction xs arbitrary: s) (auto simp: effect_defs updS_def)

lemma fold_targets:
  "fold (\<lambda>x. sim_targets_update (mmap_insert p (v x))) xs sm =
     sm\<lparr>sim_targets := fold (mmap_insert p) (map v xs) (sim_targets sm)\<rparr>"
  by (induction xs arbitrary: sm) simp_all

lemma updateSimulatorTargets_wp:
  assumes g: "graph_ok g" "has_port g Out (sim_model sm) p" and s: "sorted (map fst (sim_targets sm))"
  shows "wp (updateSimulatorTargets g gs p) sm (\<lambda>_ sm'. \<exists>r ts. set r = Collect (reaches Out IntIn g (Out, sim_model sm, p))
    \<and> sm' = sm\<lparr>sim_targets := ts\<rparr> \<and> sorted (map fst ts) \<and> mmap_range p ts = map (Pair p) (target_entries gs r)
    \<and> (\<forall>q. q \<noteq> p \<longrightarrow> mmap_range q ts = mmap_range q (sim_targets sm)))"
proof -
  obtain r where r: "getAtomicModelsTarget g (sim_model sm) p [] = Some (Inr r)"
    "set r = Collect (reaches Out IntIn g (Out, sim_model sm, p))"
    using walk_target [OF g, of "[]"] by auto
  let ?m = "mmap_erase p (sim_targets sm)"
  let ?ts = "fold (mmap_insert p) (target_entries gs r) ?m"
  have "updateSimulatorTargets g gs p sm = Ret () (sm\<lparr>sim_targets := ?ts\<rparr>)"
    using r(1) by (simp add: updateSimulatorTargets_def effect_defs updS_def
        forS_updS fold_targets target_entries_def comp_def)
  moreover note mmap_inserts [OF sorted_mmap_erase [OF s], where p = p and vs = "target_entries gs r"]
  ultimately show ?thesis
    using r(2) by (auto simp: wp_iff mmap_range_erase intro!: exI [of _ r])
qed


lemma reaches_atomic_at: "reaches up down g x e \<Longrightarrow> atomic_at g (fst e)"
  by (induction rule: reaches.induct) auto

lemma range_targets_cached:
  assumes r: "set r = Collect (reaches Out IntIn g x)" and gs: "\<forall>b. atomic_at g b \<longrightarrow> gs b \<noteq> None"
  shows "\<exists>ts. range_targets (map (Pair p) (target_entries gs r)) = Inr ts
    \<and> set ts = {(gs b, q) | b q. reaches Out IntIn g x (b, q)}"
proof (cases r)
  case Nil
  then show ?thesis using r by (simp add: target_entries_def)
next
  case (Cons e l)
  have "e \<in> set r" using Cons by simp
  then have "reaches Out IntIn g x e" using r by blast
  then have "gs (fst e) \<noteq> None" using reaches_atomic_at gs by blast
  moreover have "(\<lambda>e. (gs (fst e), snd e)) ` set r = {(gs b, q) | b q. reaches Out IntIn g x (b, q)}"
    unfolding r by force
  ultimately show ?thesis using Cons by (auto simp: target_entries_def comp_def)
qed

lemma targets_wp:
  assumes g: "graph_ok g" "has_port g Out (sim_model sm) p" and c: "targets_cached g gs sm"
    and gs: "\<forall>b. atomic_at g b \<longrightarrow> gs b \<noteq> None"
  shows "wp (targets g gs p) sm (\<lambda>ts sm'. targets_cached g gs sm' \<and> (\<exists>m. sm' = sm\<lparr>sim_targets := m\<rparr>)
    \<and> set ts = {(gs b, q) | b q. reaches Out IntIn g (Out, sim_model sm, p) (b, q)})"
proof (cases "mmap_range p (sim_targets sm) = []")
  case False
  then obtain r where r: "set r = Collect (reaches Out IntIn g (Out, sim_model sm, p))"
    "mmap_range p (sim_targets sm) = map (Pair p) (target_entries gs r)"
    using c by (auto simp: targets_cached_def)
  have "\<exists>m. sm = sm\<lparr>sim_targets := m\<rparr>" by (rule exI [of _ "sim_targets sm"]) simp
  with range_targets_cached [where p = p, OF r(1) gs] r(2) False c show ?thesis
    by (auto simp: targets_def wp_simps)
next
  case True
  have s: "sorted (map fst (sim_targets sm))" using c by (simp add: targets_cached_def)
  have "wp (updateSimulatorTargets g gs p) sm (\<lambda>_ sm'. \<exists>ts. range_targets (mmap_range p (sim_targets sm')) = Inr ts
    \<and> targets_cached g gs sm' \<and> (\<exists>m. sm' = sm\<lparr>sim_targets := m\<rparr>)
    \<and> set ts = {(gs b, q) | b q. reaches Out IntIn g (Out, sim_model sm, p) (b, q)})"
  proof (rule wp_mono [OF updateSimulatorTargets_wp [OF g s]], elim exE conjE)
    fix x sm' r ts
    assume r: "set r = Collect (reaches Out IntIn g (Out, sim_model sm, p))" "sm' = sm\<lparr>sim_targets := ts\<rparr>"
      "sorted (map fst ts)" "mmap_range p ts = map (Pair p) (target_entries gs r)"
      "\<forall>q. q \<noteq> p \<longrightarrow> mmap_range q ts = mmap_range q (sim_targets sm)"
    have "mmap_range q ts = [] \<or> (\<exists>r. set r = Collect (reaches Out IntIn g (Out, sim_model sm, q))
        \<and> mmap_range q ts = map (Pair q) (target_entries gs r))" for q
      using r(1,4,5) c by (cases "q = p") (auto simp: targets_cached_def)
    then have "targets_cached g gs sm'" using r(2,3) by (simp add: targets_cached_def)
    with range_targets_cached [where p = p, OF r(1) gs] r(2,4)
    show "\<exists>ts. range_targets (mmap_range p (sim_targets sm')) = Inr ts \<and> targets_cached g gs sm'
      \<and> (\<exists>m. sm' = sm\<lparr>sim_targets := m\<rparr>) \<and> set ts = {(gs b, q) | b q. reaches Out IntIn g (Out, sim_model sm, p) (b, q)}"
      by auto
  qed
  then show ?thesis using True by (simp add: targets_def wp_simps)
qed

section \<open>Properties\<close>

text \<open>
  C21. A transition of a simulator with pending events, by well-behaved user code, returns: the events are
  consumed, the internal flag is reset, the next date is the returned one, equals the present date plus a
  non-negative duration and so is not in the past, and nothing else the kernel reads is changed.
\<close>

theorem transition_spec:
  assumes "well_behaved D" "sim_internal sm \<or> sim_external sm \<noteq> []" "t \<noteq> dnan" "t \<noteq> negativeInfinity"
  shows "\<exists>tn sm'. transition D t sm = Ret tn sm' \<and> sim_tn sm' = tn \<and> dle t tn
    \<and> sim_external sm' = [] \<and> \<not> sim_internal sm' \<and> same_wiring sm sm'"
proof -
  obtain tn sm' where "transition D t sm = Ret tn sm'" "sim_tn sm' = tn" "stepped t sm sm'"
    using transition_wp [OF assms(1,2), of t] by (auto simp: wp_iff)
  then show ?thesis using stepped_tn assms(3,4) by (auto simp: stepped_def)
qed

text \<open>A model that counts its transitions and waits as long as the count says.\<close>

definition counter_ops :: "int dynamics_ops" where
  "counter_ops = \<lparr>
     dyn_init = (\<lambda>t. retS (dfin 1)),
     dyn_output = (\<lambda>t (u, evs). Ret () (u, evs @ [\<lparr>ev_attributes = None, ev_port = ''o''\<rparr>])),
     dyn_timeAdvance = (\<lambda>u. Ret (dfin \<bar>u\<bar>) u),
     dyn_internalTransition = (\<lambda>t. updS (\<lambda>u. u + 1)),
     dyn_externalTransition = (\<lambda>evs t. updS (\<lambda>u. u + int (length evs))),
     dyn_confluentTransitions = (\<lambda>t evs. updS (\<lambda>u. u + 1 + int (length evs))),
     dyn_observation = (\<lambda>t v p u. Inr None),
     dyn_finish = retS ()\<rparr>"

lemma dfin_nonneg: "0 \<le> k \<Longrightarrow> dle (dfin 0) (dfin k)"
  using fp_round_mono [of 0 k] by (simp add: double_simps)

lemma counter_well_behaved: "well_behaved counter_ops"
  by (auto simp: well_behaved_def returns_def gives_duration_def counter_ops_def wp_simps dfin_nonneg)
    (simp_all add: wp_def dfin_nonneg)

theorem transition_spec_witness:
  "\<exists>tn sm'. transition counter_ops (dfin 5) ((Simulator_new 0 0 False :: (nat, int) simulator)\<lparr>sim_internal := True\<rparr>) = Ret tn sm'
     \<and> sim_tn sm' = tn \<and> dle (dfin 5) tn \<and> \<not> sim_internal sm'"
proof -
  have "sim_internal ((Simulator_new 0 0 False :: (nat, int) simulator)\<lparr>sim_internal := True\<rparr>)" by simp
  with transition_spec [OF counter_well_behaved, where t = "dfin 5"] dfin_not_inf [of 5] show ?thesis by fastforce
qed

text \<open>
  C22. On a well-formed graph in which every atomic model has a simulator, \<^verbatim>\<open>targets\<close> never reads through
  the end iterator and returns exactly the simulators of the atomic models that the output port
  reaches, with their input ports, from the cache or by walking the graph; the cache stays valid.
\<close>

theorem targets_spec:
  assumes "graph_ok g" "has_port g Out (sim_model sm) p" "targets_cached g gs sm" "\<forall>b. atomic_at g b \<longrightarrow> gs b \<noteq> None"
  shows "\<exists>ts sm'. targets g gs p sm = Ret ts sm' \<and> targets_cached g gs sm'
    \<and> set ts = {(gs b, q) | b q. reaches Out IntIn g (Out, sim_model sm, p) (b, q)}"
  using targets_wp [OF assms] by (auto simp: wp_iff)

theorem targets_spec_witness:
  "\<exists>ts sm'. targets sample Some ''o'' (Simulator_new 1 () False :: (nat, unit) simulator) = Ret ts sm'
    \<and> targets_cached sample Some sm' \<and> set ts = {(Some b, q) | b q. reaches Out IntIn sample (Out, 1, ''o'') (b, q)}"
proof -
  let ?sm = "Simulator_new 1 () False :: (nat, unit) simulator"
  have "has_port sample Out (sim_model ?sm) ''o''" by (simp add: Simulator_new_def read_store sample_nodes)
  moreover have "targets_cached sample Some ?sm" by (simp add: targets_cached_def Simulator_new_def mmap_range_def)
  ultimately show ?thesis
    using targets_spec [OF sample_graph_ok, of ?sm "''o''" Some] by (simp add: Simulator_new_def)
qed

text \<open>
  C23. \<^verbatim>\<open>removeTargetPort\<close> erases one entry of the multimap only: the other targets of the port stay, and a
  later \<^verbatim>\<open>targets\<close> still returns them without asking the graph.
\<close>

theorem removeTargetPort_stale:
  assumes "mmap_range p (sim_targets sm) = (p, x) # (p, Some y, q) # rest"
  shows "targets g gs p (removeTargetPort p sm) = Ret ((Some y, q) # map snd rest) (removeTargetPort p sm)"
proof -
  have "filter (\<lambda>e. fst e = p) (remove1 e m) = remove1 e (filter (\<lambda>e. fst e = p) m)" if "fst e = p" for e and m :: "(string \<times> target) list"
    using that by (induction m) auto
  then have "mmap_range p (sim_targets (removeTargetPort p sm)) = (p, Some y, q) # rest"
    using assms by (simp add: removeTargetPort_def mmap_range_def)
  then show ?thesis by (simp add: targets_def effect_defs)
qed

theorem removeTargetPort_stale_witness:
  "targets sample Some ''o'' (removeTargetPort ''o'' ((Simulator_new 1 () False :: (nat, unit) simulator)
      \<lparr>sim_targets := [(''o'', Some 2, ''i''), (''o'', Some 3, ''j'')]\<rparr>))
    = Ret [(Some 3, ''j'')] (removeTargetPort ''o'' ((Simulator_new 1 () False)
      \<lparr>sim_targets := [(''o'', Some 2, ''i''), (''o'', Some 3, ''j'')]\<rparr>))"
proof -
  let ?sm = "(Simulator_new 1 () False :: (nat, unit) simulator)\<lparr>sim_targets := [(''o'', Some 2, ''i''), (''o'', Some 3, ''j'')]\<rparr>"
  have "mmap_range ''o'' (sim_targets ?sm) = (''o'', Some 2, ''i'') # (''o'', Some 3, ''j'') # []"
    by (simp add: mmap_range_def)
  from removeTargetPort_stale [OF this] show ?thesis by simp
qed

end
