(* ===== verification/Observation_Heap.thy ===== *)
theory Observation_Heap
  imports Event_Heap "HOL-Library.Multiset"
begin

text \<open>
  The timed observations of \<^verbatim>\<open>devs/Scheduler.hpp\<close>: a vector of \<^verbatim>\<open>ViewEvent\<close> kept as a heap with
  \<^verbatim>\<open>std::push_heap\<close> and \<^verbatim>\<open>std::pop_heap\<close> and the comparison \<^verbatim>\<open>EventCompare\<close>, so that the event with the
  earliest date is at the front. The standard leaves the order of events with equal dates open; the
  model uses the usual sifting along the path to the root and to the leaves.
\<close>

section \<open>push_heap and pop_heap\<close>

record view_event =
  ve_view :: string
  ve_time :: time
  ve_timestep :: time

definition before :: "view_event \<Rightarrow> view_event \<Rightarrow> bool" where
  "before x y \<longleftrightarrow> dless (ve_time x) (ve_time y)"

definition swap :: "'a list \<Rightarrow> nat \<Rightarrow> nat \<Rightarrow> 'a list" where
  "swap v i j = v[i := v ! j, j := v ! i]"

definition above :: "nat \<Rightarrow> nat" where
  "above i = (i - 1) div 2"

function sift_up :: "view_event list \<Rightarrow> nat \<Rightarrow> view_event list" where
  "sift_up v i = (if 0 < i \<and> before (v ! i) (v ! above i) then sift_up (swap v i (above i)) (above i) else v)"
  by pat_completeness auto
termination
  by (relation "measure snd") (auto simp: above_def)

definition push :: "view_event \<Rightarrow> view_event list \<Rightarrow> view_event list" where
  "push e v = sift_up (v @ [e]) (length v)"

definition earlier_child :: "view_event list \<Rightarrow> nat \<Rightarrow> nat" where
  "earlier_child v i =
     (if 2 * i + 2 < length v \<and> before (v ! (2 * i + 2)) (v ! (2 * i + 1)) then 2 * i + 2 else 2 * i + 1)"

function sift_down :: "view_event list \<Rightarrow> nat \<Rightarrow> view_event list" where
  "sift_down v i =
     (if 2 * i + 1 < length v \<and> before (v ! earlier_child v i) (v ! i)
      then sift_down (swap v i (earlier_child v i)) (earlier_child v i) else v)"
  by pat_completeness auto
termination
  by (relation "measure (\<lambda>(v, i). length v - i)") (auto simp: earlier_child_def swap_def split: if_splits)

declare sift_up.simps [simp del] sift_down.simps [simp del]

definition pop :: "view_event list \<Rightarrow> view_event list" where
  "pop v = (if v = [] then [] else sift_down (butlast (v[0 := last v])) 0)"

section \<open>The heap order\<close>

definition le_ev :: "view_event \<Rightarrow> view_event \<Rightarrow> bool" where
  "le_ev x y \<longleftrightarrow> dle (ve_time x) (ve_time y)"

definition dated :: "view_event list \<Rightarrow> bool" where
  "dated v \<longleftrightarrow> (\<forall>x \<in> set v. ve_time x \<noteq> dnan)"

definition is_heap :: "view_event list \<Rightarrow> bool" where
  "is_heap v \<longleftrightarrow> (\<forall>j < length v. 0 < j \<longrightarrow> le_ev (v ! above j) (v ! j))"

text \<open>Heaps with one place where the order may fail, upwards or downwards.\<close>

definition heap_but_up :: "view_event list \<Rightarrow> nat \<Rightarrow> bool" where
  "heap_but_up v i \<longleftrightarrow> (\<forall>j < length v. 0 < j \<longrightarrow> j \<noteq> i \<longrightarrow> le_ev (v ! above j) (v ! j))
     \<and> (\<forall>j < length v. 0 < j \<longrightarrow> above j = i \<longrightarrow> 0 < i \<longrightarrow> le_ev (v ! above i) (v ! j))"

definition heap_but_down :: "view_event list \<Rightarrow> nat \<Rightarrow> bool" where
  "heap_but_down v i \<longleftrightarrow> (\<forall>j < length v. 0 < j \<longrightarrow> above j \<noteq> i \<longrightarrow> le_ev (v ! above j) (v ! j))
     \<and> (\<forall>j < length v. 0 < j \<longrightarrow> above j = i \<longrightarrow> 0 < i \<longrightarrow> le_ev (v ! above i) (v ! j))"

lemma above_less: "0 < i \<Longrightarrow> above i < i"
  by (auto simp: above_def)

lemma above_child: "0 < j \<Longrightarrow> above j = i \<longleftrightarrow> j = 2 * i + 1 \<or> j = 2 * i + 2"
  by (auto simp: above_def)

lemma le_ev_refl: "ve_time x \<noteq> dnan \<Longrightarrow> le_ev x x"
  by (simp add: le_ev_def double_simps)

lemma le_ev_trans: "le_ev x y \<Longrightarrow> le_ev y z \<Longrightarrow> le_ev x z"
  by (auto simp: le_ev_def double_simps)

lemma before_le: "before x y \<Longrightarrow> le_ev x y"
  by (auto simp: before_def le_ev_def double_simps)

lemma not_before: "ve_time x \<noteq> dnan \<Longrightarrow> ve_time y \<noteq> dnan \<Longrightarrow> \<not> before x y \<Longrightarrow> le_ev y x"
  by (auto simp: before_def le_ev_def double_simps)

lemma length_swap [simp]: "length (swap v i j) = length v"
  by (simp add: swap_def)

lemma mset_swap_ev: "i < length v \<Longrightarrow> j < length v \<Longrightarrow> mset (swap v i j) = mset v"
  by (simp add: swap_def mset_swap)

lemma set_swap_ev: "i < length v \<Longrightarrow> j < length v \<Longrightarrow> set (swap v i j) = set v"
  by (metis mset_swap_ev mset_eq_setD)

lemma nth_swap: "i < length v \<Longrightarrow> j < length v \<Longrightarrow>
  swap v i j ! k = (if k = i then v ! j else if k = j then v ! i else v ! k)"
  by (simp add: swap_def nth_list_update)

lemma dated_swap: "i < length v \<Longrightarrow> j < length v \<Longrightarrow> dated (swap v i j) \<longleftrightarrow> dated v"
  by (simp add: dated_def set_swap_ev)

lemma dated_nth: "dated v \<Longrightarrow> i < length v \<Longrightarrow> ve_time (v ! i) \<noteq> dnan"
  by (simp add: dated_def)

lemma sift_up_spec:
  assumes "heap_but_up v i" "i < length v" "dated v"
  shows "is_heap (sift_up v i) \<and> mset (sift_up v i) = mset v"
  using assms
proof (induction v i rule: sift_up.induct)
  case (1 v i)
  let ?p = "above i"
  note step = sift_up.simps [of v i]
  show ?case
  proof (cases "0 < i \<and> before (v ! i) (v ! ?p)")
    case False
    have "le_ev (v ! above j) (v ! j)" if "j < length v" "0 < j" for j
    proof (cases "j = i")
      case True
      with False that not_before [OF dated_nth [OF "1.prems"(3)] dated_nth [OF "1.prems"(3)]] above_less
      show ?thesis by (meson less_trans)
    qed (use "1.prems"(1) that in \<open>auto simp: heap_but_up_def\<close>)
    moreover have "sift_up v i = v" using False step by auto
    ultimately show ?thesis by (simp add: is_heap_def)
  next
    case True
    have len: "?p < length v" "i < length v" "?p \<noteq> i" using True above_less [of i] "1.prems"(2) by auto
    let ?w = "swap v i ?p"
    have hb: "heap_but_up ?w ?p"
      unfolding heap_but_up_def
    proof (intro conjI allI impI)
      fix j
      assume j: "j < length ?w" "0 < j" "j \<noteq> ?p"
      consider "j = i" | "j \<noteq> i" "above j = i" | "j \<noteq> i" "above j = ?p" | "j \<noteq> i" "above j \<noteq> i" "above j \<noteq> ?p" by blast
      then show "le_ev (?w ! above j) (?w ! j)"
      proof cases
        case 1
        then show ?thesis using True len by (simp add: nth_swap before_le)
      next
        case 2
        then show ?thesis using "1.prems"(1) True j len by (simp add: nth_swap heap_but_up_def)
      next
        case 3
        then have "le_ev (v ! ?p) (v ! j)" using "1.prems"(1) j by (auto simp: heap_but_up_def)
        with before_le [of "v ! i" "v ! ?p"] True have "le_ev (v ! i) (v ! j)" by (blast intro: le_ev_trans)
        then show ?thesis using 3 j len by (simp add: nth_swap)
      next
        case 4
        then show ?thesis using "1.prems"(1) j len by (simp add: nth_swap heap_but_up_def)
      qed
    next
      fix j
      assume j: "j < length ?w" "0 < j" "above j = ?p" "0 < ?p"
      have pp: "above ?p \<noteq> i" "above ?p \<noteq> ?p" "?p \<noteq> i" using above_less [OF j(4)] above_less [of i] True by auto
      have up: "le_ev (v ! above ?p) (v ! ?p)" using "1.prems"(1) len j(4) by (simp add: heap_but_up_def)
      show "le_ev (?w ! above ?p) (?w ! j)"
      proof (cases "j = i")
        case True
        then show ?thesis using up pp len by (simp add: nth_swap)
      next
        case False
        then have "le_ev (v ! ?p) (v ! j)" "j \<noteq> ?p"
          using "1.prems"(1) j above_less [OF j(2)] by (auto simp: heap_but_up_def)
        then show ?thesis using up pp False len le_ev_trans by (auto simp: nth_swap)
      qed
    qed
    have "is_heap (sift_up ?w ?p) \<and> mset (sift_up ?w ?p) = mset ?w"
      using "1.IH" [OF True hb] len "1.prems"(3) by (simp add: dated_swap)
    with True step len show ?thesis by (simp add: mset_swap_ev)
  qed
qed

lemma sift_down_spec:
  assumes "heap_but_down v i" "i < length v" "dated v"
  shows "is_heap (sift_down v i) \<and> mset (sift_down v i) = mset v"
  using assms
proof (induction v i rule: sift_down.induct)
  case (1 v i)
  let ?c = "earlier_child v i"
  note step = sift_down.simps [of v i]
  note hb = "1.prems"(1) [unfolded heap_but_down_def]
  have child: "le_ev (v ! ?c) (v ! j)" if "j < length v" "0 < j" "above j = i" for j
  proof -
    have "2 * i + 1 < length v" "j = 2 * i + 1 \<or> j = 2 * i + 2" using that by (auto simp: above_child)
    then show ?thesis
      using that dated_nth [OF "1.prems"(3)] le_ev_refl before_le not_before
      by (auto simp: earlier_child_def split: if_splits)
  qed
  show ?case
  proof (cases "2 * i + 1 < length v \<and> before (v ! ?c) (v ! i)")
    case False
    have "le_ev (v ! above j) (v ! j)" if j: "j < length v" "0 < j" for j
    proof (cases "above j = i")
      case True
      then have "2 * i + 1 < length v" using j by (auto simp: above_child)
      moreover from this have "?c < length v" by (auto simp: earlier_child_def)
      ultimately have "le_ev (v ! i) (v ! ?c)"
        using False "1.prems"(2) by (intro not_before dated_nth [OF "1.prems"(3)]) auto
      with child [OF j True] True show ?thesis using le_ev_trans by blast
    qed (use hb j in auto)
    moreover have "sift_down v i = v" using False step by auto
    ultimately show ?thesis by (simp add: is_heap_def)
  next
    case True
    have c: "?c < length v" "above ?c = i" "i < ?c" using True by (auto simp: earlier_child_def above_def)
    let ?w = "swap v i ?c"
    have len: "i < length v" "?c < length v" "?c \<noteq> i" using c by auto
    have hb': "heap_but_down ?w ?c"
      unfolding heap_but_down_def
    proof (intro conjI allI impI)
      fix j
      assume j: "j < length ?w" "0 < j" "above j \<noteq> ?c"
      consider "j = ?c" | "j \<noteq> ?c" "above j = i" | "j = i" "0 < i" | "j \<noteq> ?c" "above j \<noteq> i" "j \<noteq> i" by (cases "j = i") (use j in auto)
      then show "le_ev (?w ! above j) (?w ! j)"
      proof cases
        case 1
        then show ?thesis using True c len by (simp add: nth_swap before_le)
      next
        case 2
        then have "j \<noteq> i" using above_less [OF j(2)] by auto
        then show ?thesis using 2 child [of j] j len by (simp add: nth_swap)
      next
        case 3
        then have "above i \<noteq> i" "above i \<noteq> ?c" using above_less [of i] c by auto
        moreover have "le_ev (v ! above i) (v ! ?c)" using hb c 3 by auto
        ultimately show ?thesis using 3 len by (simp add: nth_swap)
      next
        case 4
        then show ?thesis using hb j len by (simp add: nth_swap)
      qed
    next
      fix j
      assume j: "j < length ?w" "0 < j" "above j = ?c"
      have "j \<noteq> i" "j \<noteq> ?c" using above_less [OF j(2)] j(3) c by auto
      moreover have "le_ev (v ! ?c) (v ! j)" using hb j c by auto
      ultimately show "le_ev (?w ! above ?c) (?w ! j)" using c len by (simp add: nth_swap)
    qed
    have "is_heap (sift_down ?w ?c) \<and> mset (sift_down ?w ?c) = mset ?w"
      using "1.IH" [OF True hb'] len "1.prems"(3) by (simp add: dated_swap)
    moreover have "sift_down v i = sift_down ?w ?c" using True step by simp
    ultimately show ?thesis using len by (simp add: mset_swap_ev)
  qed
qed

lemma push_spec:
  assumes "is_heap v" "dated v" "ve_time e \<noteq> dnan"
  shows "is_heap (push e v)" "mset (push e v) = add_mset e (mset v)"
proof -
  have "heap_but_up (v @ [e]) (length v)"
    unfolding heap_but_up_def
  proof (intro conjI allI impI)
    fix j
    assume j: "j < length (v @ [e])" "0 < j" "j \<noteq> length v"
    then have "j < length v" "above j < length v" using above_less [OF j(2)] by auto
    then show "le_ev ((v @ [e]) ! above j) ((v @ [e]) ! j)"
      using assms(1) j(2) by (simp add: is_heap_def nth_append)
  next
    fix j
    assume "j < length (v @ [e])" "0 < j" "above j = length v"
    then show "le_ev ((v @ [e]) ! above (length v)) ((v @ [e]) ! j)" using above_less [of j] by auto
  qed
  then have "is_heap (push e v) \<and> mset (push e v) = mset (v @ [e])"
    unfolding push_def using assms by (intro sift_up_spec) (auto simp: dated_def)
  then show "is_heap (push e v)" "mset (push e v) = add_mset e (mset v)" by auto
qed

lemma heap_front:
  assumes "is_heap v" "dated v" "i < length v"
  shows "le_ev (v ! 0) (v ! i)"
  using assms(3)
proof (induction i rule: less_induct)
  case (less i)
  show ?case
  proof (cases "i = 0")
    case True
    then show ?thesis using dated_nth [OF assms(2) less.prems] by (simp add: le_ev_refl)
  next
    case False
    then have "le_ev (v ! 0) (v ! above i)" using less above_less [of i] by simp
    moreover have "le_ev (v ! above i) (v ! i)" using assms(1) less.prems False by (simp add: is_heap_def)
    ultimately show ?thesis by (rule le_ev_trans)
  qed
qed

lemma pop_spec:
  assumes "is_heap v" "dated v" "v \<noteq> []"
  shows "is_heap (pop v)" "add_mset (v ! 0) (mset (pop v)) = mset v"
proof -
  let ?w = "butlast (v[0 := last v])"
  have ms: "add_mset (v ! 0) (mset ?w) = mset v"
  proof (cases v)
    case (Cons x xs)
    then show ?thesis by (cases xs rule: rev_cases) auto
  qed (use assms in simp)
  show "is_heap (pop v)" "add_mset (v ! 0) (mset (pop v)) = mset v"
  proof -
    have "is_heap (pop v) \<and> mset (pop v) = mset ?w"
    proof (cases "length v = 1")
      case True
      then obtain x where "v = [x]" by (auto simp: length_Suc_conv)
      then show ?thesis by (simp add: pop_def sift_down.simps is_heap_def)
    next
      case False
      have len: "0 < length ?w" "length ?w < length v" using assms(3) False by (cases v; auto)+
      have nth: "?w ! j = v ! j" if "j < length ?w" "0 < j" for j using that by (simp add: nth_butlast)
      have "heap_but_down ?w 0"
        using assms(1) nth len(2) by (auto simp: heap_but_down_def is_heap_def) (metis above_less less_trans not_gr_zero)
      moreover have "dated ?w"
        using assms(2) ms by (metis add_mset_remove_trivial dated_def in_diffD set_mset_mset)
      ultimately have "is_heap (sift_down ?w 0) \<and> mset (sift_down ?w 0) = mset ?w"
        using len by (intro sift_down_spec) auto
      then show ?thesis using assms(3) by (simp add: pop_def)
    qed
    then show "is_heap (pop v)" "add_mset (v ! 0) (mset (pop v)) = mset v" using ms by auto
  qed
qed

end
