(* ===== verification/Timed_Observations.thy ===== *)
theory Timed_Observations
  imports Observation_Heap Simulator
begin

text \<open>
  The class \<^verbatim>\<open>TimedObservationScheduler\<close> of \<^verbatim>\<open>devs/Scheduler.hpp\<close> on the heap of \<^verbatim>\<open>ViewEvent\<close>s: the dates
  at which the timed views observe the models. Views are named by their key in \<^verbatim>\<open>m_timedViewList\<close>.
\<close>

section \<open>Operations\<close>

text \<open>The constructor of \<^verbatim>\<open>ViewEvent\<close> and \<^verbatim>\<open>update\<close>; the view is a reference here and never null.\<close>

definition ViewEvent_new :: "string \<Rightarrow> time \<Rightarrow> time \<Rightarrow> view_event result" where
  "ViewEvent_new view currenttime timestep =
     (if isInfinity currenttime then Inl (AssertionFailed ''ViewEvent: bad current time'')
      else if isInfinity timestep then Inl (AssertionFailed ''ViewEvent: bad timestep'')
      else Inr \<lparr>ve_view = view, ve_time = currenttime, ve_timestep = timestep\<rparr>)"

definition ViewEvent_update :: "view_event \<Rightarrow> view_event" where
  "ViewEvent_update e = e\<lparr>ve_time := dadd (ve_time e) (ve_timestep e)\<rparr>"

definition addObservation :: "string \<Rightarrow> time \<Rightarrow> time \<Rightarrow> (view_event list, unit) proc" where
  "addObservation view t timestep =
     thenS (assertS (\<lambda>_. \<not> isInfinity t) ''addObservation: infinity time'')
    (thenS (assertS (\<lambda>_. \<not> isNegativeInfinity t) ''addObservation: negative infinity time'')
    (bindS (liftS (ViewEvent_new view t timestep)) (\<lambda>e. updS (push e))))"

definition haveObservationAtTime :: "time \<Rightarrow> view_event list \<Rightarrow> bool" where
  "haveObservationAtTime t v \<longleftrightarrow> (if v = [] then False else dless (ve_time (v ! 0)) t)"

lemma length_sift_down [simp]: "length (sift_down v i) = length v"
  by (induction v i rule: sift_down.induct) (subst sift_down.simps, simp)

lemma length_pop: "v \<noteq> [] \<Longrightarrow> length (pop v) < length v"
  by (simp add: pop_def)

function observations_loop :: "time \<Rightarrow> view_event list \<Rightarrow> view_event list \<Rightarrow> view_event list \<times> view_event list" where
  "observations_loop t ret v =
     (if v \<noteq> [] \<and> dless (ve_time (v ! 0)) t then observations_loop t (ret @ [v ! 0]) (pop v) else (ret, v))"
  by pat_completeness auto
termination
  by (relation "measure (\<lambda>(t, ret, v). length v)") (auto simp: length_pop)

declare observations_loop.simps [simp del]

definition getObservationAtTime :: "time \<Rightarrow> (view_event list, view_event list) proc" where
  "getObservationAtTime t v = (case observations_loop t [] v of (ret, w) \<Rightarrow> Ret ret w)"

section \<open>What the loop takes\<close>

abbreviation early :: "time \<Rightarrow> view_event \<Rightarrow> bool" where
  "early t e \<equiv> dless (ve_time e) t"

lemma dated_mset: "dated v \<longleftrightarrow> (\<forall>x \<in># mset v. ve_time x \<noteq> dnan)"
  by (simp add: dated_def)

lemma pop_dated:
  assumes "is_heap v" "dated v" "v \<noteq> []"
  shows "dated (pop v)" "\<And>x. x \<in> set (pop v) \<Longrightarrow> x \<in> set v"
proof -
  have sub: "mset (pop v) \<subseteq># mset v"
    unfolding pop_spec(2) [OF assms, symmetric] by simp
  show "dated (pop v)" using assms(2) mset_subset_eqD [OF sub] by (auto simp: dated_mset)
  show "\<And>x. x \<in> set (pop v) \<Longrightarrow> x \<in> set v" using mset_subset_eqD [OF sub] by simp
qed

lemma heap_front_le: "is_heap v \<Longrightarrow> dated v \<Longrightarrow> x \<in> set v \<Longrightarrow> le_ev (v ! 0) x"
  using heap_front [of v] by (auto simp: in_set_conv_nth)

lemma observations_loop_spec:
  assumes "is_heap v" "dated v" "sorted_wrt le_ev ret" "\<And>x y. x \<in> set ret \<Longrightarrow> y \<in> set v \<Longrightarrow> le_ev x y"
    and "observations_loop t ret v = (r, w)"
  shows "is_heap w \<and> dated w \<and> sorted_wrt le_ev r
    \<and> mset r = mset ret + filter_mset (early t) (mset v) \<and> mset w = filter_mset (\<lambda>e. \<not> early t e) (mset v)"
  using assms
proof (induction t ret v arbitrary: r w rule: observations_loop.induct)
  case (1 t ret v)
  note step = observations_loop.simps [of t ret v]
  show ?case
  proof (cases "v \<noteq> [] \<and> early t (v ! 0)")
    case True
    then have v: "v \<noteq> []" by simp
    note p = pop_spec [OF "1.prems"(1,2) v] pop_dated [OF "1.prems"(1,2) v]
    have sorted: "sorted_wrt le_ev (ret @ [v ! 0])"
      using "1.prems"(3,4) v by (simp add: sorted_wrt_append)
    have between: "le_ev x y" if "x \<in> set (ret @ [v ! 0])" "y \<in> set (pop v)" for x y
      using that heap_front_le [OF "1.prems"(1,2)] "1.prems"(4) p(4) by auto
    have "observations_loop t (ret @ [v ! 0]) (pop v) = (r, w)" using True step "1.prems"(5) by simp
    from "1.IH" [OF True p(1,3) sorted between this] True
    show ?thesis unfolding p(2) [symmetric] by simp
  next
    case False
    then have rw: "r = ret" "w = v" using step "1.prems"(5) by auto
    have "\<not> early t x" if "x \<in> set v" for x
      using False heap_front_le [OF "1.prems"(1,2) that] that by (cases v) (auto simp: le_ev_def double_simps)
    then have "filter_mset (early t) (mset v) = {#}" "filter_mset (\<lambda>e. \<not> early t e) (mset v) = mset v"
      by (simp_all add: filter_mset_eq_conv)
    then show ?thesis using rw "1.prems" by simp
  qed
qed

lemma wp_getObservationAtTime:
  assumes "is_heap v" "dated v"
  shows "wp (getObservationAtTime t) v (\<lambda>r w. is_heap w \<and> dated w \<and> sorted_wrt le_ev r
    \<and> mset r = filter_mset (early t) (mset v) \<and> mset w = filter_mset (\<lambda>e. \<not> early t e) (mset v))"
proof -
  obtain r w where rw: "observations_loop t [] v = (r, w)" by force
  from observations_loop_spec [OF assms _ _ rw] show ?thesis by (simp add: wp_def getObservationAtTime_def rw)
qed

lemma haveObservation_iff:
  assumes "is_heap v" "dated v"
  shows "haveObservationAtTime t v \<longleftrightarrow> (\<exists>e \<in> set v. early t e)"
proof (cases "v = []")
  case False
  then have "v ! 0 \<in> set v" by simp
  then show ?thesis using False heap_front_le [OF assms] by (fastforce simp: haveObservationAtTime_def le_ev_def double_simps)
qed (simp add: haveObservationAtTime_def)

lemma wp_addObservation:
  assumes "is_heap v" "dated v" "t \<noteq> dnan"
  shows "wp (addObservation view t step) v (\<lambda>_ w. is_heap w \<and> dated w
      \<and> mset w = add_mset \<lparr>ve_view = view, ve_time = t, ve_timestep = step\<rparr> (mset v))
    \<longleftrightarrow> \<not> isInfinity t \<and> \<not> isInfinity step"
proof -
  let ?e = "\<lparr>ve_view = view, ve_time = t, ve_timestep = step\<rparr>"
  have "is_heap (push ?e v)" "mset (push ?e v) = add_mset ?e (mset v)"
    using push_spec [OF assms(1,2), of ?e] assms(3) by auto
  moreover from this have "dated (push ?e v)" using assms by (simp add: dated_mset)
  ultimately show ?thesis
    using assms by (auto simp: addObservation_def wp_simps ViewEvent_new_def isInfinity_iff isNegativeInfinity_iff)
qed

text \<open>
  C20. \<^verbatim>\<open>getObservationAtTime\<close> ends and takes exactly the observations earlier than the given date out of
  the scheduler, in the order of their dates; what stays is a heap again and none of it is earlier,
  so \<^verbatim>\<open>haveObservationAtTime\<close> is false afterwards.
\<close>

theorem getObservationAtTime_spec:
  assumes "is_heap v" "dated v"
  shows "\<exists>r w. getObservationAtTime t v = Ret r w \<and> sorted_wrt le_ev r
    \<and> mset r = filter_mset (\<lambda>e. dless (ve_time e) t) (mset v)
    \<and> mset w = filter_mset (\<lambda>e. \<not> dless (ve_time e) t) (mset v)
    \<and> is_heap w \<and> \<not> haveObservationAtTime t w"
proof -
  obtain r w where rw: "getObservationAtTime t v = Ret r w" "is_heap w" "dated w" "sorted_wrt le_ev r"
    "mset r = filter_mset (early t) (mset v)" "mset w = filter_mset (\<lambda>e. \<not> early t e) (mset v)"
    using wp_getObservationAtTime [OF assms, of t] by (auto simp: wp_iff)
  have "\<not> early t e" if "e \<in> set w" for e
    using that rw(6) by (metis (mono_tags, lifting) filter_mset_eq_conv set_mset_mset)
  then show ?thesis using rw haveObservation_iff [OF rw(2,3)] by blast
qed

definition sample_views :: "view_event list" where
  "sample_views = map (\<lambda>t. \<lparr>ve_view = ''v'', ve_time = dfin t, ve_timestep = dfin 1\<rparr>) [1, 4, 2]"

theorem getObservationAtTime_spec_witness:
  "\<exists>r w. getObservationAtTime (dfin 3) sample_views = Ret r w \<and> length r = 2 \<and> length w = 1"
proof -
  have "is_heap sample_views" "dated sample_views"
    by (auto simp: sample_views_def is_heap_def dated_def le_ev_def above_def double_simps fp_round_small dfin_inject dfin_not_inf less_Suc_eq nth_Cons')
  from getObservationAtTime_spec [OF this, of "dfin 3"] obtain r w where
    rw: "getObservationAtTime (dfin 3) sample_views = Ret r w"
      "mset r = filter_mset (\<lambda>e. dless (ve_time e) (dfin 3)) (mset sample_views)"
      "mset w = filter_mset (\<lambda>e. \<not> dless (ve_time e) (dfin 3)) (mset sample_views)" by blast
  have "size (mset r) = 2" "size (mset w) = 1"
    unfolding rw(2,3) by (simp_all add: sample_views_def double_simps fp_round_small dfin_inject dfin_not_inf)
  then show ?thesis using rw(1) by auto
qed

end
