(* ===== verification/Graph_Defects.thy ===== *)
theory Graph_Defects
  imports Traversal
begin

text \<open>
  Operations on ports after which the two copies of a connection disagree, each shown on a small
  graph that satisfies the invariant before the call.
\<close>

section \<open>Deleting a port\<close>

text \<open>\<^verbatim>\<open>a.o\<close> is connected to the two input ports \<^verbatim>\<open>i\<close> and \<^verbatim>\<open>j\<close> of \<^verbatim>\<open>b\<close>.\<close>

definition fork :: graph where
  "fork = [
     0 \<mapsto> \<lparr>m_parent = None, m_inPortList = [], m_outPortList = [], m_x = -1, m_y = -1, m_width = -1, m_height = -1,
        m_name = ''top'', m_kind = Coupled (coupled_init\<lparr>m_modelList := [(''a'', 1), (''b'', 2)]\<rparr>)\<rparr>,
     1 \<mapsto> \<lparr>m_parent = Some 0, m_inPortList = [], m_outPortList = [(''o'', [(2, ''i''), (2, ''j'')])],
        m_x = -1, m_y = -1, m_width = -1, m_height = -1, m_name = ''a'', m_kind = Atomic atomic_init\<rparr>,
     2 \<mapsto> \<lparr>m_parent = Some 0, m_inPortList = [(''i'', [(1, ''o'')]), (''j'', [(1, ''o'')])], m_outPortList = [],
        m_x = -1, m_y = -1, m_width = -1, m_height = -1, m_name = ''b'', m_kind = Atomic atomic_init\<rparr>]"

lemma fork_linked: "linked fork"
proof (rule linked_if_check [of "[0, 1, 2]"])
  show "dom fork \<subseteq> set [0, 1, 2]" by (auto simp: fork_def split: if_splits)
  show "linked_check [0, 1, 2] fork"
    by (simp add: linked_check_def fork_def read_store may_connect_def other_side_def)
qed

lemmas run_graph = effect_defs deref_def deref_coupled_def modify_def modify_coupled_def getParent_def getName_def
  getPortList_def putPortList_def getPort_def onPort_def node_conns_def set_node_conns_def ref_set_def
  isCoupled_def isAtomic_def

text \<open>
  \<^verbatim>\<open>delInputPort\<close> erases from the port lists of the sources every entry of the model, not only those of
  the deleted port: deleting \<^verbatim>\<open>b.i\<close> also forgets, at \<^verbatim>\<open>a.o\<close>, the connection to \<^verbatim>\<open>b.j\<close>, which \<^verbatim>\<open>b.j\<close> still
  records.
\<close>

theorem delInputPort_breaks_links:
  "\<exists>s t. linked s \<and> cnt s Out 1 ''o'' 2 ''j'' = 1 \<and> delInputPort 2 ''i'' s = Ret () t
     \<and> cnt t Out 1 ''o'' 2 ''j'' = 0 \<and> cnt t In 2 ''j'' 1 ''o'' = 1 \<and> \<not> linked t"
proof -
  obtain t where t: "delInputPort 2 ''i'' fork = Ret () t"
    and c: "cnt t Out 1 ''o'' 2 ''j'' = 0" "cnt t In 2 ''j'' 1 ''o'' = 1" "parent t 2 = Some 0"
    by (simp add: delInputPort_def delPort_def run_graph fork_def ModelPortList_erase_def mmap_erase_def smap_erase_def
        read_store)
  have "\<not> linked t"
  proof
    assume lk: "linked t"
    have "may_connect t In 2 1" using linked_may_connect [OF lk, of In 2 "''j''" 1 "''o''"] c(2) by simp
    from linked_cnt [OF lk this, of "''j''" "''o''"] c show False by (simp add: other_side_def)
  qed
  moreover have "cnt fork Out 1 ''o'' 2 ''j'' = 1" by (simp add: read_store fork_def)
  ultimately show ?thesis using fork_linked t c by blast
qed

section \<open>Renaming a port\<close>

text \<open>
  Renaming an input port of a coupled model and renaming it back does not restore the graph: the
  inside port list left over from the first renaming keeps \<^verbatim>\<open>insert\<close> from storing the connections, so the
  sub-model still records its connection to the port and the port no longer records the sub-model.
\<close>

theorem renameInputPort_loses_connection:
  "\<exists>s t u. graph_ok s \<and> cnt s IntIn 2 ''i'' 3 ''i'' = 1 \<and> cnt s In 3 ''i'' 2 ''i'' = 1
     \<and> renameInputPort 2 ''i'' ''j'' s = Ret () t \<and> renameInputPort 2 ''j'' ''i'' t = Ret () u
     \<and> cnt u IntIn 2 ''i'' 3 ''i'' = 0 \<and> cnt u In 3 ''i'' 2 ''i'' = 1"
proof -
  obtain t where t: "renameInputPort 2 ''i'' ''j'' sample = Ret () t"
    and tn: "t 2 = Some \<lparr>m_parent = Some 0, m_inPortList = [(''j'', [(1, ''o''), (1, ''o'')])], m_outPortList = [(''o'', [(1, ''i'')])],
        m_x = -1, m_y = -1, m_width = -1, m_height = -1, m_name = ''c'',
        m_kind = Coupled (coupled_init\<lparr>m_modelList := [(''x'', 3)],
          m_internalInputList := [(''i'', []), (''j'', [(3, ''i'')])], m_internalOutputList := [(''o'', [(3, ''o'')])]\<rparr>)\<rparr>"
      "t 3 = Some \<lparr>m_parent = Some 2, m_inPortList = [(''i'', [(2, ''j'')])], m_outPortList = [(''o'', [(2, ''o'')])],
        m_x = -1, m_y = -1, m_width = -1, m_height = -1, m_name = ''x'', m_kind = Atomic atomic_init\<rparr>"
      "t (Suc 0) = Some \<lparr>m_parent = Some 0, m_inPortList = [(''i'', [(2, ''o'')])], m_outPortList = [(''o'', [(2, ''j''), (2, ''j'')])],
        m_x = -1, m_y = -1, m_width = -1, m_height = -1, m_name = ''a'', m_kind = Atomic atomic_init\<rparr>"
    by (simp add: renameInputPort_def renamePort_def delPort_def addEnds_def run_graph sample_nodes coupled_init_def
        ModelPortList_erase_def ModelPortList_add_def mmap_erase_def smap_erase_def smap_insert_def)
  obtain u where u: "renameInputPort 2 ''j'' ''i'' t = Ret () u"
    and c: "cnt u IntIn 2 ''i'' 3 ''i'' = 0" "cnt u In 3 ''i'' 2 ''i'' = 1"
    by (simp add: renameInputPort_def renamePort_def delPort_def addEnds_def run_graph tn read_store
        ModelPortList_erase_def ModelPortList_add_def mmap_erase_def smap_erase_def smap_insert_def)
  have "cnt sample IntIn 2 ''i'' 3 ''i'' = 1" "cnt sample In 3 ''i'' 2 ''i'' = 1"
    by (simp_all add: read_store sample_nodes)
  with sample_graph_ok t u c show ?thesis by blast
qed

end
