(* ===== verification/Model_Lifecycle.thy ===== *)
theory Model_Lifecycle
  imports Graph_Defects
begin

text \<open>
  The rest of the operations of \<^verbatim>\<open>vpz/CoupledModel.cpp\<close> and \<^verbatim>\<open>vpz/AtomicModel.cpp\<close> that change the tree:
  destroying, replacing and displacing models, names, and the attributes of atomic models. Calls
  that recur over the tree carry a bound on its depth; a run that exceeds it counts as not ending.
\<close>

section \<open>Destroying models\<close>

fun destroy :: "nat \<Rightarrow> addr \<Rightarrow> unit gproc" where
  "destroy 0 a = throwS NonTermination"
| "destroy (Suc n) a = bindS (deref a) (\<lambda>nd.
     thenS (if isCoupled nd then
              thenS (bindS (getModelList a) (forS (\<lambda>e.
                       thenS (delAllConnection a (Some (snd e))) (destroy n (snd e)))))
                (modify_coupled a (\<lambda>c. c\<lparr>m_modelList := []\<rparr>))
            else retS ())
       (\<lambda>s. Ret () (s(a := None))))"

definition delAllModel :: "nat \<Rightarrow> addr \<Rightarrow> unit gproc" where
  "delAllModel n this =
     thenS (bindS (getModelList this) (forS (\<lambda>e.
              thenS (delAllConnection this (Some (snd e))) (destroy n (snd e)))))
       (modify_coupled this (\<lambda>c. c\<lparr>m_modelList := []\<rparr>))"

definition delModel :: "nat \<Rightarrow> addr \<Rightarrow> addr \<Rightarrow> unit gproc" where
  "delModel n this model =
     bindS (getName model) (\<lambda>name.
     bindS (getModelList this) (\<lambda>ml.
     if map_of ml name \<noteq> None then
       thenS (delAllConnection this (Some model))
      (thenS (modify_coupled this (\<lambda>c. c\<lparr>m_modelList := smap_erase name (m_modelList c)\<rparr>))
         (destroy n model))
     else retS ()))"

definition replace :: "nat \<Rightarrow> addr \<Rightarrow> addr option \<Rightarrow> addr option \<Rightarrow> unit gproc" where
  "replace n this oldmodel newmodel = (case oldmodel of
     None \<Rightarrow> throwS (DevsGraphError ''Replace a null model ?'')
   | Some old \<Rightarrow> (case newmodel of
       None \<Rightarrow> throwS (DevsGraphError ''Replace a model by null ?'')
     | Some new \<Rightarrow>
         thenS (bindS (getPortList In old) (forS (\<lambda>it.
                  thenS (addInputPort new (fst it)) (onPort In new (fst it) (\<lambda>l. Inr (ModelPortList_merge (snd it) l))))))
        (thenS (bindS (getPortList Out old) (forS (\<lambda>it.
                  thenS (addOutputPort new (fst it)) (onPort Out new (fst it) (\<lambda>l. Inr (ModelPortList_merge (snd it) l))))))
        (thenS (delModel n this old) (addModel this new)))))"

section \<open>Names and positions\<close>

text \<open>The counter is an \<^verbatim>\<open>int\<close> that starts at 0; incrementing the greatest one overflows.\<close>

definition counter_max :: nat where
  "counter_max = 2 ^ 31 - 1"

function new_name_loop :: "model_list \<Rightarrow> string \<Rightarrow> nat \<Rightarrow> string result" where
  "new_name_loop ml name i =
     (let newname = name @ ''-'' @ show_nat i in
      if i \<ge> counter_max then Inl (UndefinedBehaviour ''signed overflow'')
      else if map_of ml name \<noteq> None then new_name_loop ml name (Suc i) else Inr newname)"
  by pat_completeness auto
termination
  by (relation "measure (\<lambda>(ml, name, i). counter_max - i)") auto

declare new_name_loop.simps [simp del]

definition buildNewName :: "addr \<Rightarrow> string \<Rightarrow> string gproc" where
  "buildNewName this prefix = bindS (getModelList this) (\<lambda>ml.
     liftS (new_name_loop ml (if prefix = [] then ''runtimebuilding'' else prefix) 0))"

fun parent_chain :: "nat \<Rightarrow> addr option \<Rightarrow> addr list gproc" where
  "parent_chain n None = retS []"
| "parent_chain 0 (Some p) = throwS NonTermination"
| "parent_chain (Suc n) (Some p) = bindS (getParent p) (\<lambda>q. bindS (parent_chain n q) (\<lambda>l. retS (p # l)))"

definition getParents :: "nat \<Rightarrow> addr \<Rightarrow> addr list \<Rightarrow> addr list gproc" where
  "getParents n this parents = bindS (getParent this) (\<lambda>p. bindS (parent_chain n p) (\<lambda>l. retS (parents @ l)))"

fun join_names :: "addr list \<Rightarrow> string gproc" where
  "join_names [] = retS []"
| "join_names [a] = getName a"
| "join_names (a # as) = bindS (getName a) (\<lambda>x. bindS (join_names as) (\<lambda>y. retS (x @ '','' @ y)))"

definition getParentName :: "nat \<Rightarrow> addr \<Rightarrow> string gproc" where
  "getParentName n this = bindS (getParent this) (\<lambda>p. bindS (parent_chain n p) (\<lambda>l. join_names (rev l)))"

definition getCompleteName :: "nat \<Rightarrow> addr \<Rightarrow> string gproc" where
  "getCompleteName n this = bindS (getParent this) (\<lambda>p. bindS (parent_chain n p) (\<lambda>l. join_names (rev l @ [this])))"

fun find_in :: "(base_model \<Rightarrow> bool) \<Rightarrow> model_list \<Rightarrow> addr option gproc" where
  "find_in P [] = retS None"
| "find_in P (e # l) = bindS (deref (snd e)) (\<lambda>n. if P n then retS (Some (snd e)) else find_in P l)"

definition find_at :: "addr \<Rightarrow> int \<Rightarrow> int \<Rightarrow> addr option gproc" where
  "find_at this x y = bindS (getModelList this) (find_in (\<lambda>n.
     m_x n \<le> x \<and> x \<le> m_x n + m_width n \<and> m_y n \<le> y \<and> y \<le> m_y n + m_height n))"

definition find_at_size :: "addr \<Rightarrow> int \<Rightarrow> int \<Rightarrow> int \<Rightarrow> int \<Rightarrow> addr option gproc" where
  "find_at_size this x y width height = bindS (getModelList this) (find_in (\<lambda>n.
     m_x n \<le> x \<and> x \<le> m_x n + width \<and> m_y n \<le> y \<and> y \<le> m_y n + height))"

section \<open>Lists of connections\<close>

definition getBasicConnections :: "addr \<Rightarrow> model_list \<Rightarrow> graph \<Rightarrow> string list result" where
  "getBasicConnections this lst s = foldE (\<lambda>m acc.
     case s (snd m) of
       None \<Rightarrow> Inl (UndefinedBehaviour ''dangling pointer'')
     | Some n \<Rightarrow>
         if m_parent n \<noteq> Some this then Inl (DevsGraphError ''The model is not the child'')
         else foldE (\<lambda>cnt acc. foldE (\<lambda>kt acc. case s (fst kt) of
                  None \<Rightarrow> Inl (UndefinedBehaviour ''dangling pointer'')
                | Some d \<Rightarrow> Inr (acc @ [m_name n, fst cnt, m_name d, snd kt])) (snd cnt) acc)
                (m_outPortList n) acc) lst []"

text \<open>
  \<^verbatim>\<open>setBasicConnections\<close> takes the strings four by four; when a connection cannot be made it removes the
  ones made before and throws again.
\<close>

fun undo_connections :: "addr \<Rightarrow> string list \<Rightarrow> unit gproc" where
  "undo_connections this (a # p # b # q # rest) =
     thenS (delInternalConnection_named this a p b q) (undo_connections this rest)"
| "undo_connections this _ = retS ()"

fun make_connections :: "addr \<Rightarrow> string list \<Rightarrow> string list \<Rightarrow> unit gproc" where
  "make_connections this done (a # p # b # q # rest) s =
     (case addInternalConnection_named this a p b q s of
        Ret _ t \<Rightarrow> make_connections this (done @ [a, p, b, q]) rest t
      | Exn (DevsGraphError _) t \<Rightarrow>
          thenS (undo_connections this done) (throwS (DevsGraphError ''Cannot displace the connection'')) t
      | Exn e t \<Rightarrow> Exn e t)"
| "make_connections this done _ s = Ret () s"

definition setBasicConnections :: "addr \<Rightarrow> string list \<Rightarrow> unit gproc" where
  "setBasicConnections this lst =
     (if length lst mod 4 \<noteq> 0 then throwS (DevsGraphError ''The basic connections list is malformed.'')
      else make_connections this [] lst)"

definition init_pairs :: "addr \<Rightarrow> graph \<Rightarrow> (addr \<times> addr) list result" where
  "init_pairs this s = (case s this of
     None \<Rightarrow> Inl (UndefinedBehaviour ''dangling pointer'')
   | Some n \<Rightarrow> (case m_kind n of
       Atomic _ \<Rightarrow> Inl (UndefinedBehaviour ''not a coupled model'')
     | Coupled c \<Rightarrow>
         bindE (foldE (\<lambda>it acc. case s (snd it) of
                  None \<Rightarrow> Inl (UndefinedBehaviour ''dangling pointer'')
                | Some m \<Rightarrow> Inr (acc @ concat (map (\<lambda>out. map (\<lambda>port. (snd it, fst port)) (snd out)) (m_outPortList m))))
                (m_modelList c) []) (\<lambda>inner.
         Inr (inner
           @ concat (map (\<lambda>it. map (\<lambda>jt. (this, fst jt)) (snd it)) (m_internalInputList c))
           @ concat (map (\<lambda>it. map (\<lambda>jt. (fst jt, this)) (snd it)) (m_internalOutputList c))))))"

definition initConnections :: "addr \<Rightarrow> unit gproc" where
  "initConnections this = bindS getS (\<lambda>s. bindS (liftS (init_pairs this s)) (\<lambda>ps.
     modify_coupled this (\<lambda>c. c\<lparr>m_srcConnections := map fst ps, m_dstConnections := map snd ps\<rparr>)))"

section \<open>Moving models to another coupled model\<close>

text \<open>\<^verbatim>\<open>saveInputConnections\<close> and \<^verbatim>\<open>saveOutputConnections\<close>: copies of the port lists, by model name.\<close>

fun save_side :: "side \<Rightarrow> model_list \<Rightarrow> (string \<times> connection_list) list gproc" where
  "save_side d [] = retS []"
| "save_side d (it # its) =
     bindS (getPortList d (snd it)) (\<lambda>l. bindS (save_side d its) (\<lambda>r. retS (smap_update (fst it) l r)))"

definition saveInputConnections :: "model_list \<Rightarrow> (string \<times> connection_list) list gproc" where
  "saveInputConnections lst = save_side In lst"

definition saveOutputConnections :: "model_list \<Rightarrow> (string \<times> connection_list) list gproc" where
  "saveOutputConnections lst = save_side Out lst"

text \<open>The three nested loops of the restoring functions, as one list of what they visit.\<close>

definition saved_entries :: "(string \<times> connection_list) list \<Rightarrow> (string \<times> string \<times> addr \<times> string) list" where
  "saved_entries cs = concat (map (\<lambda>c. concat (map (\<lambda>p. map (\<lambda>m. (fst c, fst p, m)) (snd p)) (snd c))) cs)"

text \<open>
  The port of the destination that stands for an outside end: the first use of a port name takes the
  name, later uses by other models get a number. \<open>ports\<close> and \<open>indexes\<close> are the local maps of the code;
  the indexes are 32-bit unsigned numbers.
\<close>

definition destination_port :: "side \<Rightarrow> side \<Rightarrow> addr \<Rightarrow> string \<Rightarrow> string
    \<Rightarrow> ((string \<times> string) \<Rightarrow> string option) \<Rightarrow> (string \<Rightarrow> nat)
    \<Rightarrow> (string \<times> ((string \<times> string) \<Rightarrow> string option) \<times> (string \<Rightarrow> nat)) gproc" where
  "destination_port d i destination mname port prts indexes =
     bindS (existPort d destination port) (\<lambda>b.
     if \<not> b then
       thenS (addPort d i destination port) (retS (port, prts((mname, port) \<mapsto> port), indexes(port := 0)))
     else (case prts (mname, port) of
       Some portName \<Rightarrow> retS (portName, prts, indexes)
     | None \<Rightarrow>
         let n = (indexes port + 1) mod 2 ^ 32; portName = port @ ''_'' @ show_nat n in
         thenS (addPort d i destination portName)
           (retS (portName, prts((mname, port) \<mapsto> portName), indexes(port := n)))))"

fun restore_inputs :: "addr \<Rightarrow> model_list \<Rightarrow> addr \<Rightarrow> string list \<Rightarrow> (string \<times> string \<times> addr \<times> string) list
    \<Rightarrow> ((string \<times> string) \<Rightarrow> string option) \<Rightarrow> (string \<Rightarrow> nat) \<Rightarrow> unit gproc" where
  "restore_inputs this lst destination keys [] prts indexes = retS ()"
| "restore_inputs this lst destination keys ((mdl, port, src, srcport) # es) prts indexes =
     bindS (getName src) (\<lambda>srcname.
     if srcname \<in> set keys then
       thenS (addInternalConnection this (Some src) srcport (map_of lst mdl) port)
         (restore_inputs this lst destination keys es prts indexes)
     else
       bindS (destination_port In IntIn destination srcname srcport prts indexes) (\<lambda>(portName, prts', indexes').
       thenS (addInputConnection_named destination portName mdl port)
      (bindS (getName destination) (\<lambda>dname.
       thenS (if src = this then
                bindS (existInputConnection this srcport dname portName) (\<lambda>b.
                  if b then retS () else addInputConnection this srcport (Some destination) portName)
              else
                bindS (existInternalConnection this srcname srcport dname portName) (\<lambda>b.
                  if b then retS () else addInternalConnection this (Some src) srcport (Some destination) portName))
         (restore_inputs this lst destination keys es prts' indexes')))))"

definition restoreInputConnections :: "addr \<Rightarrow> model_list \<Rightarrow> addr \<Rightarrow> (string \<times> connection_list) list \<Rightarrow> unit gproc" where
  "restoreInputConnections this lst destination connections =
     restore_inputs this lst destination (map fst connections) (saved_entries connections) Map.empty (\<lambda>_. 0)"

fun restore_outputs :: "addr \<Rightarrow> addr \<Rightarrow> string list \<Rightarrow> (string \<times> string \<times> addr \<times> string) list
    \<Rightarrow> ((string \<times> string) \<Rightarrow> string option) \<Rightarrow> (string \<Rightarrow> nat) \<Rightarrow> unit gproc" where
  "restore_outputs this destination keys [] prts indexes = retS ()"
| "restore_outputs this destination keys ((mdl, port, dst, dstport) # es) prts indexes =
     bindS (getName dst) (\<lambda>dstname.
     if dstname \<in> set keys then restore_outputs this destination keys es prts indexes
     else
       bindS (destination_port Out IntOut destination dstname dstport prts indexes) (\<lambda>(portName, prts', indexes').
       thenS (addOutputConnection_named destination mdl port portName)
      (bindS (getName destination) (\<lambda>dname.
       thenS (if dst = this then
                bindS (existOutputConnection this dname portName dstport) (\<lambda>b.
                  if b then retS () else addOutputConnection this (Some destination) portName dstport)
              else
                bindS (existInternalConnection this dname portName dstname dstport) (\<lambda>b.
                  if b then retS () else addInternalConnection this (Some destination) portName (Some dst) dstport))
         (restore_outputs this destination keys es prts' indexes')))))"

definition restoreOutputConnections :: "addr \<Rightarrow> addr \<Rightarrow> (string \<times> connection_list) list \<Rightarrow> unit gproc" where
  "restoreOutputConnections this destination connections =
     restore_outputs this destination (map fst connections) (saved_entries connections) Map.empty (\<lambda>_. 0)"

definition haveConnectionWithOtherModel :: "connection_list \<Rightarrow> model_list \<Rightarrow> graph \<Rightarrow> bool result" where
  "haveConnectionWithOtherModel cnts mdls s = foldE (\<lambda>jt found. case s (fst jt) of
       None \<Rightarrow> if found then Inr True else Inl (UndefinedBehaviour ''dangling pointer'')
     | Some n \<Rightarrow> Inr (found \<or> map_of mdls (m_name n) = None)) (concat (map snd cnts)) False"

definition hasConnectionProblem :: "model_list \<Rightarrow> graph \<Rightarrow> bool result" where
  "hasConnectionProblem lst s = foldE (\<lambda>it found. if found then Inr True else (case s (snd it) of
       None \<Rightarrow> Inl (UndefinedBehaviour ''dangling pointer'')
     | Some n \<Rightarrow> bindE (haveConnectionWithOtherModel (m_inPortList n) lst s) (\<lambda>b.
         if b then Inr True else haveConnectionWithOtherModel (m_outPortList n) lst s))) lst False"

definition displace :: "addr \<Rightarrow> model_list \<Rightarrow> addr \<Rightarrow> unit gproc" where
  "displace this lst destination =
     bindS (saveInputConnections lst) (\<lambda>listInput.
     bindS (saveOutputConnections lst) (\<lambda>listOutput.
     thenS (forS (\<lambda>it. delAllConnection this (Some (snd it))) lst)
    (bindS getS (\<lambda>s. bindS (liftS (hasConnectionProblem lst s)) (\<lambda>b.
     if b then throwS (DevsGraphError ''One or more models are connected to another model'')
     else
       thenS (detachModels this lst)
      (thenS (attachModels destination lst)
      (thenS (restoreInputConnections this lst destination listInput)
         (restoreOutputConnections this destination listOutput))))))))"

section \<open>Attributes of atomic models\<close>

definition update_dynamics :: "string \<Rightarrow> string \<Rightarrow> atomic_data \<Rightarrow> atomic_data" where
  "update_dynamics oldname newname d = (if m_dynamics d = oldname then d\<lparr>m_dynamics := newname\<rparr> else d)"

definition purge_dynamics :: "string set \<Rightarrow> atomic_data \<Rightarrow> atomic_data" where
  "purge_dynamics lst d = (if m_dynamics d \<notin> lst then d\<lparr>m_dynamics := []\<rparr> else d)"

definition update_observable :: "string \<Rightarrow> string \<Rightarrow> atomic_data \<Rightarrow> atomic_data" where
  "update_observable oldname newname d = (if m_observables d = oldname then d\<lparr>m_observables := newname\<rparr> else d)"

definition purge_observable :: "string set \<Rightarrow> atomic_data \<Rightarrow> atomic_data" where
  "purge_observable lst d = (if m_observables d \<notin> lst then d\<lparr>m_observables := []\<rparr> else d)"

definition update_conditions :: "string \<Rightarrow> string \<Rightarrow> atomic_data \<Rightarrow> atomic_data" where
  "update_conditions oldname newname d =
     d\<lparr>m_conditions := map (\<lambda>c. if c = oldname then newname else c) (m_conditions d)\<rparr>"

text \<open>\<^verbatim>\<open>purgeConditions\<close> erases from the last position down to the first.\<close>

fun purge_from :: "string set \<Rightarrow> nat \<Rightarrow> string list \<Rightarrow> string list" where
  "purge_from lst 0 cs = cs"
| "purge_from lst (Suc i) cs =
     purge_from lst i (if cs ! i \<notin> lst then take i cs @ drop (Suc i) cs else cs)"

definition purge_conditions :: "string set \<Rightarrow> atomic_data \<Rightarrow> atomic_data" where
  "purge_conditions lst d =
     (if m_conditions d = [] then d else d\<lparr>m_conditions := purge_from lst (length (m_conditions d)) (m_conditions d)\<rparr>)"

definition delCondition :: "string \<Rightarrow> string list \<Rightarrow> string list result" where
  "delCondition str cs = (if str \<in> set cs then Inr (remove1 str cs)
     else Inl (UndefinedBehaviour ''erase of the end iterator''))"

text \<open>
  The virtual functions \<^verbatim>\<open>updateDynamics\<close>, \<^verbatim>\<open>purgeDynamics\<close>, \<^verbatim>\<open>updateObservable\<close>, \<^verbatim>\<open>purgeObservable\<close>,
  \<^verbatim>\<open>updateConditions\<close>, \<^verbatim>\<open>purgeConditions\<close>: an atomic model changes its attribute, a coupled model calls
  its sub-models.
\<close>

fun for_atomics :: "(atomic_data \<Rightarrow> atomic_data) \<Rightarrow> nat \<Rightarrow> addr \<Rightarrow> unit gproc" where
  "for_atomics f 0 a = throwS NonTermination"
| "for_atomics f (Suc n) a = bindS (deref a) (\<lambda>nd. case m_kind nd of
     Atomic d \<Rightarrow> modify a (\<lambda>nd. nd\<lparr>m_kind := Atomic (f d)\<rparr>)
   | Coupled c \<Rightarrow> forS (\<lambda>e. for_atomics f n (snd e)) (m_modelList c))"

definition updateDynamics :: "string \<Rightarrow> string \<Rightarrow> nat \<Rightarrow> addr \<Rightarrow> unit gproc" where
  "updateDynamics oldname newname = for_atomics (update_dynamics oldname newname)"

definition purgeDynamics :: "string set \<Rightarrow> nat \<Rightarrow> addr \<Rightarrow> unit gproc" where
  "purgeDynamics lst = for_atomics (purge_dynamics lst)"

definition updateObservable :: "string \<Rightarrow> string \<Rightarrow> nat \<Rightarrow> addr \<Rightarrow> unit gproc" where
  "updateObservable oldname newname = for_atomics (update_observable oldname newname)"

definition purgeObservable :: "string set \<Rightarrow> nat \<Rightarrow> addr \<Rightarrow> unit gproc" where
  "purgeObservable lst = for_atomics (purge_observable lst)"

definition updateConditions :: "string \<Rightarrow> string \<Rightarrow> nat \<Rightarrow> addr \<Rightarrow> unit gproc" where
  "updateConditions oldname newname = for_atomics (update_conditions oldname newname)"

definition purgeConditions :: "string set \<Rightarrow> nat \<Rightarrow> addr \<Rightarrow> unit gproc" where
  "purgeConditions lst = for_atomics (purge_conditions lst)"

section \<open>Properties\<close>

lemma purge_from_eq: "i \<le> length cs \<Longrightarrow> purge_from lst i cs = filter (\<lambda>c. c \<in> lst) (take i cs) @ drop i cs"
proof (induction lst i cs rule: purge_from.induct)
  case (2 lst i cs)
  let ?cs = "if cs ! i \<notin> lst then take i cs @ drop (Suc i) cs else cs"
  have "purge_from lst i ?cs = filter (\<lambda>c. c \<in> lst) (take i ?cs) @ drop i ?cs" using 2 by (intro "2.IH") auto
  then show ?case using 2 by (simp add: take_Suc_conv_app_nth Cons_nth_drop_Suc)
qed simp

text \<open>
  The backward loop of \<^verbatim>\<open>AtomicModel::purgeConditions\<close>, which erases from a vector while it walks it,
  leaves exactly the conditions of the given set, in order, with their repetitions.
\<close>

theorem purge_conditions_spec:
  "purge_conditions lst d = d\<lparr>m_conditions := filter (\<lambda>c. c \<in> lst) (m_conditions d)\<rparr>"
  by (simp add: purge_conditions_def purge_from_eq)

lemma new_name_loop_taken: "map_of ml name \<noteq> None \<Longrightarrow> new_name_loop ml name i = Inl (UndefinedBehaviour ''signed overflow'')"
proof (induction ml name i rule: new_name_loop.induct)
  case (1 ml name i)
  then show ?case by (subst new_name_loop.simps) (simp add: Let_def)
qed

lemma show_nat_0: "show_nat 0 = ''0''"
  by code_simp

text \<open>
  C29. \<^verbatim>\<open>buildNewName\<close> tests whether the prefix is taken, not the name it built. When a sub-model has the prefix as its name, the
  loop goes on whatever names are free, until the increment of its \<^verbatim>\<open>int\<close> counter overflows; otherwise the first
  name, with suffix 0, is returned even when it is taken. An empty prefix stands for \<^verbatim>\<open>runtimebuilding\<close>.
\<close>

theorem buildNewName_spec:
  assumes "s this = Some n" "m_kind n = Coupled c" "name = (if prefix = [] then ''runtimebuilding'' else prefix)"
  shows "buildNewName this prefix s =
    (if map_of (m_modelList c) name \<noteq> None then Exn (UndefinedBehaviour ''signed overflow'') s else Ret (name @ ''-0'') s)"
proof -
  have "new_name_loop (m_modelList c) name 0 = Inr (name @ ''-0'')" if "map_of (m_modelList c) name = None"
    using that by (subst new_name_loop.simps) (simp add: show_nat_0 Let_def counter_max_def)
  then show ?thesis
    using assms(1,2) new_name_loop_taken [of "m_modelList c" name 0]
    by (auto simp: buildNewName_def getModelList_def deref_coupled_def deref_def effect_defs simp flip: assms(3))
qed

theorem buildNewName_spec_witness:
  "buildNewName 0 ''a'' sample = Exn (UndefinedBehaviour ''signed overflow'') sample \<and> buildNewName 0 ''b'' sample = Ret ''b-0'' sample"
proof -
  obtain n where n: "sample 0 = Some n" "m_kind n = Coupled (coupled_init\<lparr>m_modelList := [(''a'', 1), (''c'', 2)]\<rparr>)"
    by (simp add: sample_nodes)
  show ?thesis using buildNewName_spec [of sample 0, OF n] by simp
qed

end
