(* ===== verification/Observed_Views.thy ===== *)
theory Observed_Views
  imports Simulator Model_Lifecycle
begin

text \<open>
  \<^verbatim>\<open>devs/View.cpp\<close>: a view owns an output plug-in and the list of the models and ports it observes. The
  plug-in is loaded at run time and is a record of functions on its own state. The list is a
  multimap whose keys are pointers to models; a model is named by its simulator, and the order of the
  pointers is the order of these numbers.
\<close>

record 'p plugin_ops =
  oov_onNewObservable :: "string \<Rightarrow> string \<Rightarrow> string \<Rightarrow> string \<Rightarrow> time \<Rightarrow> ('p, unit) proc"
  oov_onDelObservable :: "string \<Rightarrow> string \<Rightarrow> string \<Rightarrow> string \<Rightarrow> time \<Rightarrow> ('p, unit) proc"
  oov_onValue :: "string \<Rightarrow> string \<Rightarrow> string \<Rightarrow> string \<Rightarrow> time \<Rightarrow> val option \<Rightarrow> ('p, unit) proc"
  oov_matrix :: "'p \<Rightarrow> val option result"
  oov_finish :: "time \<Rightarrow> ('p, val option) proc"

record 'p view =
  view_observables :: "(sim_id \<times> string) list"
  view_name :: string
  view_plugin :: "'p option"

type_synonym ('p, 'a) vproc = "('p view, 'a) proc"

text \<open>
  What a view asks of a model, all of it without side effects: its name and the name of its parent,
  and the observation of a port.
\<close>

record model_env =
  env_names :: "sim_id \<Rightarrow> (string \<times> string) result"
  env_observation :: "time \<Rightarrow> string \<Rightarrow> string \<Rightarrow> sim_id \<Rightarrow> val option result"

text \<open>A call of the plug-in; without a plug-in it is a call through a null pointer.\<close>

definition on_plugin :: "('p, 'a) proc \<Rightarrow> ('p, 'a) vproc" where
  "on_plugin m v = (case view_plugin v of
     None \<Rightarrow> Exn (UndefinedBehaviour ''no plug-in'') v
   | Some p \<Rightarrow> (case m p of
       Ret x q \<Rightarrow> Ret x (v\<lparr>view_plugin := Some q\<rparr>) | Exn e q \<Rightarrow> Exn e (v\<lparr>view_plugin := Some q\<rparr>)))"

definition View_exist_port :: "sim_id \<Rightarrow> string \<Rightarrow> 'p view \<Rightarrow> bool" where
  "View_exist_port x portname v \<longleftrightarrow> portname \<in> snd ` set (mmap_range x (view_observables v))"

definition View_exist :: "sim_id \<Rightarrow> 'p view \<Rightarrow> bool" where
  "View_exist x v \<longleftrightarrow> mmap_range x (view_observables v) \<noteq> []"

definition addObservable :: "'p plugin_ops \<Rightarrow> model_env \<Rightarrow> sim_id \<Rightarrow> string \<Rightarrow> time \<Rightarrow> ('p, unit) vproc" where
  "addObservable W env x portname currenttime =
     thenS (assertS (\<lambda>v. \<not> View_exist_port x portname v) ''not exist(dynamics, portname)'')
    (thenS (assertS (\<lambda>v. view_plugin v \<noteq> None) ''m_plugin'')
    (thenS (updS (\<lambda>v. v\<lparr>view_observables := mmap_insert x portname (view_observables v)\<rparr>))
    (bindS (liftS (env_names env x)) (\<lambda>(name, parent).
     bindS getS (\<lambda>v. on_plugin (oov_onNewObservable W name parent portname (view_name v) currenttime))))))"

definition removeObservable :: "'p plugin_ops \<Rightarrow> model_env \<Rightarrow> sim_id \<Rightarrow> ('p, unit) vproc" where
  "removeObservable W env x =
     thenS (assertS (\<lambda>v. view_plugin v \<noteq> None) ''m_plugin'')
    (bindS getS (\<lambda>v.
     thenS (forS (\<lambda>it. bindS (liftS (env_names env (fst it))) (\<lambda>(name, parent).
              on_plugin (oov_onDelObservable W name parent (snd it) (view_name v) (dfin 0))))
              (mmap_range x (view_observables v)))
       (updS (\<lambda>v. v\<lparr>view_observables := mmap_erase x (view_observables v)\<rparr>))))"

text \<open>\<^verbatim>\<open>View::run\<close> in its three versions: of all observed ports, of one port, of one port with its value.\<close>

definition View_run_value :: "'p plugin_ops \<Rightarrow> model_env \<Rightarrow> sim_id \<Rightarrow> time \<Rightarrow> string \<Rightarrow> val option \<Rightarrow> ('p, unit) vproc" where
  "View_run_value W env x current port val =
     bindS (liftS (env_names env x)) (\<lambda>(name, parent).
     bindS getS (\<lambda>v. on_plugin (oov_onValue W name parent port (view_name v) current val)))"

definition View_run_port :: "'p plugin_ops \<Rightarrow> model_env \<Rightarrow> sim_id \<Rightarrow> time \<Rightarrow> string \<Rightarrow> ('p, unit) vproc" where
  "View_run_port W env x current port =
     bindS getS (\<lambda>v. bindS (liftS (env_observation env current (view_name v) port x)) (View_run_value W env x current port))"

definition View_run :: "'p plugin_ops \<Rightarrow> model_env \<Rightarrow> time \<Rightarrow> ('p, unit) vproc" where
  "View_run W env time = bindS getS (\<lambda>v.
     if view_observables v \<noteq> [] then forS (\<lambda>elem. View_run_port W env (fst elem) time (snd elem)) (view_observables v)
     else on_plugin (oov_onValue W [] [] [] (view_name v) time None))"

definition View_matrix :: "'p plugin_ops \<Rightarrow> 'p view \<Rightarrow> val option result" where
  "View_matrix W v = (case view_plugin v of None \<Rightarrow> Inl (UndefinedBehaviour ''no plug-in'') | Some p \<Rightarrow> oov_matrix W p)"

definition View_finish :: "'p plugin_ops \<Rightarrow> time \<Rightarrow> ('p, val option) vproc" where
  "View_finish W current = on_plugin (oov_finish W current)"

end
