(* ===== verification/Coordinator.thy ===== *)
theory Coordinator
  imports Scheduler Simulator_Properties Timed_Observations Observed_Views Value_Containers
begin

text \<open>
  \<^verbatim>\<open>devs/Coordinator.cpp\<close>: one call of \<^verbatim>\<open>run\<close> processes the bag of the current date: outputs, dispatch of
  the events, transitions, rescheduling, observations, deletions and the next bag. Code that is
  loaded at run time is an argument: the dynamics and the plug-ins with the heap in a record
  \<open>platform\<close>, the executives, which act on the whole coordinator, in a record of their own.
\<close>

section \<open>State\<close>

record ('q, 'h, 'u, 'p) platform =
  pf_heap :: "('q, 'h) heap_ops"
  pf_dynamics :: "sim_id \<Rightarrow> 'u dynamics_ops"
  pf_plugin :: "'p plugin_ops"
  pf_depth :: nat

text \<open>
  \<open>pf_dynamics\<close> is the user's class of each simulator, \<open>pf_depth\<close> bounds the depth of the tree of models for the calls that recur over it. The simulators
  live in \<open>m_eventTable\<close>, \<open>m_simulators\<close> is the vector that owns them, \<open>m_simulator\<close> is the pointer of an
  atomic model to its simulator.
\<close>

record ('q, 'h, 'u, 'p) coordinator =
  m_currentTime :: time
  m_durationTime :: time
  m_parallelize :: bool
  m_simulators :: "sim_id list"
  m_eventTable :: "('q, 'h, 'u) kernel"
  m_timed_observation_scheduler :: "view_event list"
  m_eventViewList :: "(string \<times> 'p view) list"
  m_timedViewList :: "(string \<times> 'p view) list"
  m_delete_model :: "addr list"
  m_isStarted :: bool
  m_graph :: graph
  m_simulator :: "addr \<Rightarrow> sim_id option"

type_synonym ('q, 'h, 'u, 'p, 'a) cproc = "(('q, 'h, 'u, 'p) coordinator, 'a) proc"

record 's executive_ops =
  ex_init :: "sim_id \<Rightarrow> time \<Rightarrow> ('s, time) proc"
  ex_internalTransition :: "sim_id \<Rightarrow> time \<Rightarrow> ('s, unit) proc"
  ex_externalTransition :: "sim_id \<Rightarrow> external_event list \<Rightarrow> time \<Rightarrow> ('s, unit) proc"
  ex_confluentTransitions :: "sim_id \<Rightarrow> time \<Rightarrow> external_event list \<Rightarrow> ('s, unit) proc"
  ex_finish :: "sim_id \<Rightarrow> ('s, unit) proc"

text \<open>A procedure on a part of the state, run on the whole.\<close>

definition focus :: "('s \<Rightarrow> 't) \<Rightarrow> ('t \<Rightarrow> 's \<Rightarrow> 's) \<Rightarrow> ('t, 'a) proc \<Rightarrow> ('s, 'a) proc" where
  "focus get put m s = (case m (get s) of Ret x t \<Rightarrow> Ret x (put t s) | Exn e t \<Rightarrow> Exn e (put t s))"

lemma wp_focus [wp_simps]: "wp (focus get put m) s P = wp m (get s) (\<lambda>x t. P x (put t s))"
  by (simp add: wp_def focus_def split: outcome.split)

definition on_kernel :: "('q, 'h, 'u, 'a) kproc \<Rightarrow> ('q, 'h, 'u, 'p, 'a) cproc" where
  "on_kernel = focus m_eventTable (\<lambda>k c. c\<lparr>m_eventTable := k\<rparr>)"

lemma wp_on_kernel [wp_simps]: "wp (on_kernel m) c P = wp m (m_eventTable c) (\<lambda>x k. P x (c\<lparr>m_eventTable := k\<rparr>))"
  by (simp add: on_kernel_def wp_focus)

definition on_graph :: "'a gproc \<Rightarrow> ('q, 'h, 'u, 'p, 'a) cproc" where
  "on_graph = focus m_graph (\<lambda>g c. c\<lparr>m_graph := g\<rparr>)"

definition on_timed :: "(view_event list, 'a) proc \<Rightarrow> ('q, 'h, 'u, 'p, 'a) cproc" where
  "on_timed = focus m_timed_observation_scheduler (\<lambda>v c. c\<lparr>m_timed_observation_scheduler := v\<rparr>)"

definition on_sim :: "sim_id \<Rightarrow> ('h, 'u, 'a) sproc \<Rightarrow> ('q, 'h, 'u, 'a) kproc" where
  "on_sim x m k = (case k_sims k x of
     None \<Rightarrow> Exn (UndefinedBehaviour ''dangling simulator'') k
   | Some sm \<Rightarrow> (case m sm of Ret y sm' \<Rightarrow> Ret y (put_sim x sm' k) | Exn e sm' \<Rightarrow> Exn e (put_sim x sm' k)))"

text \<open>A view is reached through a pointer to an entry of one of the two maps.\<close>

definition on_entry :: "string \<Rightarrow> ('p, 'a) vproc \<Rightarrow> ((string \<times> 'p view) list, 'a) proc" where
  "on_entry name m l = (case map_of l name of
     None \<Rightarrow> Exn (UndefinedBehaviour ''dangling view'') l
   | Some v \<Rightarrow> (case m v of Ret y v' \<Rightarrow> Ret y (smap_update name v' l) | Exn e v' \<Rightarrow> Exn e (smap_update name v' l)))"

definition on_event_view :: "string \<Rightarrow> ('p, 'a) vproc \<Rightarrow> ('q, 'h, 'u, 'p, 'a) cproc" where
  "on_event_view name m = focus m_eventViewList (\<lambda>l c. c\<lparr>m_eventViewList := l\<rparr>) (on_entry name m)"

definition on_timed_view :: "string \<Rightarrow> ('p, 'a) vproc \<Rightarrow> ('q, 'h, 'u, 'p, 'a) cproc" where
  "on_timed_view name m = focus m_timedViewList (\<lambda>l c. c\<lparr>m_timedViewList := l\<rparr>) (on_entry name m)"

text \<open>What the views can ask of the models in a state of the coordinator.\<close>

definition model_env_of :: "('q, 'h, 'u, 'p) platform \<Rightarrow> ('q, 'h, 'u, 'p) coordinator \<Rightarrow> model_env" where
  "model_env_of P c = \<lparr>
     env_names = (\<lambda>x. case k_sims (m_eventTable c) x of
       None \<Rightarrow> Inl (UndefinedBehaviour ''dangling simulator'')
     | Some sm \<Rightarrow> bindE (outcome_result (getName (sim_model sm) (m_graph c))) (\<lambda>name.
         bindE (outcome_result (getParentName (pf_depth P) (sim_model sm) (m_graph c))) (\<lambda>parent. Inr (name, parent)))),
     env_observation = (\<lambda>t view port x. case k_sims (m_eventTable c) x of
       None \<Rightarrow> Inl (UndefinedBehaviour ''dangling simulator'')
     | Some sm \<Rightarrow> dyn_observation (pf_dynamics P x) t view port (sim_dynamics sm))\<rparr>"

lemma wp_on_sim [wp_simps]:
  "wp (on_sim x m) k P = (\<exists>sm. k_sims k x = Some sm \<and> wp m sm (\<lambda>y sm'. P y (put_sim x sm' k)))"
  by (simp add: wp_def on_sim_def split: option.split outcome.split)

section \<open>Dispatch of the output events\<close>

definition call_outputs :: "('q, 'h, 'u, 'p) platform \<Rightarrow> time \<Rightarrow> sim_id list \<Rightarrow> ('q, 'h, 'u, unit) kproc" where
  "call_outputs P t xs = forS (\<lambda>x. on_sim x (Simulator_output (pf_dynamics P x) t)) xs"

text \<open>
  One output event: to every target of its port. The range of targets is walked only when its first
  pointer is not null.
\<close>

definition dispatch_event :: "('q, 'h, 'u, 'p) platform \<Rightarrow> graph \<Rightarrow> (addr \<Rightarrow> sim_id option) \<Rightarrow> sim_id \<Rightarrow> external_event
    \<Rightarrow> ('q, 'h, 'u, unit) kproc" where
  "dispatch_event P g gs x ev =
     bindS (on_sim x (targets g gs (ev_port ev))) (\<lambda>ts.
     if ts \<noteq> [] \<and> fst (hd ts) \<noteq> None then
       forS (\<lambda>jt. case fst jt of
           None \<Rightarrow> throwS (UndefinedBehaviour ''null simulator'')
         | Some y \<Rightarrow> addExternal (pf_heap P) y (ev_attributes ev) (snd jt)) ts
     else retS ())"

text \<open>
  The vector may grow while its first \<open>number\<close> entries are visited; new entries are appended, so the
  entries visited are those it had at the start.
\<close>

definition dispatchExternalEvent :: "('q, 'h, 'u, 'p) platform \<Rightarrow> graph \<Rightarrow> (addr \<Rightarrow> sim_id option) \<Rightarrow> sim_id list
    \<Rightarrow> ('q, 'h, 'u, unit) kproc" where
  "dispatchExternalEvent P g gs simulators = forS (\<lambda>x.
     bindS (get_sim x) (\<lambda>sm.
     if sim_result sm = [] then retS ()
     else thenS (forS (dispatch_event P g gs x) (sim_result sm))
            (upd_sim x (\<lambda>sm. sm\<lparr>sim_result := []\<rparr>)))) simulators"

section \<open>Transitions\<close>

text \<open>The depth of a model, \<^verbatim>\<open>depth\<close>: minus the number of the coupled models above it.\<close>

definition model_depth :: "nat \<Rightarrow> addr \<Rightarrow> int gproc" where
  "model_depth n a = bindS (getParent a) (\<lambda>p. bindS (parent_chain n p) (\<lambda>l. retS (- int (length l))))"

definition sim_depth :: "('q, 'h, 'u, 'p) platform \<Rightarrow> ('q, 'h, 'u, 'p) coordinator \<Rightarrow> sim_id \<Rightarrow> int" where
  "sim_depth P c x = (case k_sims (m_eventTable c) x of
     None \<Rightarrow> 0
   | Some sm \<Rightarrow> (case model_depth (pf_depth P) (sim_model sm) (m_graph c) of Ret d _ \<Rightarrow> d | Exn _ _ \<Rightarrow> 0))"

text \<open>\<^verbatim>\<open>std::sort\<close> leaves the order of equal depths open; the model keeps the order they had.\<close>

definition sort_executives :: "('q, 'h, 'u, 'p) platform \<Rightarrow> ('q, 'h, 'u, 'p, unit) cproc" where
  "sort_executives P = updS (\<lambda>c. c\<lparr>m_eventTable := (m_eventTable c)\<lparr>k_bag :=
     (k_bag (m_eventTable c))\<lparr>bag_executives := sort_key (sim_depth P c) (bag_executives (k_bag (m_eventTable c)))\<rparr>\<rparr>\<rparr>)"

text \<open>
  The transitions of the dynamics, one after the other or by the thread pool, whose jobs catch the
  exceptions. The pool is the subject of its own theory: it computes what the loop over the jobs does.
\<close>

definition dynamics_transitions :: "('q, 'h, 'u, 'p) platform \<Rightarrow> bool \<Rightarrow> time \<Rightarrow> sim_id list \<Rightarrow> ('q, 'h, 'u, unit) kproc" where
  "dynamics_transitions P parallelize t xs =
     (if parallelize then forS (\<lambda>x. on_sim x (thenS (simulator_process (pf_dynamics P x) t) (retS ()))) xs
      else forS (\<lambda>x. on_sim x (thenS (transition (pf_dynamics P x) t) (retS ()))) xs)"

text \<open>
  The transition of an executive: the functions of \<^verbatim>\<open>Simulator\<close> around user code that acts on the
  coordinator.
\<close>

definition exec_around :: "('q, 'h, 'u, 'p) platform \<Rightarrow> sim_id \<Rightarrow> time \<Rightarrow> (observer \<Rightarrow> (string \<times> string) list) \<Rightarrow>
    (('h, 'u) simulator \<Rightarrow> ('h, 'u) simulator) \<Rightarrow> ('q, 'h, 'u, 'p, unit) cproc \<Rightarrow> ('q, 'h, 'u, 'p, time) cproc" where
  "exec_around P x t pp reset m =
     thenS m
    (thenS (on_kernel (on_sim x (observe (pf_dynamics P x) pp t)))
    (thenS (on_kernel (upd_sim x reset)) (on_kernel (on_sim x (set_tn (pf_dynamics P x) t)))))"

definition exec_transition :: "('q, 'h, 'u, 'p) platform \<Rightarrow> ('q, 'h, 'u, 'p) coordinator executive_ops \<Rightarrow> time \<Rightarrow> sim_id
    \<Rightarrow> ('q, 'h, 'u, 'p, time) cproc" where
  "exec_transition P E t x = bindS (on_kernel (get_sim x)) (\<lambda>sm.
     if sim_internal sm then
       (if sim_external sm = [] then
          exec_around P x t ppInternal (\<lambda>sm. sm\<lparr>sim_internal := False\<rparr>) (ex_internalTransition E x t)
        else exec_around P x t ppConfluent (\<lambda>sm. sm\<lparr>sim_external := [], sim_internal := False\<rparr>)
               (ex_confluentTransitions E x t (sim_external sm)))
     else
       thenS (assertS (\<lambda>_. sim_external sm \<noteq> []) ''Simulator d-ext error'')
         (exec_around P x t ppExternal (\<lambda>sm. sm\<lparr>sim_external := []\<rparr>) (ex_externalTransition E x (sim_external sm) t)))"

definition executives_transitions :: "('q, 'h, 'u, 'p) platform \<Rightarrow> ('q, 'h, 'u, 'p) coordinator executive_ops \<Rightarrow> sim_id list
    \<Rightarrow> ('q, 'h, 'u, 'p, unit) cproc" where
  "executives_transitions P E xs = forS (\<lambda>x. bindS getS (\<lambda>c. thenS (exec_transition P E (m_currentTime c) x) (retS ()))) xs"

definition reschedule :: "('q, 'h, 'u, 'p) platform \<Rightarrow> sim_id list \<Rightarrow> ('q, 'h, 'u, unit) kproc" where
  "reschedule P xs = forS (\<lambda>x. bindS (get_sim x) (\<lambda>sm.
     if \<not> isInfinity (sim_tn sm) then addInternal (pf_heap P) x (sim_tn sm) else retS ())) xs"

section \<open>Observations\<close>

text \<open>The observations a simulator gathered go to their views and are cleared.\<close>

definition send_observations :: "('q, 'h, 'u, 'p) platform \<Rightarrow> sim_id \<Rightarrow> ('q, 'h, 'u, 'p, unit) cproc" where
  "send_observations P x = bindS (on_kernel (get_sim x)) (\<lambda>sm.
     thenS (forS (\<lambda>obs. bindS getS (\<lambda>c.
              on_event_view (obs_view obs)
                (View_run_value (pf_plugin P) (model_env_of P c) x (m_currentTime c) (obs_port obs) (obs_value obs))))
              (sim_observations sm))
       (on_kernel (upd_sim x (\<lambda>sm. sm\<lparr>sim_observations := []\<rparr>))))"

text \<open>
  One turn of the loop over the timed views: each view runs at its own date and, if its next date is
  finite, is scheduled again.
\<close>

definition timed_entry :: "('q, 'h, 'u, 'p) platform \<Rightarrow> view_event \<Rightarrow> ('q, 'h, 'u, 'p, unit) cproc" where
  "timed_entry P elem =
     thenS (bindS getS (\<lambda>c. on_timed_view (ve_view elem) (View_run (pf_plugin P) (model_env_of P c) (ve_time elem))))
       (let elem' = ViewEvent_update elem in
        if \<not> isInfinity (ve_time elem') then on_timed (addObservation (ve_view elem') (ve_time elem') (ve_timestep elem'))
        else retS ())"

definition timed_round :: "('q, 'h, 'u, 'p) platform \<Rightarrow> time \<Rightarrow> ('q, 'h, 'u, 'p, unit) cproc" where
  "timed_round P eatuntil = bindS (on_timed (getObservationAtTime eatuntil)) (\<lambda>obs.
     if obs \<noteq> [] then
       thenS (updS (\<lambda>c. c\<lparr>m_currentTime := ve_time (last obs)\<rparr>)) (forS (timed_entry P) obs)
     else retS ())"

partial_function (option) timed_loop :: "('q, 'h, 'u, 'p) platform \<Rightarrow> time \<Rightarrow> ('q, 'h, 'u, 'p) coordinator
    \<Rightarrow> (('q, 'h, 'u, 'p) coordinator, unit) outcome option" where
  "timed_loop P eatuntil c =
     (if haveObservationAtTime eatuntil (m_timed_observation_scheduler c) then
        (case timed_round P eatuntil c of Ret _ c' \<Rightarrow> timed_loop P eatuntil c' | Exn e c' \<Rightarrow> Some (Exn e c'))
      else Some (Ret () c))"

definition timed_finalize :: "('q, 'h, 'u, 'p) platform \<Rightarrow> time \<Rightarrow> ('q, 'h, 'u, 'p, unit) cproc" where
  "timed_finalize P t = bindS getS (\<lambda>c.
     thenS (forS (\<lambda>elem. bindS getS (\<lambda>c. on_timed_view (ve_view elem) (View_run (pf_plugin P) (model_env_of P c) t)))
              (m_timed_observation_scheduler c))
       (updS (\<lambda>c. c\<lparr>m_timed_observation_scheduler := []\<rparr>)))"

definition timed_observations :: "('q, 'h, 'u, 'p) platform \<Rightarrow> ('q, 'h, 'u, 'p, unit) cproc" where
  "timed_observations P = bindS getS (\<lambda>c.
     let nxt = getNextTime (pf_heap P) (m_eventTable c);
         eatuntil = (if dless (m_durationTime c) nxt then m_durationTime c else nxt)
     in if dless (m_currentTime c) nxt then
          thenS (run_loop (timed_loop P eatuntil))
            (if isInfinity nxt \<or> dless (m_durationTime c) nxt then
               thenS (updS (\<lambda>c. c\<lparr>m_currentTime := m_durationTime c\<rparr>)) (timed_finalize P (m_durationTime c))
             else retS ())
        else retS ())"


section \<open>Changes of the structure\<close>

type_synonym source = "sim_id option \<times> string"

text \<open>
  \<^verbatim>\<open>getSimulatorsSource\<close> of one port and of all input ports, \<^verbatim>\<open>updateSimulatorsTarget\<close>. The list is passed
  and returned.
\<close>

definition getSimulatorsSource_port :: "addr \<Rightarrow> string \<Rightarrow> source list \<Rightarrow> ('q, 'h, 'u, 'p, source list) cproc" where
  "getSimulatorsSource_port model port lst = bindS getS (\<lambda>c.
     if m_isStarted c then
       (case getAtomicModelsSource (m_graph c) model port [] of
          None \<Rightarrow> throwS NonTermination
        | Some r \<Rightarrow> bindS (liftS r) (\<lambda>result. retS (lst @ map (\<lambda>elem. (m_simulator c (fst elem), snd elem)) result)))
     else retS lst)"

fun sources_of_ports :: "addr \<Rightarrow> string list \<Rightarrow> source list \<Rightarrow> ('q, 'h, 'u, 'p, source list) cproc" where
  "sources_of_ports model [] lst = retS lst"
| "sources_of_ports model (p # ps) lst = bindS (getSimulatorsSource_port model p lst) (sources_of_ports model ps)"

definition getSimulatorsSource :: "addr \<Rightarrow> source list \<Rightarrow> ('q, 'h, 'u, 'p, source list) cproc" where
  "getSimulatorsSource model lst = bindS getS (\<lambda>c.
     if m_isStarted c then
       bindS (on_graph (getPortList In model)) (\<lambda>inputs. sources_of_ports model (map fst inputs) lst)
     else retS lst)"

definition updateSimulatorsTarget :: "source list \<Rightarrow> ('q, 'h, 'u, 'p, unit) cproc" where
  "updateSimulatorsTarget lst = bindS getS (\<lambda>c.
     if m_isStarted c then
       forS (\<lambda>elem. case fst elem of
           None \<Rightarrow> retS ()
         | Some x \<Rightarrow> bindS getS (\<lambda>c. on_kernel (on_sim x (updateSimulatorTargets (m_graph c) (m_simulator c) (snd elem))))) lst
     else retS ())"

definition removeSimulatorTargetPort :: "addr \<Rightarrow> string \<Rightarrow> ('q, 'h, 'u, 'p, unit) cproc" where
  "removeSimulatorTargetPort model port = bindS getS (\<lambda>c. case m_simulator c model of
     None \<Rightarrow> throwS (UndefinedBehaviour ''null simulator'')
   | Some x \<Rightarrow> on_kernel (upd_sim x (removeTargetPort port)))"

definition prepare_dynamic_deletion :: "addr \<Rightarrow> ('q, 'h, 'u, 'p, unit) cproc" where
  "prepare_dynamic_deletion model = updS (\<lambda>c. c\<lparr>m_delete_model := m_delete_model c @ [model]\<rparr>)"

definition Coordinator_addModel :: "addr \<Rightarrow> 'u \<Rightarrow> bool \<Rightarrow> sim_id \<Rightarrow> ('q, 'h, 'u, 'p, sim_id) cproc" where
  "Coordinator_addModel model u executive x =
     thenS (updS (\<lambda>c. c\<lparr>m_simulators := m_simulators c @ [x], m_simulator := (m_simulator c)(model \<mapsto> x),
        m_eventTable := put_sim x (Simulator_new model u executive) (m_eventTable c)\<rparr>)) (retS x)"

definition addObservableToView :: "('q, 'h, 'u, 'p) platform \<Rightarrow> addr \<Rightarrow> string \<Rightarrow> string \<Rightarrow> ('q, 'h, 'u, 'p, unit) cproc" where
  "addObservableToView P model portname view =
     thenS (assertS (\<lambda>c. m_simulator c model \<noteq> None) ''model->get_simulator()'')
    (bindS getS (\<lambda>c. case m_simulator c model of
       None \<Rightarrow> retS ()
     | Some x \<Rightarrow>
         if map_of (m_eventViewList c) view \<noteq> None then
           on_event_view view (addObservable (pf_plugin P) (model_env_of P c) x portname (m_currentTime c))
         else if map_of (m_timedViewList c) view \<noteq> None then
           on_timed_view view (addObservable (pf_plugin P) (model_env_of P c) x portname (m_currentTime c))
         else retS ()))"

definition delAtomicModel :: "('q, 'h, 'u, 'p) platform \<Rightarrow> addr \<Rightarrow> sim_id list \<Rightarrow> ('q, 'h, 'u, 'p, sim_id list) cproc" where
  "delAtomicModel P atom to_delete = bindS getS (\<lambda>c. case m_simulator c atom of
     None \<Rightarrow> throwS (UndefinedBehaviour ''null simulator'')
   | Some x \<Rightarrow>
       thenS (forS (\<lambda>elem. on_event_view (fst elem) (removeObservable (pf_plugin P) (model_env_of P c) x)) (m_eventViewList c))
      (thenS (forS (\<lambda>elem. on_timed_view (fst elem) (removeObservable (pf_plugin P) (model_env_of P c) x)) (m_timedViewList c))
         (retS (to_delete @ [x]))))"

fun delAtomicModels :: "('q, 'h, 'u, 'p) platform \<Rightarrow> addr list \<Rightarrow> sim_id list \<Rightarrow> ('q, 'h, 'u, 'p, sim_id list) cproc" where
  "delAtomicModels P [] to_delete = retS to_delete"
| "delAtomicModels P (a # as) to_delete = bindS (delAtomicModel P a to_delete) (delAtomicModels P as)"

definition delCoupledModel :: "('q, 'h, 'u, 'p) platform \<Rightarrow> addr \<Rightarrow> sim_id list \<Rightarrow> ('q, 'h, 'u, 'p, sim_id list) cproc" where
  "delCoupledModel P mdl to_delete = bindS getS (\<lambda>c. case getAtomicModelList (m_graph c) mdl [] of
     None \<Rightarrow> throwS NonTermination
   | Some r \<Rightarrow> bindS (liftS r) (\<lambda>lst. delAtomicModels P lst to_delete))"

definition delete_from_graph :: "('q, 'h, 'u, 'p) platform \<Rightarrow> addr \<Rightarrow> sim_id list \<Rightarrow> ('q, 'h, 'u, 'p, sim_id list) cproc" where
  "delete_from_graph P elem lst =
     bindS (getSimulatorsSource elem []) (\<lambda>toupdate.
     bindS (on_graph (deref elem)) (\<lambda>nd.
     bindS (if isCoupled nd then delCoupledModel P elem lst else delAtomicModel P elem lst) (\<lambda>lst'.
     thenS (case m_parent nd of None \<Rightarrow> retS () | Some pa \<Rightarrow> on_graph (delModel (pf_depth P) pa elem))
    (thenS (updateSimulatorsTarget toupdate) (retS lst')))))"

fun delete_models :: "('q, 'h, 'u, 'p) platform \<Rightarrow> addr list \<Rightarrow> sim_id list \<Rightarrow> ('q, 'h, 'u, 'p, sim_id list) cproc" where
  "delete_models P [] lst = retS lst"
| "delete_models P (elem # es) lst = bindS (delete_from_graph P elem lst) (delete_models P es)"

definition finish_simulator :: "('q, 'h, 'u, 'p) platform \<Rightarrow> ('q, 'h, 'u, 'p) coordinator executive_ops \<Rightarrow> sim_id
    \<Rightarrow> ('q, 'h, 'u, 'p, unit) cproc" where
  "finish_simulator P E x =
     thenS (bindS (on_kernel (get_sim x)) (\<lambda>sm.
        if sim_executive sm then thenS (ex_finish E x) (on_kernel (on_sim x (observe (pf_dynamics P x) ppFinish infinity)))
        else on_kernel (on_sim x (Simulator_finish (pf_dynamics P x)))))
       (send_observations P x)"

text \<open>Erasing the owning pointer from the vector destroys the simulator.\<close>

definition delete_simulator :: "('q, 'h, 'u, 'p) platform \<Rightarrow> ('q, 'h, 'u, 'p) coordinator executive_ops \<Rightarrow> sim_id
    \<Rightarrow> ('q, 'h, 'u, 'p, unit) cproc" where
  "delete_simulator P E x =
     thenS (on_kernel (delSimulator (pf_heap P) x))
    (bindS getS (\<lambda>c. if x \<in> set (m_simulators c) then
       thenS (finish_simulator P E x)
         (updS (\<lambda>c. c\<lparr>m_simulators := remove1 x (m_simulators c),
            m_eventTable := (m_eventTable c)\<lparr>k_sims := (k_sims (m_eventTable c))(x := None)\<rparr>\<rparr>))
     else retS ()))"

definition dynamic_deletion :: "('q, 'h, 'u, 'p) platform \<Rightarrow> ('q, 'h, 'u, 'p) coordinator executive_ops \<Rightarrow> ('q, 'h, 'u, 'p, unit) cproc" where
  "dynamic_deletion P E = bindS getS (\<lambda>c.
     bindS (delete_models P (m_delete_model c) []) (\<lambda>lst.
     thenS (updS (\<lambda>c. c\<lparr>m_delete_model := []\<rparr>)) (forS (delete_simulator P E) lst)))"

section \<open>The operations of the coordinator\<close>

definition processInit :: "('q, 'h, 'u, 'p) platform \<Rightarrow> ('q, 'h, 'u, 'p) coordinator executive_ops \<Rightarrow> sim_id
    \<Rightarrow> ('q, 'h, 'u, 'p, unit) cproc" where
  "processInit P E x = bindS getS (\<lambda>c. bindS (on_kernel (get_sim x)) (\<lambda>sm.
     bindS (if sim_executive sm then
              bindS (ex_init E x (m_currentTime c)) (\<lambda>tn.
                if dless tn (dfin 0) then throwS (ModellingError ''Negative init function'')
                else thenS (on_kernel (upd_sim x (\<lambda>sm. sm\<lparr>sim_tn := dadd tn (m_currentTime c)\<rparr>))) (retS (dadd tn (m_currentTime c))))
            else on_kernel (on_sim x (Simulator_init (pf_dynamics P x) (m_currentTime c)))) (\<lambda>tn.
     if \<not> isInfinity tn then on_kernel (addInternal (pf_heap P) x tn) else retS ())))"

definition Coordinator_run :: "('q, 'h, 'u, 'p) platform \<Rightarrow> ('q, 'h, 'u, 'p) coordinator executive_ops \<Rightarrow> ('q, 'h, 'u, 'p, unit) cproc" where
  "Coordinator_run P E =
     thenS (updS (\<lambda>c. let b = k_bag (m_eventTable c) in
        if bag_dynamics b \<noteq> [] \<or> bag_executives b \<noteq> [] then c\<lparr>m_currentTime := k_time (m_eventTable c)\<rparr> else c))
    (bindS getS (\<lambda>c.
     let dynamics = bag_dynamics (k_bag (m_eventTable c)); executives = bag_executives (k_bag (m_eventTable c));
         dispatch = dispatchExternalEvent P (m_graph c) (m_simulator c) in
     thenS (on_kernel (thenS (call_outputs P (m_currentTime c) dynamics) (dispatch dynamics)))
    (thenS (on_kernel (thenS (call_outputs P (m_currentTime c) executives) (dispatch executives)))
    (thenS (sort_executives P)
    (thenS (bindS getS (\<lambda>c. on_kernel (dynamics_transitions P (m_parallelize c) (m_currentTime c) (bag_dynamics (k_bag (m_eventTable c))))))
    (thenS (bindS getS (\<lambda>c. on_kernel (reschedule P (bag_dynamics (k_bag (m_eventTable c))))))
    (thenS (bindS getS (\<lambda>c. executives_transitions P E (bag_executives (k_bag (m_eventTable c)))))
    (thenS (bindS getS (\<lambda>c. on_kernel (reschedule P (bag_executives (k_bag (m_eventTable c))))))
    (thenS (bindS getS (\<lambda>c. forS (send_observations P) (bag_dynamics (k_bag (m_eventTable c)))))
    (thenS (bindS getS (\<lambda>c. forS (send_observations P) (bag_executives (k_bag (m_eventTable c)))))
    (thenS (timed_observations P)
    (thenS (bindS getS (\<lambda>c. if m_delete_model c \<noteq> [] then dynamic_deletion P E else retS ()))
    (thenS (on_kernel (makeNextBag (pf_heap P)))
       (updS (\<lambda>c. c\<lparr>m_currentTime := k_time (m_eventTable c)\<rparr>)))))))))))))))"

text \<open>The matrices of the views; the map is built when the first plug-in has one.\<close>

definition add_matrix :: "string \<Rightarrow> val option \<Rightarrow> map_value option \<Rightarrow> map_value option" where
  "add_matrix name matrix result = (case matrix of
     None \<Rightarrow> result
   | Some m \<Rightarrow> Some (Map_add (case result of None \<Rightarrow> [] | Some r \<Rightarrow> r) name (Some m)))"

fun gather_matrices :: "'p plugin_ops \<Rightarrow> (string \<times> 'p view) list \<Rightarrow> map_value option \<Rightarrow> map_value option result" where
  "gather_matrices W [] result = Inr result"
| "gather_matrices W ((name, v) # l) result =
     bindE (View_matrix W v) (\<lambda>matrix. gather_matrices W l (add_matrix name matrix result))"

definition getMap :: "('q, 'h, 'u, 'p) platform \<Rightarrow> ('q, 'h, 'u, 'p) coordinator \<Rightarrow> map_value option result" where
  "getMap P c = bindE (gather_matrices (pf_plugin P) (m_timedViewList c) None) (gather_matrices (pf_plugin P) (m_eventViewList c))"

fun finish_views :: "(string \<Rightarrow> ('p, val option) vproc \<Rightarrow> ('q, 'h, 'u, 'p, val option) cproc) \<Rightarrow> 'p plugin_ops \<Rightarrow> string list
    \<Rightarrow> map_value option \<Rightarrow> ('q, 'h, 'u, 'p, map_value option) cproc" where
  "finish_views on W [] result = retS result"
| "finish_views on W (name # l) result = bindS getS (\<lambda>c.
     bindS (on name (View_finish W (m_currentTime c))) (\<lambda>matrix. finish_views on W l (add_matrix name matrix result)))"

definition Coordinator_finish :: "('q, 'h, 'u, 'p) platform \<Rightarrow> ('q, 'h, 'u, 'p) coordinator executive_ops
    \<Rightarrow> ('q, 'h, 'u, 'p, map_value option) cproc" where
  "Coordinator_finish P E = bindS getS (\<lambda>c.
     thenS (forS (finish_simulator P E) (m_simulators c))
    (bindS (finish_views on_timed_view (pf_plugin P) (map fst (m_timedViewList c)) None)
       (finish_views on_event_view (pf_plugin P) (map fst (m_eventViewList c)))))"

end
