(* ===== verification/Dispatch.thy ===== *)
theory Dispatch
  imports Coordinator
begin

text \<open>
  The dispatch of the output events by the coordinator: every event reaches exactly the simulators
  that the graph connects to its port, and the invariant of the scheduler is kept.
\<close>

section \<open>Related options\<close>

lemma rel_option_trans:
  "rel_option A x y \<Longrightarrow> rel_option B y z \<Longrightarrow> (\<And>a b c. A a b \<Longrightarrow> B b c \<Longrightarrow> C a c) \<Longrightarrow> rel_option C x z"
  by (cases x; cases y; cases z) auto

lemma rel_option_forward: "rel_option R (Some a) y \<Longrightarrow> \<exists>b. y = Some b \<and> R a b"
  by (cases y) auto

lemma rel_option_backward: "rel_option R x (Some b) \<Longrightarrow> \<exists>a. x = Some a \<and> R a b"
  by (cases x) auto

section \<open>Deliveries\<close>

definition later :: "time \<Rightarrow> ('h \<Rightarrow> (time \<times> sim_id) option) \<Rightarrow> bool" where
  "later now es \<longleftrightarrow> (\<forall>h t x. es h = Some (t, x) \<longrightarrow> dless now t)"

text \<open>Every atomic model has a simulator, and every simulator's cache of targets is valid.\<close>

definition wired :: "graph \<Rightarrow> (addr \<Rightarrow> sim_id option) \<Rightarrow> (sim_id \<Rightarrow> ('h, 'u) simulator option) \<Rightarrow> bool" where
  "wired g gs sims \<longleftrightarrow> graph_ok g \<and> (\<forall>b. atomic_at g b \<longrightarrow> (\<exists>y sm. gs b = Some y \<and> sims y = Some sm))
     \<and> (\<forall>x sm. sims x = Some sm \<longrightarrow> targets_cached g gs sm)"

text \<open>What an output event of the model at \<open>a\<close> is to become: the receivers with the event on their port.\<close>

definition delivers :: "graph \<Rightarrow> (addr \<Rightarrow> sim_id option) \<Rightarrow> addr \<Rightarrow> external_event \<Rightarrow> (sim_id \<times> external_event) set" where
  "delivers g gs a ev = {(y, \<lparr>ev_attributes = ev_attributes ev, ev_port = q\<rparr>) | y b q.
     reaches Out IntIn g (Out, a, ev_port ev) (b, q) \<and> gs b = Some y}"

text \<open>
  The deliveries \<open>R\<close> have been made and the outputs of the simulators in \<open>X\<close> cleared; the receivers are in
  the bag and not in the heap, and nothing else has changed but the caches of the targets.
\<close>

definition delivered :: "graph \<Rightarrow> (addr \<Rightarrow> sim_id option) \<Rightarrow> (sim_id \<times> external_event) set \<Rightarrow> sim_id set \<Rightarrow> sim_id
    \<Rightarrow> ('h, 'u) simulator \<Rightarrow> ('h, 'u) simulator \<Rightarrow> bool" where
  "delivered g gs R X y sm sm' \<longleftrightarrow> (targets_cached g gs sm \<longrightarrow> targets_cached g gs sm') \<and>
     (\<exists>evs m. set evs = {e. (y, e) \<in> R} \<and> sm' = sm\<lparr>sim_targets := m, sim_external := sim_external sm @ evs,
        sim_result := (if y \<in> X then [] else sim_result sm), sim_handle := (if y \<in> fst ` R then None else sim_handle sm)\<rparr>)"

definition got :: "graph \<Rightarrow> (addr \<Rightarrow> sim_id option) \<Rightarrow> (sim_id \<times> external_event) set \<Rightarrow> sim_id set
    \<Rightarrow> ('q, 'h, 'u) kernel \<Rightarrow> ('q, 'h, 'u) kernel \<Rightarrow> bool" where
  "got g gs R X k k' \<longleftrightarrow> k_time k' = k_time k \<and> bag_unique (k_bag k') = bag_unique (k_bag k) \<union> fst ` R
     \<and> (\<forall>y. rel_option (delivered g gs R X y) (k_sims k y) (k_sims k' y))"

lemma deliveredI:
  assumes "set evs = {e. (y, e) \<in> R}" "targets_cached g gs sm \<Longrightarrow> targets_cached g gs sm'"
    "sm' = sm\<lparr>sim_targets := m, sim_external := sim_external sm @ evs,
        sim_result := (if y \<in> X then [] else sim_result sm), sim_handle := (if y \<in> fst ` R then None else sim_handle sm)\<rparr>"
  shows "delivered g gs R X y sm sm'"
  unfolding delivered_def using assms by blast

lemma delivered_refl: "y \<notin> fst ` R \<Longrightarrow> y \<notin> X \<Longrightarrow> delivered g gs R X y sm sm"
  by (rule deliveredI [where evs = "[]" and m = "sim_targets sm"]) (force, auto)

lemma delivered_fields:
  assumes "delivered g gs R X y sm sm'"
  obtains evs where "set evs = {e. (y, e) \<in> R}" "sim_external sm' = sim_external sm @ evs"
    "sim_result sm' = (if y \<in> X then [] else sim_result sm)" "sim_handle sm' = (if y \<in> fst ` R then None else sim_handle sm)"
    "sim_dynamics sm' = sim_dynamics sm" "sim_observer sm' = sim_observer sm" "sim_executive sm' = sim_executive sm"
    "sim_model sm' = sim_model sm" "sim_observations sm' = sim_observations sm" "sim_tn sm' = sim_tn sm" "sim_internal sm' = sim_internal sm"
proof -
  from assms obtain evs m where "set evs = {e. (y, e) \<in> R}" and sm': "sm' = sm\<lparr>sim_targets := m, sim_external := sim_external sm @ evs,
      sim_result := (if y \<in> X then [] else sim_result sm), sim_handle := (if y \<in> fst ` R then None else sim_handle sm)\<rparr>"
    unfolding delivered_def by blast
  then show thesis by (intro that [of evs]) (simp_all add: sm')
qed

lemma delivered_trans:
  assumes "delivered g gs R X y a b" "delivered g gs R' X' y b c"
  shows "delivered g gs (R \<union> R') (X \<union> X') y a c"
proof -
  from assms(1) obtain evs m where 1: "set evs = {e. (y, e) \<in> R}" "b = a\<lparr>sim_targets := m, sim_external := sim_external a @ evs,
      sim_result := (if y \<in> X then [] else sim_result a), sim_handle := (if y \<in> fst ` R then None else sim_handle a)\<rparr>"
    unfolding delivered_def by blast
  from assms(2) obtain evs' m' where 2: "set evs' = {e. (y, e) \<in> R'}" "c = b\<lparr>sim_targets := m', sim_external := sim_external b @ evs',
      sim_result := (if y \<in> X' then [] else sim_result b), sim_handle := (if y \<in> fst ` R' then None else sim_handle b)\<rparr>"
    unfolding delivered_def by blast
  have "c = a\<lparr>sim_targets := m', sim_external := sim_external a @ (evs @ evs'),
      sim_result := (if y \<in> X \<union> X' then [] else sim_result a),
      sim_handle := (if y \<in> fst ` (R \<union> R') then None else sim_handle a)\<rparr>"
    unfolding 2(2) 1(2) by (auto simp: image_Un)
  moreover have "set (evs @ evs') = {e. (y, e) \<in> R \<union> R'}" using 1(1) 2(1) by auto
  ultimately show ?thesis using assms unfolding delivered_def by blast
qed

lemma got_refl: "got g gs {} {} k k"
  by (simp add: got_def option.rel_refl delivered_refl)

lemma got_trans:
  assumes "got g gs R X k k'" "got g gs R' X' k' k''"
  shows "got g gs (R \<union> R') (X \<union> X') k k''"
proof -
  have "rel_option (delivered g gs (R \<union> R') (X \<union> X') y) (k_sims k y) (k_sims k'' y)" for y
  proof -
    have r: "rel_option (delivered g gs R X y) (k_sims k y) (k_sims k' y)"
      "rel_option (delivered g gs R' X' y) (k_sims k' y) (k_sims k'' y)" using assms by (simp_all add: got_def)
    show ?thesis by (rule rel_option_trans [OF r]) (rule delivered_trans)
  qed
  then show ?thesis using assms by (auto simp: got_def image_Un)
qed

lemma got_sim:
  assumes "got g gs R X k k'" "k_sims k y = Some sm"
  obtains sm' where "k_sims k' y = Some sm'" "delivered g gs R X y sm sm'"
proof -
  have "rel_option (delivered g gs R X y) (k_sims k y) (k_sims k' y)" using assms(1) by (simp add: got_def)
  from rel_option_forward [OF this [unfolded assms(2)]] show thesis using that by blast
qed

lemma got_sim_back:
  assumes "got g gs R X k k'" "k_sims k' y = Some sm'"
  obtains sm where "k_sims k y = Some sm" "delivered g gs R X y sm sm'"
proof -
  have "rel_option (delivered g gs R X y) (k_sims k y) (k_sims k' y)" using assms(1) by (simp add: got_def)
  from rel_option_backward [OF this [unfolded assms(2)]] show thesis using that by blast
qed

lemma got_wired:
  assumes got: "got g gs R X k k'" and w: "wired g gs (k_sims k)"
  shows "wired g gs (k_sims k')"
proof -
  have live: "\<exists>sm'. k_sims k' y = Some sm'" if "k_sims k y = Some sm" for y sm using got_sim [OF got that] by blast
  have "targets_cached g gs sm'" if sm': "k_sims k' y = Some sm'" for y sm'
  proof -
    obtain sm where "k_sims k y = Some sm" "delivered g gs R X y sm sm'" by (rule got_sim_back [OF got sm'])
    then show ?thesis using w by (auto simp: wired_def delivered_def)
  qed
  moreover have "\<exists>y sm. gs b = Some y \<and> k_sims k' y = Some sm" if "atomic_at g b" for b
    using w that live unfolding wired_def by blast
  ultimately show ?thesis using w by (simp add: wired_def)
qed

lemma wp_got_step:
  assumes "got g gs R X k k1" "wp m k1 (\<lambda>_ k'. Q k' \<and> got g gs R' X' k1 k')"
  shows "wp m k1 (\<lambda>_ k'. Q k' \<and> got g gs (R \<union> R') (X \<union> X') k k')"
  by (rule wp_mono [OF assms(2)]) (blast intro: got_trans [OF assms(1)])

section \<open>The dispatch keeps the invariant\<close>

definition delivering :: "('q \<Rightarrow> 'h \<Rightarrow> (time \<times> sim_id) option) \<Rightarrow> ('q \<Rightarrow> bool) \<Rightarrow> ('q, 'h, 'u) kernel \<Rightarrow> bool" where
  "delivering elems invar k \<longleftrightarrow> sched_ok elems invar k \<and> later (k_time k) (elems (k_heap k))"

lemma delivering_agree: "delivering elems invar k \<Longrightarrow> agree (elems (k_heap k)) (k_sims k)"
  by (simp add: delivering_def sched_ok_def sched_from_def)

lemma later_if_handles:
  assumes "delivering elems invar k" "sched_ok elems invar k'" "k_time k' = k_time k"
    and "\<And>y sm'. k_sims k' y = Some sm' \<Longrightarrow> sim_handle sm' \<noteq> None \<Longrightarrow>
      \<exists>sm. k_sims k y = Some sm \<and> sim_handle sm \<noteq> None \<and> sim_tn sm = sim_tn sm'"
  shows "delivering elems invar k'"
proof -
  have "dless (k_time k) t" if e: "elems (k_heap k') h = Some (t, y)" for h t y
  proof -
    have ag: "agree (elems (k_heap k')) (k_sims k')" using assms(2) by (simp add: sched_ok_def sched_from_def)
    obtain sm' where "k_sims k' y = Some sm'" "sim_handle sm' \<noteq> None" "sim_tn sm' = t"
      using agree_entry [OF ag e] by auto
    from assms(4) [OF this(1,2)] this(3) obtain sm h' where
      sm: "k_sims k y = Some sm" "sim_handle sm = Some h'" "sim_tn sm = t" by blast
    from agree_handle [OF delivering_agree [OF assms(1)] sm(1,2)] sm(3) assms(1)
    show ?thesis by (auto simp: delivering_def later_def)
  qed
  then show ?thesis using assms(2,3) by (simp add: delivering_def later_def)
qed

lemma sched_ok_same:
  assumes ok: "sched_ok elems invar k" and k': "k_time k' = k_time k" "k_bag k' = k_bag k" "k_heap k' = k_heap k"
    and sims: "\<And>x. rel_option (\<lambda>sm sm'. sim_handle sm' = sim_handle sm \<and> (sim_handle sm \<noteq> None \<longrightarrow> sim_tn sm' = sim_tn sm)
      \<and> sim_executive sm' = sim_executive sm \<and> (sim_internal sm' \<longrightarrow> sim_internal sm)) (k_sims k x) (k_sims k' x)"
  shows "sched_ok elems invar k'"
proof -
  have fwd: "\<exists>sm'. k_sims k' x = Some sm' \<and> sim_handle sm' = sim_handle sm \<and> (sim_handle sm \<noteq> None \<longrightarrow> sim_tn sm' = sim_tn sm) \<and> sim_executive sm' = sim_executive sm"
    if "k_sims k x = Some sm" for x sm using sims [of x] that by (cases "k_sims k' x") auto
  have bwd: "\<exists>sm. k_sims k x = Some sm \<and> sim_handle sm' = sim_handle sm \<and> (sim_handle sm \<noteq> None \<longrightarrow> sim_tn sm' = sim_tn sm) \<and> (sim_internal sm' \<longrightarrow> sim_internal sm)"
    if "k_sims k' x = Some sm'" for x sm' using sims [of x] that by (cases "k_sims k x") auto
  have ag: "agree (elems (k_heap k)) (k_sims k)" and bg: "bag_ok (k_bag k) (k_sims k)"
    using ok by (auto simp: sched_ok_def sched_from_def)
  have "agree (elems (k_heap k)) (k_sims k')"
  proof (rule agreeI)
    fix h t x
    assume "elems (k_heap k) h = Some (t, x)"
    from agree_entry [OF ag this] fwd show "\<exists>sm. k_sims k' x = Some sm \<and> sim_handle sm = Some h \<and> sim_tn sm = t" by fastforce
  next
    fix x sm' h
    assume sm': "k_sims k' x = Some sm'" "sim_handle sm' = Some h"
    from bwd [OF sm'(1)] obtain sm where sm: "k_sims k x = Some sm" "sim_handle sm' = sim_handle sm" "sim_handle sm \<noteq> None \<longrightarrow> sim_tn sm' = sim_tn sm"
      "sim_internal sm' \<longrightarrow> sim_internal sm" by blast
    with agree_handle [OF ag sm(1)] sm'(2) show "elems (k_heap k) h = Some (sim_tn sm', x) \<and> \<not> sim_internal sm'" by auto
  qed
  moreover have "bag_ok (k_bag k) (k_sims k')" using bg fwd unfolding bag_ok_def by metis
  ultimately show ?thesis using ok k' by (simp add: sched_ok_def sched_from_def)
qed

lemma delivering_same:
  assumes "delivering elems invar k" "k_time k' = k_time k" "k_bag k' = k_bag k" "k_heap k' = k_heap k"
    and "\<And>x. rel_option (\<lambda>sm sm'. sim_handle sm' = sim_handle sm \<and> (sim_handle sm \<noteq> None \<longrightarrow> sim_tn sm' = sim_tn sm)
      \<and> sim_executive sm' = sim_executive sm \<and> (sim_internal sm' \<longrightarrow> sim_internal sm)) (k_sims k x) (k_sims k' x)"
  shows "delivering elems invar k'"
  using sched_ok_same [OF _ assms(2-5)] assms(1-4) by (simp add: delivering_def)

context event_heap
begin

lemma addExternal_got:
  assumes d: "delivering elems invar k" and sm: "k_sims k y = Some sm"
  shows "wp (addExternal H y v p) k (\<lambda>_ k'. delivering elems invar k' \<and> got g gs {(y, \<lparr>ev_attributes = v, ev_port = p\<rparr>)} {} k k')"
proof (rule wp_mono [OF addExternal_wp [OF _ sm]])
  show ok: "sched_ok elems invar k" using d by (simp add: delivering_def)
  fix u k'
  let ?ev = "\<lparr>ev_attributes = v, ev_port = p\<rparr>"
  let ?sm = "sm\<lparr>sim_external := sim_external sm @ [?ev], sim_handle := None\<rparr>"
  assume post: "sched_ok elems invar k' \<and> k_time k' = k_time k \<and> bag_unique (k_bag k') = insert y (bag_unique (k_bag k))
    \<and> k_sims k' = (k_sims k)(y \<mapsto> sm\<lparr>sim_external := sim_external sm @ [?ev],
        sim_handle := (if dless (k_time k) (sim_tn sm) then None else sim_handle sm)\<rparr>)"
  have "dless (k_time k) (sim_tn sm)" if "sim_handle sm = Some h" for h
    using agree_handle [OF delivering_agree [OF d] sm that] d by (auto simp: delivering_def later_def)
  then have "(if dless (k_time k) (sim_tn sm) then None else sim_handle sm) = None" by (cases "sim_handle sm") auto
  with post have sims: "k_sims k' = (k_sims k)(y \<mapsto> ?sm)" by simp
  have "delivered g gs {(y, ?ev)} {} z sm' sm''" if "k_sims k z = Some sm'" "k_sims k' z = Some sm''" for z sm' sm''
  proof (cases "z = y")
    case True
    then have "sm' = sm" "sm'' = ?sm" using that sm sims by auto
    then show ?thesis
      using True by (intro deliveredI [where evs = "[?ev]" and m = "sim_targets sm"]) (auto simp: targets_cached_def)
  next
    case False
    then have "sm'' = sm'" using that sims by simp
    then show ?thesis using False by (simp add: delivered_refl)
  qed
  then have "rel_option (delivered g gs {(y, ?ev)} {} z) (k_sims k z) (k_sims k' z)" for z
    using sims sm by (cases "k_sims k z"; cases "k_sims k' z"; cases "z = y") auto
  then have got: "got g gs {(y, ?ev)} {} k k'" using post by (simp add: got_def)
  have "delivering elems invar k'"
  proof (rule later_if_handles [OF d])
    show "sched_ok elems invar k'" "k_time k' = k_time k" using post by auto
    fix z sm'
    assume "k_sims k' z = Some sm'" "sim_handle sm' \<noteq> None"
    then show "\<exists>sm. k_sims k z = Some sm \<and> sim_handle sm \<noteq> None \<and> sim_tn sm = sim_tn sm'"
      unfolding sims by (cases "z = y") auto
  qed
  with got show "delivering elems invar k' \<and> got g gs {(y, ?ev)} {} k k'" by simp
qed

lemma targets_got:
  assumes d: "delivering elems invar k" and w: "wired g gs (k_sims k)" and sm: "k_sims k x = Some sm" "has_port g Out (sim_model sm) p"
  shows "wp (on_sim x (targets g gs p)) k (\<lambda>ts k'. delivering elems invar k' \<and> got g gs {} {} k k'
    \<and> set ts = {(gs b, q) | b q. reaches Out IntIn g (Out, sim_model sm, p) (b, q)})"
proof -
  have g: "graph_ok g" "targets_cached g gs sm" "\<forall>b. atomic_at g b \<longrightarrow> gs b \<noteq> None" using w sm(1) by (auto simp: wired_def)
  have "wp (targets g gs p) sm (\<lambda>ts sm'. delivering elems invar (put_sim x sm' k) \<and> got g gs {} {} k (put_sim x sm' k)
    \<and> set ts = {(gs b, q) | b q. reaches Out IntIn g (Out, sim_model sm, p) (b, q)})"
  proof (rule wp_mono [OF targets_wp [OF g(1) sm(2) g(2,3)]], elim conjE exE)
    fix ts sm' m
    assume c: "targets_cached g gs sm'" and m: "sm' = sm\<lparr>sim_targets := m\<rparr>"
      and ts: "set ts = {(gs b, q) | b q. reaches Out IntIn g (Out, sim_model sm, p) (b, q)}"
    have "delivered g gs {} {} x sm sm'" by (rule deliveredI [where evs = "[]" and m = m]) (use c m in auto)
    moreover have "rel_option (delivered g gs {} {} y) (k_sims k y) (k_sims k y)" for y
      by (cases "k_sims k y") (simp_all add: delivered_refl)
    ultimately have "got g gs {} {} k (put_sim x sm' k)" using sm(1) by (auto simp: got_def put_sim_def)
    moreover have "delivering elems invar (put_sim x sm' k)"
      by (rule delivering_same [OF d]) (use sm(1) m in \<open>auto simp: put_sim_def option.rel_refl\<close>)
    ultimately show "delivering elems invar (put_sim x sm' k) \<and> got g gs {} {} k (put_sim x sm' k)
      \<and> set ts = {(gs b, q) | b q. reaches Out IntIn g (Out, sim_model sm, p) (b, q)}" using ts by blast
  qed
  then show ?thesis using sm(1) by (simp add: wp_on_sim)
qed

lemma dispatch_event_got:
  assumes P: "pf_heap P = H" and d: "delivering elems invar k" and w: "wired g gs (k_sims k)"
    and sm: "k_sims k x = Some sm" "has_port g Out (sim_model sm) (ev_port ev)"
  shows "wp (dispatch_event P g gs x ev) k (\<lambda>_ k'. delivering elems invar k' \<and> got g gs (delivers g gs (sim_model sm) ev) {} k k')"
  unfolding dispatch_event_def wp_bindS
proof (rule wp_mono [OF targets_got [OF d w sm]], elim conjE)
  fix ts k1
  assume d1: "delivering elems invar k1" and g1: "got g gs {} {} k k1"
    and ts: "set ts = {(gs b, q) | b q. reaches Out IntIn g (Out, sim_model sm, ev_port ev) (b, q)}"
  define R where "R l = {(y, \<lparr>ev_attributes = ev_attributes ev, ev_port = q\<rparr>) | y q. (Some y, q) \<in> set l}" for l :: "target list"
  have w1: "wired g gs (k_sims k1)" by (rule got_wired [OF g1 w])
  have live: "\<exists>y sm'. fst e = Some y \<and> k_sims k1 y = Some sm'" if e: "e \<in> set ts" for e
  proof -
    obtain b q where "e = (gs b, q)" "reaches Out IntIn g (Out, sim_model sm, ev_port ev) (b, q)" using e ts by blast
    then show ?thesis using reaches_atomic_at w1 unfolding wired_def by fastforce
  qed
  have "(Some y, q) \<in> set ts \<longleftrightarrow> (\<exists>b. reaches Out IntIn g (Out, sim_model sm, ev_port ev) (b, q) \<and> gs b = Some y)" for y q
    unfolding ts by (auto simp: eq_commute [of "Some y"])
  then have all: "R ts = delivers g gs (sim_model sm) ev" unfolding R_def delivers_def by blast
  have loop: "wp (forS (\<lambda>jt. case fst jt of None \<Rightarrow> throwS (UndefinedBehaviour ''null simulator'')
       | Some y \<Rightarrow> addExternal (pf_heap P) y (ev_attributes ev) (snd jt)) ts) k1
     (\<lambda>_ k'. delivering elems invar k' \<and> got g gs (R ts) {} k k')"
  proof (rule wp_forS_prefix [where J = "\<lambda>pre k'. delivering elems invar k' \<and> got g gs (R pre) {} k k'"])
    show "delivering elems invar k1 \<and> got g gs (R []) {} k k1" using d1 g1 by (simp add: R_def)
    fix pre e post k2
    assume ts2: "ts = pre @ e # post" and J: "delivering elems invar k2 \<and> got g gs (R pre) {} k k2"
    obtain y q where e: "e = (Some y, q)" using live [of e] ts2 by (cases e) auto
    obtain sm' where "k_sims k1 y = Some sm'" using live [of e] ts2 e by auto
    then obtain sm0 where sm0: "k_sims k y = Some sm0" by (rule got_sim_back [OF g1])
    obtain sm2 where sm2: "k_sims k2 y = Some sm2" by (rule got_sim [OF conjunct2 [OF J] sm0])
    have R: "R (pre @ [e]) = R pre \<union> {(y, \<lparr>ev_attributes = ev_attributes ev, ev_port = q\<rparr>)}" by (auto simp: R_def e)
    show "wp (case fst e of None \<Rightarrow> throwS (UndefinedBehaviour ''null simulator'')
        | Some y \<Rightarrow> addExternal (pf_heap P) y (ev_attributes ev) (snd e)) k2
      (\<lambda>_ k'. delivering elems invar k' \<and> got g gs (R (pre @ [e])) {} k k')"
      using wp_got_step [OF conjunct2 [OF J] addExternal_got [OF conjunct1 [OF J] sm2]] unfolding P R by (simp add: e)
  qed
  show "wp (if ts \<noteq> [] \<and> fst (hd ts) \<noteq> None then forS (\<lambda>jt. case fst jt of None \<Rightarrow> throwS (UndefinedBehaviour ''null simulator'')
       | Some y \<Rightarrow> addExternal (pf_heap P) y (ev_attributes ev) (snd jt)) ts else retS ()) k1
     (\<lambda>_ k'. delivering elems invar k' \<and> got g gs (delivers g gs (sim_model sm) ev) {} k k')"
  proof (cases "ts = []")
    case True
    then have "delivers g gs (sim_model sm) ev = {}" using all by (simp add: R_def)
    then show ?thesis using True d1 g1 by (simp add: wp_simps)
  next
    case False
    then have "fst (hd ts) \<noteq> None" using live [of "hd ts"] by auto
    then show ?thesis using False loop all by simp
  qed
qed

lemma got_clear:
  assumes sm: "k_sims k x = Some sm"
  shows "got g gs {} {x} k (put_sim x (sm\<lparr>sim_result := []\<rparr>) k)"
proof -
  let ?sm = "sm\<lparr>sim_result := []\<rparr>"
  have "delivered g gs {} {x} x sm ?sm"
    by (rule deliveredI [where evs = "[]" and m = "sim_targets sm"]) (auto simp: targets_cached_def)
  moreover have "rel_option (delivered g gs {} {x} y) (k_sims k y) (k_sims k y)" if "y \<noteq> x" for y
    using that by (cases "k_sims k y") (simp_all add: delivered_refl)
  ultimately show ?thesis using sm by (auto simp: got_def put_sim_def)
qed

lemma clear_result_wp:
  assumes d: "delivering elems invar k" and sm: "k_sims k x = Some sm"
  shows "wp (upd_sim x (\<lambda>sm. sm\<lparr>sim_result := []\<rparr>)) k (\<lambda>_ k'. delivering elems invar k' \<and> got g gs {} {x} k k')"
proof -
  have "delivering elems invar (put_sim x (sm\<lparr>sim_result := []\<rparr>) k)"
    by (rule delivering_same [OF d]) (use sm in \<open>auto simp: put_sim_def option.rel_refl\<close>)
  then show ?thesis using sm got_clear [OF sm] by (simp add: wp_simps)
qed

lemma dispatch_events_got:
  assumes P: "pf_heap P = H" and d: "delivering elems invar k" and w: "wired g gs (k_sims k)" and sm: "k_sims k x = Some sm"
    and evs: "\<And>ev. ev \<in> set evs \<Longrightarrow> has_port g Out (sim_model sm) (ev_port ev)"
  shows "wp (forS (dispatch_event P g gs x) evs) k
    (\<lambda>_ k'. delivering elems invar k' \<and> got g gs (\<Union>ev \<in> set evs. delivers g gs (sim_model sm) ev) {} k k')"
proof (rule wp_forS_prefix [where J = "\<lambda>pre k'. delivering elems invar k' \<and> got g gs (\<Union>ev \<in> set pre. delivers g gs (sim_model sm) ev) {} k k'"])
  show "delivering elems invar k \<and> got g gs (\<Union>ev \<in> set []. delivers g gs (sim_model sm) ev) {} k k" using d by (simp add: got_refl)
  fix pre ev post k1
  assume split: "evs = pre @ ev # post"
    and J: "delivering elems invar k1 \<and> got g gs (\<Union>ev \<in> set pre. delivers g gs (sim_model sm) ev) {} k k1"
  note d1 = conjunct1 [OF J] and g1 = conjunct2 [OF J]
  obtain sm1 where sm1: "k_sims k1 x = Some sm1" "delivered g gs (\<Union>ev \<in> set pre. delivers g gs (sim_model sm) ev) {} x sm sm1"
    by (rule got_sim [OF g1 sm])
  have m: "sim_model sm1 = sim_model sm" using sm1(2) by (auto simp: delivered_def)
  have hp: "has_port g Out (sim_model sm1) (ev_port ev)" using evs split m by simp
  have un: "(\<Union>e \<in> set (pre @ [ev]). delivers g gs (sim_model sm) e) =
      (\<Union>e \<in> set pre. delivers g gs (sim_model sm) e) \<union> delivers g gs (sim_model sm) ev" by auto
  show "wp (dispatch_event P g gs x ev) k1
    (\<lambda>_ k'. delivering elems invar k' \<and> got g gs (\<Union>ev \<in> set (pre @ [ev]). delivers g gs (sim_model sm) ev) {} k k')"
    unfolding un
    using wp_got_step [OF g1 dispatch_event_got [OF P d1 got_wired [OF g1 w] sm1(1) hp]] m by simp
qed

end

text \<open>The deliveries that the outputs of a simulator ask for.\<close>

definition sent :: "graph \<Rightarrow> (addr \<Rightarrow> sim_id option) \<Rightarrow> ('q, 'h, 'u) kernel \<Rightarrow> sim_id \<Rightarrow> (sim_id \<times> external_event) set" where
  "sent g gs k x = (case k_sims k x of None \<Rightarrow> {}
     | Some sm \<Rightarrow> \<Union>ev \<in> set (sim_result sm). delivers g gs (sim_model sm) ev)"

definition can_send :: "graph \<Rightarrow> ('q, 'h, 'u) kernel \<Rightarrow> sim_id \<Rightarrow> bool" where
  "can_send g k x \<longleftrightarrow> (\<exists>sm. k_sims k x = Some sm \<and> (\<forall>ev \<in> set (sim_result sm). has_port g Out (sim_model sm) (ev_port ev)))"

context event_heap
begin

lemma dispatch_wp:
  assumes P: "pf_heap P = H" and d: "delivering elems invar k" and w: "wired g gs (k_sims k)" and xs: "distinct xs"
    and send: "\<And>x. x \<in> set xs \<Longrightarrow> can_send g k x"
  shows "wp (dispatchExternalEvent P g gs xs) k
    (\<lambda>_ k'. delivering elems invar k' \<and> got g gs (\<Union>x \<in> set xs. sent g gs k x) (set xs) k k')"
  unfolding dispatchExternalEvent_def
proof (rule wp_forS_prefix [where J = "\<lambda>pre k'. delivering elems invar k' \<and> got g gs (\<Union>x \<in> set pre. sent g gs k x) (set pre) k k'"])
  show "delivering elems invar k \<and> got g gs (\<Union>x \<in> set []. sent g gs k x) (set []) k k" using d by (simp add: got_refl)
  fix pre x post k1
  assume split: "xs = pre @ x # post"
    and J: "delivering elems invar k1 \<and> got g gs (\<Union>x \<in> set pre. sent g gs k x) (set pre) k k1"
  note d1 = conjunct1 [OF J] and g1 = conjunct2 [OF J]
  have nx: "x \<notin> set pre" using split xs by auto
  obtain sm where sm: "k_sims k x = Some sm" "\<And>ev. ev \<in> set (sim_result sm) \<Longrightarrow> has_port g Out (sim_model sm) (ev_port ev)"
    using send [of x] split by (auto simp: can_send_def)
  obtain sm1 where sm1: "k_sims k1 x = Some sm1" "delivered g gs (\<Union>x \<in> set pre. sent g gs k x) (set pre) x sm sm1"
    by (rule got_sim [OF g1 sm(1)])
  have m: "sim_model sm1 = sim_model sm" "sim_result sm1 = sim_result sm" using sm1(2) nx by (auto simp: delivered_def)
  have s: "sent g gs k x = (\<Union>ev \<in> set (sim_result sm). delivers g gs (sim_model sm) ev)" using sm(1) by (simp add: sent_def)
  have un: "(\<Union>y \<in> set (pre @ [x]). sent g gs k y) = (\<Union>y \<in> set pre. sent g gs k y) \<union> (sent g gs k x \<union> {})"
    "set (pre @ [x]) = set pre \<union> ({} \<union> {x})" by auto
  have "wp (thenS (forS (dispatch_event P g gs x) (sim_result sm1)) (upd_sim x (\<lambda>sm. sm\<lparr>sim_result := []\<rparr>))) k1
    (\<lambda>_ k'. delivering elems invar k' \<and> got g gs (sent g gs k x \<union> {}) ({} \<union> {x}) k1 k')"
    unfolding wp_thenS
  proof (rule wp_mono [OF dispatch_events_got [OF P d1 got_wired [OF g1 w] sm1(1)]], unfold m)
    show "has_port g Out (sim_model sm) (ev_port ev)" if "ev \<in> set (sim_result sm)" for ev using that by (rule sm(2))
    fix u k2
    assume *: "delivering elems invar k2 \<and> got g gs (\<Union>ev \<in> set (sim_result sm). delivers g gs (sim_model sm) ev) {} k1 k2"
    obtain sm2 where "k_sims k2 x = Some sm2" by (rule got_sim [OF conjunct2 [OF *] sm1(1)])
    from wp_got_step [OF conjunct2 [OF *] clear_result_wp [OF conjunct1 [OF *] this]]
    show "wp (upd_sim x (\<lambda>sm. sm\<lparr>sim_result := []\<rparr>)) k2
      (\<lambda>_ k'. delivering elems invar k' \<and> got g gs (sent g gs k x \<union> {}) ({} \<union> {x}) k1 k')" unfolding s .
  qed
  moreover have "delivering elems invar k1 \<and> got g gs (sent g gs k x \<union> {}) ({} \<union> {x}) k1 k1" if "sim_result sm1 = []"
  proof -
    have "put_sim x (sm1\<lparr>sim_result := []\<rparr>) k1 = k1" using sm1(1) that by (auto simp: put_sim_def fun_upd_idem)
    with got_clear [OF sm1(1), of g gs] d1 that show ?thesis by (simp add: s m(2) [symmetric])
  qed
  ultimately have "wp (bindS (get_sim x) (\<lambda>sm. if sim_result sm = [] then retS ()
      else thenS (forS (dispatch_event P g gs x) (sim_result sm)) (upd_sim x (\<lambda>sm. sm\<lparr>sim_result := []\<rparr>)))) k1
    (\<lambda>_ k'. delivering elems invar k' \<and> got g gs (sent g gs k x \<union> {}) ({} \<union> {x}) k1 k')"
    using sm1(1) by (simp add: wp_bindS wp_get_sim wp_retS)
  from wp_got_step [OF g1 this]
  show "wp (bindS (get_sim x) (\<lambda>sm. if sim_result sm = [] then retS ()
      else thenS (forS (dispatch_event P g gs x) (sim_result sm)) (upd_sim x (\<lambda>sm. sm\<lparr>sim_result := []\<rparr>)))) k1
    (\<lambda>_ k'. delivering elems invar k' \<and> got g gs (\<Union>x \<in> set (pre @ [x]). sent g gs k x) (set (pre @ [x])) k k')"
    unfolding un(1) unfolding un(2) .
qed

end

section \<open>Properties\<close>

text \<open>
  C15. \<^verbatim>\<open>dispatchExternalEvent\<close> delivers every output event to exactly the simulators behind the input ports
  that its output port reaches through the graph, and to no other: each receiver gets the event appended
  on its own port and enters the bag, the outputs are cleared, the date does not change and the
  invariant of the scheduler is kept; no assertion fails and no null simulator is called.
\<close>

theorem dispatchExternalEvent_spec:
  assumes H: "event_heap H elems top_handle invar" "pf_heap P = H"
    and k: "sched_ok elems invar k" "later (k_time k) (elems (k_heap k))"
    and w: "wired g gs (k_sims k)" and xs: "distinct xs" "\<forall>x \<in> set xs. can_send g k x"
  shows "\<exists>k'. dispatchExternalEvent P g gs xs k = Ret () k' \<and> sched_ok elems invar k' \<and> k_time k' = k_time k
    \<and> bag_unique (k_bag k') = bag_unique (k_bag k) \<union> fst ` (\<Union>x \<in> set xs. sent g gs k x)
    \<and> (\<forall>y sm. k_sims k y = Some sm \<longrightarrow> (\<exists>sm' evs. k_sims k' y = Some sm' \<and> sim_external sm' = sim_external sm @ evs
         \<and> set evs = {e. (y, e) \<in> (\<Union>x \<in> set xs. sent g gs k x)} \<and> (y \<in> set xs \<longrightarrow> sim_result sm' = [])))"
proof -
  have d: "delivering elems invar k" using k by (simp add: delivering_def)
  from event_heap.dispatch_wp [OF H(1,2) d w xs(1)] xs(2) obtain k' where
    k': "dispatchExternalEvent P g gs xs k = Ret () k'" "delivering elems invar k'"
      "got g gs (\<Union>x \<in> set xs. sent g gs k x) (set xs) k k'" by (auto simp: wp_iff)
  have "\<exists>sm' evs. k_sims k' y = Some sm' \<and> sim_external sm' = sim_external sm @ evs
      \<and> set evs = {e. (y, e) \<in> (\<Union>x \<in> set xs. sent g gs k x)} \<and> (y \<in> set xs \<longrightarrow> sim_result sm' = [])"
    if sm: "k_sims k y = Some sm" for y sm
  proof -
    obtain sm' where "k_sims k' y = Some sm'" "delivered g gs (\<Union>x \<in> set xs. sent g gs k x) (set xs) y sm sm'"
      by (rule got_sim [OF k'(3) sm])
    moreover obtain evs where "set evs = {e. (y, e) \<in> (\<Union>x \<in> set xs. sent g gs k x)}" "sim_external sm' = sim_external sm @ evs"
      "sim_result sm' = (if y \<in> set xs then [] else sim_result sm)" by (rule delivered_fields [OF calculation(2)])
    ultimately show ?thesis by auto
  qed
  then show ?thesis using k' by (auto simp: delivering_def got_def)
qed

text \<open>
  The model \<^verbatim>\<open>a\<close> of the sample graph has an event on its port \<^verbatim>\<open>o\<close>, which is connected twice to the coupled
  model \<^verbatim>\<open>c\<close> and through it to \<^verbatim>\<open>x\<close>.
\<close>

definition sample_platform :: "(list_heap, nat, int, unit) platform" where
  "sample_platform = \<lparr>pf_heap = list_heap_ops, pf_dynamics = (\<lambda>_. counter_ops),
     pf_plugin = \<lparr>oov_onNewObservable = (\<lambda>_ _ _ _ _. retS ()), oov_onDelObservable = (\<lambda>_ _ _ _ _. retS ()),
       oov_onValue = (\<lambda>_ _ _ _ _ _. retS ()), oov_matrix = (\<lambda>_. Inr None), oov_finish = (\<lambda>_. retS None)\<rparr>,
     pf_depth = Suc (Suc (Suc 0))\<rparr>"

definition sample_sims :: "sim_id \<Rightarrow> (nat, int) simulator option" where
  "sample_sims = [1 \<mapsto> Simulator_new 1 0 False, 3 \<mapsto> Simulator_new 3 0 False]"

lemma sample_atomic: "atomic_at sample b \<longleftrightarrow> b = 1 \<or> b = 3"
  by (auto simp: atomic_at_def sample_def isAtomic_def split: if_splits option.splits)

lemma sample_wired: "sims 1 \<noteq> None \<Longrightarrow> sims 3 \<noteq> None \<Longrightarrow> (\<forall>x sm. sims x = Some sm \<longrightarrow> sim_targets sm = []) \<Longrightarrow> wired sample Some sims"
  using sample_graph_ok by (auto simp: wired_def sample_atomic targets_cached_def mmap_range_def)

definition sample_sending :: "(list_heap, nat, int) kernel" where
  "sample_sending = \<lparr>k_time = dfin 0, k_bag = empty_bag, k_heap = [], k_sims = sample_sims
      (1 \<mapsto> (Simulator_new 1 0 False)\<lparr>sim_result := [\<lparr>ev_attributes = None, ev_port = ''o''\<rparr>]\<rparr>)\<rparr>"

lemma sample_sending_ok:
  "sched_ok map_of list_heap_ok sample_sending" "later (k_time sample_sending) (map_of (k_heap sample_sending))"
  "wired sample Some (k_sims sample_sending)" "can_send sample sample_sending 1"
proof -
  show "sched_ok map_of list_heap_ok sample_sending" "later (k_time sample_sending) (map_of (k_heap sample_sending))"
    by (auto simp: sample_sending_def sched_ok_def sched_from_def list_heap_ok_def dates_ok_def bag_ok_def empty_bag_def agree_def
        later_def sample_sims_def Simulator_new_def split: if_splits)
  show "wired sample Some (k_sims sample_sending)"
    by (rule sample_wired) (auto simp: sample_sending_def sample_sims_def Simulator_new_def split: if_splits)
  show "can_send sample sample_sending 1"
    by (simp add: can_send_def sample_sending_def Simulator_new_def read_store sample_nodes)
qed

lemma sample_sent: "3 \<in> fst ` sent sample Some sample_sending 1"
proof -
  have *: "reaches Out IntIn sample (IntIn, 2, ''i'') (3, ''i'')"
    by (rule reaches_atomic) (simp_all add: read_store sample_nodes sample_atomic)
  have "reaches Out IntIn sample (Out, 1, ''o'') (3, ''i'')"
    by (rule reaches_down [OF _ _ _ *]) (simp_all add: read_store sample_nodes coupled_at_def isCoupled_def)
  then have "(3, \<lparr>ev_attributes = None, ev_port = ''i''\<rparr>) \<in> sent sample Some sample_sending 1"
    by (auto simp: sent_def delivers_def Simulator_new_def sample_sending_def)
  then show ?thesis by force
qed

theorem dispatchExternalEvent_spec_witness:
  "\<exists>k'. dispatchExternalEvent sample_platform sample Some [1] sample_sending = Ret () k'
    \<and> sched_ok map_of list_heap_ok k' \<and> 3 \<in> bag_unique (k_bag k')"
proof -
  have P: "pf_heap sample_platform = list_heap_ops" by (simp add: sample_platform_def)
  have d: "distinct [1 :: nat]" by simp
  have xs: "\<forall>x \<in> set [1]. can_send sample sample_sending x" using sample_sending_ok(4) by simp
  from dispatchExternalEvent_spec [OF list_heap.event_heap_axioms P sample_sending_ok(1-3) d xs] obtain k' where
    k': "dispatchExternalEvent sample_platform sample Some [1] sample_sending = Ret () k'" "sched_ok map_of list_heap_ok k'"
      "bag_unique (k_bag k') = bag_unique (k_bag sample_sending) \<union> fst ` (\<Union>x \<in> set [1]. sent sample Some sample_sending x)"
    by (elim exE conjE)
  have "3 \<in> bag_unique (k_bag k')" unfolding k'(3) using sample_sent by auto
  with k'(1,2) show ?thesis by (intro exI [of _ k'] conjI)
qed

end
