(* ===== verification/Observation_Loop.thy ===== *)
theory Observation_Loop
  imports Dispatch
begin

text \<open>
  The observations of one run of the coordinator: sending the gathered values to the event views and
  the loop over the timed views, which ends when every time step moves the date forward.
\<close>

section \<open>Views\<close>

definition plugin_ok :: "'p plugin_ops \<Rightarrow> bool" where
  "plugin_ok W \<longleftrightarrow> (\<forall>a b c d t v. returns (oov_onValue W a b c d t v)) \<and> (\<forall>a b c d t. returns (oov_onNewObservable W a b c d t))
     \<and> (\<forall>t. returns (oov_finish W t))"

text \<open>Two lists of views that differ in the states of the plug-ins only.\<close>

definition same_view :: "'p view \<Rightarrow> 'p view \<Rightarrow> bool" where
  "same_view v v' \<longleftrightarrow> view_observables v' = view_observables v \<and> view_name v' = view_name v \<and> (view_plugin v' = None \<longleftrightarrow> view_plugin v = None)"

definition same_views :: "(string \<times> 'p view) list \<Rightarrow> (string \<times> 'p view) list \<Rightarrow> bool" where
  "same_views l l' \<longleftrightarrow> (\<forall>n. rel_option same_view (map_of l n) (map_of l' n))"

lemma same_view_refl [simp]: "same_view v v"
  by (simp add: same_view_def)

lemma same_view_trans: "same_view a b \<Longrightarrow> same_view b c \<Longrightarrow> same_view a c"
  by (simp add: same_view_def)

lemma same_views_refl [simp]: "same_views l l"
  by (simp add: same_views_def option.rel_refl)

lemma same_views_trans: "same_views a b \<Longrightarrow> same_views b c \<Longrightarrow> same_views a c"
  unfolding same_views_def using rel_option_trans [of same_view _ _ same_view _ same_view] same_view_trans by blast

lemma same_views_update:
  "map_of l n = Some v \<Longrightarrow> same_view v v' \<Longrightarrow> same_views l (smap_update n v' l)"
  by (simp add: same_views_def option.rel_refl)

lemma wp_on_plugin:
  assumes "view_plugin v \<noteq> None" "returns m"
  shows "wp (on_plugin m) v (\<lambda>_. same_view v)"
proof -
  obtain p where p: "view_plugin v = Some p" using assms(1) by auto
  obtain x q where "m p = Ret x q" using assms(2) unfolding returns_def wp_iff by blast
  then show ?thesis by (simp add: on_plugin_def wp_def p same_view_def)
qed

lemma wp_on_entry:
  assumes "map_of l n = Some v" "wp m v (\<lambda>_. same_view v)"
  shows "wp (on_entry n m) l (\<lambda>_. same_views l)"
proof -
  obtain x v' where "m v = Ret x v'" "same_view v v'" using assms(2) by (auto simp: wp_iff)
  then show ?thesis using assms(1) same_views_update by (simp add: on_entry_def wp_def)
qed

text \<open>What the views need of the models and of the plug-ins.\<close>

definition viewable :: "('q, 'h, 'u, 'p) platform \<Rightarrow> ('q, 'h, 'u, 'p) coordinator \<Rightarrow> bool" where
  "viewable P c \<longleftrightarrow> plugin_ok (pf_plugin P) \<and> (\<forall>x. well_behaved (pf_dynamics P x))
     \<and> (\<forall>x sm. k_sims (m_eventTable c) x = Some sm \<longrightarrow> (\<exists>nm. env_names (model_env_of P c) x = Inr nm))
     \<and> (\<forall>n v. map_of (m_eventViewList c) n = Some v \<longrightarrow> view_plugin v \<noteq> None)
     \<and> (\<forall>n v. map_of (m_timedViewList c) n = Some v \<longrightarrow> view_plugin v \<noteq> None
          \<and> (\<forall>e \<in> set (view_observables v). k_sims (m_eventTable c) (fst e) \<noteq> None))"

lemma wp_View_run_value:
  assumes "plugin_ok W" "env_names env x = Inr nm" "view_plugin v \<noteq> None"
  shows "wp (View_run_value W env x t port val) v (\<lambda>_. same_view v)"
  using assms(1,2) by (cases nm) (auto simp: View_run_value_def wp_simps plugin_ok_def intro: wp_on_plugin [OF assms(3)])

lemma wp_View_run:
  assumes "plugin_ok W" "view_plugin v \<noteq> None"
    and "\<And>e. e \<in> set (view_observables v) \<Longrightarrow> \<exists>nm. env_names env (fst e) = Inr nm"
    and "\<And>e n. e \<in> set (view_observables v) \<Longrightarrow> \<exists>val. env_observation env t n (snd e) (fst e) = Inr val"
  shows "wp (View_run W env t) v (\<lambda>_. same_view v)"
proof (cases "view_observables v = []")
  case True
  then show ?thesis using assms(1) by (auto simp: View_run_def wp_simps plugin_ok_def intro: wp_on_plugin [OF assms(2)])
next
  case False
  have "wp (forS (\<lambda>elem. View_run_port W env (fst elem) t (snd elem)) (view_observables v)) v
    (\<lambda>_ v'. same_view v v' \<and> set [] \<subseteq> set (view_observables v))"
  proof (rule wp_forS [where I = "\<lambda>es v'. same_view v v' \<and> set es \<subseteq> set (view_observables v)"])
    show "same_view v v \<and> set (view_observables v) \<subseteq> set (view_observables v)" by simp
    fix e es v'
    assume I: "same_view v v' \<and> set (e # es) \<subseteq> set (view_observables v)"
    have e: "e \<in> set (view_observables v)" using I by simp
    obtain nm where "env_names env (fst e) = Inr nm" using assms(3) [OF e] by blast
    moreover obtain val where "env_observation env t (view_name v') (snd e) (fst e) = Inr val" using assms(4) [OF e] by blast
    moreover have "view_plugin v' \<noteq> None" using I assms(2) by (auto simp: same_view_def)
    ultimately have "wp (View_run_port W env (fst e) t (snd e)) v' (\<lambda>_. same_view v')"
      using wp_View_run_value [OF assms(1), of env "fst e" nm v'] by (simp add: View_run_port_def wp_simps)
    then show "wp (View_run_port W env (fst e) t (snd e)) v' (\<lambda>_ v'. same_view v v' \<and> set es \<subseteq> set (view_observables v))"
      by (rule wp_mono) (use I same_view_trans in auto)
  qed
  then show ?thesis using False by (simp add: View_run_def wp_simps)
qed

section \<open>Frames\<close>

text \<open>
  States that differ in the date, the states of the plug-ins and the timed observations only; the
  simulators are the same.
\<close>

definition view_frame :: "('q, 'h, 'u, 'p) coordinator \<Rightarrow> ('q, 'h, 'u, 'p) coordinator \<Rightarrow> bool" where
  "view_frame c c' \<longleftrightarrow> (\<exists>t ev ti v. c' = c\<lparr>m_currentTime := t, m_timed_observation_scheduler := v, m_eventViewList := ev, m_timedViewList := ti\<rparr>
     \<and> same_views (m_eventViewList c) ev \<and> same_views (m_timedViewList c) ti)"

lemma view_frame_refl: "view_frame c c"
proof -
  have "c = c\<lparr>m_currentTime := m_currentTime c, m_timed_observation_scheduler := m_timed_observation_scheduler c,
      m_eventViewList := m_eventViewList c, m_timedViewList := m_timedViewList c\<rparr>" by simp
  then show ?thesis unfolding view_frame_def using same_views_refl by blast
qed

lemma view_frame_trans:
  assumes "view_frame a b" "view_frame b c"
  shows "view_frame a c"
proof -
  from assms(1) obtain t ev ti v where 1: "b = a\<lparr>m_currentTime := t, m_timed_observation_scheduler := v, m_eventViewList := ev, m_timedViewList := ti\<rparr>"
    "same_views (m_eventViewList a) ev" "same_views (m_timedViewList a) ti" unfolding view_frame_def by blast
  from assms(2) obtain t' ev' ti' v' where 2: "c = b\<lparr>m_currentTime := t', m_timed_observation_scheduler := v', m_eventViewList := ev', m_timedViewList := ti'\<rparr>"
    "same_views (m_eventViewList b) ev'" "same_views (m_timedViewList b) ti'" unfolding view_frame_def by blast
  have "c = a\<lparr>m_currentTime := t', m_timed_observation_scheduler := v', m_eventViewList := ev', m_timedViewList := ti'\<rparr>"
    using 1(1) 2(1) by simp
  moreover have "same_views (m_eventViewList a) ev'" "same_views (m_timedViewList a) ti'"
    using 1 2 same_views_trans by auto
  ultimately show ?thesis unfolding view_frame_def by blast
qed

lemma view_frame_fields:
  assumes "view_frame c c'"
  shows "m_eventTable c' = m_eventTable c" "m_graph c' = m_graph c" "m_simulator c' = m_simulator c" "m_durationTime c' = m_durationTime c"
    "m_delete_model c' = m_delete_model c" "m_simulators c' = m_simulators c" "m_isStarted c' = m_isStarted c" "m_parallelize c' = m_parallelize c"
    "same_views (m_eventViewList c) (m_eventViewList c')" "same_views (m_timedViewList c) (m_timedViewList c')"
  using assms by (auto simp: view_frame_def)

lemma same_views_some: "same_views l l' \<Longrightarrow> map_of l' n = Some v' \<Longrightarrow> \<exists>v. map_of l n = Some v \<and> same_view v v'"
  unfolding same_views_def using rel_option_backward by metis

lemma same_views_dom: "same_views l l' \<Longrightarrow> dom (map_of l') = dom (map_of l)"
  unfolding same_views_def dom_def by (metis option.rel_distinct(1,2) option.exhaust)

lemma model_env_of_frame: "view_frame c c' \<Longrightarrow> model_env_of P c' = model_env_of P c"
  unfolding model_env_of_def by (simp only: view_frame_fields)

lemma viewable_frame:
  assumes "view_frame c c'" "viewable P c"
  shows "viewable P c'"
proof -
  have "view_plugin v' \<noteq> None" if "map_of (m_eventViewList c') n = Some v'" for n v'
    using same_views_some [OF view_frame_fields(9) [OF assms(1)] that] assms(2) unfolding viewable_def same_view_def by metis
  moreover have "view_plugin v' \<noteq> None \<and> (\<forall>e \<in> set (view_observables v'). k_sims (m_eventTable c) (fst e) \<noteq> None)"
    if "map_of (m_timedViewList c') n = Some v'" for n v'
    using same_views_some [OF view_frame_fields(10) [OF assms(1)] that] assms(2) by (fastforce simp: viewable_def same_view_def)
  ultimately show ?thesis
    using assms(2) by (simp add: viewable_def view_frame_fields(1) [OF assms(1)] model_env_of_frame [OF assms(1)])
qed


section \<open>The event views\<close>

lemma wp_send_observations:
  assumes v: "viewable P c" and sm: "k_sims (m_eventTable c) x = Some sm" and pv: "pending_views sm \<subseteq> dom (map_of (m_eventViewList c))"
  shows "wp (send_observations P x) c (\<lambda>_ c'. \<exists>c1. view_frame c c1 \<and> m_currentTime c1 = m_currentTime c
    \<and> m_timed_observation_scheduler c1 = m_timed_observation_scheduler c
    \<and> c' = c1\<lparr>m_eventTable := put_sim x (sm\<lparr>sim_observations := []\<rparr>) (m_eventTable c)\<rparr>)"
proof -
  let ?I = "\<lambda>obs c'. view_frame c c' \<and> m_currentTime c' = m_currentTime c
    \<and> m_timed_observation_scheduler c' = m_timed_observation_scheduler c \<and> set obs \<subseteq> set (sim_observations sm)"
  have "wp (forS (\<lambda>obs. bindS getS (\<lambda>c. on_event_view (obs_view obs)
      (View_run_value (pf_plugin P) (model_env_of P c) x (m_currentTime c) (obs_port obs) (obs_value obs))))
      (sim_observations sm)) c (\<lambda>_. ?I [])"
  proof (rule wp_forS [where I = ?I])
    show "?I (sim_observations sm) c" by (simp add: view_frame_refl)
    fix ob obs c'
    assume I: "?I (ob # obs) c'"
    then have fr: "view_frame c c'" by blast
    have "obs_view ob \<in> dom (map_of (m_eventViewList c'))"
      using I pv same_views_dom [OF view_frame_fields(9) [OF fr]] by (auto simp: pending_views_def)
    then obtain w where w: "map_of (m_eventViewList c') (obs_view ob) = Some w" by auto
    have v': "viewable P c'" by (rule viewable_frame [OF fr v])
    obtain nm where nm: "env_names (model_env_of P c') x = Inr nm"
      using v' sm by (auto simp: viewable_def view_frame_fields(1) [OF fr])
    have "wp (View_run_value (pf_plugin P) (model_env_of P c') x (m_currentTime c') (obs_port ob) (obs_value ob)) w (\<lambda>_. same_view w)"
      using v' w nm by (intro wp_View_run_value) (auto simp: viewable_def)
    from wp_on_entry [OF w this]
    have "wp (on_event_view (obs_view ob) (View_run_value (pf_plugin P) (model_env_of P c') x (m_currentTime c') (obs_port ob) (obs_value ob))) c'
      (\<lambda>_ c''. \<exists>l. same_views (m_eventViewList c') l \<and> c'' = c'\<lparr>m_eventViewList := l\<rparr>)"
      unfolding on_event_view_def wp_focus by (rule wp_mono) blast
    then show "wp (bindS getS (\<lambda>c. on_event_view (obs_view ob)
      (View_run_value (pf_plugin P) (model_env_of P c) x (m_currentTime c) (obs_port ob) (obs_value ob)))) c' (\<lambda>_. ?I obs)"
      unfolding wp_bindS wp_getS
    proof (rule wp_mono, elim exE conjE)
      fix u c'' l
      assume l: "same_views (m_eventViewList c') l" "c'' = c'\<lparr>m_eventViewList := l\<rparr>"
      have "c'' = c'\<lparr>m_currentTime := m_currentTime c', m_timed_observation_scheduler := m_timed_observation_scheduler c',
          m_eventViewList := l, m_timedViewList := m_timedViewList c'\<rparr>" using l(2) by simp
      then have "view_frame c' c''" unfolding view_frame_def using l(1) same_views_refl by blast
      then show "?I obs c''" using I l(2) view_frame_trans [OF fr] by auto
    qed
  qed
  then have "wp (forS (\<lambda>obs. bindS getS (\<lambda>c. on_event_view (obs_view obs)
      (View_run_value (pf_plugin P) (model_env_of P c) x (m_currentTime c) (obs_port obs) (obs_value obs))))
      (sim_observations sm)) c (\<lambda>_ c'. wp (on_kernel (upd_sim x (\<lambda>sm. sm\<lparr>sim_observations := []\<rparr>))) c'
      (\<lambda>_ c'. \<exists>c1. view_frame c c1 \<and> m_currentTime c1 = m_currentTime c
      \<and> m_timed_observation_scheduler c1 = m_timed_observation_scheduler c
      \<and> c' = c1\<lparr>m_eventTable := put_sim x (sm\<lparr>sim_observations := []\<rparr>) (m_eventTable c)\<rparr>))"
  proof (rule wp_mono, elim conjE)
    fix u c1
    assume "view_frame c c1" "m_currentTime c1 = m_currentTime c" "m_timed_observation_scheduler c1 = m_timed_observation_scheduler c"
    with sm view_frame_fields(1) [OF this(1)]
    show "wp (on_kernel (upd_sim x (\<lambda>sm. sm\<lparr>sim_observations := []\<rparr>))) c1
      (\<lambda>_ c'. \<exists>c1. view_frame c c1 \<and> m_currentTime c1 = m_currentTime c
      \<and> m_timed_observation_scheduler c1 = m_timed_observation_scheduler c
      \<and> c' = c1\<lparr>m_eventTable := put_sim x (sm\<lparr>sim_observations := []\<rparr>) (m_eventTable c)\<rparr>)"
      unfolding wp_on_kernel wp_upd_sim by (intro exI [of _ sm] exI [of _ c1] conjI) simp_all
  qed
  then show ?thesis using sm by (simp add: send_observations_def wp_bindS wp_thenS wp_on_kernel [of "get_sim x"] wp_get_sim)
qed


section \<open>The loop over the timed views\<close>

text \<open>
  The time step of a view moves every date from its next one on, below the end of the simulation,
  strictly forward: it is positive and not absorbed by rounding.
\<close>

definition advances :: "time \<Rightarrow> view_event \<Rightarrow> bool" where
  "advances dur e \<longleftrightarrow> (\<forall>t. dle (ve_time e) t \<longrightarrow> dless t dur \<longrightarrow> dless t (dadd t (ve_timestep e)))"

definition event_ok :: "string set \<Rightarrow> time \<Rightarrow> view_event \<Rightarrow> bool" where
  "event_ok views dur e \<longleftrightarrow> ve_view e \<in> views \<and> ve_time e \<noteq> dnan \<and> \<not> isInfinity (ve_time e) \<and> \<not> isInfinity (ve_timestep e) \<and> advances dur e"

definition timed_ok :: "('q, 'h, 'u, 'p) coordinator \<Rightarrow> bool" where
  "timed_ok c \<longleftrightarrow> is_heap (m_timed_observation_scheduler c)
     \<and> (\<forall>e \<in> set (m_timed_observation_scheduler c). event_ok (dom (map_of (m_timedViewList c))) (m_durationTime c) e)"

lemma timed_ok_dated: "timed_ok c \<Longrightarrow> dated (m_timed_observation_scheduler c)"
  by (auto simp: timed_ok_def dated_def event_ok_def)

text \<open>The number of representable dates a view has left, and their sum, which every round decreases.\<close>

definition room :: "view_event \<Rightarrow> nat" where
  "room e = (case dval (ve_time e) of Fin k \<Rightarrow> nat (overflow_bound - k) | _ \<Rightarrow> 0)"

definition rooms :: "view_event list \<Rightarrow> nat" where
  "rooms v = (\<Sum>e \<in># mset v. room e)"

lemma finite_date: "t \<noteq> dnan \<Longrightarrow> \<not> isInfinity t \<Longrightarrow> \<exists>k. dval t = Fin k \<and> k < overflow_bound"
  by (cases t rule: double_cases) (auto simp: isInfinity_iff fp_round_def Let_def split: if_splits)

lemma update_event:
  assumes ok: "event_ok views dur e" and e: "dless (ve_time e) dur" and fin: "\<not> isInfinity (ve_time (ViewEvent_update e))"
  shows "event_ok views dur (ViewEvent_update e)" "room (ViewEvent_update e) < room e"
proof -
  let ?e = "ViewEvent_update e"
  have adv: "dless (ve_time e) (ve_time ?e)"
    using ok e by (auto simp: event_ok_def advances_def ViewEvent_update_def double_simps)
  then have nan: "ve_time ?e \<noteq> dnan" "ve_time e \<noteq> dnan" by (auto simp: double_simps)
  have "dle (ve_time e) t" if "dle (ve_time ?e) t" for t using adv that by (auto simp: double_simps)
  then show "event_ok views dur ?e"
    using ok nan fin by (auto simp: event_ok_def advances_def ViewEvent_update_def)
  obtain k where "dval (ve_time e) = Fin k" "k < overflow_bound" using finite_date [OF nan(2)] ok by (auto simp: event_ok_def)
  moreover obtain l where "dval (ve_time ?e) = Fin l" "l < overflow_bound" using finite_date [OF nan(1) fin] by blast
  ultimately show "room ?e < room e" using adv by (simp add: room_def double_simps)
qed

lemma room_pos: "event_ok views dur e \<Longrightarrow> 0 < room e"
  using finite_date [of "ve_time e"] by (auto simp: event_ok_def room_def)

lemma wp_run_timed_view:
  assumes v: "viewable P c" and n: "n \<in> dom (map_of (m_timedViewList c))"
  shows "wp (bindS getS (\<lambda>c. on_timed_view n (View_run (pf_plugin P) (model_env_of P c) t))) c
    (\<lambda>_ c'. \<exists>l. same_views (m_timedViewList c) l \<and> c' = c\<lparr>m_timedViewList := l\<rparr>)"
proof -
  obtain w where w: "map_of (m_timedViewList c) n = Some w" using n by auto
  have wo: "view_plugin w \<noteq> None" "\<And>e. e \<in> set (view_observables w) \<Longrightarrow> \<exists>sm. k_sims (m_eventTable c) (fst e) = Some sm"
    using v w unfolding viewable_def by (metis, metis option.exhaust)
  have "wp (View_run (pf_plugin P) (model_env_of P c) t) w (\<lambda>_. same_view w)"
  proof (rule wp_View_run)
    show "plugin_ok (pf_plugin P)" "view_plugin w \<noteq> None" using v wo by (auto simp: viewable_def)
    fix e
    assume "e \<in> set (view_observables w)"
    then obtain sm where sm: "k_sims (m_eventTable c) (fst e) = Some sm" using wo by blast
    then show "\<exists>nm. env_names (model_env_of P c) (fst e) = Inr nm" using v unfolding viewable_def by blast
    have "well_behaved (pf_dynamics P (fst e))" using v by (simp add: viewable_def)
    then show "\<exists>val. env_observation (model_env_of P c) t m (snd e) (fst e) = Inr val" for m
      using sm by (simp add: model_env_of_def well_behaved_def)
  qed
  from wp_on_entry [OF w this] show ?thesis
    unfolding wp_bindS wp_getS on_timed_view_def wp_focus by (rule wp_mono) blast
qed

lemma frame_timed_views: "same_views (m_timedViewList c) l \<Longrightarrow> view_frame c (c\<lparr>m_timedViewList := l\<rparr>)"
  unfolding view_frame_def
  by (rule exI [of _ "m_currentTime c"], rule exI [of _ "m_eventViewList c"], rule exI [of _ l],
      rule exI [of _ "m_timed_observation_scheduler c"]) simp

lemma frame_timed: "view_frame c (c\<lparr>m_timed_observation_scheduler := v\<rparr>)"
  unfolding view_frame_def
  by (rule exI [of _ "m_currentTime c"], rule exI [of _ "m_eventViewList c"], rule exI [of _ "m_timedViewList c"],
      rule exI [of _ v]) simp

lemma frame_time: "view_frame c (c\<lparr>m_currentTime := t\<rparr>)"
  unfolding view_frame_def
  by (rule exI [of _ t], rule exI [of _ "m_eventViewList c"], rule exI [of _ "m_timedViewList c"],
      rule exI [of _ "m_timed_observation_scheduler c"]) simp

lemma timed_ok_views:
  "same_views (m_timedViewList c) l \<Longrightarrow> timed_ok c \<Longrightarrow> timed_ok (c\<lparr>m_timedViewList := l\<rparr>)"
  using same_views_dom by (fastforce simp: timed_ok_def)

lemma wp_timed_entry:
  assumes v: "viewable P c" and ok: "timed_ok c" and e: "event_ok (dom (map_of (m_timedViewList c))) (m_durationTime c) e"
    and early: "dless (ve_time e) (m_durationTime c)"
  shows "wp (timed_entry P e) c (\<lambda>_ c'. view_frame c c' \<and> timed_ok c' \<and> m_currentTime c' = m_currentTime c
    \<and> rooms (m_timed_observation_scheduler c') + 1 \<le> rooms (m_timed_observation_scheduler c) + room e)"
proof -
  let ?e = "ViewEvent_update e"
  have n: "ve_view e \<in> dom (map_of (m_timedViewList c))" using e by (simp add: event_ok_def)
  show ?thesis
    unfolding timed_entry_def wp_thenS
  proof (rule wp_mono [OF wp_run_timed_view [OF v n]], elim exE conjE)
    fix u c1 l
    assume l: "same_views (m_timedViewList c) l" and c1: "c1 = c\<lparr>m_timedViewList := l\<rparr>"
    have fr: "view_frame c c1" and ok1: "timed_ok c1"
      using frame_timed_views [OF l] timed_ok_views [OF l ok] by (simp_all add: c1)
    show "wp (let elem' = ?e in if \<not> isInfinity (ve_time elem')
        then on_timed (addObservation (ve_view elem') (ve_time elem') (ve_timestep elem')) else retS ()) c1
      (\<lambda>_ c'. view_frame c c' \<and> timed_ok c' \<and> m_currentTime c' = m_currentTime c
        \<and> rooms (m_timed_observation_scheduler c') + 1 \<le> rooms (m_timed_observation_scheduler c) + room e)"
    proof (cases "isInfinity (ve_time ?e)")
      case True
      then show ?thesis using fr ok1 room_pos [OF e] by (simp add: wp_retS c1)
    next
      case False
      note up = update_event [OF e early False]
      have "?e = \<lparr>ve_view = ve_view ?e, ve_time = ve_time ?e, ve_timestep = ve_timestep ?e\<rparr>" by simp
      moreover have "wp (addObservation (ve_view ?e) (ve_time ?e) (ve_timestep ?e)) (m_timed_observation_scheduler c1) (\<lambda>_ w. is_heap w \<and> dated w
          \<and> mset w = add_mset \<lparr>ve_view = ve_view ?e, ve_time = ve_time ?e, ve_timestep = ve_timestep ?e\<rparr> (mset (m_timed_observation_scheduler c1)))"
        using up(1) ok1 timed_ok_dated [OF ok1] by (subst wp_addObservation) (auto simp: timed_ok_def event_ok_def)
      ultimately have add: "wp (addObservation (ve_view ?e) (ve_time ?e) (ve_timestep ?e)) (m_timed_observation_scheduler c1)
          (\<lambda>_ w. is_heap w \<and> mset w = add_mset ?e (mset (m_timed_observation_scheduler c1)))"
        by (elim wp_mono) simp
      show ?thesis
        unfolding Let_def if_P [OF False] on_timed_def wp_focus
      proof (rule wp_mono [OF add], elim conjE)
        fix w'
        assume w: "is_heap w'" "mset w' = add_mset ?e (mset (m_timed_observation_scheduler c1))"
        have "set w' = insert ?e (set (m_timed_observation_scheduler c1))" using arg_cong [OF w(2), of set_mset] by simp
        then have "timed_ok (c1\<lparr>m_timed_observation_scheduler := w'\<rparr>)"
          using ok1 w(1) up(1) same_views_dom [OF l] by (simp add: timed_ok_def c1)
        moreover have "view_frame c (c1\<lparr>m_timed_observation_scheduler := w'\<rparr>)" by (rule view_frame_trans [OF fr frame_timed])
        ultimately show "view_frame c (c1\<lparr>m_timed_observation_scheduler := w'\<rparr>) \<and> timed_ok (c1\<lparr>m_timed_observation_scheduler := w'\<rparr>)
          \<and> m_currentTime (c1\<lparr>m_timed_observation_scheduler := w'\<rparr>) = m_currentTime c
          \<and> rooms (m_timed_observation_scheduler (c1\<lparr>m_timed_observation_scheduler := w'\<rparr>)) + 1 \<le> rooms (m_timed_observation_scheduler c) + room e"
          using up(2) w(2) by (simp add: c1 rooms_def)
      qed
    qed
  qed
qed


lemma wp_timed_round:
  assumes v: "viewable P c" and ok: "timed_ok c" and hv: "haveObservationAtTime eatuntil (m_timed_observation_scheduler c)"
    and dur: "\<And>t. dless t eatuntil \<Longrightarrow> dless t (m_durationTime c)"
  shows "wp (timed_round P eatuntil) c (\<lambda>_ c'. view_frame c c' \<and> timed_ok c'
    \<and> rooms (m_timed_observation_scheduler c') < rooms (m_timed_observation_scheduler c))"
proof -
  let ?v = "m_timed_observation_scheduler c"
  have hp: "is_heap ?v" "dated ?v" using ok timed_ok_dated by (auto simp: timed_ok_def)
  obtain r w where rw: "getObservationAtTime eatuntil ?v = Ret r w" "is_heap w" "mset r = filter_mset (early eatuntil) (mset ?v)"
    "mset w = filter_mset (\<lambda>e. \<not> early eatuntil e) (mset ?v)"
    using wp_getObservationAtTime [OF hp, of eatuntil] by (auto simp: wp_iff)
  have sub: "set r \<subseteq> set ?v" "set w \<subseteq> set ?v" "\<forall>e \<in> set r. early eatuntil e"
    using arg_cong [OF rw(3), of set_mset] arg_cong [OF rw(4), of set_mset] by auto
  have "\<exists>e \<in># mset ?v. early eatuntil e" using hv haveObservation_iff [OF hp] by simp
  then have ne: "r \<noteq> []" using arg_cong [OF rw(3), of set_mset] by auto
  have total: "rooms ?v = rooms w + rooms r"
  proof -
    have "mset ?v = mset w + mset r" unfolding rw(3,4) by (metis add.commute multiset_partition)
    then show ?thesis by (simp add: rooms_def)
  qed
  let ?c1 = "c\<lparr>m_timed_observation_scheduler := w, m_currentTime := ve_time (last r)\<rparr>"
  have fr1: "view_frame c ?c1" by (rule view_frame_trans [OF frame_timed frame_time])
  have ok1: "timed_ok ?c1" using ok rw(2) sub(2) by (auto simp: timed_ok_def)
  let ?J = "\<lambda>pre c'. view_frame c c' \<and> timed_ok c' \<and> rooms (m_timed_observation_scheduler c') + length pre \<le> rooms w + rooms pre"
  have "wp (forS (timed_entry P) r) ?c1 (\<lambda>_. ?J r)"
  proof (rule wp_forS_prefix [where J = ?J])
    show "?J [] ?c1" using fr1 ok1 by (simp add: rooms_def)
    fix pre e post c'
    assume split: "r = pre @ e # post" and J: "?J pre c'"
    then have fr: "view_frame c c'" by blast
    have e: "e \<in> set ?v" "early eatuntil e" using split sub by auto
    have "event_ok (dom (map_of (m_timedViewList c'))) (m_durationTime c') e"
      using ok e(1) same_views_dom [OF view_frame_fields(10) [OF fr]] by (auto simp: timed_ok_def view_frame_fields(4) [OF fr])
    moreover have "dless (ve_time e) (m_durationTime c')" using dur [OF e(2)] by (simp add: view_frame_fields(4) [OF fr])
    ultimately have "wp (timed_entry P e) c' (\<lambda>_ c''. view_frame c' c'' \<and> timed_ok c'' \<and> m_currentTime c'' = m_currentTime c'
      \<and> rooms (m_timed_observation_scheduler c'') + 1 \<le> rooms (m_timed_observation_scheduler c') + room e)"
      using J by (intro wp_timed_entry viewable_frame [OF fr v]) auto
    then show "wp (timed_entry P e) c' (\<lambda>_. ?J (pre @ [e]))"
      by (rule wp_mono) (use J view_frame_trans [OF fr] in \<open>auto simp: rooms_def\<close>)
  qed
  then have "wp (forS (timed_entry P) r) ?c1 (\<lambda>_ c'. view_frame c c' \<and> timed_ok c' \<and> rooms (m_timed_observation_scheduler c') < rooms ?v)"
    by (rule wp_mono) (use ne total in \<open>cases r; auto\<close>)
  moreover have "wp (on_timed (getObservationAtTime eatuntil)) c Q \<longleftrightarrow> Q r (c\<lparr>m_timed_observation_scheduler := w\<rparr>)" for Q
    using rw(1) by (simp add: on_timed_def focus_def wp_def)
  ultimately show ?thesis using ne by (simp add: timed_round_def wp_bindS wp_thenS wp_updS)
qed

lemma timed_loop_spec:
  assumes "viewable P c" "timed_ok c" "\<And>t. dless t eatuntil \<Longrightarrow> dless t (m_durationTime c)"
  shows "\<exists>c'. timed_loop P eatuntil c = Some (Ret () c') \<and> view_frame c c' \<and> timed_ok c'
    \<and> \<not> haveObservationAtTime eatuntil (m_timed_observation_scheduler c')"
  using assms
proof (induction "rooms (m_timed_observation_scheduler c)" arbitrary: c rule: less_induct)
  case less
  show ?case
  proof (cases "haveObservationAtTime eatuntil (m_timed_observation_scheduler c)")
    case False
    then show ?thesis using less.prems view_frame_refl by (subst timed_loop.simps) auto
  next
    case True
    obtain c1 where c1: "timed_round P eatuntil c = Ret () c1" "view_frame c c1" "timed_ok c1"
      "rooms (m_timed_observation_scheduler c1) < rooms (m_timed_observation_scheduler c)"
      using wp_timed_round [OF less.prems(1,2) True less.prems(3)] by (auto simp: wp_iff)
    have "\<And>t. dless t eatuntil \<Longrightarrow> dless t (m_durationTime c1)"
      using less.prems(3) by (simp add: view_frame_fields(4) [OF c1(2)])
    from less.hyps [OF c1(4) viewable_frame [OF c1(2) less.prems(1)] c1(3) this] obtain c' where
      "timed_loop P eatuntil c1 = Some (Ret () c')" "view_frame c1 c'" "timed_ok c'"
      "\<not> haveObservationAtTime eatuntil (m_timed_observation_scheduler c')" by blast
    then show ?thesis using True c1 view_frame_trans by (subst timed_loop.simps) auto
  qed
qed

lemma wp_timed_finalize:
  assumes v: "viewable P c" and ok: "timed_ok c"
  shows "wp (timed_finalize P t) c (\<lambda>_ c'. view_frame c c' \<and> timed_ok c' \<and> m_timed_observation_scheduler c' = [])"
proof -
  let ?I = "\<lambda>es c'. view_frame c c' \<and> set es \<subseteq> set (m_timed_observation_scheduler c)"
  have "wp (forS (\<lambda>elem. bindS getS (\<lambda>c. on_timed_view (ve_view elem) (View_run (pf_plugin P) (model_env_of P c) t)))
      (m_timed_observation_scheduler c)) c (\<lambda>_. ?I [])"
  proof (rule wp_forS [where I = ?I])
    show "?I (m_timed_observation_scheduler c) c" by (simp add: view_frame_refl)
    fix e es c'
    assume I: "?I (e # es) c'"
    then have fr: "view_frame c c'" by blast
    have "ve_view e \<in> dom (map_of (m_timedViewList c'))"
      using I ok same_views_dom [OF view_frame_fields(10) [OF fr]] by (auto simp: timed_ok_def event_ok_def)
    from wp_run_timed_view [OF viewable_frame [OF fr v] this]
    show "wp (bindS getS (\<lambda>c. on_timed_view (ve_view e) (View_run (pf_plugin P) (model_env_of P c) t))) c' (\<lambda>_. ?I es)"
      by (rule wp_mono) (use I frame_timed_views view_frame_trans [OF fr] in auto)
  qed
  then have "wp (forS (\<lambda>elem. bindS getS (\<lambda>c. on_timed_view (ve_view elem) (View_run (pf_plugin P) (model_env_of P c) t)))
      (m_timed_observation_scheduler c)) c (\<lambda>_ c'. view_frame c (c'\<lparr>m_timed_observation_scheduler := []\<rparr>)
        \<and> timed_ok (c'\<lparr>m_timed_observation_scheduler := []\<rparr>))"
    by (rule wp_mono) (auto simp: timed_ok_def is_heap_def intro: view_frame_trans [OF _ frame_timed])
  then show ?thesis by (simp add: timed_finalize_def wp_simps)
qed

lemma wp_timed_observations:
  assumes v: "viewable P c" and ok: "timed_ok c" and dur: "m_durationTime c \<noteq> dnan"
  shows "wp (timed_observations P) c (\<lambda>_ c'. view_frame c c' \<and> timed_ok c')"
proof -
  let ?n = "getNextTime (pf_heap P) (m_eventTable c)"
  let ?u = "if dless (m_durationTime c) ?n then m_durationTime c else ?n"
  have u: "dless t (m_durationTime c)" if "dless t ?u" for t
    using that dur by (auto simp: double_simps split: if_splits)
  obtain c1 where c1: "timed_loop P ?u c = Some (Ret () c1)" "view_frame c c1" "timed_ok c1"
    using timed_loop_spec [OF v ok u] by blast
  let ?c2 = "c1\<lparr>m_currentTime := m_durationTime c1\<rparr>"
  have fr2: "view_frame c ?c2" by (rule view_frame_trans [OF c1(2) frame_time])
  have "timed_ok ?c2" using c1(3) by (simp add: timed_ok_def)
  from wp_timed_finalize [OF viewable_frame [OF fr2 v] this]
  have fin: "wp (timed_finalize P t) ?c2 (\<lambda>_ c'. view_frame c c' \<and> timed_ok c')" for t
    by (rule wp_mono) (use view_frame_trans [OF fr2] in blast)
  have "run_loop (timed_loop P ?u) c = Ret () c1" using c1(1) by (simp add: run_loop_def)
  then have "wp (run_loop (timed_loop P ?u)) c Q = Q () c1" for Q by (simp add: wp_def)
  then show ?thesis
    using fin c1(2,3) ok view_frame_refl [of c]
    by (auto simp: timed_observations_def wp_bindS wp_getS Let_def wp_thenS wp_updS wp_retS)
qed

section \<open>Properties\<close>

text \<open>
  C18. The loop over the timed views ends when every time step moves the date forward up to the end of
  the simulation: it observes every date that is earlier than the bound and afterwards none is left, the
  schedule is a heap of valid events again, and only dates and plug-in states have changed. The
  number of representable dates that are left bounds the number of turns.
\<close>

theorem timed_loop_ends:
  assumes "viewable P c" "timed_ok c" "m_durationTime c \<noteq> dnan" "dle eatuntil (m_durationTime c)"
  shows "\<exists>c'. timed_loop P eatuntil c = Some (Ret () c') \<and> view_frame c c' \<and> timed_ok c'
    \<and> (\<forall>e \<in> set (m_timed_observation_scheduler c'). \<not> dless (ve_time e) eatuntil)"
proof -
  have "dless t (m_durationTime c)" if "dless t eatuntil" for t using that assms(4) by (auto simp: double_simps)
  from timed_loop_spec [OF assms(1,2) this] obtain c' where c': "timed_loop P eatuntil c = Some (Ret () c')" "view_frame c c'" "timed_ok c'"
    "\<not> haveObservationAtTime eatuntil (m_timed_observation_scheduler c')" by blast
  then show ?thesis using haveObservation_iff [OF _ timed_ok_dated [OF c'(3)]] by (auto simp: timed_ok_def)
qed

text \<open>One view that observes nothing, every unit of time from date 0, in a simulation that ends at date 3.\<close>

definition sample_coordinator :: "(list_heap, nat, int, unit) coordinator" where
  "sample_coordinator = \<lparr>m_currentTime = dfin 0, m_durationTime = dfin 3, m_parallelize = False, m_simulators = [1, 3],
     m_eventTable = \<lparr>k_time = dfin 0, k_bag = empty_bag\<lparr>bag_dynamics := [1], bag_unique := {1}\<rparr>, k_heap = [],
       k_sims = sample_sims(1 \<mapsto> (Simulator_new 1 0 False)\<lparr>sim_internal := True, sim_tn := dfin 0\<rparr>)\<rparr>,
     m_timed_observation_scheduler = [\<lparr>ve_view = ''v'', ve_time = dfin 0, ve_timestep = dfin 1\<rparr>],
     m_eventViewList = [], m_timedViewList = [(''v'', \<lparr>view_observables = [], view_name = ''v'', view_plugin = Some ()\<rparr>)],
     m_delete_model = [], m_isStarted = True, m_graph = sample, m_simulator = Some\<rparr>"

lemma small_finite: "dle (dfin 0) t \<Longrightarrow> dless t (dfin 3) \<Longrightarrow> \<exists>k. 0 \<le> k \<and> k < 3 \<and> t = dfin k"
  by (cases t rule: double_cases) (auto simp: double_simps fp_round_small)

lemma unit_step_advances: "advances (dfin 3) \<lparr>ve_view = n, ve_time = dfin 0, ve_timestep = dfin 1\<rparr>"
  unfolding advances_def using small_finite by (fastforce simp: dadd_dfin double_simps fp_round_small dfin_inject)

lemma sample_timed_ok: "timed_ok sample_coordinator"
  using unit_step_advances
  by (simp add: timed_ok_def sample_coordinator_def is_heap_def event_ok_def isInfinity_iff dfin_not_inf)

lemma sample_names:
  assumes "k_sims (m_eventTable sample_coordinator) x = Some sm"
  shows "\<exists>nm. env_names (model_env_of sample_platform sample_coordinator) x = Inr nm"
proof -
  have "x = 1 \<and> sim_model sm = 1 \<or> x = 3 \<and> sim_model sm = 3"
    using assms by (auto simp: sample_coordinator_def sample_sims_def Simulator_new_def split: if_splits)
  then show ?thesis
    using assms
    by (auto simp: model_env_of_def sample_platform_def outcome_result_def getName_def getParentName_def getParent_def deref_def
        effect_defs sample_nodes sample_coordinator_def)
qed

lemma sample_viewable: "viewable sample_platform sample_coordinator"
  unfolding viewable_def
proof (intro conjI allI impI)
  fix x sm
  assume "k_sims (m_eventTable sample_coordinator) x = Some sm"
  then show "\<exists>nm. env_names (model_env_of sample_platform sample_coordinator) x = Inr nm" by (rule sample_names)
qed (auto simp: sample_platform_def plugin_ok_def returns_def wp_simps counter_well_behaved sample_coordinator_def split: if_splits)

theorem timed_loop_ends_witness:
  "\<exists>c'. timed_loop sample_platform (dfin 2) sample_coordinator = Some (Ret () c')
    \<and> (\<forall>e \<in> set (m_timed_observation_scheduler c'). \<not> dless (ve_time e) (dfin 2))"
proof -
  have d: "m_durationTime sample_coordinator = dfin 3" by (simp add: sample_coordinator_def)
  then have "m_durationTime sample_coordinator \<noteq> dnan" "dle (dfin 2) (m_durationTime sample_coordinator)"
    by (simp_all add: double_simps fp_round_small)
  from timed_loop_ends [OF sample_viewable sample_timed_ok this] show ?thesis by blast
qed

text \<open>A schedule with one view whose time step does not move its date.\<close>

definition stalled :: "view_event \<Rightarrow> ('q, 'h, 'u, 'p) platform \<Rightarrow> time \<Rightarrow> ('q, 'h, 'u, 'p) coordinator \<Rightarrow> bool" where
  "stalled e P eatuntil c \<longleftrightarrow> viewable P c \<and> m_timed_observation_scheduler c = [e] \<and> ve_view e \<in> dom (map_of (m_timedViewList c))
     \<and> \<not> isInfinity (ve_time e) \<and> \<not> isInfinity (ve_timestep e) \<and> dless (ve_time e) eatuntil \<and> dadd (ve_time e) (ve_timestep e) = ve_time e"

lemma stalled_entry:
  assumes s: "stalled e P eatuntil c"
  shows "wp (timed_entry P e) (c\<lparr>m_timed_observation_scheduler := [], m_currentTime := ve_time e\<rparr>) (\<lambda>_. stalled e P eatuntil)"
  unfolding timed_entry_def wp_thenS
proof -
  let ?c1 = "c\<lparr>m_timed_observation_scheduler := [], m_currentTime := ve_time e\<rparr>"
  have fr: "view_frame c ?c1" by (rule view_frame_trans [OF frame_timed frame_time])
  have v: "viewable P ?c1" and n: "ve_view e \<in> dom (map_of (m_timedViewList ?c1))"
    using s viewable_frame [OF fr] by (auto simp: stalled_def)
  have up: "ViewEvent_update e = e" using s by (simp add: ViewEvent_update_def stalled_def)
  have fin: "\<not> isInfinity (ve_time e)" "\<not> isInfinity (ve_timestep e)" using s by (auto simp: stalled_def)
  have add: "wp (addObservation (ve_view e) (ve_time e) (ve_timestep e)) [] Q \<longleftrightarrow> Q () [e]" for Q
    using fin by (cases e) (simp add: addObservation_def wp_simps ViewEvent_new_def isInfinity_iff isNegativeInfinity_iff push_def sift_up.simps)
  show "wp (bindS getS (\<lambda>c. on_timed_view (ve_view e) (View_run (pf_plugin P) (model_env_of P c) (ve_time e)))) ?c1
    (\<lambda>_ c2. wp (let elem' = ViewEvent_update e in if \<not> isInfinity (ve_time elem')
          then on_timed (addObservation (ve_view elem') (ve_time elem') (ve_timestep elem')) else retS ()) c2 (\<lambda>_. stalled e P eatuntil))"
  proof (rule wp_mono [OF wp_run_timed_view [OF v n]], elim exE conjE)
    fix u c2 l
    assume l: "same_views (m_timedViewList ?c1) l" "c2 = ?c1\<lparr>m_timedViewList := l\<rparr>"
    have "view_frame c (c2\<lparr>m_timed_observation_scheduler := [e]\<rparr>)"
      unfolding l(2) by (rule view_frame_trans [OF view_frame_trans [OF fr frame_timed_views [OF l(1)]] frame_timed])
    then have "viewable P (c2\<lparr>m_timed_observation_scheduler := [e]\<rparr>)" using s by (auto simp: stalled_def intro: viewable_frame)
    then have "stalled e P eatuntil (c2\<lparr>m_timed_observation_scheduler := [e]\<rparr>)"
      using s n same_views_dom [OF l(1)] by (simp add: stalled_def l(2))
    moreover have "m_timed_observation_scheduler c2 = []" by (simp add: l(2))
    ultimately show "wp (let elem' = ViewEvent_update e in if \<not> isInfinity (ve_time elem')
          then on_timed (addObservation (ve_view elem') (ve_time elem') (ve_timestep elem')) else retS ()) c2 (\<lambda>_. stalled e P eatuntil)"
      using fin(1) by (simp add: up on_timed_def wp_focus add)
  qed
qed

lemma stalled_round:
  assumes s: "stalled e P eatuntil c"
  shows "\<exists>c'. timed_round P eatuntil c = Ret () c' \<and> stalled e P eatuntil c'"
proof -
  have get: "getObservationAtTime eatuntil [e] = Ret [e] []"
    using s by (simp add: stalled_def getObservationAtTime_def observations_loop.simps pop_def sift_down.simps)
  have "wp (on_timed (getObservationAtTime eatuntil)) c Q \<longleftrightarrow> Q [e] (c\<lparr>m_timed_observation_scheduler := []\<rparr>)" for Q
    using s get by (simp add: on_timed_def focus_def wp_def stalled_def)
  then have "wp (timed_round P eatuntil) c (\<lambda>_. stalled e P eatuntil)"
    using stalled_entry [OF s] by (simp add: timed_round_def wp_bindS wp_thenS wp_updS wp_retS)
  then show ?thesis by (auto simp: wp_iff)
qed

lemma stalled_never:
  assumes "timed_loop P eatuntil c = Some r"
  shows "\<not> stalled e P eatuntil c"
proof -
  have "\<not> stalled e (fst (fst ((P, eatuntil), c))) (snd (fst ((P, eatuntil), c))) (snd ((P, eatuntil), c))"
  proof (rule timed_loop.raw_induct [where Pa = "\<lambda>x r. \<not> stalled e (fst (fst x)) (snd (fst x)) (snd x)", OF _ assms], unfold fst_conv snd_conv)
    fix loop P u c r
    assume IH: "\<And>P u c r. loop P u c = Some r \<Longrightarrow> \<not> stalled e P u c"
      and body: "(if haveObservationAtTime u (m_timed_observation_scheduler c)
        then case timed_round P u c of Ret x c' \<Rightarrow> loop P u c' | Exn e c' \<Rightarrow> Some (Exn e c') else Some (Ret () c)) = Some r"
    show "\<not> stalled e P u c"
    proof
      assume s: "stalled e P u c"
      then have "haveObservationAtTime u (m_timed_observation_scheduler c)" by (simp add: stalled_def haveObservationAtTime_def)
      with body IH stalled_round [OF s] show False by auto
    qed
  qed
  then show ?thesis by simp
qed

text \<open>
  C19. With a time step that does not move the date, zero or one that is absorbed by rounding, the loop
  over the timed views never ends.
\<close>

theorem timed_loop_diverges:
  assumes "viewable P c" "m_timed_observation_scheduler c = [e]" "ve_view e \<in> dom (map_of (m_timedViewList c))"
    and "\<not> isInfinity (ve_time e)" "\<not> isInfinity (ve_timestep e)" "dless (ve_time e) eatuntil" "dadd (ve_time e) (ve_timestep e) = ve_time e"
  shows "timed_loop P eatuntil c = None"
proof -
  have "stalled e P eatuntil c" using assms by (simp add: stalled_def)
  then show ?thesis using stalled_never by (metis not_Some_eq)
qed

theorem timed_loop_diverges_witness:
  "timed_loop sample_platform (dfin 2)
    (sample_coordinator\<lparr>m_timed_observation_scheduler := [\<lparr>ve_view = ''v'', ve_time = dfin 1, ve_timestep = dfin 0\<rparr>]\<rparr>) = None"
proof -
  let ?e = "\<lparr>ve_view = ''v'', ve_time = dfin 1, ve_timestep = dfin 0\<rparr>"
  let ?c = "sample_coordinator\<lparr>m_timed_observation_scheduler := [?e]\<rparr>"
  have "viewable sample_platform ?c" by (rule viewable_frame [OF frame_timed sample_viewable])
  moreover have "dless (dfin 1) (dfin 2)" "dadd (dfin 1) (dfin 0) = dfin 1" "ve_view ?e \<in> dom (map_of (m_timedViewList ?c))"
    by (simp_all add: double_simps fp_round_small dadd_dfin sample_coordinator_def)
  ultimately show ?thesis
    using timed_loop_diverges [of sample_platform ?c ?e "dfin 2"] dfin_not_inf [of 0] dfin_not_inf [of 1] by (simp add: isInfinity_iff)
qed

end
