(* ===== verification/DEVS_Round.thy ===== *)
theory DEVS_Round
  imports Observation_Loop
begin

text \<open>
  One round of the coordinator on a fixed structure without executives, on the level of the kernel:
  outputs, dispatch, transitions and rescheduling, related for every simulator to what the DEVS
  formalism asks of its model.
\<close>

section \<open>The functions of a model\<close>

text \<open>The transition that the formalism asks for, followed by the time advance: the next date is returned.\<close>

definition devs_delta :: "'u dynamics_ops \<Rightarrow> time \<Rightarrow> bool \<Rightarrow> external_event list \<Rightarrow> ('u, time) proc" where
  "devs_delta D t imminent evs =
     thenS (if imminent then (if evs = [] then dyn_internalTransition D t else dyn_confluentTransitions D t evs)
            else dyn_externalTransition D evs t)
       (bindS (dyn_timeAdvance D) (\<lambda>d. retS (dadd d t)))"

lemma forS_keeps:
  assumes "\<And>x s s'. f x s = Ret () s' \<Longrightarrow> h s' = h s"
  shows "forS f xs s = Ret () s' \<Longrightarrow> h s' = h s"
  by (induction xs arbitrary: s) (auto simp: retS_def thenS_def bindS_eq_Ret dest: assms)

lemma observe_keeps: "observe D pp t sm = Ret () sm' \<Longrightarrow> sim_dynamics sm' = sim_dynamics sm \<and> sim_result sm' = sim_result sm"
  by (auto simp: observe_def bindS_eq_Ret getS_def retS_def thenS_def updS_def liftS_def split: option.splits sum.splits
      dest!: forS_keeps [where h = "\<lambda>sm. (sim_dynamics sm, sim_result sm)", rotated])

lemma call_user_eq_Ret: "call_user m sm = Ret x sm' \<longleftrightarrow> (\<exists>u. m (sim_dynamics sm) = Ret x u \<and> sm' = sm\<lparr>sim_dynamics := u\<rparr>)"
  by (auto simp: call_user_def split: outcome.splits)

lemma set_tn_eq_Ret:
  "set_tn D t sm = Ret tn sm' \<Longrightarrow> bindS (dyn_timeAdvance D) (\<lambda>d. retS (dadd d t)) (sim_dynamics sm) = Ret tn (sim_dynamics sm')"
  by (auto simp: set_tn_def timeAdvance_def thenS_def bindS_eq_Ret call_user_eq_Ret updS_def retS_def throwS_def split: if_splits)

lemma body_delta:
  assumes "thenS (call_user m) (thenS (observe D pp t) (thenS (updS f) (set_tn D t))) sm = Ret tn sm'"
    and "\<And>sm. sim_dynamics (f sm) = sim_dynamics sm"
  shows "thenS m (bindS (dyn_timeAdvance D) (\<lambda>d. retS (dadd d t))) (sim_dynamics sm) = Ret tn (sim_dynamics sm')"
proof -
  from assms(1) obtain x u sm2 where 1: "m (sim_dynamics sm) = Ret x u" "observe D pp t (sm\<lparr>sim_dynamics := u\<rparr>) = Ret () sm2"
    "set_tn D t (f sm2) = Ret tn sm'" by (auto simp: thenS_def bindS_eq_Ret call_user_eq_Ret updS_def)
  have "sim_dynamics sm2 = u" using observe_keeps [OF 1(2)] by simp
  then show ?thesis using set_tn_eq_Ret [OF 1(3)] assms(2) 1(1) by (simp add: thenS_def)
qed

lemma transition_delta:
  fixes sm :: "('h, 'u) simulator"
  assumes "transition D t sm = Ret tn sm'"
  shows "devs_delta D t (sim_internal sm) (sim_external sm) (sim_dynamics sm) = Ret tn (sim_dynamics sm')"
proof -
  have ass: "thenS (assertS P msg) m sm = Ret tn sm' \<longleftrightarrow> P sm \<and> m sm = Ret tn sm'" for P msg and m :: "('h, 'u, time) sproc"
    by (simp add: thenS_def bindS_def assertS_def)
  have get: "bindS getS m sm = m sm sm" for m :: "('h, 'u) simulator \<Rightarrow> ('h, 'u, time) sproc" by (simp add: bindS_def getS_def)
  from assms show ?thesis
    unfolding transition_def devs_delta_def get internalTransition_def confluentTransitions_def externalTransition_def
    by (auto simp: ass get split: if_splits dest: body_delta)
qed


section \<open>The simulators between two rounds\<close>

text \<open>User code sends its output events on ports that its model has.\<close>

definition serves :: "graph \<Rightarrow> addr \<Rightarrow> 'u dynamics_ops \<Rightarrow> bool" where
  "serves g a D \<longleftrightarrow> (\<forall>t u. wp (dyn_output D t) (u, []) (\<lambda>_ r. \<forall>ev \<in> set (snd r). has_port g Out a (ev_port ev)))"

text \<open>
  What stays true of a simulator all along: it is no executive, its user code is well behaved and the
  views it reports to exist.
\<close>

definition member :: "('q, 'h, 'u, 'p) platform \<Rightarrow> graph \<Rightarrow> string set \<Rightarrow> sim_id \<Rightarrow> ('h, 'u) simulator \<Rightarrow> bool" where
  "member P g V x sm \<longleftrightarrow> \<not> sim_executive sm \<and> observed_views sm \<subseteq> V \<and> pending_views sm \<subseteq> V
     \<and> well_behaved (pf_dynamics P x) \<and> serves g (sim_model sm) (pf_dynamics P x)"

text \<open>
  Between two rounds no event is pending; a simulator is in the bag with an internal event, and its
  next date is the present one, or is scheduled for later, or is passive.
\<close>

definition idle :: "time \<Rightarrow> sim_id set \<Rightarrow> sim_id \<Rightarrow> ('h, 'u) simulator \<Rightarrow> bool" where
  "idle now B x sm \<longleftrightarrow> sim_external sm = [] \<and> sim_result sm = [] \<and> sim_observations sm = [] \<and> (sim_internal sm \<longleftrightarrow> x \<in> B)
     \<and> (if x \<in> B then sim_tn sm = now else sim_handle sm = None \<longrightarrow> sim_tn sm = infinity)"

definition all_sims :: "(sim_id \<Rightarrow> ('h, 'u) simulator \<Rightarrow> bool) \<Rightarrow> ('q, 'h, 'u) kernel \<Rightarrow> bool" where
  "all_sims Q k \<longleftrightarrow> (\<forall>x sm. k_sims k x = Some sm \<longrightarrow> Q x sm)"

lemma all_simsD: "all_sims Q k \<Longrightarrow> k_sims k x = Some sm \<Longrightarrow> Q x sm"
  by (simp add: all_sims_def)

text \<open>Two states whose simulators are related one by one.\<close>

definition pointwise :: "(sim_id \<Rightarrow> ('h, 'u) simulator \<Rightarrow> ('h, 'u) simulator \<Rightarrow> bool) \<Rightarrow> ('q, 'h, 'u) kernel \<Rightarrow> ('q, 'h, 'u) kernel \<Rightarrow> bool" where
  "pointwise R k k' \<longleftrightarrow> (\<forall>x. rel_option (R x) (k_sims k x) (k_sims k' x))"

lemma pointwise_mono: "pointwise R k k' \<Longrightarrow> (\<And>x sm sm'. k_sims k x = Some sm \<Longrightarrow> R x sm sm' \<Longrightarrow> S x sm sm') \<Longrightarrow> pointwise S k k'"
  unfolding pointwise_def rel_option_iff by (fastforce split: option.splits)

lemma pointwise_trans:
  "pointwise R k k1 \<Longrightarrow> pointwise S k1 k2 \<Longrightarrow> pointwise (\<lambda>x. R x OO S x) k k2"
  unfolding pointwise_def option.rel_compp by blast

lemma pointwise_forward:
  assumes "pointwise R k k'" "k_sims k x = Some sm"
  obtains sm' where "k_sims k' x = Some sm'" "R x sm sm'"
  using assms rel_option_forward [of "R x" sm "k_sims k' x"] unfolding pointwise_def by metis

lemma pointwise_sim: "pointwise R k k' \<Longrightarrow> k_sims k x = Some sm \<Longrightarrow> \<exists>sm'. k_sims k' x = Some sm' \<and> R x sm sm'"
  by (metis pointwise_forward)

lemma pointwise_back:
  assumes "pointwise R k k'" "k_sims k' x = Some sm'"
  obtains sm where "k_sims k x = Some sm" "R x sm sm'"
  using assms rel_option_backward [of "R x" "k_sims k x" sm'] unfolding pointwise_def by metis

lemma pointwise_None:
  assumes "pointwise R k k'" "k_sims k x = None"
  shows "k_sims k' x = None"
proof -
  have "rel_option (R x) (k_sims k x) (k_sims k' x)" using assms(1) by (simp add: pointwise_def)
  then show ?thesis using assms(2) by simp
qed

lemma pointwise_field:
  assumes "pointwise R k k'" "\<And>x sm sm'. R x sm sm' \<Longrightarrow> f sm' = f sm"
  shows "map_option f (k_sims k' x) = map_option f (k_sims k x)"
proof -
  have "rel_option (R x) (k_sims k x) (k_sims k' x)" using assms(1) by (simp add: pointwise_def)
  then show ?thesis by (cases rule: option.rel_cases) (simp_all add: assms(2))
qed

lemma pointwise_all: "pointwise R k k' \<Longrightarrow> (\<And>x sm sm'. k_sims k x = Some sm \<Longrightarrow> R x sm sm' \<Longrightarrow> Q x sm') \<Longrightarrow> all_sims Q k'"
  unfolding pointwise_def all_sims_def using rel_option_backward by metis

lemma got_pointwise: "got g gs R X k k' \<Longrightarrow> pointwise (delivered g gs R X) k k'"
  by (simp add: got_def pointwise_def)

text \<open>A loop of procedures on the simulators of a list without repetitions.\<close>

lemma wp_on_sims:
  assumes d: "distinct xs" and m: "\<And>x. x \<in> set xs \<Longrightarrow> \<exists>sm. k_sims k x = Some sm \<and> wp (m x) sm (\<lambda>_. R x sm)"
  shows "wp (forS (\<lambda>x. on_sim x (m x)) xs) k
    (\<lambda>_ k'. (\<exists>sims. k' = k\<lparr>k_sims := sims\<rparr>) \<and> pointwise (\<lambda>x. if x \<in> set xs then R x else (=)) k k')"
proof (rule wp_forS_prefix [where J = "\<lambda>pre k'. (\<exists>sims. k' = k\<lparr>k_sims := sims\<rparr>) \<and> pointwise (\<lambda>x. if x \<in> set pre then R x else (=)) k k'"])
  have "\<exists>sims. k = k\<lparr>k_sims := sims\<rparr>" by (rule exI [of _ "k_sims k"]) simp
  then show "(\<exists>sims. k = k\<lparr>k_sims := sims\<rparr>) \<and> pointwise (\<lambda>x. if x \<in> set [] then R x else (=)) k k"
    by (auto simp: pointwise_def option.rel_refl)
  fix pre x post k1
  assume split: "xs = pre @ x # post" and J: "(\<exists>sims. k1 = k\<lparr>k_sims := sims\<rparr>) \<and> pointwise (\<lambda>x. if x \<in> set pre then R x else (=)) k k1"
  have x: "x \<notin> set pre" "x \<in> set xs" using d split by auto
  obtain sm where sm: "k_sims k x = Some sm" "wp (m x) sm (\<lambda>_. R x sm)" using m [OF x(2)] by blast
  from J x(1) obtain sm1 where "k_sims k1 x = Some sm1" "sm1 = sm" by (elim conjE pointwise_forward [OF _ sm(1)]) auto
  then have sm1: "k_sims k1 x = Some sm" by simp
  have "wp (m x) sm (\<lambda>_ sm'. (\<exists>sims. put_sim x sm' k1 = k\<lparr>k_sims := sims\<rparr>)
      \<and> pointwise (\<lambda>y. if y \<in> set (pre @ [x]) then R y else (=)) k (put_sim x sm' k1))"
  proof (rule wp_mono [OF sm(2)])
    fix u sm'
    assume R: "R x sm sm'"
    have "rel_option (if y \<in> set (pre @ [x]) then R y else (=)) (k_sims k y) (k_sims (put_sim x sm' k1) y)" for y
      using J x(1) R sm(1) by (cases "y = x") (auto simp: pointwise_def put_sim_def)
    then show "(\<exists>sims. put_sim x sm' k1 = k\<lparr>k_sims := sims\<rparr>)
      \<and> pointwise (\<lambda>y. if y \<in> set (pre @ [x]) then R y else (=)) k (put_sim x sm' k1)"
      using J by (auto simp: pointwise_def put_sim_def)
  qed
  with sm1 show "wp (on_sim x (m x)) k1 (\<lambda>_ k'. (\<exists>sims. k' = k\<lparr>k_sims := sims\<rparr>)
      \<and> pointwise (\<lambda>y. if y \<in> set (pre @ [x]) then R y else (=)) k k')" by (simp add: wp_on_sim)
qed


section \<open>Outputs\<close>

definition output_done :: "('q, 'h, 'u, 'p) platform \<Rightarrow> graph \<Rightarrow> time \<Rightarrow> sim_id \<Rightarrow> ('h, 'u) simulator \<Rightarrow> ('h, 'u) simulator \<Rightarrow> bool" where
  "output_done P g t x sm sm' \<longleftrightarrow> user_frame (sm\<lparr>sim_result := sim_result sm'\<rparr>) sm'
     \<and> dyn_output (pf_dynamics P x) t (sim_dynamics sm, []) = Ret () (sim_dynamics sm', sim_result sm')
     \<and> (\<forall>ev \<in> set (sim_result sm'). has_port g Out (sim_model sm) (ev_port ev))"

lemma wp_output:
  assumes mem: "member P g V x sm" and r: "sim_result sm = []"
  shows "wp (Simulator_output (pf_dynamics P x) t) sm (\<lambda>_. output_done P g t x sm)"
proof -
  let ?D = "pf_dynamics P x"
  have wb: "well_behaved ?D" and "serves g (sim_model sm) ?D" using mem by (auto simp: member_def)
  then obtain u evs where out: "dyn_output ?D t (sim_dynamics sm, []) = Ret () (u, evs)"
    "\<forall>ev \<in> set evs. has_port g Out (sim_model sm) (ev_port ev)" unfolding serves_def wp_iff by fastforce
  let ?sm = "sm\<lparr>sim_dynamics := u, sim_result := evs\<rparr>"
  have "wp (observe ?D ppOutput t) ?sm (\<lambda>_. user_frame ?sm)" by (rule wp_observe [OF wb]) (auto simp: all_ports_def)
  then obtain sm' where sm': "observe ?D ppOutput t ?sm = Ret () sm'" "user_frame ?sm sm'" by (auto simp: wp_iff)
  have eq: "sim_dynamics sm' = u" "sim_result sm' = evs" using observe_keeps [OF sm'(1)] by auto
  have "user_frame (sm\<lparr>sim_result := evs\<rparr>) ?sm" by (simp add: user_frame_def same_wiring_def)
  then have "output_done P g t x sm sm'" using out eq user_frame_trans [OF _ sm'(2)] by (simp add: output_done_def)
  then show ?thesis using r out(1) sm'(1) by (simp add: Simulator_output_def call_output_def wp_simps) (simp add: wp_def call_output_def)
qed

section \<open>Transitions\<close>

definition transition_done :: "('q, 'h, 'u, 'p) platform \<Rightarrow> time \<Rightarrow> sim_id \<Rightarrow> ('h, 'u) simulator \<Rightarrow> ('h, 'u) simulator \<Rightarrow> bool" where
  "transition_done P t x sm sm' \<longleftrightarrow> stepped t sm sm'
     \<and> devs_delta (pf_dynamics P x) t (sim_internal sm) (sim_external sm) (sim_dynamics sm) = Ret (sim_tn sm') (sim_dynamics sm')"

lemma transition_done:
  assumes "well_behaved (pf_dynamics P x)" "sim_internal sm \<or> sim_external sm \<noteq> []"
  shows "\<exists>tn sm'. transition (pf_dynamics P x) t sm = Ret tn sm' \<and> transition_done P t x sm sm'"
  using transition_wp [OF assms, of t] transition_delta [of "pf_dynamics P x" t sm] by (auto simp: wp_iff transition_done_def)

lemma wp_dynamics_transitions:
  assumes xs: "distinct xs"
    and due: "\<And>x. x \<in> set xs \<Longrightarrow> \<exists>sm. k_sims k x = Some sm \<and> well_behaved (pf_dynamics P x) \<and> (sim_internal sm \<or> sim_external sm \<noteq> [])"
  shows "wp (dynamics_transitions P par t xs) k (\<lambda>_ k'. (\<exists>sims. k' = k\<lparr>k_sims := sims\<rparr>)
    \<and> pointwise (\<lambda>x. if x \<in> set xs then transition_done P t x else (=)) k k')"
proof -
  have "\<exists>sm. k_sims k x = Some sm \<and> wp (thenS (transition (pf_dynamics P x) t) (retS ())) sm (\<lambda>_. transition_done P t x sm)
      \<and> wp (thenS (simulator_process (pf_dynamics P x) t) (retS ())) sm (\<lambda>_. transition_done P t x sm)" if x: "x \<in> set xs" for x
  proof -
    obtain sm where sm: "k_sims k x = Some sm" "well_behaved (pf_dynamics P x)" "sim_internal sm \<or> sim_external sm \<noteq> []"
      using due [OF x] by blast
    from transition_done [where P = P and x = x, OF sm(2,3), of t] obtain tn sm' where
      "transition (pf_dynamics P x) t sm = Ret tn sm'" "transition_done P t x sm sm'" by blast
    with sm(1) show ?thesis by (simp add: wp_def thenS_def bindS_def simulator_process_def retS_def)
  qed
  then have "\<exists>sm. k_sims k x = Some sm \<and> wp (thenS (transition (pf_dynamics P x) t) (retS ())) sm (\<lambda>_. transition_done P t x sm)"
    "\<exists>sm. k_sims k x = Some sm \<and> wp (thenS (simulator_process (pf_dynamics P x) t) (retS ())) sm (\<lambda>_. transition_done P t x sm)"
    if "x \<in> set xs" for x using that by blast+
  then show ?thesis
    by (cases par) (auto simp: dynamics_transitions_def intro!: wp_on_sims [OF xs])
qed


section \<open>Rescheduling\<close>

definition rescheduled :: "sim_id list \<Rightarrow> sim_id \<Rightarrow> ('h, 'u) simulator \<Rightarrow> ('h, 'u) simulator \<Rightarrow> bool" where
  "rescheduled xs x sm sm' \<longleftrightarrow>
     (if x \<in> set xs then (\<exists>h. sm' = sm\<lparr>sim_handle := h\<rparr> \<and> (h = None \<longrightarrow> sim_tn sm = infinity)) else sm' = sm)"

definition can_schedule :: "time \<Rightarrow> ('h, 'u) simulator \<Rightarrow> bool" where
  "can_schedule now sm \<longleftrightarrow> sim_handle sm = None \<and> \<not> sim_internal sm \<and> dle now (sim_tn sm)"

lemma can_schedule_infinity: "can_schedule now sm \<Longrightarrow> now \<noteq> dninf \<Longrightarrow> isInfinity (sim_tn sm) \<Longrightarrow> sim_tn sm = infinity"
  by (cases now rule: double_cases) (auto simp: can_schedule_def isInfinity_iff double_simps)

context event_heap
begin

lemma wp_reschedule:
  assumes P: "pf_heap P = H" and ok: "sched_ok elems invar k" and xs: "distinct xs" and now: "k_time k \<noteq> dninf"
    and can: "\<And>x. x \<in> set xs \<Longrightarrow> \<exists>sm. k_sims k x = Some sm \<and> can_schedule (k_time k) sm"
  shows "wp (reschedule P xs) k (\<lambda>_ k'. sched_ok elems invar k' \<and> k_time k' = k_time k \<and> k_bag k' = k_bag k
    \<and> pointwise (rescheduled xs) k k')"
  unfolding reschedule_def
proof (rule wp_forS_prefix [where J = "\<lambda>pre k'. sched_ok elems invar k' \<and> k_time k' = k_time k \<and> k_bag k' = k_bag k \<and> pointwise (rescheduled pre) k k'"])
  show "sched_ok elems invar k \<and> k_time k = k_time k \<and> k_bag k = k_bag k \<and> pointwise (rescheduled []) k k"
    using ok by (simp add: pointwise_def rescheduled_def option.rel_refl)
  fix pre x post k1
  assume split: "xs = pre @ x # post"
    and J: "sched_ok elems invar k1 \<and> k_time k1 = k_time k \<and> k_bag k1 = k_bag k \<and> pointwise (rescheduled pre) k k1"
  have x: "x \<notin> set pre" "x \<in> set xs" using xs split by auto
  obtain sm where sm: "k_sims k x = Some sm" "can_schedule (k_time k) sm" using can [OF x(2)] by blast
  from J have pw: "pointwise (rescheduled pre) k k1" by blast
  obtain sm1 where "k_sims k1 x = Some sm1" "rescheduled pre x sm sm1" by (rule pointwise_forward [OF pw sm(1)])
  then have sm1: "k_sims k1 x = Some sm" using x(1) by (simp add: rescheduled_def)
  have step: "pointwise (rescheduled (pre @ [x])) k k'" if h: "k_sims k' = (k_sims k1)(x \<mapsto> sm\<lparr>sim_handle := h\<rparr>)" "h = None \<longrightarrow> sim_tn sm = infinity" for k' h
  proof -
    have same: "rescheduled (pre @ [x]) y = rescheduled pre y" if "y \<noteq> x" for y :: sim_id
      using that by (auto simp: fun_eq_iff rescheduled_def)
    have "rescheduled (pre @ [x]) x sm (sm\<lparr>sim_handle := h\<rparr>)" using h(2) unfolding rescheduled_def by auto
    moreover have "rel_option (rescheduled (pre @ [x]) y) (k_sims k y) (k_sims k1 y)" if "y \<noteq> x" for y
      using pw by (simp add: pointwise_def same [OF that])
    ultimately show ?thesis using sm(1) unfolding pointwise_def h(1) by auto
  qed
  show "wp (bindS (get_sim x) (\<lambda>sm. if \<not> isInfinity (sim_tn sm) then addInternal (pf_heap P) x (sim_tn sm) else retS ())) k1
    (\<lambda>_ k'. sched_ok elems invar k' \<and> k_time k' = k_time k \<and> k_bag k' = k_bag k \<and> pointwise (rescheduled (pre @ [x])) k k')"
  proof (cases "isInfinity (sim_tn sm)")
    case True
    have "k_sims k1 = (k_sims k1)(x \<mapsto> sm\<lparr>sim_handle := None\<rparr>)" using sm1 sm(2) by (auto simp: can_schedule_def fun_upd_idem)
    from step [OF this] can_schedule_infinity [OF sm(2) now True] J True sm1 show ?thesis by (simp add: wp_simps)
  next
    case False
    have "sched_ok elems invar k1" "sim_handle sm = None" "\<not> sim_internal sm" "dle (k_time k1) (sim_tn sm)"
      using J sm(2) by (auto simp: can_schedule_def)
    from addInternal_wp [OF this(1) sm1 this(2,3) refl this(4) False]
    have "wp (addInternal H x (sim_tn sm)) k1
      (\<lambda>_ k'. sched_ok elems invar k' \<and> k_time k' = k_time k \<and> k_bag k' = k_bag k \<and> pointwise (rescheduled (pre @ [x])) k k')"
      by (rule wp_mono) (use J step in auto)
    then show ?thesis using False sm1 by (simp add: wp_simps P)
  qed
qed

end


section \<open>The kernel between two rounds\<close>

definition calm :: "('q \<Rightarrow> 'h \<Rightarrow> (time \<times> sim_id) option) \<Rightarrow> ('q \<Rightarrow> bool) \<Rightarrow> ('q, 'h, 'u, 'p) platform \<Rightarrow> graph
    \<Rightarrow> (addr \<Rightarrow> sim_id option) \<Rightarrow> string set \<Rightarrow> ('q, 'h, 'u) kernel \<Rightarrow> bool" where
  "calm elems invar P g gs V k \<longleftrightarrow> delivering elems invar k \<and> wired g gs (k_sims k) \<and> all_sims (member P g V) k
     \<and> all_sims (idle (k_time k) (bag_unique (k_bag k))) k \<and> k_time k \<noteq> dnan \<and> k_time k \<noteq> negativeInfinity"

lemma calm_sim:
  assumes "calm elems invar P g gs V k" "k_sims k x = Some sm"
  shows "idle (k_time k) (bag_unique (k_bag k)) x sm" "member P g V x sm"
  using assms by (auto simp: calm_def all_sims_def)

lemma only_dynamics:
  assumes "sched_ok elems invar k" "all_sims (member P g V) k"
  shows "bag_executives (k_bag k) = []" "set (bag_dynamics (k_bag k)) = bag_unique (k_bag k)" "distinct (bag_dynamics (k_bag k))"
    "x \<in> bag_unique (k_bag k) \<Longrightarrow> \<exists>sm. k_sims k x = Some sm"
proof -
  have bg: "bag_ok (k_bag k) (k_sims k)" using assms(1) by (simp add: sched_ok_def sched_from_def)
  then have "\<forall>y. y \<notin> set (bag_executives (k_bag k))" using assms(2) by (fastforce simp: bag_ok_def all_sims_def member_def)
  then show ex: "bag_executives (k_bag k) = []" by (cases "bag_executives (k_bag k)") auto
  then show "set (bag_dynamics (k_bag k)) = bag_unique (k_bag k)" "distinct (bag_dynamics (k_bag k))"
    "x \<in> bag_unique (k_bag k) \<Longrightarrow> \<exists>sm. k_sims k x = Some sm" using bg by (fastforce simp: bag_ok_def)+
qed

lemma calm_only_dynamics:
  assumes "calm elems invar P g gs V k"
  shows "bag_executives (k_bag k) = []" "set (bag_dynamics (k_bag k)) = bag_unique (k_bag k)" "distinct (bag_dynamics (k_bag k))"
    "x \<in> bag_unique (k_bag k) \<Longrightarrow> \<exists>sm. k_sims k x = Some sm"
  using assms only_dynamics [of elems invar k P g V] by (auto simp: calm_def delivering_def)

definition outputs_done :: "('q, 'h, 'u, 'p) platform \<Rightarrow> graph \<Rightarrow> time \<Rightarrow> sim_id set \<Rightarrow> sim_id \<Rightarrow> ('h, 'u) simulator \<Rightarrow> ('h, 'u) simulator \<Rightarrow> bool" where
  "outputs_done P g t B x = (if x \<in> B then output_done P g t x else (=))"

definition transitions_done :: "('q, 'h, 'u, 'p) platform \<Rightarrow> time \<Rightarrow> sim_id set \<Rightarrow> sim_id \<Rightarrow> ('h, 'u) simulator \<Rightarrow> ('h, 'u) simulator \<Rightarrow> bool" where
  "transitions_done P t B x = (if x \<in> B then transition_done P t x else (=))"

lemma outputs_done_fields:
  assumes "outputs_done P g t B x sm sm'"
  shows "sim_handle sm' = sim_handle sm" "sim_tn sm' = sim_tn sm" "sim_executive sm' = sim_executive sm" "sim_internal sm' = sim_internal sm"
    "sim_targets sm' = sim_targets sm" "sim_model sm' = sim_model sm" "sim_external sm' = sim_external sm" "sim_observer sm' = sim_observer sm"
    "observed_views sm' = observed_views sm" "pending_views sm' \<subseteq> pending_views sm \<union> observed_views sm"
    "x \<notin> B \<Longrightarrow> sm' = sm"
  using assms
  by (auto simp: outputs_done_def output_done_def user_frame_def same_wiring_def observed_views_def split: if_splits)

lemma wp_outputs:
  assumes c: "calm elems invar P g gs V k"
  shows "wp (call_outputs P t (bag_dynamics (k_bag k))) k (\<lambda>_ k'. (\<exists>sims. k' = k\<lparr>k_sims := sims\<rparr>)
    \<and> pointwise (outputs_done P g t (bag_unique (k_bag k))) k k')"
proof -
  note bag = calm_only_dynamics [OF c]
  have "\<exists>sm. k_sims k x = Some sm \<and> wp (Simulator_output (pf_dynamics P x) t) sm (\<lambda>_. output_done P g t x sm)"
    if x: "x \<in> set (bag_dynamics (k_bag k))" for x
  proof -
    obtain sm where sm: "k_sims k x = Some sm" using bag(2,4) x by auto
    have "member P g V x sm" "sim_result sm = []" using c sm by (auto simp: calm_def all_sims_def idle_def)
    with sm show ?thesis using wp_output by blast
  qed
  from wp_on_sims [OF bag(3) this] show ?thesis
    unfolding call_outputs_def outputs_done_def bag(2) .
qed

lemma targets_cached_same:
  "sim_targets sm' = sim_targets sm \<Longrightarrow> sim_model sm' = sim_model sm \<Longrightarrow> targets_cached g gs sm' = targets_cached g gs sm"
  by (simp add: targets_cached_def)

lemma wired_same:
  assumes w: "wired g gs (k_sims k)" and pw: "pointwise R k k'"
    and same: "\<And>x sm sm'. R x sm sm' \<Longrightarrow> sim_targets sm' = sim_targets sm \<and> sim_model sm' = sim_model sm"
  shows "wired g gs (k_sims k')"
proof -
  have "all_sims (\<lambda>x. targets_cached g gs) k'"
  proof (rule pointwise_all [OF pw])
    fix x sm sm'
    assume "k_sims k x = Some sm" "R x sm sm'"
    then show "targets_cached g gs sm'" using w same targets_cached_same [of sm' sm] by (auto simp: wired_def)
  qed
  moreover have "\<exists>y sm. gs b = Some y \<and> k_sims k' y = Some sm" if "atomic_at g b" for b
    using w that pw unfolding wired_def by (metis pointwise_forward)
  ultimately show ?thesis using w by (auto simp: wired_def all_sims_def)
qed

lemma after_outputs:
  assumes c: "calm elems invar P g gs V k" and k1: "k1 = k\<lparr>k_sims := sims\<rparr>" "pointwise (outputs_done P g t (bag_unique (k_bag k))) k k1"
  shows "delivering elems invar k1" "wired g gs (k_sims k1)" "x \<in> bag_unique (k_bag k) \<Longrightarrow> can_send g k1 x"
proof -
  show "delivering elems invar k1"
  proof (rule delivering_same)
    show "delivering elems invar k" using c by (simp add: calm_def)
    show "rel_option (\<lambda>sm sm'. sim_handle sm' = sim_handle sm \<and> (sim_handle sm \<noteq> None \<longrightarrow> sim_tn sm' = sim_tn sm)
      \<and> sim_executive sm' = sim_executive sm \<and> (sim_internal sm' \<longrightarrow> sim_internal sm)) (k_sims k x) (k_sims k1 x)" for x
      by (rule option.rel_mono_strong [OF k1(2) [unfolded pointwise_def, rule_format]]) (auto dest: outputs_done_fields)
  qed (simp_all add: k1(1))
  show "wired g gs (k_sims k1)"
    by (rule wired_same [OF _ k1(2)]) (use c in \<open>auto simp: calm_def dest: outputs_done_fields(5,6)\<close>)
  assume x: "x \<in> bag_unique (k_bag k)"
  obtain sm where sm: "k_sims k x = Some sm" using calm_only_dynamics(4) [OF c x] by blast
  obtain sm1 where "k_sims k1 x = Some sm1" "outputs_done P g t (bag_unique (k_bag k)) x sm sm1" by (rule pointwise_forward [OF k1(2) sm])
  moreover have "sim_model sm1 = sim_model sm" using outputs_done_fields(6) [OF calculation(2)] .
  ultimately show "can_send g k1 x" using x by (auto simp: can_send_def outputs_done_def output_done_def)
qed


section \<open>A round of the kernel\<close>

text \<open>A simulator after the outputs and their dispatch, before its transition.\<close>

lemma ready:
  assumes i: "idle t B x sm" and m: "member P g V x sm" and o1: "outputs_done P g t B x sm sm1" and d: "delivered g gs R B x sm1 sm2"
  shows "member P g V x sm2" "sim_result sm2 = []" "sim_internal sm2 \<longleftrightarrow> x \<in> B" "sim_tn sm2 = sim_tn sm"
    "set (sim_external sm2) = {e. (x, e) \<in> R}" "sim_model sm2 = sim_model sm"
    "sim_handle sm2 = (if x \<in> fst ` R then None else sim_handle sm)"
    "x \<notin> B \<Longrightarrow> sim_dynamics sm2 = sim_dynamics sm \<and> sim_observations sm2 = []"
    "x \<in> B \<Longrightarrow> dyn_output (pf_dynamics P x) t (sim_dynamics sm, []) = Ret () (sim_dynamics sm2, sim_result sm1)"
proof -
  note f = outputs_done_fields [OF o1]
  obtain evs where e: "set evs = {e. (x, e) \<in> R}" "sim_external sm2 = sim_external sm1 @ evs"
    "sim_result sm2 = (if x \<in> B then [] else sim_result sm1)" "sim_handle sm2 = (if x \<in> fst ` R then None else sim_handle sm1)"
    "sim_dynamics sm2 = sim_dynamics sm1" "sim_observer sm2 = sim_observer sm1" "sim_executive sm2 = sim_executive sm1"
    "sim_model sm2 = sim_model sm1" "sim_observations sm2 = sim_observations sm1" "sim_tn sm2 = sim_tn sm1" "sim_internal sm2 = sim_internal sm1"
    by (rule delivered_fields [OF d])
  have v: "observed_views sm2 = observed_views sm1" "pending_views sm2 = pending_views sm1"
    using e(6,9) by (simp_all add: observed_views_def pending_views_def)
  show "member P g V x sm2" using m f(3,6,9,10) e(7,8) v by (auto simp: member_def)
  show "sim_result sm2 = []" using i f(11) e(3) by (auto simp: idle_def)
  show "sim_internal sm2 \<longleftrightarrow> x \<in> B" using i f(4) e(11) by (simp add: idle_def)
  show "sim_tn sm2 = sim_tn sm" "sim_model sm2 = sim_model sm" using f(2,6) e(8,10) by simp_all
  show "set (sim_external sm2) = {e. (x, e) \<in> R}" using i f(7) e(1,2) by (simp add: idle_def)
  show "sim_handle sm2 = (if x \<in> fst ` R then None else sim_handle sm)" using f(1) e(4) by simp
  show "sim_dynamics sm2 = sim_dynamics sm \<and> sim_observations sm2 = []" if "x \<notin> B" using i f(11) [OF that] e(5,9) by (simp add: idle_def)
  show "dyn_output (pf_dynamics P x) t (sim_dynamics sm, []) = Ret () (sim_dynamics sm2, sim_result sm1)" if "x \<in> B"
    using o1 that e(5) by (simp add: outputs_done_def output_done_def)
qed

text \<open>After its transition every simulator of the bag can be scheduled.\<close>

definition settled :: "time \<Rightarrow> sim_id set \<Rightarrow> sim_id \<Rightarrow> ('h, 'u) simulator \<Rightarrow> bool" where
  "settled t B x sm \<longleftrightarrow> sim_external sm = [] \<and> sim_result sm = [] \<and> \<not> sim_internal sm
     \<and> (if x \<in> B then can_schedule t sm else sim_observations sm = [] \<and> (sim_handle sm = None \<longrightarrow> sim_tn sm = infinity))"

lemma turned:
  assumes t: "t \<noteq> dnan" "t \<noteq> dninf" and i: "idle t B x sm" "sim_internal sm \<longrightarrow> sim_handle sm = None" and m: "member P g V x sm"
    and o1: "outputs_done P g t B x sm sm1" and d: "delivered g gs R B x sm1 sm2"
    and tr: "transitions_done P t (B \<union> fst ` R) x sm2 sm3"
  shows "settled t (B \<union> fst ` R) x sm3" "member P g V x sm3"
proof -
  note r = ready [OF i(1) m o1 d]
  have "settled t (B \<union> fst ` R) x sm3 \<and> member P g V x sm3"
  proof (cases "x \<in> B \<union> fst ` R")
    case True
    then have st: "stepped t sm2 sm3" using tr by (simp add: transitions_done_def transition_done_def)
    have "sim_handle sm2 = None" using True i r(7) by (auto simp: idle_def)
    then have "settled t (B \<union> fst ` R) x sm3"
      using True st stepped_tn [OF st t] r(2) by (auto simp: settled_def can_schedule_def stepped_def same_wiring_def)
    moreover have "member P g V x sm3"
      using st r(1) same_wiring_views [of sm2 sm3] by (auto simp: member_def stepped_def same_wiring_def)
    ultimately show ?thesis by blast
  next
    case False
    then have "sm3 = sm2" using tr by (simp add: transitions_done_def)
    moreover have "set (sim_external sm2) = {}" unfolding r(5) using False by force
    ultimately show ?thesis using False r i by (auto simp: settled_def idle_def)
  qed
  then show "settled t (B \<union> fst ` R) x sm3" "member P g V x sm3" by blast+
qed


section \<open>The abstract simulator\<close>

text \<open>
  The step of the parallel DEVS simulator on the states and next dates of the models alone: the imminent
  models, whose next date is the present one, give their outputs; every output goes to the models its
  route names; a model that is imminent or has received events makes its transition, and the others stay
  as they are. The order of the events of one model is left open.
\<close>

definition devs_step :: "(sim_id \<Rightarrow> 'u dynamics_ops) \<Rightarrow> (sim_id \<Rightarrow> external_event \<Rightarrow> (sim_id \<times> external_event) set) \<Rightarrow> time
    \<Rightarrow> (sim_id \<Rightarrow> ('u \<times> time) option) \<Rightarrow> (sim_id \<Rightarrow> ('u \<times> time) option) \<Rightarrow> bool" where
  "devs_step D route t s s' \<longleftrightarrow> (\<exists>v out.
     (\<forall>x. case s x of None \<Rightarrow> out x = []
        | Some (u, tn) \<Rightarrow> if tn = t then dyn_output (D x) t (u, []) = Ret () (v x, out x) else v x = u \<and> out x = [])
     \<and> (\<forall>x. rel_option (\<lambda>(u, tn) (u', tn'). \<exists>evs. set evs = {e. \<exists>y. \<exists>ev \<in> set (out y). (x, e) \<in> route y ev}
          \<and> (if tn = t \<or> evs \<noteq> [] then devs_delta (D x) t (tn = t) evs (v x) = Ret tn' u' else u' = u \<and> tn' = tn)) (s x) (s' x)))"

definition models_of :: "('q, 'h, 'u) kernel \<Rightarrow> sim_id \<Rightarrow> ('u \<times> time) option" where
  "models_of k x = map_option (\<lambda>sm. (sim_dynamics sm, sim_tn sm)) (k_sims k x)"

lemma models_of_same:
  assumes "pointwise R k k'" "\<And>x sm sm'. R x sm sm' \<Longrightarrow> sim_dynamics sm' = sim_dynamics sm \<and> sim_tn sm' = sim_tn sm"
  shows "models_of k' = models_of k"
  by (rule ext) (simp add: models_of_def assms(2) pointwise_field [where f = "\<lambda>sm. (sim_dynamics sm, sim_tn sm)", OF assms(1)])

definition route_of :: "graph \<Rightarrow> (addr \<Rightarrow> sim_id option) \<Rightarrow> ('q, 'h, 'u) kernel \<Rightarrow> sim_id \<Rightarrow> external_event \<Rightarrow> (sim_id \<times> external_event) set" where
  "route_of g gs k x ev = (case k_sims k x of None \<Rightarrow> {} | Some sm \<Rightarrow> delivers g gs (sim_model sm) ev)"

lemma idle_imminent:
  assumes "calm elems invar P g gs V k" "k_time k \<noteq> infinity" "k_sims k x = Some sm"
  shows "sim_tn sm = k_time k \<longleftrightarrow> x \<in> bag_unique (k_bag k)"
proof -
  have i: "idle (k_time k) (bag_unique (k_bag k)) x sm" using assms(1,3) by (auto simp: calm_def all_sims_def)
  have d: "delivering elems invar k" using assms(1) by (simp add: calm_def)
  have "dless (k_time k) (sim_tn sm)" if "sim_handle sm = Some h" for h
    using agree_handle [OF delivering_agree [OF d] assms(3) that] d by (auto simp: delivering_def later_def)
  then show ?thesis using i assms(2) by (cases "sim_handle sm") (auto simp: idle_def double_simps split: if_splits)
qed

lemma devs_stepI:
  assumes c: "calm elems invar P g gs V k" and fin: "k_time k \<noteq> infinity"
    and o1: "pointwise (outputs_done P g (k_time k) (bag_unique (k_bag k))) k k1"
    and R: "R = (\<Union>x \<in> bag_unique (k_bag k). sent g gs k1 x)"
    and d: "pointwise (delivered g gs R (bag_unique (k_bag k))) k1 k2"
    and tr: "pointwise (transitions_done P (k_time k) (bag_unique (k_bag k) \<union> fst ` R)) k2 k3"
  shows "devs_step (pf_dynamics P) (route_of g gs k) (k_time k) (models_of k) (models_of k3)"
proof -
  let ?B = "bag_unique (k_bag k)" and ?t = "k_time k"
  let ?v = "\<lambda>x. sim_dynamics (the (k_sims k2 x))"
  let ?out = "\<lambda>x. if x \<in> ?B then sim_result (the (k_sims k1 x)) else []"
  have chain: "\<exists>sm1 sm2 sm3. k_sims k1 x = Some sm1 \<and> k_sims k2 x = Some sm2 \<and> k_sims k3 x = Some sm3
      \<and> outputs_done P g ?t ?B x sm sm1 \<and> delivered g gs R ?B x sm1 sm2 \<and> transitions_done P ?t (?B \<union> fst ` R) x sm2 sm3"
    if "k_sims k x = Some sm" for x sm using pointwise_sim [OF o1 that] pointwise_sim [OF d] pointwise_sim [OF tr] by blast
  have none: "k_sims k3 x = None" if "k_sims k x = None" for x
    by (rule pointwise_None [OF tr pointwise_None [OF d pointwise_None [OF o1 that]]])
  have st: "idle ?t ?B x sm" "member P g V x sm" if "k_sims k x = Some sm" for x sm
    by (rule calm_sim [OF c that])+
  have first: "case models_of k x of None \<Rightarrow> ?out x = []
        | Some (u, tn) \<Rightarrow> if tn = ?t then dyn_output (pf_dynamics P x) ?t (u, []) = Ret () (?v x, ?out x) else ?v x = u \<and> ?out x = []" for x
  proof (cases "k_sims k x")
    case None
    then show ?thesis using calm_only_dynamics(4) [OF c, of x] by (auto simp: models_of_def)
  next
    case (Some sm)
    from chain [OF Some] obtain sm1 sm2 where sm: "k_sims k1 x = Some sm1" "k_sims k2 x = Some sm2"
      "outputs_done P g ?t ?B x sm sm1" "delivered g gs R ?B x sm1 sm2" by blast
    note r = ready [OF st [OF Some] sm(3,4)]
    show ?thesis using Some sm(1,2) r(8,9) idle_imminent [OF c fin Some] by (auto simp: models_of_def)
  qed
  have route: "{e. (x, e) \<in> R} = {e. \<exists>y. \<exists>ev \<in> set (?out y). (x, e) \<in> route_of g gs k y ev}" for x
  proof -
    have "sent g gs k1 y = (\<Union>ev \<in> set (sim_result (the (k_sims k1 y))). route_of g gs k y ev)" if y: "y \<in> ?B" for y
    proof -
      obtain sm where sm: "k_sims k y = Some sm" using calm_only_dynamics(4) [OF c y] by blast
      from chain [OF sm] obtain sm1 where "k_sims k1 y = Some sm1" "outputs_done P g ?t ?B y sm sm1" by blast
      with outputs_done_fields(6) [OF this(2)] sm show ?thesis by (simp add: sent_def route_of_def)
    qed
    then show ?thesis unfolding R by auto
  qed
  have "rel_option (\<lambda>(u, tn) (u', tn'). \<exists>evs. set evs = {e. \<exists>y. \<exists>ev \<in> set (?out y). (x, e) \<in> route_of g gs k y ev}
          \<and> (if tn = ?t \<or> evs \<noteq> [] then devs_delta (pf_dynamics P x) ?t (tn = ?t) evs (?v x) = Ret tn' u' else u' = u \<and> tn' = tn))
        (models_of k x) (models_of k3 x)" for x
  proof (cases "k_sims k x")
    case None
    then show ?thesis using none by (simp add: models_of_def)
  next
    case (Some sm)
    from chain [OF Some] obtain sm1 sm2 sm3 where sm: "k_sims k1 x = Some sm1" "k_sims k2 x = Some sm2" "k_sims k3 x = Some sm3"
      "outputs_done P g ?t ?B x sm sm1" "delivered g gs R ?B x sm1 sm2" "transitions_done P ?t (?B \<union> fst ` R) x sm2 sm3" by blast
    note r = ready [OF st [OF Some] sm(4,5)]
    have "x \<in> fst ` R \<longleftrightarrow> set (sim_external sm2) \<noteq> {}" unfolding r(5) by force
    then have "x \<in> ?B \<union> fst ` R \<longleftrightarrow> sim_tn sm = ?t \<or> sim_external sm2 \<noteq> []" using idle_imminent [OF c fin Some] by simp
    with sm(6) r(3,4,8) idle_imminent [OF c fin Some]
    have "if sim_tn sm = ?t \<or> sim_external sm2 \<noteq> []
      then devs_delta (pf_dynamics P x) ?t (sim_tn sm = ?t) (sim_external sm2) (sim_dynamics sm2) = Ret (sim_tn sm3) (sim_dynamics sm3)
      else sim_dynamics sm3 = sim_dynamics sm \<and> sim_tn sm3 = sim_tn sm"
      by (auto simp: transitions_done_def transition_done_def)
    with Some sm(2,3) r(5) route [of x] show ?thesis by (auto simp: models_of_def intro!: exI [of _ "sim_external sm2"])
  qed
  with first show ?thesis unfolding devs_step_def by (intro exI [of _ ?v] exI [of _ ?out] conjI allI)
qed


section \<open>The round\<close>

text \<open>After the rescheduling: nothing is pending but observations of the simulators in the bag.\<close>

definition rested :: "sim_id set \<Rightarrow> sim_id \<Rightarrow> ('h, 'u) simulator \<Rightarrow> bool" where
  "rested B x sm \<longleftrightarrow> sim_external sm = [] \<and> sim_result sm = [] \<and> \<not> sim_internal sm
     \<and> (sim_handle sm = None \<longrightarrow> sim_tn sm = infinity) \<and> (x \<notin> B \<longrightarrow> sim_observations sm = [])"

definition round_done :: "('q \<Rightarrow> 'h \<Rightarrow> (time \<times> sim_id) option) \<Rightarrow> ('q \<Rightarrow> bool) \<Rightarrow> ('q, 'h, 'u, 'p) platform \<Rightarrow> graph
    \<Rightarrow> (addr \<Rightarrow> sim_id option) \<Rightarrow> string set \<Rightarrow> ('q, 'h, 'u) kernel \<Rightarrow> ('q, 'h, 'u) kernel \<Rightarrow> bool" where
  "round_done elems invar P g gs V k k' \<longleftrightarrow> sched_ok elems invar k' \<and> k_time k' = k_time k \<and> wired g gs (k_sims k')
     \<and> all_sims (member P g V) k' \<and> all_sims (rested (bag_unique (k_bag k'))) k'
     \<and> (\<forall>x. map_option sim_model (k_sims k' x) = map_option sim_model (k_sims k x))
     \<and> (k_time k \<noteq> infinity \<longrightarrow> devs_step (pf_dynamics P) (route_of g gs k) (k_time k) (models_of k) (models_of k'))"

lemma transitions_done_model: "transitions_done P t B x sm sm' \<Longrightarrow> sim_model sm' = sim_model sm"
  by (auto simp: transitions_done_def transition_done_def stepped_def same_wiring_def split: if_splits)

lemma delivered_model: "delivered g gs R X x sm sm' \<Longrightarrow> sim_model sm' = sim_model sm"
  by (auto simp: delivered_def)

lemma rescheduled_fields:
  assumes "rescheduled xs x sm sm'"
  shows "sim_dynamics sm' = sim_dynamics sm" "sim_tn sm' = sim_tn sm" "sim_targets sm' = sim_targets sm" "sim_model sm' = sim_model sm"
    "sim_external sm' = sim_external sm" "sim_result sm' = sim_result sm" "sim_internal sm' = sim_internal sm"
    "sim_observations sm' = sim_observations sm" "member P g V x sm' = member P g V x sm"
  using assms by (auto simp: rescheduled_def member_def observed_views_def pending_views_def split: if_splits)

lemma settled_rescheduled:
  assumes "settled t (set xs) x sm" "rescheduled xs x sm sm'"
  shows "rested (set xs) x sm'"
  using assms rescheduled_fields [OF assms(2)] by (auto simp: settled_def rested_def rescheduled_def split: if_splits)

context event_heap
begin

text \<open>The state before the rescheduling.\<close>

lemma before_reschedule:
  assumes c: "calm elems invar P g gs V k" and k1: "k1 = k\<lparr>k_sims := sims\<rparr>" "pointwise (outputs_done P g (k_time k) (bag_unique (k_bag k))) k k1"
    and R: "R = (\<Union>x \<in> bag_unique (k_bag k). sent g gs k1 x)"
    and k2: "delivering elems invar k2" "got g gs R (bag_unique (k_bag k)) k1 k2"
    and k3: "k3 = k2\<lparr>k_sims := sims'\<rparr>" "pointwise (transitions_done P (k_time k) (bag_unique (k_bag k2))) k2 k3"
  shows "sched_ok elems invar k3" "wired g gs (k_sims k3)" "k_time k3 = k_time k"
    "all_sims (member P g V) k3" "all_sims (settled (k_time k) (bag_unique (k_bag k3))) k3"
proof -
  let ?B = "bag_unique (k_bag k)" and ?t = "k_time k"
  have B: "bag_unique (k_bag k2) = ?B \<union> fst ` R" using k2(2) k1(1) by (simp add: got_def)
  have t: "?t \<noteq> dnan" "?t \<noteq> dninf" using c by (auto simp: calm_def)
  have ag: "agree (elems (k_heap k)) (k_sims k)" by (rule delivering_agree [where invar = invar]) (use c in \<open>simp add: calm_def\<close>)
  note pw = pointwise_trans [OF pointwise_trans [OF k1(2) got_pointwise [OF k2(2)]] k3(2) [unfolded B]]
  have final: "settled ?t (?B \<union> fst ` R) x sm3 \<and> member P g V x sm3"
    if sm: "k_sims k x = Some sm" and r: "((outputs_done P g ?t ?B x OO delivered g gs R ?B x) OO transitions_done P ?t (?B \<union> fst ` R) x) sm sm3" for x sm sm3
  proof -
    have i: "idle ?t ?B x sm" "member P g V x sm" by (rule calm_sim [OF c sm])+
    have h: "sim_internal sm \<longrightarrow> sim_handle sm = None" using agree_handle [OF ag sm] by (cases "sim_handle sm") auto
    from r obtain sm1 sm2 where "outputs_done P g ?t ?B x sm sm1" "delivered g gs R ?B x sm1 sm2" "transitions_done P ?t (?B \<union> fst ` R) x sm2 sm3"
      by (auto elim!: relcomppE)
    from turned [OF t i(1) h i(2) this] show ?thesis by blast
  qed
  have bag3: "k_bag k3 = k_bag k2" using k3(1) by simp
  show "all_sims (member P g V) k3" by (rule pointwise_all [OF pw]) (use final in blast)
  show "all_sims (settled ?t (bag_unique (k_bag k3))) k3" unfolding bag3 B by (rule pointwise_all [OF pw]) (use final in blast)
  show "k_time k3 = ?t" using k2(2) k1(1) k3(1) by (simp add: got_def)
  show "wired g gs (k_sims k3)"
    by (rule wired_same [OF got_wired [OF k2(2) after_outputs(2) [OF c k1]] k3(2)])
      (auto simp: transitions_done_def transition_done_def stepped_def same_wiring_def split: if_splits)
  have handle: "sim_handle sm2 = None" if sm2: "k_sims k2 x = Some sm2" "x \<in> bag_unique (k_bag k2)" for x sm2
  proof -
    obtain sm1 where sm1: "k_sims k1 x = Some sm1" "delivered g gs R ?B x sm1 sm2" by (rule got_sim_back [OF k2(2) sm2(1)])
    obtain sm where sm: "k_sims k x = Some sm" "outputs_done P g ?t ?B x sm sm1" by (rule pointwise_back [OF k1(2) sm1(1)])
    have i: "idle ?t ?B x sm" "member P g V x sm" by (rule calm_sim [OF c sm(1)])+
    show ?thesis
      using ready(7) [OF i sm(2) sm1(2)] sm2(2) i(1) agree_handle [OF ag sm(1)] unfolding B by (cases "sim_handle sm") (auto simp: idle_def)
  qed
  have fr: "rel_option (\<lambda>sm sm'. sim_handle sm' = sim_handle sm \<and> (sim_handle sm \<noteq> None \<longrightarrow> sim_tn sm' = sim_tn sm)
      \<and> sim_executive sm' = sim_executive sm \<and> (sim_internal sm' \<longrightarrow> sim_internal sm)) (k_sims k2 x) (k_sims k3 x)" for x
    by (intro option.rel_mono_strong [OF k3(2) [unfolded pointwise_def, rule_format]])
      (auto simp: transitions_done_def transition_done_def stepped_def same_wiring_def elem_set handle split: if_splits)
  show "sched_ok elems invar k3"
    by (rule sched_ok_same [OF _ _ _ _ fr]) (use k2(1) k3(1) in \<open>auto simp: delivering_def\<close>)
qed

lemma kernel_round:
  assumes P: "pf_heap P = H" and c: "calm elems invar P g gs V k" and Q: "\<And>k'. round_done elems invar P g gs V k k' \<Longrightarrow> Q k'"
  shows "wp (call_outputs P (k_time k) (bag_dynamics (k_bag k))) k (\<lambda>_ k1.
    wp (dispatchExternalEvent P g gs (bag_dynamics (k_bag k))) k1 (\<lambda>_ k2. bag_executives (k_bag k2) = [] \<and>
    wp (dynamics_transitions P par (k_time k) (bag_dynamics (k_bag k2))) k2 (\<lambda>_ k3. bag_executives (k_bag k3) = [] \<and>
    wp (reschedule P (bag_dynamics (k_bag k3))) k3 (\<lambda>_. Q))))"
proof (rule wp_mono [OF wp_outputs [OF c]], elim conjE exE)
  let ?B = "bag_unique (k_bag k)" and ?t = "k_time k"
  note bag = calm_only_dynamics [OF c]
  fix u1 k1 sims
  assume k1: "k1 = k\<lparr>k_sims := sims\<rparr>" "pointwise (outputs_done P g ?t ?B) k k1"
  define R where "R = (\<Union>x \<in> ?B. sent g gs k1 x)"
  note o1 = after_outputs [OF c k1]
  show "wp (dispatchExternalEvent P g gs (bag_dynamics (k_bag k))) k1 (\<lambda>_ k2. bag_executives (k_bag k2) = [] \<and>
    wp (dynamics_transitions P par ?t (bag_dynamics (k_bag k2))) k2 (\<lambda>_ k3. bag_executives (k_bag k3) = [] \<and>
    wp (reschedule P (bag_dynamics (k_bag k3))) k3 (\<lambda>_. Q)))"
  proof (rule wp_mono [OF dispatch_wp [OF P o1(1,2) bag(3)]], unfold bag(2), rule o1(3), assumption, elim conjE)
    fix u2 k2
    assume k2: "delivering elems invar k2" "got g gs (\<Union>x \<in> ?B. sent g gs k1 x) ?B k1 k2"
    note got = k2(2) [folded R_def]
    have B: "bag_unique (k_bag k2) = ?B \<union> fst ` R" using got k1(1) by (simp add: got_def)
    have st: "\<exists>sm. k_sims k x = Some sm \<and> outputs_done P g ?t ?B x sm sm1 \<and> delivered g gs R ?B x sm1 sm2"
      if "k_sims k1 x = Some sm1" "delivered g gs R ?B x sm1 sm2" for x sm1 sm2
      using pointwise_back [OF k1(2) that(1)] that(2) by blast
    have mem2: "all_sims (member P g V) k2"
    proof (rule pointwise_all [OF got_pointwise [OF got]])
      fix x sm1 sm2
      assume "k_sims k1 x = Some sm1" "delivered g gs R ?B x sm1 sm2"
      from st [OF this] obtain sm where sm: "k_sims k x = Some sm" "outputs_done P g ?t ?B x sm sm1" "delivered g gs R ?B x sm1 sm2" by blast
      show "member P g V x sm2" by (rule ready(1) [OF calm_sim [OF c sm(1)] sm(2,3)])
    qed
    have ok2: "sched_ok elems invar k2" using k2(1) by (simp add: delivering_def)
    note bag2 = only_dynamics [OF ok2 mem2]
    have due: "\<exists>sm. k_sims k2 x = Some sm \<and> well_behaved (pf_dynamics P x) \<and> (sim_internal sm \<or> sim_external sm \<noteq> [])"
      if x: "x \<in> set (bag_dynamics (k_bag k2))" for x
    proof -
      obtain sm2 where sm2: "k_sims k2 x = Some sm2" using bag2(2,4) x by blast
      obtain sm1 where sm1: "k_sims k1 x = Some sm1" "delivered g gs R ?B x sm1 sm2" by (rule got_sim_back [OF got sm2])
      from st [OF this] obtain sm where sm: "k_sims k x = Some sm" "outputs_done P g ?t ?B x sm sm1" by blast
      note r = ready [OF calm_sim [OF c sm(1)] sm(2) sm1(2)]
      have "x \<in> ?B \<or> set (sim_external sm2) \<noteq> {}" unfolding r(5) using x bag2(2) B by force
      then show ?thesis using sm2 r(1,3) by (auto simp: member_def)
    qed
    have "wp (dynamics_transitions P par ?t (bag_dynamics (k_bag k2))) k2 (\<lambda>_ k3. bag_executives (k_bag k3) = [] \<and> wp (reschedule P (bag_dynamics (k_bag k3))) k3 (\<lambda>_. Q))"
    proof (rule wp_mono [OF wp_dynamics_transitions [OF bag2(3) due]], assumption, elim conjE exE, unfold bag2(2), fold transitions_done_def)
      fix u3 k3 sims'
      assume k3: "k3 = k2\<lparr>k_sims := sims'\<rparr>" "pointwise (transitions_done P ?t (bag_unique (k_bag k2))) k2 k3"
      note b = before_reschedule [OF c k1 R_def k2(1) got k3]
      have dev: "devs_step (pf_dynamics P) (route_of g gs k) ?t (models_of k) (models_of k3)" if "?t \<noteq> infinity"
        by (rule devs_stepI [OF c that k1(2) R_def got_pointwise [OF got]]) (use k3(2) B in simp)
      note bag3 = only_dynamics [OF b(1,4)]
      have can: "\<exists>sm. k_sims k3 x = Some sm \<and> can_schedule (k_time k3) sm" if "x \<in> set (bag_dynamics (k_bag k3))" for x
        using bag3(2,4) that b(3) b(5) by (fastforce simp: all_sims_def settled_def)
      have now: "k_time k3 \<noteq> dninf" using c b(3) by (simp add: calm_def)
      have "wp (reschedule P (bag_dynamics (k_bag k3))) k3 (\<lambda>_. Q)"
      proof (rule wp_mono [OF wp_reschedule [OF P b(1) bag3(3) now can]], assumption, elim conjE)
        fix u4 k4
        assume k4: "sched_ok elems invar k4" "k_time k4 = k_time k3" "k_bag k4 = k_bag k3"
          "pointwise (rescheduled (bag_dynamics (k_bag k3))) k3 k4"
        have "all_sims (member P g V) k4"
          by (rule pointwise_all [OF k4(4)]) (use b(4) in \<open>auto simp: all_sims_def rescheduled_fields\<close>)
        moreover have "all_sims (rested (bag_unique (k_bag k4))) k4"
          unfolding k4(3) bag3(2) [symmetric]
          by (rule pointwise_all [OF k4(4)]) (rule settled_rescheduled [OF all_simsD [OF b(5) [folded bag3(2)]]])
        moreover have "models_of k4 = models_of k3"
          by (rule models_of_same [OF k4(4)]) (simp add: rescheduled_fields)
        moreover have "wired g gs (k_sims k4)" by (rule wired_same [OF b(2) k4(4)]) (simp add: rescheduled_fields)
        moreover have "map_option sim_model (k_sims k4 x) = map_option sim_model (k_sims k x)" for x
        proof -
          have "map_option sim_model (k_sims k4 x) = map_option sim_model (k_sims k3 x)"
            by (rule pointwise_field [OF k4(4)]) (rule rescheduled_fields)
          also have "\<dots> = map_option sim_model (k_sims k2 x)" by (rule pointwise_field [OF k3(2)]) (rule transitions_done_model)
          also have "\<dots> = map_option sim_model (k_sims k1 x)" by (rule pointwise_field [OF got_pointwise [OF got]]) (rule delivered_model)
          also have "\<dots> = map_option sim_model (k_sims k x)" by (rule pointwise_field [OF k1(2)]) (rule outputs_done_fields)
          finally show ?thesis .
        qed
        ultimately have "round_done elems invar P g gs V k k4" using k4(1,2) b(3) dev by (simp add: round_done_def)
        then show "Q k4" by (rule Q)
      qed
      with bag3(1) show "bag_executives (k_bag k3) = [] \<and> wp (reschedule P (bag_dynamics (k_bag k3))) k3 (\<lambda>_. Q)" by blast
    qed
    with bag2(1) show "bag_executives (k_bag k2) = [] \<and> wp (dynamics_transitions P par ?t (bag_dynamics (k_bag k2))) k2
      (\<lambda>_ k3. bag_executives (k_bag k3) = [] \<and> wp (reschedule P (bag_dynamics (k_bag k3))) k3 (\<lambda>_. Q))" by blast
  qed
qed

text \<open>The next bag.\<close>

lemma next_calm:
  assumes ok: "sched_ok elems invar k" and w: "wired g gs (k_sims k)" and mem: "all_sims (member P g V) k" and r: "all_sims (rested {}) k"
    and t: "k_time k \<noteq> dnan" "k_time k \<noteq> negativeInfinity"
  shows "wp (makeNextBag H) k (\<lambda>_ k'. calm elems invar P g gs V k' \<and> k_time k' = getNextTime H k \<and> dle (k_time k) (k_time k')
    \<and> models_of k' = models_of k \<and> (k_time k' = infinity \<or> bag_unique (k_bag k') \<noteq> {})
    \<and> (\<forall>x. map_option sim_model (k_sims k' x) = map_option sim_model (k_sims k x)))"
proof (rule wp_mono [OF makeNextBag_wp [OF ok]], elim conjE)
  fix u k'
  let ?t = "getNextTime H k"
  assume k': "sched_ok elems invar k'" "k_time k' = ?t" "bag_unique (k_bag k') = {x. \<exists>h. elems (k_heap k) h = Some (?t, x)}"
    "elems (k_heap k') = drop_due (elems (k_heap k)) (\<lambda>t. t = ?t)" "k_sims k' = activate (bag_unique (k_bag k')) (k_sims k)"
  note nt = next_time [OF ok]
  have ag: "agree (elems (k_heap k)) (k_sims k)" using ok by (simp add: sched_ok_def sched_from_def)
  have pw: "pointwise (\<lambda>x sm sm'. sm' = (if x \<in> bag_unique (k_bag k') then sm\<lparr>sim_internal := True, sim_handle := None\<rparr> else sm)) k k'"
    unfolding pointwise_def
  proof
    fix x
    show "rel_option (\<lambda>sm sm'. sm' = (if x \<in> bag_unique (k_bag k') then sm\<lparr>sim_internal := True, sim_handle := None\<rparr> else sm)) (k_sims k x) (k_sims k' x)"
      unfolding k'(5) by (cases "k_sims k x") (auto simp: activate_def)
  qed
  have "later ?t (elems (k_heap k'))"
    using nt(1) dval_inject [of _ ?t] unfolding later_def k'(4) by (force simp: drop_due_def dates_ok_def double_simps split: option.splits if_splits)
  then have "delivering elems invar k'" using k'(1,2) by (simp add: delivering_def)
  moreover have "wired g gs (k_sims k')" by (rule wired_same [OF w pw]) simp
  moreover have "all_sims (member P g V) k'"
    by (rule pointwise_all [OF pw]) (use mem in \<open>auto simp: all_sims_def member_def observed_views_def\<close>)
  moreover have "all_sims (idle ?t (bag_unique (k_bag k'))) k'"
  proof (rule pointwise_all [OF pw])
    fix x sm sm'
    assume sm: "k_sims k x = Some sm" and sm': "sm' = (if x \<in> bag_unique (k_bag k') then sm\<lparr>sim_internal := True, sim_handle := None\<rparr> else sm)"
    have "sim_tn sm = ?t" if "x \<in> bag_unique (k_bag k')" using that agree_entry [OF ag, of _ ?t x] sm unfolding k'(3) by auto
    then show "idle ?t (bag_unique (k_bag k')) x sm'" using all_simsD [OF r sm] unfolding sm' by (auto simp: rested_def idle_def)
  qed
  moreover have "models_of k' = models_of k"
    by (rule models_of_same [OF pw]) simp
  moreover have "dle (k_time k) ?t" "?t \<noteq> dnan" using nt t by auto
  moreover have "?t \<noteq> dninf" using calculation(6) t(2) by (cases "k_time k" rule: double_cases) (auto simp: double_simps)
  moreover have "map_option sim_model (k_sims k' x) = map_option sim_model (k_sims k x)" for x
    by (rule pointwise_field [OF pw]) simp
  moreover have "?t = infinity \<or> bag_unique (k_bag k') \<noteq> {}"
  proof (cases "heap_empty H (k_heap k)")
    case False
    have inv: "invar (k_heap k)" using ok by (simp add: sched_ok_def sched_from_def)
    have "elems (k_heap k) (top_handle (k_heap k)) = Some (heap_top H (k_heap k))"
      using heap_top [OF inv] heap_empty [OF inv] False by simp
    then have "elems (k_heap k) (top_handle (k_heap k)) = Some (?t, snd (heap_top H (k_heap k)))"
      using False by (simp add: getNextTime_def)
    then show ?thesis unfolding k'(3) by blast
  qed (simp add: getNextTime_def)
  ultimately show "calm elems invar P g gs V k' \<and> k_time k' = ?t \<and> dle (k_time k) (k_time k') \<and> models_of k' = models_of k
    \<and> (k_time k' = infinity \<or> bag_unique (k_bag k') \<noteq> {})
    \<and> (\<forall>x. map_option sim_model (k_sims k' x) = map_option sim_model (k_sims k x))"
    using k'(2) by (simp add: calm_def)
qed

end

end
