(* ===== verification/DEVS_Refinement.thy ===== *)
theory DEVS_Refinement
  imports DEVS_Round
begin

text \<open>
  \<^verbatim>\<open>Coordinator::run\<close> on a fixed structure: one call returns, keeps the invariant of the coordinator and
  makes one step of the abstract DEVS simulator.
\<close>

section \<open>The observations of a round\<close>

lemma viewable_kernel:
  assumes v: "viewable P c" and m: "\<And>x. map_option sim_model (k_sims k x) = map_option sim_model (k_sims (m_eventTable c) x)"
  shows "viewable P (c\<lparr>m_eventTable := k\<rparr>)"
proof -
  let ?c = "c\<lparr>m_eventTable := k\<rparr>"
  have dom: "(k_sims k x = None) = (k_sims (m_eventTable c) x = None)" for x using m [of x] by (cases "k_sims k x"; cases "k_sims (m_eventTable c) x") auto
  have "\<exists>nm. env_names (model_env_of P ?c) x = Inr nm" if sm: "k_sims k x = Some sm" for x sm
  proof -
    obtain sm0 where sm0: "k_sims (m_eventTable c) x = Some sm0" "sim_model sm0 = sim_model sm" using m [of x] sm by (cases "k_sims (m_eventTable c) x") auto
    then have "env_names (model_env_of P ?c) x = env_names (model_env_of P c) x" using sm by (simp add: model_env_of_def)
    then show ?thesis using v sm0(1) by (auto simp: viewable_def)
  qed
  then show ?thesis using v dom by (simp add: viewable_def)
qed

lemma timed_ok_kernel [simp]: "timed_ok (c\<lparr>m_eventTable := k\<rparr>) = timed_ok c"
  by (simp add: timed_ok_def)

lemma timed_ok_frame:
  "view_frame c c' \<Longrightarrow> m_timed_observation_scheduler c' = m_timed_observation_scheduler c \<Longrightarrow> timed_ok c' = timed_ok c"
  by (simp add: timed_ok_def view_frame_fields(4) same_views_dom [OF view_frame_fields(10)])

definition sent_all :: "sim_id list \<Rightarrow> sim_id \<Rightarrow> ('h, 'u) simulator \<Rightarrow> ('h, 'u) simulator \<Rightarrow> bool" where
  "sent_all xs x sm sm' \<longleftrightarrow> sm' = (if x \<in> set xs then sm\<lparr>sim_observations := []\<rparr> else sm)"

text \<open>The part of the state that the views do not see.\<close>

definition observations_sent :: "sim_id list \<Rightarrow> ('q, 'h, 'u, 'p) coordinator \<Rightarrow> ('q, 'h, 'u, 'p) coordinator \<Rightarrow> bool" where
  "observations_sent xs c c' \<longleftrightarrow> (\<exists>c1 sims. view_frame c c1 \<and> m_currentTime c1 = m_currentTime c
     \<and> m_timed_observation_scheduler c1 = m_timed_observation_scheduler c
     \<and> c' = c1\<lparr>m_eventTable := (m_eventTable c)\<lparr>k_sims := sims\<rparr>\<rparr> \<and> pointwise (sent_all xs) (m_eventTable c) (m_eventTable c'))"

lemma wp_send_all:
  assumes v: "viewable P c" and mem: "all_sims (member P g (dom (map_of (m_eventViewList c)))) (m_eventTable c)"
    and xs: "\<And>x. x \<in> set xs \<Longrightarrow> \<exists>sm. k_sims (m_eventTable c) x = Some sm"
  shows "wp (forS (send_observations P) xs) c (\<lambda>_. observations_sent xs c)"
proof (rule wp_forS_prefix [where J = "\<lambda>pre. observations_sent pre c"])
  have "pointwise (sent_all []) (m_eventTable c) (m_eventTable c)"
    by (simp add: pointwise_def sent_all_def option.rel_refl)
  then show "observations_sent [] c c" unfolding observations_sent_def using view_frame_refl [of c]
    by (intro exI [of _ c] exI [of _ "k_sims (m_eventTable c)"]) simp
  fix pre x post c'
  assume split: "xs = pre @ x # post" and J: "observations_sent pre c c'"
  from J obtain c1 sims where c1: "view_frame c c1" "m_currentTime c1 = m_currentTime c" "m_timed_observation_scheduler c1 = m_timed_observation_scheduler c"
    "c' = c1\<lparr>m_eventTable := (m_eventTable c)\<lparr>k_sims := sims\<rparr>\<rparr>" "pointwise (sent_all pre) (m_eventTable c) (m_eventTable c')"
    unfolding observations_sent_def by blast
  have "map_option sim_model (k_sims (m_eventTable c') y) = map_option sim_model (k_sims (m_eventTable c) y)" for y
    by (rule pointwise_field [OF c1(5)]) (simp add: sent_all_def)
  then have "viewable P (c1\<lparr>m_eventTable := m_eventTable c'\<rparr>)"
    by (intro viewable_kernel viewable_frame [OF c1(1) v]) (simp add: view_frame_fields(1) [OF c1(1)])
  moreover have "c1\<lparr>m_eventTable := m_eventTable c'\<rparr> = c'" using c1(4) by simp
  ultimately have v': "viewable P c'" by simp
  obtain sm where sm: "k_sims (m_eventTable c) x = Some sm" using xs [of x] split by auto
  obtain sm' where sm': "k_sims (m_eventTable c') x = Some sm'" "sent_all pre x sm sm'" by (rule pointwise_forward [OF c1(5) sm])
  have dom: "dom (map_of (m_eventViewList c')) = dom (map_of (m_eventViewList c))"
    using same_views_dom [OF view_frame_fields(9) [OF c1(1)]] c1(4) by simp
  have "pending_views sm' \<subseteq> dom (map_of (m_eventViewList c'))"
    using all_simsD [OF mem sm] sm'(2) unfolding dom by (auto simp: member_def sent_all_def split: if_splits)
  from wp_send_observations [OF v' sm'(1) this]
  show "wp (send_observations P x) c' (\<lambda>_. observations_sent (pre @ [x]) c)"
  proof (rule wp_mono, elim exE conjE)
    fix u c'' c2
    assume c2: "view_frame c' c2" "m_currentTime c2 = m_currentTime c'" "m_timed_observation_scheduler c2 = m_timed_observation_scheduler c'"
      "c'' = c2\<lparr>m_eventTable := put_sim x (sm'\<lparr>sim_observations := []\<rparr>) (m_eventTable c')\<rparr>"
    let ?c2 = "c2\<lparr>m_eventTable := m_eventTable c\<rparr>"
    from c2(1) obtain t ev ti v where w: "c2 = c'\<lparr>m_currentTime := t, m_timed_observation_scheduler := v, m_eventViewList := ev, m_timedViewList := ti\<rparr>"
      "same_views (m_eventViewList c') ev" "same_views (m_timedViewList c') ti" unfolding view_frame_def by blast
    have "?c2 = c1\<lparr>m_currentTime := t, m_timed_observation_scheduler := v, m_eventViewList := ev, m_timedViewList := ti\<rparr>"
      by (rule coordinator.equality) (simp_all add: w(1) c1(4) view_frame_fields(1) [OF c1(1)])
    then have "view_frame c1 ?c2" unfolding view_frame_def using w(2,3) c1(4) by auto
    then have fr: "view_frame c ?c2" by (rule view_frame_trans [OF c1(1)])
    have "sm'\<lparr>sim_observations := []\<rparr> = sm\<lparr>sim_observations := []\<rparr>" using sm'(2) by (simp add: sent_all_def split: if_splits)
    then have "rel_option (sent_all (pre @ [x]) y) (k_sims (m_eventTable c) y) (k_sims (m_eventTable c'') y)" for y
      using c1(5) c2(4) sm unfolding pointwise_def sent_all_def by (cases "y = x") (auto simp: put_sim_def)
    then have pw: "pointwise (sent_all (pre @ [x])) (m_eventTable c) (m_eventTable c'')" by (simp add: pointwise_def)
    show "observations_sent (pre @ [x]) c c''"
      unfolding observations_sent_def
      by (rule exI [of _ ?c2], rule exI [of _ "sims(x \<mapsto> sm'\<lparr>sim_observations := []\<rparr>)"])
        (use fr pw c1 c2 in \<open>simp add: put_sim_def\<close>)
  qed
qed


section \<open>One call of run\<close>

text \<open>
  The invariant of the coordinator between two calls: the kernel is calm, the date is that of the
  scheduler, the views are connected and no model waits for its deletion.
\<close>

definition quiet :: "('q \<Rightarrow> 'h \<Rightarrow> (time \<times> sim_id) option) \<Rightarrow> ('q \<Rightarrow> bool) \<Rightarrow> ('q, 'h, 'u, 'p) platform
    \<Rightarrow> ('q, 'h, 'u, 'p) coordinator \<Rightarrow> bool" where
  "quiet elems invar P c \<longleftrightarrow>
     calm elems invar P (m_graph c) (m_simulator c) (dom (map_of (m_eventViewList c))) (m_eventTable c)
     \<and> m_currentTime c = k_time (m_eventTable c) \<and> m_durationTime c \<noteq> dnan \<and> m_delete_model c = []
     \<and> viewable P c \<and> timed_ok c"

lemma calm_dates:
  assumes "calm elems invar P g gs V k" "models_of k x = Some (u, tn)"
  shows "dle (k_time k) tn"
proof -
  obtain sm where sm: "k_sims k x = Some sm" "sim_tn sm = tn" using assms(2) by (auto simp: models_of_def)
  have t: "k_time k \<noteq> dnan" and d: "delivering elems invar k" using assms(1) by (auto simp: calm_def)
  have "dless (k_time k) tn" if "sim_handle sm = Some h" for h
    using agree_handle [OF delivering_agree [OF d] sm(1) that] d sm(2) by (auto simp: delivering_def later_def)
  moreover have "dle (k_time k) (k_time k)" using t by (cases "k_time k" rule: double_cases) (auto simp: double_simps)
  ultimately show ?thesis
    using calm_sim(1) [OF assms(1) sm(1)] dle_inf [OF t] sm(2)
    by (cases "sim_handle sm") (auto simp: idle_def double_simps split: if_splits)
qed

lemma wp_Nil:
  "wp (call_outputs P t []) k R = R () k" "wp (dispatchExternalEvent P g gs []) k R = R () k" "wp (executives_transitions P E []) c Q = Q () c"
  "wp (reschedule P []) k R = R () k" "wp (forS f []) s S = S () s"
  by (simp_all add: call_outputs_def dispatchExternalEvent_def executives_transitions_def reschedule_def wp_simps)

lemma wp_run_phases:
  assumes t: "m_currentTime c = k_time (m_eventTable c)" and ex: "bag_executives (k_bag (m_eventTable c)) = []"
    and phases: "wp (call_outputs P (m_currentTime c) (bag_dynamics (k_bag (m_eventTable c)))) (m_eventTable c) (\<lambda>_ k1.
      wp (dispatchExternalEvent P (m_graph c) (m_simulator c) (bag_dynamics (k_bag (m_eventTable c)))) k1 (\<lambda>_ k2. bag_executives (k_bag k2) = [] \<and>
      wp (dynamics_transitions P (m_parallelize c) (m_currentTime c) (bag_dynamics (k_bag k2))) k2 (\<lambda>_ k3. bag_executives (k_bag k3) = [] \<and>
      wp (reschedule P (bag_dynamics (k_bag k3))) k3 (\<lambda>_ k4. bag_executives (k_bag k4) = [] \<and>
      wp (forS (send_observations P) (bag_dynamics (k_bag k4))) (c\<lparr>m_eventTable := k4\<rparr>) (\<lambda>_ c5. bag_executives (k_bag (m_eventTable c5)) = [] \<and>
      wp (timed_observations P) c5 (\<lambda>_ c6. m_delete_model c6 = [] \<and>
      wp (makeNextBag (pf_heap P)) (m_eventTable c6) (\<lambda>_ k7. Q () (c6\<lparr>m_eventTable := k7, m_currentTime := k_time k7\<rparr>))))))))"
  shows "wp (Coordinator_run P E) c Q"
proof -
  have c0: "(if b then c\<lparr>m_currentTime := k_time (m_eventTable c)\<rparr> else c) = c" for b
    unfolding t [symmetric] by simp
  have sort: "k\<lparr>k_bag := (k_bag k)\<lparr>bag_executives := []\<rparr>\<rparr> = k" if "bag_executives (k_bag k) = []" for k :: "('a, 'b, 'c) kernel"
    using that by (intro kernel.equality bag.equality) simp_all
  note rules = wp_thenS wp_updS wp_bindS wp_getS wp_on_kernel Let_def sort_executives_def c0 ex wp_Nil
  show ?thesis
    unfolding Coordinator_run_def rules
    by (rule wp_mono [OF phases], (erule wp_mono | (elim conjE, simp add: sort wp_Nil wp_retS, erule wp_mono))+)
      (simp add: wp_Nil wp_retS wp_if)
qed

text \<open>What a call keeps of the coordinator, and how the date moves.\<close>

definition advanced :: "('q, 'h, 'u, 'p) coordinator \<Rightarrow> ('q, 'h, 'u, 'p) coordinator \<Rightarrow> bool" where
  "advanced c c' \<longleftrightarrow> dle (m_currentTime c) (m_currentTime c') \<and> m_graph c' = m_graph c \<and> m_simulator c' = m_simulator c
     \<and> m_durationTime c' = m_durationTime c \<and> m_simulators c' = m_simulators c
     \<and> (\<forall>x. map_option sim_model (k_sims (m_eventTable c') x) = map_option sim_model (k_sims (m_eventTable c) x))
     \<and> (m_currentTime c' = infinity \<or> bag_unique (k_bag (m_eventTable c')) \<noteq> {})"

lemma sent_all_fields:
  assumes "sent_all xs x sm sm'"
  shows "sim_dynamics sm' = sim_dynamics sm" "sim_tn sm' = sim_tn sm" "sim_targets sm' = sim_targets sm" "sim_model sm' = sim_model sm"
    "sim_handle sm' = sim_handle sm" "sim_executive sm' = sim_executive sm" "sim_internal sm' = sim_internal sm"
    "member P g V x sm \<Longrightarrow> member P g V x sm'" "rested (set xs) x sm \<Longrightarrow> rested {} x sm'"
  using assms by (auto simp: sent_all_def member_def rested_def observed_views_def)

context event_heap
begin

lemma wp_end_of_run:
  assumes P: "pf_heap P = H" and c: "viewable P c" "timed_ok c" "m_durationTime c \<noteq> dnan" "m_delete_model c = []"
    and k: "sched_ok elems invar (m_eventTable c)" "wired (m_graph c) (m_simulator c) (k_sims (m_eventTable c))"
      "all_sims (member P (m_graph c) (dom (map_of (m_eventViewList c)))) (m_eventTable c)"
      "all_sims (rested (set xs)) (m_eventTable c)" "k_time (m_eventTable c) \<noteq> dnan" "k_time (m_eventTable c) \<noteq> negativeInfinity"
      "k_time (m_eventTable c) = m_currentTime c"
    and sent: "observations_sent xs c c'"
  shows "wp (timed_observations P) c' (\<lambda>_ c6. m_delete_model c6 = [] \<and> wp (makeNextBag (pf_heap P)) (m_eventTable c6)
    (\<lambda>_ k7. quiet elems invar P (c6\<lparr>m_eventTable := k7, m_currentTime := k_time k7\<rparr>)
       \<and> advanced c (c6\<lparr>m_eventTable := k7, m_currentTime := k_time k7\<rparr>) \<and> models_of k7 = models_of (m_eventTable c)))"
proof -
  from sent obtain c1 sims where c1: "view_frame c c1" "m_timed_observation_scheduler c1 = m_timed_observation_scheduler c"
    "c' = c1\<lparr>m_eventTable := (m_eventTable c)\<lparr>k_sims := sims\<rparr>\<rparr>" "pointwise (sent_all xs) (m_eventTable c) (m_eventTable c')"
    unfolding observations_sent_def by blast
  let ?k = "m_eventTable c'"
  have "viewable P (c1\<lparr>m_eventTable := ?k\<rparr>)"
    by (rule viewable_kernel [OF viewable_frame [OF c1(1) c(1)]], unfold view_frame_fields(1) [OF c1(1)], rule pointwise_field [OF c1(4)])
      (rule sent_all_fields)
  then have v: "viewable P c'" using c1(3) by simp
  have ok: "timed_ok c'" using c(2) timed_ok_frame [OF c1(1,2)] c1(3) by simp
  have same: "m_durationTime c' = m_durationTime c" "m_delete_model c' = []" "m_graph c' = m_graph c" "m_simulator c' = m_simulator c"
    "m_simulators c' = m_simulators c"
    "dom (map_of (m_eventViewList c')) = dom (map_of (m_eventViewList c))"
    using view_frame_fields [OF c1(1)] same_views_dom [OF view_frame_fields(9) [OF c1(1)]] c(4) by (simp_all add: c1(3))
  have "rel_option (\<lambda>sm sm'. sim_handle sm' = sim_handle sm \<and> (sim_handle sm \<noteq> None \<longrightarrow> sim_tn sm' = sim_tn sm)
      \<and> sim_executive sm' = sim_executive sm \<and> (sim_internal sm' \<longrightarrow> sim_internal sm)) (k_sims (m_eventTable c) x) (k_sims ?k x)" for x
    by (rule option.rel_mono_strong [OF c1(4) [unfolded pointwise_def, rule_format]]) (simp add: sent_all_fields)
  then have k1: "sched_ok elems invar ?k" by (intro sched_ok_same [OF k(1)]) (simp_all add: c1(3))
  have k2: "wired (m_graph c) (m_simulator c) (k_sims ?k)" by (rule wired_same [OF k(2) c1(4)]) (simp add: sent_all_fields)
  have k3: "all_sims (member P (m_graph c) (dom (map_of (m_eventViewList c)))) ?k"
    by (rule pointwise_all [OF c1(4)]) (rule sent_all_fields(8) [OF _ all_simsD [OF k(3)]])
  have k4: "all_sims (rested {}) ?k" by (rule pointwise_all [OF c1(4)]) (rule sent_all_fields(9) [OF _ all_simsD [OF k(4)]])
  have k5: "k_time ?k = m_currentTime c" "models_of ?k = models_of (m_eventTable c)"
    using k(7) c1(3) models_of_same [OF c1(4)] by (simp_all add: sent_all_fields)
  have dur: "m_durationTime c' \<noteq> dnan" using c(3) same by simp
  show ?thesis
  proof (rule wp_mono [OF wp_timed_observations [OF v ok dur]], elim conjE)
    fix u c6
    assume c6: "view_frame c' c6" "timed_ok c6"
    note f = view_frame_fields [OF c6(1)] same_views_dom [OF view_frame_fields(9) [OF c6(1)]]
    have "wp (makeNextBag H) ?k (\<lambda>_ k7. calm elems invar P (m_graph c) (m_simulator c) (dom (map_of (m_eventViewList c))) k7
        \<and> dle (k_time ?k) (k_time k7) \<and> models_of k7 = models_of ?k \<and> (k_time k7 = infinity \<or> bag_unique (k_bag k7) \<noteq> {})
        \<and> (\<forall>x. map_option sim_model (k_sims k7 x) = map_option sim_model (k_sims ?k x)))"
      by (rule wp_mono [OF next_calm [OF k1 k2 k3 k4]]) (use k(5-7) k5(1) in auto)
    then have "wp (makeNextBag H) ?k (\<lambda>_ k7. quiet elems invar P (c6\<lparr>m_eventTable := k7, m_currentTime := k_time k7\<rparr>)
       \<and> advanced c (c6\<lparr>m_eventTable := k7, m_currentTime := k_time k7\<rparr>) \<and> models_of k7 = models_of (m_eventTable c))"
    proof (rule wp_mono, elim conjE)
      fix u k7
      assume k7: "calm elems invar P (m_graph c) (m_simulator c) (dom (map_of (m_eventViewList c))) k7" "dle (k_time ?k) (k_time k7)"
        "models_of k7 = models_of ?k" "k_time k7 = infinity \<or> bag_unique (k_bag k7) \<noteq> {}"
        "\<forall>x. map_option sim_model (k_sims k7 x) = map_option sim_model (k_sims ?k x)"
      let ?c7 = "c6\<lparr>m_eventTable := k7, m_currentTime := k_time k7\<rparr>"
      have "viewable P (c6\<lparr>m_eventTable := k7\<rparr>)"
        by (rule viewable_kernel [OF viewable_frame [OF c6(1) v]]) (simp add: f(1) k7(5))
      then have "viewable P ?c7" by (rule viewable_frame [OF frame_time])
      moreover have "timed_ok ?c7" using c6(2) by (simp add: timed_ok_def)
      ultimately have "quiet elems invar P ?c7" using k7(1) c(3) same f by (simp add: quiet_def)
      moreover have "map_option sim_model (k_sims ?k x) = map_option sim_model (k_sims (m_eventTable c) x)" for x
        by (rule pointwise_field [OF c1(4)]) (rule sent_all_fields)
      then have "advanced c ?c7" using k7(2,4,5) k5(1) same f by (simp add: advanced_def)
      ultimately show "quiet elems invar P ?c7 \<and> advanced c ?c7 \<and> models_of k7 = models_of (m_eventTable c)" using k7(3) k5(2) by simp
    qed
    then show "m_delete_model c6 = [] \<and> wp (makeNextBag (pf_heap P)) (m_eventTable c6)
      (\<lambda>_ k7. quiet elems invar P (c6\<lparr>m_eventTable := k7, m_currentTime := k_time k7\<rparr>)
       \<and> advanced c (c6\<lparr>m_eventTable := k7, m_currentTime := k_time k7\<rparr>) \<and> models_of k7 = models_of (m_eventTable c))"
      using f same P by simp
  qed
qed

lemma wp_run:
  assumes P: "pf_heap P = H" and q: "quiet elems invar P c"
  shows "wp (Coordinator_run P E) c (\<lambda>_ c'. quiet elems invar P c' \<and> advanced c c' \<and> (m_currentTime c \<noteq> infinity \<longrightarrow>
      devs_step (pf_dynamics P) (route_of (m_graph c) (m_simulator c) (m_eventTable c)) (m_currentTime c)
        (models_of (m_eventTable c)) (models_of (m_eventTable c'))))"
proof (rule wp_run_phases)
  let ?k = "m_eventTable c" and ?g = "m_graph c" and ?gs = "m_simulator c" and ?V = "dom (map_of (m_eventViewList c))"
  have c: "calm elems invar P ?g ?gs ?V ?k" and t: "m_currentTime c = k_time ?k" and v: "viewable P c" and ok: "timed_ok c"
    and del: "m_delete_model c = []" and dur: "m_durationTime c \<noteq> dnan" using q by (auto simp: quiet_def)
  show "m_currentTime c = k_time ?k" "bag_executives (k_bag ?k) = []" using t calm_only_dynamics(1) [OF c] by auto
  let ?Q = "\<lambda>c'. quiet elems invar P c' \<and> advanced c c' \<and> (m_currentTime c \<noteq> infinity \<longrightarrow>
      devs_step (pf_dynamics P) (route_of ?g ?gs ?k) (m_currentTime c) (models_of ?k) (models_of (m_eventTable c')))"
  have tail: "bag_executives (k_bag k4) = [] \<and> wp (forS (send_observations P) (bag_dynamics (k_bag k4))) (c\<lparr>m_eventTable := k4\<rparr>)
      (\<lambda>_ c5. bag_executives (k_bag (m_eventTable c5)) = [] \<and> wp (timed_observations P) c5 (\<lambda>_ c6. m_delete_model c6 = [] \<and>
      wp (makeNextBag (pf_heap P)) (m_eventTable c6) (\<lambda>_ k7. ?Q (c6\<lparr>m_eventTable := k7, m_currentTime := k_time k7\<rparr>))))"
    if r: "round_done elems invar P ?g ?gs ?V ?k k4" for k4
  proof -
    let ?c4 = "c\<lparr>m_eventTable := k4\<rparr>" and ?xs = "bag_dynamics (k_bag k4)"
    have k4: "sched_ok elems invar k4" "wired ?g ?gs (k_sims k4)" "all_sims (member P ?g ?V) k4" "all_sims (rested (bag_unique (k_bag k4))) k4"
      "k_time k4 = m_currentTime c" "\<And>x. map_option sim_model (k_sims k4 x) = map_option sim_model (k_sims ?k x)"
      "m_currentTime c \<noteq> infinity \<Longrightarrow> devs_step (pf_dynamics P) (route_of ?g ?gs ?k) (m_currentTime c) (models_of ?k) (models_of k4)"
      using r t unfolding round_done_def by auto
    note bag = only_dynamics [OF k4(1,3)]
    have nan: "k_time k4 \<noteq> dnan" "k_time k4 \<noteq> negativeInfinity" using c t k4(5) by (auto simp: calm_def)
    have v4: "viewable P ?c4" by (rule viewable_kernel [OF v k4(6)])
    have adv: "advanced ?c4 c' \<Longrightarrow> advanced c c'" for c' using k4(6) by (simp add: advanced_def)
    have "wp (forS (send_observations P) ?xs) ?c4 (\<lambda>_. observations_sent ?xs ?c4)"
      by (rule wp_send_all [OF v4, where g = ?g]) (use k4(3) bag(2,4) in auto)
    then have "wp (forS (send_observations P) ?xs) ?c4 (\<lambda>_ c5. bag_executives (k_bag (m_eventTable c5)) = [] \<and> wp (timed_observations P) c5
      (\<lambda>_ c6. m_delete_model c6 = [] \<and> wp (makeNextBag (pf_heap P)) (m_eventTable c6) (\<lambda>_ k7. ?Q (c6\<lparr>m_eventTable := k7, m_currentTime := k_time k7\<rparr>))))"
    proof (rule wp_mono)
      fix u c5
      assume sent: "observations_sent ?xs ?c4 c5"
      have "wp (timed_observations P) c5 (\<lambda>_ c6. m_delete_model c6 = [] \<and> wp (makeNextBag (pf_heap P)) (m_eventTable c6)
        (\<lambda>_ k7. quiet elems invar P (c6\<lparr>m_eventTable := k7, m_currentTime := k_time k7\<rparr>)
          \<and> advanced ?c4 (c6\<lparr>m_eventTable := k7, m_currentTime := k_time k7\<rparr>) \<and> models_of k7 = models_of (m_eventTable ?c4)))"
        by (rule wp_end_of_run [OF P v4 _ _ _ _ _ _ _ _ _ _ sent]) (use ok dur del k4 nan bag(2) in simp_all)
      then have "wp (timed_observations P) c5 (\<lambda>_ c6. m_delete_model c6 = [] \<and> wp (makeNextBag (pf_heap P)) (m_eventTable c6)
        (\<lambda>_ k7. ?Q (c6\<lparr>m_eventTable := k7, m_currentTime := k_time k7\<rparr>)))"
        by (rule wp_mono) (use adv k4(7) in \<open>auto elim!: wp_mono\<close>)
      moreover have "bag_executives (k_bag (m_eventTable c5)) = []" using sent bag(1) by (auto simp: observations_sent_def)
      ultimately show "bag_executives (k_bag (m_eventTable c5)) = [] \<and> wp (timed_observations P) c5
        (\<lambda>_ c6. m_delete_model c6 = [] \<and> wp (makeNextBag (pf_heap P)) (m_eventTable c6) (\<lambda>_ k7. ?Q (c6\<lparr>m_eventTable := k7, m_currentTime := k_time k7\<rparr>)))"
        by blast
    qed
    then show ?thesis using bag(1) by blast
  qed
  show "wp (call_outputs P (m_currentTime c) (bag_dynamics (k_bag ?k))) ?k (\<lambda>_ k1.
      wp (dispatchExternalEvent P ?g ?gs (bag_dynamics (k_bag ?k))) k1 (\<lambda>_ k2. bag_executives (k_bag k2) = [] \<and>
      wp (dynamics_transitions P (m_parallelize c) (m_currentTime c) (bag_dynamics (k_bag k2))) k2 (\<lambda>_ k3. bag_executives (k_bag k3) = [] \<and>
      wp (reschedule P (bag_dynamics (k_bag k3))) k3 (\<lambda>_ k4. bag_executives (k_bag k4) = [] \<and>
      wp (forS (send_observations P) (bag_dynamics (k_bag k4))) (c\<lparr>m_eventTable := k4\<rparr>) (\<lambda>_ c5. bag_executives (k_bag (m_eventTable c5)) = [] \<and>
      wp (timed_observations P) c5 (\<lambda>_ c6. m_delete_model c6 = [] \<and>
      wp (makeNextBag (pf_heap P)) (m_eventTable c6) (\<lambda>_ k7. ?Q (c6\<lparr>m_eventTable := k7, m_currentTime := k_time k7\<rparr>))))))))"
    unfolding t by (rule kernel_round [OF P c]) (use tail [unfolded t] in blast)
qed

end


text \<open>The date of a state of the models is the least of their next dates.\<close>

definition next_date :: "(sim_id \<Rightarrow> ('u \<times> time) option) \<Rightarrow> time \<Rightarrow> bool" where
  "next_date s t \<longleftrightarrow> (\<forall>x u tn. s x = Some (u, tn) \<longrightarrow> dle t tn) \<and> (t = infinity \<or> (\<exists>x u. s x = Some (u, t)))"

lemma quiet_next_date:
  assumes "quiet elems invar P c'" "advanced c c'"
  shows "next_date (models_of (m_eventTable c')) (m_currentTime c')"
proof -
  have calm: "calm elems invar P (m_graph c') (m_simulator c') (dom (map_of (m_eventViewList c'))) (m_eventTable c')"
    and t: "m_currentTime c' = k_time (m_eventTable c')" using assms(1) by (auto simp: quiet_def)
  have "\<exists>x u. models_of (m_eventTable c') x = Some (u, m_currentTime c')" if b: "x \<in> bag_unique (k_bag (m_eventTable c'))" for x
  proof -
    obtain sm where sm: "k_sims (m_eventTable c') x = Some sm" using calm_only_dynamics(4) [OF calm b] by blast
    then show ?thesis using calm_sim(1) [OF calm sm] b t by (auto simp: idle_def models_of_def)
  qed
  then show ?thesis using assms(2) calm_dates [OF calm] t by (auto simp: advanced_def next_date_def)
qed

section \<open>Properties\<close>

text \<open>
  C3. \<^verbatim>\<open>Coordinator::run\<close> refines the parallel DEVS simulator. On a fixed structure without executives, with
  user code that neither throws nor gives negative or undefined durations, a call at a finite date returns;
  the states and next dates of the models make exactly one step of the abstract simulator:
  outputs of the imminent models, deliveries along the connections of the graph, internal, external or confluent
  transitions of those concerned, and no change of the others. The date moves to the least of the next dates,
  never back, and the invariant of the coordinator holds again.
\<close>

theorem Coordinator_run_refines:
  assumes "event_heap (pf_heap P) elems top_handle invar" "quiet elems invar P c" "m_currentTime c \<noteq> infinity"
  shows "\<exists>c'. Coordinator_run P E c = Ret () c' \<and> quiet elems invar P c'
    \<and> devs_step (pf_dynamics P) (route_of (m_graph c) (m_simulator c) (m_eventTable c)) (m_currentTime c)
        (models_of (m_eventTable c)) (models_of (m_eventTable c'))
    \<and> dle (m_currentTime c) (m_currentTime c')
    \<and> next_date (models_of (m_eventTable c')) (m_currentTime c')"
proof -
  obtain c' where c': "Coordinator_run P E c = Ret () c'" "quiet elems invar P c'" "advanced c c'"
    "devs_step (pf_dynamics P) (route_of (m_graph c) (m_simulator c) (m_eventTable c)) (m_currentTime c)
        (models_of (m_eventTable c)) (models_of (m_eventTable c'))"
    using event_heap.wp_run [OF assms(1) refl assms(2), of E] assms(3) by (auto simp: wp_iff)
  then show ?thesis using quiet_next_date [OF c'(2,3)] by (auto simp: advanced_def)
qed

text \<open>
  Two counters on the sample graph, the first one of them imminent, and a timed view: it sends on its port
  and the second receives.
\<close>

definition sample_running :: "(list_heap, nat, int, unit) coordinator" where
  "sample_running = sample_coordinator\<lparr>m_eventTable := \<lparr>k_time = dfin 0, k_bag = empty_bag\<lparr>bag_dynamics := [1], bag_unique := {1}\<rparr>, k_heap = [],
     k_sims = [1 \<mapsto> (Simulator_new 1 0 False)\<lparr>sim_internal := True, sim_tn := dfin 0\<rparr>,
               3 \<mapsto> (Simulator_new 3 0 False)\<lparr>sim_tn := infinity\<rparr>]\<rparr>\<rparr>"

lemma counter_serves: "has_port g Out a ''o'' \<Longrightarrow> serves g a counter_ops"
  by (simp add: serves_def counter_ops_def wp_def)

lemma sample_running_kernel:
  "k_time (m_eventTable sample_running) = dfin 0" "k_heap (m_eventTable sample_running) = []"
  "k_bag (m_eventTable sample_running) = empty_bag\<lparr>bag_dynamics := [1], bag_unique := {1}\<rparr>"
  "k_sims (m_eventTable sample_running) = [1 \<mapsto> (Simulator_new 1 0 False)\<lparr>sim_internal := True, sim_tn := dfin 0\<rparr>,
     3 \<mapsto> (Simulator_new 3 0 False)\<lparr>sim_tn := infinity\<rparr>]"
  by (simp_all add: sample_running_def)

lemma sample_running_fields:
  "m_graph sample_running = sample" "m_simulator sample_running = Some" "m_eventViewList sample_running = []"
  "m_currentTime sample_running = dfin 0" "m_durationTime sample_running = dfin 3" "m_delete_model sample_running = []"
  by (simp_all add: sample_running_def sample_coordinator_def)

lemma viewable_dynamics:
  assumes "viewable P c" "well_behaved D"
  shows "viewable (P\<lparr>pf_dynamics := (\<lambda>_. D)\<rparr>) c"
  using assms by (simp add: viewable_def model_env_of_def)

lemma sample_running_quiet:
  assumes D: "well_behaved D" "\<And>a. has_port sample Out a ''o'' \<Longrightarrow> serves sample a D"
  shows "quiet map_of list_heap_ok (sample_platform\<lparr>pf_dynamics := (\<lambda>_. D)\<rparr>) sample_running"
proof -
  let ?P = "sample_platform\<lparr>pf_dynamics := (\<lambda>_. D)\<rparr>"
  have "serves sample a D" if "a = 1 \<or> a = 3" for a
    by (rule D(2)) (use that in \<open>auto simp: read_store sample_nodes\<close>)
  then have "all_sims (member ?P sample {}) (m_eventTable sample_running)"
    using D(1)
    by (auto simp: all_sims_def sample_running_kernel member_def Simulator_new_def observed_views_def pending_views_def split: if_splits)
  moreover have "delivering map_of list_heap_ok (m_eventTable sample_running)"
    by (auto simp: delivering_def sched_ok_def sched_from_def later_def list_heap_ok_def dates_ok_def bag_ok_def agree_def empty_bag_def
        sample_running_kernel Simulator_new_def split: if_splits)
  moreover have "wired sample Some (k_sims (m_eventTable sample_running))"
    by (rule sample_wired) (auto simp: sample_running_kernel Simulator_new_def split: if_splits)
  moreover have "all_sims (idle (dfin 0) {1}) (m_eventTable sample_running)"
    by (auto simp: all_sims_def idle_def sample_running_kernel Simulator_new_def split: if_splits)
  moreover have "viewable ?P sample_running"
    unfolding sample_running_def
    by (rule viewable_dynamics [OF viewable_kernel [OF sample_viewable] D(1)])
      (simp add: sample_coordinator_def sample_sims_def Simulator_new_def)
  moreover have "timed_ok sample_running" using sample_timed_ok by (simp add: sample_running_def)
  ultimately show ?thesis
    using dfin_not_inf [of 0] dfin_not_inf [of 3] by (simp add: quiet_def calm_def sample_running_fields sample_running_kernel)
qed

lemma sample_platform_dynamics: "sample_platform\<lparr>pf_dynamics := (\<lambda>_. counter_ops)\<rparr> = sample_platform"
  by (simp add: sample_platform_def)

definition no_executives :: "'s executive_ops" where
  "no_executives = \<lparr>ex_init = (\<lambda>_ _. retS infinity), ex_internalTransition = (\<lambda>_ _. retS ()), ex_externalTransition = (\<lambda>_ _ _. retS ()),
     ex_confluentTransitions = (\<lambda>_ _ _. retS ()), ex_finish = (\<lambda>_. retS ())\<rparr>"

theorem Coordinator_run_refines_witness:
  "\<exists>c'. Coordinator_run sample_platform no_executives sample_running = Ret () c' \<and> quiet map_of list_heap_ok sample_platform c'
    \<and> devs_step (pf_dynamics sample_platform) (route_of sample Some (m_eventTable sample_running)) (dfin 0)
        (models_of (m_eventTable sample_running)) (models_of (m_eventTable c'))"
proof -
  have H: "event_heap (pf_heap sample_platform) map_of (\<lambda>q. fst (min_entry q)) list_heap_ok"
    using list_heap.event_heap_axioms by (simp add: sample_platform_def)
  have "m_currentTime sample_running \<noteq> infinity" using dfin_not_inf by (simp add: sample_running_fields)
  from Coordinator_run_refines [OF H sample_running_quiet [OF counter_well_behaved counter_serves, unfolded sample_platform_dynamics] this, of no_executives] show ?thesis by (auto simp: sample_running_fields)
qed

end
