(* ===== verification/Root_Coordinator.thy ===== *)
theory Root_Coordinator
  imports DEVS_Refinement
begin

text \<open>
  \<^verbatim>\<open>devs/RootCoordinator.cpp\<close> and the loop of \<^verbatim>\<open>manager/Simulation.cpp\<close> around it: the whole simulation is a run
  of the abstract DEVS simulator up to the end of the experiment.
\<close>

section \<open>State and operations\<close>

record ('q, 'h, 'u, 'p) root_coordinator =
  r_begin :: time
  r_currentTime :: time
  r_end :: time
  r_coordinator :: "('q, 'h, 'u, 'p) coordinator option"

type_synonym ('q, 'h, 'u, 'p, 'a) rproc = "(('q, 'h, 'u, 'p) root_coordinator, 'a) proc"

text \<open>The number 1.0 in units of the smallest subnormal.\<close>

definition RootCoordinator_new :: "('q, 'h, 'u, 'p) root_coordinator" where
  "RootCoordinator_new = \<lparr>r_begin = dfin 0, r_currentTime = dfin 0, r_end = dfin (2 ^ 1074), r_coordinator = None\<rparr>"

definition RootCoordinator_init :: "('q, 'h, 'u, 'p, unit) rproc" where
  "RootCoordinator_init = updS (\<lambda>r. r\<lparr>r_currentTime := r_begin r\<rparr>)"

definition on_coordinator :: "('q, 'h, 'u, 'p, 'a) cproc \<Rightarrow> ('q, 'h, 'u, 'p, 'a) rproc" where
  "on_coordinator m r = (case r_coordinator r of
     None \<Rightarrow> Exn (UndefinedBehaviour ''null coordinator'') r
   | Some c \<Rightarrow> (case m c of Ret x c' \<Rightarrow> Ret x (r\<lparr>r_coordinator := Some c'\<rparr>) | Exn e c' \<Rightarrow> Exn e (r\<lparr>r_coordinator := Some c'\<rparr>)))"

definition RootCoordinator_run :: "('q, 'h, 'u, 'p) platform \<Rightarrow> ('q, 'h, 'u, 'p) coordinator executive_ops \<Rightarrow> ('q, 'h, 'u, 'p, bool) rproc" where
  "RootCoordinator_run P E =
     bindS (on_coordinator (bindS getS (\<lambda>c. retS (m_currentTime c)))) (\<lambda>t.
     thenS (updS (\<lambda>r. r\<lparr>r_currentTime := t\<rparr>))
    (bindS getS (\<lambda>r.
       if isInfinity (r_currentTime r) then retS False
       else if dless (dsub (r_end r) (r_currentTime r)) (dfin 0) then retS False
       else thenS (on_coordinator (Coordinator_run P E)) (retS True))))"

definition RootCoordinator_finish :: "('q, 'h, 'u, 'p) platform \<Rightarrow> ('q, 'h, 'u, 'p) coordinator executive_ops
    \<Rightarrow> ('q, 'h, 'u, 'p, map_value option) rproc" where
  "RootCoordinator_finish P E = bindS getS (\<lambda>r.
     if r_coordinator r \<noteq> None then on_coordinator (Coordinator_finish P E) else retS None)"

definition RootCoordinator_outputs :: "('q, 'h, 'u, 'p) platform \<Rightarrow> ('q, 'h, 'u, 'p) root_coordinator \<Rightarrow> map_value option result" where
  "RootCoordinator_outputs P r = (case r_coordinator r of Some c \<Rightarrow> getMap P c | None \<Rightarrow> Inr None)"

text \<open>The loop \<^verbatim>\<open>while (root.run())\<close> of \<^verbatim>\<open>Simulation::runQuiet\<close>.\<close>

partial_function (option) simulation_loop :: "('q, 'h, 'u, 'p) platform \<Rightarrow> ('q, 'h, 'u, 'p) coordinator executive_ops
    \<Rightarrow> ('q, 'h, 'u, 'p) root_coordinator \<Rightarrow> (('q, 'h, 'u, 'p) root_coordinator, unit) outcome option" where
  "simulation_loop P E r = (case RootCoordinator_run P E r of
     Ret b r' \<Rightarrow> if b then simulation_loop P E r' else Some (Ret () r')
   | Exn e r' \<Rightarrow> Some (Exn e r'))"

section \<open>The test of the end\<close>

text \<open>A difference of doubles is negative exactly when the first is less: no underflow hides the sign.\<close>

lemma fp_round_neg_iff: "fp_round k < Fin 0 \<longleftrightarrow> k < 0"
proof (cases "k < 0")
  case True
  then have "fp_round k \<le> fp_round (-1)" by (intro fp_round_mono) simp
  then show ?thesis using True by (cases "fp_round k") (auto simp: fp_round_small)
next
  case False
  then have "fp_round 0 \<le> fp_round k" by (intro fp_round_mono) simp
  then show ?thesis using False by (cases "fp_round k") (auto simp: fp_round_small)
qed

lemma dsub_neg_iff:
  assumes "e \<noteq> dnan" "t \<noteq> dnan" "t \<noteq> dinf" "t \<noteq> dninf"
  shows "dless (dsub e t) (dfin 0) \<longleftrightarrow> dless e t"
  unfolding dsub_def using assms
proof transfer
  fix e t :: raw_double
  assume "rep_ok e" "rep_ok t" and e: "e \<noteq> NaN" and t: "t \<noteq> NaN" "t \<noteq> Num PosInf" "t \<noteq> Num NegInf"
  obtain b where b: "t = Num (Fin b)" using t by (cases t; metis raw_double.exhaust xint.exhaust)
  have z: "fp_round 0 = Fin 0" by (rule fp_round_small) simp
  show "raw_less (raw_add e (raw_neg t)) (Num (fp_round 0)) \<longleftrightarrow> raw_less e t"
  proof (cases "(e, t)" rule: raw_add.cases)
    case (3 a b)
    then show ?thesis using fp_round_neg_iff [of "a - b"] by (simp add: z)
  qed (use e b in \<open>auto simp: z\<close>)
qed

section \<open>The abstract run\<close>

inductive devs_run :: "(sim_id \<Rightarrow> 'u dynamics_ops) \<Rightarrow> (sim_id \<Rightarrow> external_event \<Rightarrow> (sim_id \<times> external_event) set) \<Rightarrow> time
    \<Rightarrow> (sim_id \<Rightarrow> ('u \<times> time) option) \<Rightarrow> time \<Rightarrow> (sim_id \<Rightarrow> ('u \<times> time) option) \<Rightarrow> time \<Rightarrow> bool"
  for D route tend where
  devs_stop: "devs_run D route tend s t s t"
| devs_next: "t \<noteq> infinity \<Longrightarrow> \<not> dless tend t \<Longrightarrow> devs_step D route t s s1 \<Longrightarrow> next_date s1 t1 \<Longrightarrow> devs_run D route tend s1 t1 s' t'
    \<Longrightarrow> devs_run D route tend s t s' t'"

text \<open>User code whose durations move every date of the simulation forward.\<close>

definition moves :: "time \<Rightarrow> time \<Rightarrow> 'u dynamics_ops \<Rightarrow> bool" where
  "moves tbegin tend D \<longleftrightarrow> (\<forall>t u. dle tbegin t \<longrightarrow> \<not> isInfinity t \<longrightarrow> \<not> dless tend t \<longrightarrow> wp (dyn_timeAdvance D) u (\<lambda>d _. dless t (dadd d t)))"

lemma moves_step:
  assumes step: "devs_step D route t s s'" and mv: "\<And>x. x \<in> dom s \<Longrightarrow> moves tbegin tend (D x)" and t: "dle tbegin t" "\<not> isInfinity t" "\<not> dless tend t"
    and dates: "\<And>x u tn. s x = Some (u, tn) \<Longrightarrow> dle t tn" and s': "s' x = Some (u', tn')"
  shows "dless t tn'"
proof -
  from step obtain v out where rel: "\<And>x. rel_option (\<lambda>(u, tn) (u', tn'). \<exists>evs. set evs = {e. \<exists>y. \<exists>ev \<in> set (out y). (x, e) \<in> route y ev}
          \<and> (if tn = t \<or> evs \<noteq> [] then devs_delta (D x) t (tn = t) evs (v x) = Ret tn' u' else u' = u \<and> tn' = tn)) (s x) (s' x)"
    unfolding devs_step_def by blast
  from rel_option_backward [OF rel [of x, unfolded s']] obtain u tn evs where
    sx: "s x = Some (u, tn)" and *: "if tn = t \<or> evs \<noteq> [] then devs_delta (D x) t (tn = t) evs (v x) = Ret tn' u' else u' = u \<and> tn' = tn"
    by (auto split: prod.splits)
  have mx: "moves tbegin tend (D x)" using mv sx by blast
  show ?thesis
  proof (cases "tn = t \<or> evs \<noteq> []")
    case True
    then obtain w d where "dyn_timeAdvance (D x) w = Ret d u'" "tn' = dadd d t"
      using * by (auto simp: devs_delta_def thenS_def bindS_eq_Ret retS_def split: if_splits)
    moreover have "\<exists>d' w'. dyn_timeAdvance (D x) w = Ret d' w' \<and> dless t (dadd d' t)" using mx t unfolding moves_def wp_iff by blast
    ultimately show ?thesis by auto
  next
    case False
    then show ?thesis using * dates [OF sx] dval_inject [of t tn] by (auto simp: double_simps)
  qed
qed

text \<open>The number of the representable dates from a date on.\<close>

definition dates_left :: "time \<Rightarrow> nat" where
  "dates_left t = (case dval t of Fin k \<Rightarrow> Suc (nat (overflow_bound - k)) | _ \<Rightarrow> 0)"

lemma dates_left_less:
  assumes "dless t t'" "t \<noteq> dninf"
  shows "dates_left t' < dates_left t"
proof -
  have "t \<noteq> dinf" "t \<noteq> dnan" using assms(1) by (auto simp: double_simps)
  then obtain k where k: "dval t = Fin k" "k < overflow_bound" using finite_date [of t] assms(2) by (auto simp: isInfinity_iff)
  then show ?thesis using assms by (cases "dval t'") (auto simp: dates_left_def double_simps)
qed


section \<open>The simulation\<close>

text \<open>What a loaded root coordinator relies on.\<close>

definition loaded :: "('q \<Rightarrow> 'h \<Rightarrow> (time \<times> sim_id) option) \<Rightarrow> ('q \<Rightarrow> bool) \<Rightarrow> ('q, 'h, 'u, 'p) platform
    \<Rightarrow> ('q, 'h, 'u, 'p) root_coordinator \<Rightarrow> ('q, 'h, 'u, 'p) coordinator \<Rightarrow> bool" where
  "loaded elems invar P r c \<longleftrightarrow> r_coordinator r = Some c \<and> quiet elems invar P c \<and> r_end r \<noteq> dnan \<and> dle (r_begin r) (m_currentTime c)
     \<and> (\<forall>x \<in> dom (k_sims (m_eventTable c)). moves (r_begin r) (r_end r) (pf_dynamics P x))"

definition model_states :: "('q, 'h, 'u, 'p) coordinator \<Rightarrow> sim_id \<Rightarrow> ('u \<times> time) option" where
  "model_states c = models_of (m_eventTable c)"

definition route :: "('q, 'h, 'u, 'p) coordinator \<Rightarrow> sim_id \<Rightarrow> external_event \<Rightarrow> (sim_id \<times> external_event) set" where
  "route c = route_of (m_graph c) (m_simulator c) (m_eventTable c)"

lemma route_advanced:
  assumes "advanced c c'"
  shows "route c' = route c" "dom (k_sims (m_eventTable c')) = dom (k_sims (m_eventTable c))"
proof -
  have m: "map_option sim_model (k_sims (m_eventTable c') x) = map_option sim_model (k_sims (m_eventTable c) x)" for x
    using assms by (simp add: advanced_def)
  have "route_of g gs (m_eventTable c') x ev = route_of g gs (m_eventTable c) x ev" for g gs x ev
    using m [of x] by (cases "k_sims (m_eventTable c) x"; cases "k_sims (m_eventTable c') x") (auto simp: route_of_def)
  then show "route c' = route c" using assms by (intro ext) (simp add: route_def advanced_def)
  have "k_sims (m_eventTable c') x = None \<longleftrightarrow> k_sims (m_eventTable c) x = None" for x
    using m [of x] by (cases "k_sims (m_eventTable c) x"; cases "k_sims (m_eventTable c') x") auto
  then show "dom (k_sims (m_eventTable c')) = dom (k_sims (m_eventTable c))" by (auto simp: dom_def)
qed

lemma quiet_date:
  assumes "quiet elems invar P c"
  shows "m_currentTime c \<noteq> dnan" "m_currentTime c \<noteq> dninf" "model_states c x = Some (u, tn) \<Longrightarrow> dle (m_currentTime c) tn"
  using assms calm_dates [of elems invar P "m_graph c" "m_simulator c" "dom (map_of (m_eventViewList c))" "m_eventTable c" x u tn]
  by (auto simp: quiet_def calm_def model_states_def)

lemma RootCoordinator_stop:
  assumes "loaded elems invar P r c" "m_currentTime c = infinity \<or> dless (r_end r) (m_currentTime c)"
  shows "RootCoordinator_run P E r = Ret False (r\<lparr>r_currentTime := m_currentTime c\<rparr>)"
proof -
  have q: "quiet elems invar P c" "r_coordinator r = Some c" "r_end r \<noteq> dnan" using assms(1) by (auto simp: loaded_def)
  have "isInfinity (m_currentTime c) \<or> dless (dsub (r_end r) (m_currentTime c)) (dfin 0)"
    using assms(2) dsub_neg_iff [OF q(3) quiet_date(1) [OF q(1)]] quiet_date(2) [OF q(1)] by (auto simp: isInfinity_iff)
  then show ?thesis using q(2) by (auto simp: RootCoordinator_run_def effect_defs on_coordinator_def updS_def)
qed

context event_heap
begin

lemma RootCoordinator_step:
  assumes P: "pf_heap P = H" and l: "loaded elems invar P r c" and t: "m_currentTime c \<noteq> infinity" "\<not> dless (r_end r) (m_currentTime c)"
  shows "\<exists>c'. RootCoordinator_run P E r = Ret True (r\<lparr>r_currentTime := m_currentTime c, r_coordinator := Some c'\<rparr>)
    \<and> loaded elems invar P (r\<lparr>r_currentTime := m_currentTime c, r_coordinator := Some c'\<rparr>) c' \<and> advanced c c'
    \<and> devs_step (pf_dynamics P) (route c) (m_currentTime c) (model_states c) (model_states c') \<and> next_date (model_states c') (m_currentTime c')
    \<and> dless (m_currentTime c) (m_currentTime c')"
proof -
  let ?t = "m_currentTime c"
  have q: "quiet elems invar P c" "r_coordinator r = Some c" "r_end r \<noteq> dnan" and b: "dle (r_begin r) ?t"
    and mv: "\<And>x. x \<in> dom (k_sims (m_eventTable c)) \<Longrightarrow> moves (r_begin r) (r_end r) (pf_dynamics P x)" using l by (auto simp: loaded_def)
  note d = quiet_date [OF q(1)]
  have nt: "\<not> isInfinity ?t" using t(1) d(2) by (simp add: isInfinity_iff)
  have ne: "\<not> dless (dsub (r_end r) ?t) (dfin 0)" using dsub_neg_iff [OF q(3) d(1) t(1) d(2)] t(2) by simp
  from wp_run [OF P q(1), of E] t(1) obtain c' where c': "Coordinator_run P E c = Ret () c'" "quiet elems invar P c'" "advanced c c'"
    "devs_step (pf_dynamics P) (route c) ?t (model_states c) (model_states c')"
    by (auto simp: wp_iff route_def model_states_def)
  have nd: "next_date (model_states c') (m_currentTime c')" using quiet_next_date [OF c'(2,3)] by (simp add: model_states_def)
  have ms: "dom (model_states c) = dom (k_sims (m_eventTable c))" by (auto simp: model_states_def models_of_def dom_def)
  have "dless ?t tn" if "model_states c' x = Some (u, tn)" for x u tn
    by (rule moves_step [OF c'(4) _ b nt t(2) d(3) that]) (use mv ms in auto)
  moreover have "dless ?t infinity" using d(1) t(1) by (cases ?t rule: double_cases) (auto simp: double_simps)
  ultimately have "dless ?t (m_currentTime c')" using nd by (auto simp: next_date_def)
  moreover have "RootCoordinator_run P E r = Ret True (r\<lparr>r_currentTime := ?t, r_coordinator := Some c'\<rparr>)"
    using q(2) c'(1) nt ne by (simp add: RootCoordinator_run_def effect_defs on_coordinator_def updS_def)
  moreover have "loaded elems invar P (r\<lparr>r_currentTime := ?t, r_coordinator := Some c'\<rparr>) c'"
    using c'(2,3) q(3) b mv route_advanced(2) [OF c'(3)] by (auto simp: loaded_def advanced_def double_simps)
  ultimately show ?thesis using c'(3,4) nd by blast
qed

text \<open>The loop ends, by induction on the dates that are left.\<close>

lemma simulation_runs:
  assumes P: "pf_heap P = H" and l: "loaded elems invar P r c"
  shows "\<exists>r' c'. simulation_loop P E r = Some (Ret () r') \<and> loaded elems invar P r' c'
    \<and> m_simulators c' = m_simulators c \<and> dom (k_sims (m_eventTable c')) = dom (k_sims (m_eventTable c))
    \<and> (m_currentTime c' = infinity \<or> dless (r_end r) (m_currentTime c'))
    \<and> devs_run (pf_dynamics P) (route c) (r_end r) (model_states c) (m_currentTime c) (model_states c') (m_currentTime c')"
  using l
proof (induction "dates_left (m_currentTime c)" arbitrary: c r rule: less_induct)
  case less
  show ?case
  proof (cases "m_currentTime c = infinity \<or> dless (r_end r) (m_currentTime c)")
    case True
    have "loaded elems invar P (r\<lparr>r_currentTime := m_currentTime c\<rparr>) c" using less.prems by (simp add: loaded_def)
    then show ?thesis
      using True RootCoordinator_stop [OF less.prems True, of E] devs_stop
      by (intro exI [of _ "r\<lparr>r_currentTime := m_currentTime c\<rparr>"] exI [of _ c]) (simp add: simulation_loop.simps)
  next
    case False
    then have t: "m_currentTime c \<noteq> infinity" "\<not> dless (r_end r) (m_currentTime c)" by auto
    from RootCoordinator_step [OF P less.prems t, of E] obtain c1 where
      c1: "RootCoordinator_run P E r = Ret True (r\<lparr>r_currentTime := m_currentTime c, r_coordinator := Some c1\<rparr>)"
        "loaded elems invar P (r\<lparr>r_currentTime := m_currentTime c, r_coordinator := Some c1\<rparr>) c1" "advanced c c1"
        "devs_step (pf_dynamics P) (route c) (m_currentTime c) (model_states c) (model_states c1)"
        "next_date (model_states c1) (m_currentTime c1)" "dless (m_currentTime c) (m_currentTime c1)" by blast
    have "m_currentTime c \<noteq> dninf" using quiet_date(2) less.prems by (auto simp: loaded_def)
    from less.hyps [OF dates_left_less [OF c1(6) this] c1(2)] obtain r' c' where
      "simulation_loop P E (r\<lparr>r_currentTime := m_currentTime c, r_coordinator := Some c1\<rparr>) = Some (Ret () r')" "loaded elems invar P r' c'"
      "m_simulators c' = m_simulators c" "dom (k_sims (m_eventTable c')) = dom (k_sims (m_eventTable c))"
      "m_currentTime c' = infinity \<or> dless (r_end r) (m_currentTime c')"
      "devs_run (pf_dynamics P) (route c) (r_end r) (model_states c1) (m_currentTime c1) (model_states c') (m_currentTime c')"
      using c1(3) unfolding route_advanced [OF c1(3)] advanced_def by auto
    with c1 devs_next [OF t c1(4,5)] show ?thesis
      by (intro exI [of _ r'] exI [of _ c']) (simp add: simulation_loop.simps [of P E r])
  qed
qed

end

section \<open>Properties\<close>

text \<open>
  C2. The whole simulation. From a state in which the invariant of the coordinator holds, with models whose time
  advances move the date forward, the loop \<^verbatim>\<open>while (root.run())\<close> ends without an exception: it stops
  exactly when the date is infinite or past the end of the experiment, and the states and dates of the models at the end
  are those of a run of the abstract DEVS simulator that takes a step at every date up to the end.
\<close>

theorem simulation_refines:
  assumes "event_heap (pf_heap P) elems top_handle invar" "loaded elems invar P r c"
  shows "\<exists>r' c'. simulation_loop P E r = Some (Ret () r') \<and> r_coordinator r' = Some c' \<and> quiet elems invar P c'
    \<and> (m_currentTime c' = infinity \<or> dless (r_end r) (m_currentTime c'))
    \<and> devs_run (pf_dynamics P) (route c) (r_end r) (model_states c) (m_currentTime c) (model_states c') (m_currentTime c')"
  using event_heap.simulation_runs [OF assms(1) refl assms(2), of E] by (auto simp: loaded_def)


text \<open>Two clocks, which wait one unit of time after every transition, on the sample graph up to date 3.\<close>

definition clock_platform :: "(list_heap, nat, int, unit) platform" where
  "clock_platform = sample_platform\<lparr>pf_dynamics := (\<lambda>_. counter_ops\<lparr>dyn_timeAdvance := retS (dfin 1)\<rparr>)\<rparr>"

definition sample_root :: "(list_heap, nat, int, unit) root_coordinator" where
  "sample_root = \<lparr>r_begin = dfin 0, r_currentTime = dfin 0, r_end = dfin 3, r_coordinator = Some sample_running\<rparr>"

lemma clock_moves: "moves (dfin 0) (dfin 3) (counter_ops\<lparr>dyn_timeAdvance := retS (dfin 1)\<rparr>)"
proof -
  have "dless t (dadd (dfin 1) t)" if t: "dle (dfin 0) t" "\<not> isInfinity t" "\<not> dless (dfin 3) t" for t
  proof -
    obtain k where k: "t = dfin k" "fp_round k = Fin k" using t by (cases t rule: double_cases) (auto simp: isInfinity_iff double_simps)
    then have "0 \<le> k" "k \<le> 3" using t by (auto simp: double_simps fp_round_small)
    then show ?thesis using k(1) by (simp add: dadd_dfin double_simps fp_round_small)
  qed
  then show ?thesis by (simp add: moves_def wp_simps)
qed

lemma clock_quiet: "quiet map_of list_heap_ok clock_platform sample_running"
  unfolding clock_platform_def
proof (rule sample_running_quiet)
  have "dle (dfin 0) (dfin 1)" by (rule dfin_nonneg) simp
  then show "well_behaved (counter_ops\<lparr>dyn_timeAdvance := retS (dfin 1)\<rparr>)"
    using counter_well_behaved by (simp add: well_behaved_def gives_duration_def wp_retS)
  show "serves sample a (counter_ops\<lparr>dyn_timeAdvance := retS (dfin 1)\<rparr>)" if "has_port sample Out a ''o''" for a
    using counter_serves [OF that] by (simp add: serves_def)
qed

theorem simulation_refines_witness:
  "\<exists>r' c'. simulation_loop clock_platform no_executives sample_root = Some (Ret () r') \<and> r_coordinator r' = Some c'
    \<and> (m_currentTime c' = infinity \<or> dless (dfin 3) (m_currentTime c'))
    \<and> devs_run (pf_dynamics clock_platform) (route sample_running) (dfin 3) (model_states sample_running) (dfin 0) (model_states c') (m_currentTime c')"
proof -
  have H: "event_heap (pf_heap clock_platform) map_of (\<lambda>q. fst (min_entry q)) list_heap_ok"
    using list_heap.event_heap_axioms by (simp add: clock_platform_def sample_platform_def)
  have l: "loaded map_of list_heap_ok clock_platform sample_root sample_running"
    using clock_quiet clock_moves
    by (simp add: loaded_def sample_root_def sample_running_fields clock_platform_def double_simps)
  from simulation_refines [OF H l, of no_executives] show ?thesis
    by (auto simp: sample_root_def sample_running_fields)
qed

end
