(* ===== verification/Experiment_Data.thy ===== *)
theory Experiment_Data
  imports Effects Std_Maps Value_Containers
begin

unbundle bit_operations_syntax

text \<open>
  The description of an experiment in \<^verbatim>\<open>vle/vpz\<close>: conditions, outputs, views, observables and dynamics, and
  the \<^verbatim>\<open>Experiment\<close> that holds them. Containers are maps from names to objects that carry their own name.
  An operation that changes a container and may throw is a procedure on it, so that what was done
  before the exception is kept. \<^verbatim>\<open>std::unordered_map\<close> is an association list without repeated keys whose
  order means nothing.
\<close>

section \<open>Conditions\<close>

definition umap_insert :: "'k \<Rightarrow> 'v \<Rightarrow> ('k \<times> 'v) list \<Rightarrow> ('k \<times> 'v) list" where
  "umap_insert k v m = (case map_of m k of None \<Rightarrow> (k, v) # m | Some _ \<Rightarrow> m)"

lemma map_of_umap_insert: "map_of (umap_insert k v m) = (case map_of m k of None \<Rightarrow> (map_of m)(k \<mapsto> v) | Some _ \<Rightarrow> map_of m)"
  by (simp add: umap_insert_def split: option.split)

text \<open>
  The constructors of \<^verbatim>\<open>Condition\<close> and \<^verbatim>\<open>Observable\<close> leave \<^verbatim>\<open>m_ispermanent\<close> without a value: \<open>None\<close> is a flag that
  was never written, and reading it is undefined behaviour.
\<close>

record condition =
  cnd_list :: "(string \<times> val option) list"
  cnd_name :: string
  cnd_last_port :: string
  cnd_permanent :: "bool option"

definition Condition_new :: "string \<Rightarrow> condition" where
  "Condition_new name = \<lparr>cnd_list = [], cnd_name = name, cnd_last_port = [], cnd_permanent = None\<rparr>"

text \<open>The copy constructor, which the assignment and every insertion into a container use.\<close>

definition Condition_copy :: "condition \<Rightarrow> condition result" where
  "Condition_copy c = bindE (mapE (\<lambda>e. bindE (clone_shared (snd e)) (\<lambda>v. Inr (fst e, v))) (cnd_list c)) (\<lambda>l. Inr (c\<lparr>cnd_list := l\<rparr>))"

definition Condition_portnames :: "condition \<Rightarrow> string list" where
  "Condition_portnames c = map fst (cnd_list c)"

definition Condition_exist :: "string \<Rightarrow> condition \<Rightarrow> bool" where
  "Condition_exist portname c \<longleftrightarrow> map_of (cnd_list c) portname \<noteq> None"

definition Condition_add :: "string \<Rightarrow> condition \<Rightarrow> condition" where
  "Condition_add portname c = c\<lparr>cnd_list := AList.update portname None (cnd_list c), cnd_last_port := portname\<rparr>"

definition Condition_del :: "string \<Rightarrow> condition \<Rightarrow> condition" where
  "Condition_del portname c = c\<lparr>cnd_list := smap_erase portname (cnd_list c)\<rparr>"

definition setValueToPort :: "string \<Rightarrow> val option \<Rightarrow> condition \<Rightarrow> condition" where
  "setValueToPort portname v c = c\<lparr>cnd_list := AList.update portname v (cnd_list c), cnd_last_port := portname\<rparr>"

definition clearValueOfPort :: "string \<Rightarrow> condition \<Rightarrow> condition result" where
  "clearValueOfPort portname c = (case map_of (cnd_list c) portname of
     None \<Rightarrow> Inl (ArgError ''Condition have no port'')
   | Some _ \<Rightarrow> Inr (c\<lparr>cnd_list := AList.update portname None (cnd_list c)\<rparr>))"

definition valueOfPort :: "string \<Rightarrow> condition \<Rightarrow> val option result" where
  "valueOfPort portname c = (case map_of (cnd_list c) portname of
     None \<Rightarrow> Inl (ArgError ''Condition have no port'') | Some v \<Rightarrow> Inr v)"

definition lastAddedPort :: "condition \<Rightarrow> val option result" where
  "lastAddedPort c = valueOfPort (cnd_last_port c) c"

definition Condition_setName :: "string \<Rightarrow> condition \<Rightarrow> condition" where
  "Condition_setName new_name c = c\<lparr>cnd_name := new_name\<rparr>"

type_synonym conditions = "(string \<times> condition) list"
type_synonym 'a conditions_proc = "(conditions, 'a) proc"

definition defaultSimulationEngineCondName :: string where
  "defaultSimulationEngineCondName = ''simulation_engine''"

text \<open>\<^verbatim>\<open>conditionnames\<close> and \<^verbatim>\<open>getKeys\<close>.\<close>

definition conditionnames :: "conditions \<Rightarrow> string list" where
  "conditionnames cs = map fst cs"

definition Conditions_getKeys :: "conditions \<Rightarrow> string set" where
  "Conditions_getKeys cs = set (map fst cs)"

definition Conditions_exist :: "string \<Rightarrow> conditions \<Rightarrow> bool" where
  "Conditions_exist name cs \<longleftrightarrow> map_of cs name \<noteq> None"

definition Conditions_get :: "string \<Rightarrow> conditions \<Rightarrow> condition result" where
  "Conditions_get name cs = (case map_of cs name of
     None \<Rightarrow> Inl (ArgError ''The condition does not exists'') | Some c \<Rightarrow> Inr c)"

definition Conditions_portnames :: "string \<Rightarrow> conditions \<Rightarrow> string list result" where
  "Conditions_portnames name cs = bindE (Conditions_get name cs) (\<lambda>c. Inr (Condition_portnames c))"

definition Conditions_del :: "string \<Rightarrow> unit conditions_proc" where
  "Conditions_del name = (if name \<noteq> defaultSimulationEngineCondName then updS (smap_erase name) else retS ())"

definition Conditions_add :: "condition \<Rightarrow> unit conditions_proc" where
  "Conditions_add c = thenS (Conditions_del (cnd_name c))
     (bindS (liftS (Condition_copy c)) (\<lambda>c'. updS (umap_insert (cnd_name c) c')))"

definition Conditions_add_all :: "conditions \<Rightarrow> unit conditions_proc" where
  "Conditions_add_all cdts = forS (\<lambda>e. Conditions_add (snd e)) cdts"

definition Conditions_rename :: "string \<Rightarrow> string \<Rightarrow> unit conditions_proc" where
  "Conditions_rename oldname newname =
     (if oldname \<noteq> defaultSimulationEngineCondName \<and> newname \<noteq> defaultSimulationEngineCondName then
        bindS getS (\<lambda>cs. bindS (liftS (bindE (Conditions_get oldname cs) Condition_copy)) (\<lambda>c.
        thenS (Conditions_add (Condition_setName newname c)) (Conditions_del oldname)))
      else retS ())"

definition Conditions_copy :: "string \<Rightarrow> string \<Rightarrow> unit conditions_proc" where
  "Conditions_copy name copyname =
     bindS getS (\<lambda>cs. bindS (liftS (bindE (Conditions_get name cs) Condition_copy)) (\<lambda>c.
     Conditions_add (Condition_setName copyname c)))"

text \<open>
  The default condition. The two ports are written through the reference that \<^verbatim>\<open>add\<close> returned; the number
  100.0 is written in units of the smallest subnormal.
\<close>

definition default_condition :: condition where
  "default_condition = setValueToPort ''duration'' (Some (VDouble (dfin (100 * 2 ^ 1074))))
     (setValueToPort ''begin'' (Some (VDouble (dfin 0))) (Condition_new defaultSimulationEngineCondName))"

definition Conditions_new :: conditions where
  "Conditions_new = [(defaultSimulationEngineCondName, default_condition)]"

definition Conditions_clear :: "unit conditions_proc" where
  "Conditions_clear = updS (\<lambda>cs. if cs = [] then Conditions_new else filter (\<lambda>e. fst e = defaultSimulationEngineCondName) cs)"

text \<open>
  The loop of \<^verbatim>\<open>cleanNoPermanent\<close> erases the entries whose flag is set, whatever its name says. Every
  flag is read.
\<close>

definition read_flag :: "bool option \<Rightarrow> bool result" where
  "read_flag f = (case f of None \<Rightarrow> Inl (UndefinedBehaviour ''uninitialised flag'') | Some b \<Rightarrow> Inr b)"

fun clean_permanent :: "('v \<Rightarrow> bool option) \<Rightarrow> (string \<times> 'v) list \<Rightarrow> (string \<times> 'v) list result" where
  "clean_permanent perm [] = Inr []"
| "clean_permanent perm (e # es) = bindE (read_flag (perm (snd e))) (\<lambda>b.
     bindE (clean_permanent perm es) (\<lambda>es'. Inr (if b then es' else e # es')))"

definition Conditions_cleanNoPermanent :: "conditions \<Rightarrow> conditions result" where
  "Conditions_cleanNoPermanent = clean_permanent cnd_permanent"

section \<open>Outputs\<close>

record vpz_output =
  outp_name :: string
  outp_plugin :: string
  outp_location :: string
  outp_package :: string
  outp_data :: "val option"

definition Output_new :: vpz_output where
  "Output_new = \<lparr>outp_name = [], outp_plugin = [], outp_location = [], outp_package = [], outp_data = None\<rparr>"

definition Output_copy :: "vpz_output \<Rightarrow> vpz_output result" where
  "Output_copy x = bindE (clone_ptr clone (outp_data x)) (\<lambda>d. Inr (x\<lparr>outp_data := d\<rparr>))"

definition setStream :: "string \<Rightarrow> string \<Rightarrow> string \<Rightarrow> vpz_output \<Rightarrow> vpz_output result" where
  "setStream location plugin package x =
     (if plugin = [] then Inl (ArgError ''Output have not plugin defined'')
      else Inr (x\<lparr>outp_location := location, outp_plugin := plugin, outp_package := package, outp_data := None\<rparr>))"

definition setStreamLocation :: "string \<Rightarrow> vpz_output \<Rightarrow> vpz_output" where
  "setStreamLocation location x = x\<lparr>outp_location := location\<rparr>"

definition Output_setData :: "val option \<Rightarrow> vpz_output \<Rightarrow> vpz_output" where
  "Output_setData v x = x\<lparr>outp_data := v\<rparr>"

definition Output_clearData :: "vpz_output \<Rightarrow> vpz_output" where
  "Output_clearData x = x\<lparr>outp_data := None\<rparr>"

type_synonym outputs = "(string \<times> vpz_output) list"
type_synonym 'a outputs_proc = "(outputs, 'a) proc"

definition Outputs_exist :: "string \<Rightarrow> outputs \<Rightarrow> bool" where
  "Outputs_exist name xs \<longleftrightarrow> map_of xs name \<noteq> None"

definition Outputs_get :: "string \<Rightarrow> outputs \<Rightarrow> vpz_output result" where
  "Outputs_get name xs = (case map_of xs name of None \<Rightarrow> Inl (ArgError ''Unknow output'') | Some x \<Rightarrow> Inr x)"

definition Outputs_add :: "vpz_output \<Rightarrow> unit outputs_proc" where
  "Outputs_add x = bindS (liftS (Output_copy x)) (\<lambda>x'. bindS getS (\<lambda>xs.
     if Outputs_exist (outp_name x) xs then throwS (ArgError ''An output have already this name'')
     else updS (smap_insert (outp_name x) x')))"

definition Outputs_add_all :: "outputs \<Rightarrow> unit outputs_proc" where
  "Outputs_add_all xs = forS (\<lambda>e. Outputs_add (snd e)) xs"

definition addStream :: "string \<Rightarrow> string \<Rightarrow> string \<Rightarrow> string \<Rightarrow> unit outputs_proc" where
  "addStream name location plugin package =
     bindS (liftS (setStream location plugin package (Output_new\<lparr>outp_name := name\<rparr>))) Outputs_add"

text \<open>The version without a package.\<close>

definition addStream_local :: "string \<Rightarrow> string \<Rightarrow> string \<Rightarrow> unit outputs_proc" where
  "addStream_local name location plugin = addStream name location plugin []"

definition Outputs_del :: "string \<Rightarrow> unit outputs_proc" where
  "Outputs_del name = updS (smap_erase name)"

definition Outputs_rename :: "string \<Rightarrow> string \<Rightarrow> unit outputs_proc" where
  "Outputs_rename oldname newname =
     bindS getS (\<lambda>xs. bindS (liftS (bindE (Outputs_get oldname xs) Output_copy)) (\<lambda>copy.
     thenS (Outputs_del oldname)
       (addStream newname (outp_location copy) (outp_plugin copy) (outp_package copy))))"

definition Outputs_depends :: "outputs \<Rightarrow> string set" where
  "Outputs_depends xs = {p \<in> (outp_package \<circ> snd) ` set xs. p \<noteq> []}"

definition outputsname :: "outputs \<Rightarrow> string list" where
  "outputsname xs = map fst xs"

section \<open>Observables\<close>

record observable_port =
  obp_list :: "string list"
  obp_name :: string

definition ObservablePort_exist :: "string \<Rightarrow> observable_port \<Rightarrow> bool" where
  "ObservablePort_exist view p \<longleftrightarrow> view \<in> set (obp_list p)"

definition ObservablePort_add :: "string \<Rightarrow> observable_port \<Rightarrow> observable_port result" where
  "ObservablePort_add view p =
     (if ObservablePort_exist view p then Inl (ArgError ''The port have already a view'')
      else Inr (p\<lparr>obp_list := obp_list p @ [view]\<rparr>))"

definition ObservablePort_del :: "string \<Rightarrow> observable_port \<Rightarrow> observable_port" where
  "ObservablePort_del view p = p\<lparr>obp_list := removeAll view (obp_list p)\<rparr>"

record observable =
  obl_list :: "(string \<times> observable_port) list"
  obl_name :: string
  obl_permanent :: "bool option"

definition Observable_new :: "string \<Rightarrow> observable" where
  "Observable_new name = \<lparr>obl_list = [], obl_name = name, obl_permanent = None\<rparr>"

definition Observable_add :: "observable_port \<Rightarrow> observable \<Rightarrow> observable result" where
  "Observable_add p ob = (case map_of (obl_list ob) (obp_name p) of
     Some _ \<Rightarrow> Inl (ArgError ''The observable have already a port'')
   | None \<Rightarrow> Inr (ob\<lparr>obl_list := smap_insert (obp_name p) p (obl_list ob)\<rparr>))"

definition Observable_add_name :: "string \<Rightarrow> observable \<Rightarrow> observable result" where
  "Observable_add_name portname = Observable_add \<lparr>obp_list = [], obp_name = portname\<rparr>"

definition Observable_get :: "string \<Rightarrow> observable \<Rightarrow> observable_port result" where
  "Observable_get portname ob = (case map_of (obl_list ob) portname of
     None \<Rightarrow> Inl (ArgError ''The observable have not port'') | Some p \<Rightarrow> Inr p)"

definition Observable_del :: "string \<Rightarrow> observable \<Rightarrow> observable" where
  "Observable_del portname ob = ob\<lparr>obl_list := smap_erase portname (obl_list ob)\<rparr>"

definition Observable_exist :: "string \<Rightarrow> observable \<Rightarrow> bool" where
  "Observable_exist portname ob \<longleftrightarrow> map_of (obl_list ob) portname \<noteq> None"

definition hasView :: "string \<Rightarrow> observable \<Rightarrow> bool" where
  "hasView view ob \<longleftrightarrow> (\<exists>e \<in> set (obl_list ob). ObservablePort_exist view (snd e))"

definition getPortname :: "string \<Rightarrow> observable \<Rightarrow> string list" where
  "getPortname view ob = map fst (filter (\<lambda>e. ObservablePort_exist view (snd e)) (obl_list ob))"

type_synonym observables = "(string \<times> observable) list"
type_synonym 'a observables_proc = "(observables, 'a) proc"

definition Observables_getKeys :: "observables \<Rightarrow> string set" where
  "Observables_getKeys obs = set (map fst obs)"

definition Observables_exist :: "string \<Rightarrow> observables \<Rightarrow> bool" where
  "Observables_exist name obs \<longleftrightarrow> map_of obs name \<noteq> None"

definition Observables_get :: "string \<Rightarrow> observables \<Rightarrow> observable result" where
  "Observables_get name obs = (case map_of obs name of
     None \<Rightarrow> Inl (ArgError ''Observable does not exist'') | Some ob \<Rightarrow> Inr ob)"

definition Observables_add :: "observable \<Rightarrow> unit observables_proc" where
  "Observables_add ob = bindS getS (\<lambda>obs.
     if Observables_exist (obl_name ob) obs then throwS (ArgError ''Observable already exist'')
     else updS (smap_insert (obl_name ob) ob))"

definition Observables_add_all :: "observables \<Rightarrow> unit observables_proc" where
  "Observables_add_all obs = forS (\<lambda>e. Observables_add (snd e)) obs"

definition Observables_del :: "string \<Rightarrow> unit observables_proc" where
  "Observables_del name = updS (smap_erase name)"

definition Observables_rename :: "string \<Rightarrow> string \<Rightarrow> unit observables_proc" where
  "Observables_rename old_name new_name = bindS getS (\<lambda>obs.
     bindS (liftS (bindE (Observables_get old_name obs) (\<lambda>ob.
       foldE (\<lambda>e. Observable_add (snd e)) (obl_list ob) (Observable_new new_name)))) (\<lambda>new_ob.
     thenS (Observables_del old_name) (Observables_add new_ob)))"

definition Observables_cleanNoPermanent :: "observables \<Rightarrow> observables result" where
  "Observables_cleanNoPermanent = clean_permanent obl_permanent"

text \<open>
  \<^verbatim>\<open>updateView\<close>: the new name is added after the old one was removed, and \<^verbatim>\<open>add\<close> throws when the port has
  it already. The entries before the one that throws are written.
\<close>

definition replace_view :: "string \<Rightarrow> string \<Rightarrow> observable_port \<Rightarrow> observable_port result" where
  "replace_view oldname newname p =
     (if ObservablePort_exist oldname p then ObservablePort_add newname (ObservablePort_del oldname p) else Inr p)"

fun update_ports :: "string \<Rightarrow> string \<Rightarrow> (string \<times> observable_port) list \<Rightarrow> (vle_error option \<times> (string \<times> observable_port) list)" where
  "update_ports oldname newname [] = (None, [])"
| "update_ports oldname newname (e # es) = (case replace_view oldname newname (snd e) of
     Inl err \<Rightarrow> (Some err, (fst e, ObservablePort_del oldname (snd e)) # es)
   | Inr p \<Rightarrow> (case update_ports oldname newname es of (r, es') \<Rightarrow> (r, (fst e, p) # es')))"

fun update_observables :: "string \<Rightarrow> string \<Rightarrow> observables \<Rightarrow> (vle_error option \<times> observables)" where
  "update_observables oldname newname [] = (None, [])"
| "update_observables oldname newname (e # es) =
     (if hasView oldname (snd e) then
        (case update_ports oldname newname (obl_list (snd e)) of
           (Some err, l) \<Rightarrow> (Some err, (fst e, (snd e)\<lparr>obl_list := l\<rparr>) # es)
         | (None, l) \<Rightarrow> (case update_observables oldname newname es of (r, es') \<Rightarrow> (r, (fst e, (snd e)\<lparr>obl_list := l\<rparr>) # es')))
      else (case update_observables oldname newname es of (r, es') \<Rightarrow> (r, e # es')))"

definition updateView :: "string \<Rightarrow> string \<Rightarrow> unit observables_proc" where
  "updateView oldname newname obs = (case update_observables oldname newname obs of
     (None, obs') \<Rightarrow> Ret () obs' | (Some err, obs') \<Rightarrow> Exn err obs')"

section \<open>Views\<close>

type_synonym view_type = "32 word"

text \<open>The enumeration \<^verbatim>\<open>View::Type\<close>.\<close>

definition NOTHING :: view_type where "NOTHING = 0"
definition TIMED :: view_type where "TIMED = 2"
definition OUTPUT :: view_type where "OUTPUT = 4"
definition INTERNAL :: view_type where "INTERNAL = 8"
definition EXTERNAL :: view_type where "EXTERNAL = 16"
definition CONFLUENT :: view_type where "CONFLUENT = 32"
definition FINISH :: view_type where "FINISH = 64"

lemmas view_type_defs = NOTHING_def TIMED_def OUTPUT_def INTERNAL_def EXTERNAL_def CONFLUENT_def FINISH_def

definition has_type :: "view_type \<Rightarrow> view_type \<Rightarrow> bool" where
  "has_type t flag \<longleftrightarrow> t AND flag \<noteq> 0"

record vpz_view =
  vw_timestep :: double
  vw_name :: string
  vw_output :: string
  vw_data :: string
  vw_enabled :: bool
  vw_type :: view_type

definition View_new :: "string \<Rightarrow> view_type \<Rightarrow> string \<Rightarrow> double \<Rightarrow> bool \<Rightarrow> vpz_view result" where
  "View_new name type outp timestep enable =
     (if type = TIMED \<and> dle timestep (dfin 0) then Inl (ArgError ''Cannont define the View with a timestep'')
      else Inr \<lparr>vw_timestep = timestep, vw_name = name, vw_output = outp, vw_data = [], vw_enabled = enable, vw_type = type\<rparr>)"

definition View_new_name :: "string \<Rightarrow> vpz_view" where
  "View_new_name name = \<lparr>vw_timestep = dfin 0, vw_name = name, vw_output = [], vw_data = [], vw_enabled = True,
     vw_type = INTERNAL OR EXTERNAL OR CONFLUENT\<rparr>"

definition setTimestep :: "double \<Rightarrow> vpz_view \<Rightarrow> vpz_view result" where
  "setTimestep time v = (if vw_type v = TIMED \<and> dle time (dfin 0) then Inl (ArgError ''Bad time step for view'') else Inr (v\<lparr>vw_timestep := time\<rparr>))"

text \<open>A flag is appended after a comma, unless nothing was written yet.\<close>

definition append_type :: "view_type \<Rightarrow> view_type \<Rightarrow> string \<Rightarrow> string \<Rightarrow> string" where
  "append_type t flag name ret = (if has_type t flag then (if ret = [] then name else ret @ '','' @ name) else ret)"

definition streamtype :: "vpz_view \<Rightarrow> string" where
  "streamtype v = (let t = vw_type v in if t = TIMED then ''timed''
     else append_type t FINISH ''finish'' (append_type t CONFLUENT ''confluent'' (append_type t EXTERNAL ''external''
       (append_type t INTERNAL ''internal'' (append_type t OUTPUT ''output'' [])))))"

record views =
  vws_list :: "(string \<times> vpz_view) list"
  vws_outputs :: outputs
  vws_observables :: observables

type_synonym 'a views_proc = "(views, 'a) proc"

definition Views_new :: views where
  "Views_new = \<lparr>vws_list = [], vws_outputs = [], vws_observables = []\<rparr>"

text \<open>A procedure on one of the containers.\<close>

definition on_outputs :: "'a outputs_proc \<Rightarrow> 'a views_proc" where
  "on_outputs m v = (case m (vws_outputs v) of Ret x xs \<Rightarrow> Ret x (v\<lparr>vws_outputs := xs\<rparr>) | Exn e xs \<Rightarrow> Exn e (v\<lparr>vws_outputs := xs\<rparr>))"

definition on_observables :: "'a observables_proc \<Rightarrow> 'a views_proc" where
  "on_observables m v = (case m (vws_observables v) of
     Ret x xs \<Rightarrow> Ret x (v\<lparr>vws_observables := xs\<rparr>) | Exn e xs \<Rightarrow> Exn e (v\<lparr>vws_observables := xs\<rparr>))"

definition Views_exist :: "string \<Rightarrow> views \<Rightarrow> bool" where
  "Views_exist name v \<longleftrightarrow> map_of (vws_list v) name \<noteq> None"

definition Views_get :: "string \<Rightarrow> views \<Rightarrow> vpz_view result" where
  "Views_get name v = (case map_of (vws_list v) name of None \<Rightarrow> Inl (ArgError ''Unknow view'') | Some x \<Rightarrow> Inr x)"

definition Views_add :: "vpz_view \<Rightarrow> unit views_proc" where
  "Views_add x = bindS getS (\<lambda>v. if Views_exist (vw_name x) v then throwS (ArgError ''View already exist'')
     else updS (vws_list_update (smap_insert (vw_name x) x)))"

definition Views_add_all :: "views \<Rightarrow> unit views_proc" where
  "Views_add_all w = thenS (forS (\<lambda>e. Views_add (snd e)) (vws_list w))
    (thenS (on_outputs (Outputs_add_all (vws_outputs w))) (on_observables (Observables_add_all (vws_observables w))))"

definition Views_del :: "string \<Rightarrow> unit views_proc" where
  "Views_del name = updS (vws_list_update (smap_erase name))"

definition Views_clear :: "unit views_proc" where
  "Views_clear = updS (\<lambda>_. Views_new)"

definition isUsedOutput :: "string \<Rightarrow> views \<Rightarrow> bool" where
  "isUsedOutput name v \<longleftrightarrow> (\<exists>e \<in> set (vws_list v). vw_output (snd e) = name)"

definition add_view :: "string \<Rightarrow> view_type \<Rightarrow> string \<Rightarrow> double \<Rightarrow> bool \<Rightarrow> unit views_proc" where
  "add_view name type outp timestep enable = bindS getS (\<lambda>v.
     if isUsedOutput outp v then throwS (ArgError ''Output of view is already used'')
     else bindS (liftS (View_new name type outp timestep enable)) Views_add)"

definition addEventView :: "string \<Rightarrow> view_type \<Rightarrow> string \<Rightarrow> bool \<Rightarrow> unit views_proc" where
  "addEventView name type outp enable = add_view name type outp (dfin 0) enable"

definition addTimedView :: "string \<Rightarrow> double \<Rightarrow> string \<Rightarrow> bool \<Rightarrow> unit views_proc" where
  "addTimedView name timestep outp enable = add_view name TIMED outp timestep enable"

text \<open>The two branches that \<^verbatim>\<open>renameOutput\<close>, \<^verbatim>\<open>renameView\<close> and \<^verbatim>\<open>copyView\<close> share: the view is added again, enabled.\<close>

definition add_like :: "vpz_view \<Rightarrow> string \<Rightarrow> string \<Rightarrow> unit views_proc" where
  "add_like copy name outp =
     (if vw_type copy = TIMED then addTimedView name (vw_timestep copy) outp True else addEventView name (vw_type copy) outp True)"

text \<open>
  \<^verbatim>\<open>renameOutput\<close> erases the entry the iterator stands on, restores the iterator to it and goes on from
  there: after the first match the loop increments an iterator to an erased entry.
\<close>

definition renameOutput :: "string \<Rightarrow> string \<Rightarrow> unit views_proc" where
  "renameOutput oldname newname = bindS getS (\<lambda>v.
     case find (\<lambda>e. vw_output (snd e) = oldname) (vws_list v) of
       None \<Rightarrow> retS ()
     | Some e \<Rightarrow> bindS (liftS (Views_get (fst e) v)) (\<lambda>copy.
         thenS (Views_del (fst e)) (thenS (add_like copy (vw_name copy) newname)
           (throwS (UndefinedBehaviour ''erased iterator'')))))"

definition renameView :: "string \<Rightarrow> string \<Rightarrow> unit views_proc" where
  "renameView oldname newname = bindS getS (\<lambda>v. bindS (liftS (Views_get oldname v)) (\<lambda>copy.
     thenS (on_outputs (Outputs_rename oldname newname))
    (thenS (Views_del oldname) (add_like copy newname newname))))"

definition copyOutput :: "string \<Rightarrow> string \<Rightarrow> unit views_proc" where
  "copyOutput outputname copyname = bindS getS (\<lambda>v. bindS (liftS (Outputs_get outputname (vws_outputs v))) (\<lambda>x.
     thenS (on_outputs (addStream copyname (outp_location x) (outp_plugin x) (outp_package x)))
       (if outp_data x \<noteq> None then
          bindS (liftS (clone_ptr clone (outp_data x))) (\<lambda>d. on_outputs (updS (\<lambda>xs. case map_of xs copyname of
            None \<Rightarrow> xs | Some no \<Rightarrow> smap_update copyname (Output_setData d no) xs)))
        else retS ())))"

text \<open>The loop of \<^verbatim>\<open>copyView\<close> counts up until a name of an output is free.\<close>

definition output_name :: "string \<Rightarrow> nat \<Rightarrow> string" where
  "output_name base number = base @ ''_'' @ show_nat number"

function copy_output_name :: "outputs \<Rightarrow> string \<Rightarrow> nat \<Rightarrow> string" where
  "copy_output_name xs base number =
     (if Outputs_exist (output_name base number) xs then copy_output_name xs base (Suc number) else output_name base number)"
  by pat_completeness auto
termination
  by (relation "measure (\<lambda>(xs, base, number). card {i. number \<le> i \<and> output_name base i \<in> dom (map_of xs)})")
    (auto simp: Outputs_exist_def inj_def output_name_def intro!: fresh_name_measure finite_dom_map_of)

declare copy_output_name.simps [simp del]

definition copyView :: "string \<Rightarrow> string \<Rightarrow> unit views_proc" where
  "copyView viewname copyname = bindS getS (\<lambda>v. bindS (liftS (Views_get viewname v)) (\<lambda>x.
     let outp = copy_output_name (vws_outputs v) (vw_output x) 1 in
     thenS (copyOutput (vw_output x) outp) (add_like x copyname outp)))"

section \<open>Dynamics\<close>

record dynamic =
  dnm_name :: string
  dnm_package :: string
  dnm_library :: string
  dnm_language :: string
  dnm_permanent :: bool

definition Dynamic_new :: "string \<Rightarrow> string \<Rightarrow> string \<Rightarrow> string \<Rightarrow> dynamic" where
  "Dynamic_new name package library language =
     \<lparr>dnm_name = name, dnm_package = package, dnm_library = library, dnm_language = language, dnm_permanent = True\<rparr>"

text \<open>The comparison leaves the package out.\<close>

definition Dynamic_equal :: "dynamic \<Rightarrow> dynamic \<Rightarrow> bool" where
  "Dynamic_equal x y \<longleftrightarrow> dnm_name x = dnm_name y \<and> dnm_library x = dnm_library y \<and> dnm_language x = dnm_language y
     \<and> dnm_permanent x = dnm_permanent y"

type_synonym dynamics = "(string \<times> dynamic) list"
type_synonym 'a dynamics_proc = "(dynamics, 'a) proc"

definition Dynamics_getKeys :: "dynamics \<Rightarrow> string set" where
  "Dynamics_getKeys ds = set (map fst ds)"

definition Dynamics_exist :: "string \<Rightarrow> dynamics \<Rightarrow> bool" where
  "Dynamics_exist name ds \<longleftrightarrow> map_of ds name \<noteq> None"

definition Dynamics_get :: "string \<Rightarrow> dynamics \<Rightarrow> dynamic result" where
  "Dynamics_get name ds = (case map_of ds name of None \<Rightarrow> Inl (ArgError ''The dynamics does not exist'') | Some d \<Rightarrow> Inr d)"

definition Dynamics_add :: "dynamic \<Rightarrow> unit dynamics_proc" where
  "Dynamics_add d = bindS getS (\<lambda>ds.
     if Dynamics_exist (dnm_name d) ds then throwS (ArgError ''The dynamics already exists'')
     else updS (smap_insert (dnm_name d) d))"

definition Dynamics_add_all :: "dynamics \<Rightarrow> unit dynamics_proc" where
  "Dynamics_add_all ds = forS (\<lambda>e. Dynamics_add (snd e)) ds"

definition Dynamics_del :: "string \<Rightarrow> unit dynamics_proc" where
  "Dynamics_del name = updS (smap_erase name)"

definition Dynamics_cleanNoPermanent :: "dynamics \<Rightarrow> dynamics result" where
  "Dynamics_cleanNoPermanent = clean_permanent (\<lambda>d. Some (dnm_permanent d))"

definition Dynamics_copy :: "string \<Rightarrow> string \<Rightarrow> unit dynamics_proc" where
  "Dynamics_copy sourcename targetname =
     bindS getS (\<lambda>ds. bindS (liftS (Dynamics_get sourcename ds)) (\<lambda>d. Dynamics_add (d\<lparr>dnm_name := targetname\<rparr>)))"

definition Dynamics_rename :: "string \<Rightarrow> string \<Rightarrow> unit dynamics_proc" where
  "Dynamics_rename oldname newname = thenS (Dynamics_copy oldname newname) (Dynamics_del oldname)"

definition Dynamics_depends :: "dynamics \<Rightarrow> string set" where
  "Dynamics_depends ds = {p \<in> (dnm_package \<circ> snd) ` set ds. p \<noteq> []}"

section \<open>The experiment\<close>

record vpz_experiment =
  exp_name :: string
  exp_combination :: string
  exp_conditions :: conditions
  exp_views :: views

type_synonym 'a exp_proc = "(vpz_experiment, 'a) proc"

definition on_conditions :: "'a conditions_proc \<Rightarrow> 'a exp_proc" where
  "on_conditions m e = (case m (exp_conditions e) of
     Ret x cs \<Rightarrow> Ret x (e\<lparr>exp_conditions := cs\<rparr>) | Exn err cs \<Rightarrow> Exn err (e\<lparr>exp_conditions := cs\<rparr>))"

definition on_views :: "'a views_proc \<Rightarrow> 'a exp_proc" where
  "on_views m e = (case m (exp_views e) of Ret x v \<Rightarrow> Ret x (e\<lparr>exp_views := v\<rparr>) | Exn err v \<Rightarrow> Exn err (e\<lparr>exp_views := v\<rparr>))"

text \<open>The constructor adds a default condition to the one \<^verbatim>\<open>Conditions\<close> has: the second is ignored.\<close>

definition Experiment_new :: vpz_experiment where
  "Experiment_new = \<lparr>exp_name = [], exp_combination = [], exp_conditions = umap_insert defaultSimulationEngineCondName default_condition Conditions_new,
     exp_views = Views_new\<rparr>"

definition Experiment_clear :: "unit exp_proc" where
  "Experiment_clear = thenS (updS (exp_name_update (\<lambda>_. []))) (thenS (on_conditions Conditions_clear) (on_views Views_clear))"

definition addConditions :: "conditions \<Rightarrow> unit exp_proc" where
  "addConditions cs = on_conditions (Conditions_add_all cs)"

definition addViews :: "views \<Rightarrow> unit exp_proc" where
  "addViews v = on_views (Views_add_all v)"

definition Experiment_setName :: "string \<Rightarrow> unit exp_proc" where
  "Experiment_setName name = (if name = [] then throwS (ArgError ''Empty experiment name'') else updS (exp_name_update (\<lambda>_. name)))"

definition setCombination :: "string \<Rightarrow> unit exp_proc" where
  "setCombination name = (if name \<noteq> ''linear'' \<and> name \<noteq> ''total'' then throwS (ArgError ''Unknow combination'')
     else updS (exp_combination_update (\<lambda>_. name)))"

text \<open>The condition of the simulation engine, and writing and reading one of its ports.\<close>

definition engine_condition :: "vpz_experiment \<Rightarrow> condition result" where
  "engine_condition e = (if \<not> Conditions_exist defaultSimulationEngineCondName (exp_conditions e) then
     Inl (ArgError ''The simulation engine condition does not exist'')
   else Conditions_get defaultSimulationEngineCondName (exp_conditions e))"

definition set_engine :: "string \<Rightarrow> double \<Rightarrow> unit exp_proc" where
  "set_engine port d = bindS getS (\<lambda>e. bindS (liftS (engine_condition e)) (\<lambda>c.
     on_conditions (updS (AList.update defaultSimulationEngineCondName (setValueToPort port (Some (VDouble d)) c)))))"

definition get_engine :: "string \<Rightarrow> vpz_experiment \<Rightarrow> double result" where
  "get_engine port e = bindE (engine_condition e) (\<lambda>c. bindE (valueOfPort port c) (\<lambda>v.
     case v of None \<Rightarrow> Inl (UndefinedBehaviour ''null value'') | Some w \<Rightarrow> toDouble w))"

definition setDuration :: "double \<Rightarrow> unit exp_proc" where
  "setDuration d = set_engine ''duration'' d"

definition duration :: "vpz_experiment \<Rightarrow> double result" where
  "duration e = get_engine ''duration'' e"

definition setBegin :: "double \<Rightarrow> unit exp_proc" where
  "setBegin b = set_engine ''begin'' b"

definition Experiment_begin :: "vpz_experiment \<Rightarrow> double result" where
  "Experiment_begin e = get_engine ''begin'' e"

definition Experiment_cleanNoPermanent :: "vpz_experiment \<Rightarrow> vpz_experiment result" where
  "Experiment_cleanNoPermanent e = bindE (Conditions_cleanNoPermanent (exp_conditions e)) (\<lambda>cs.
     bindE (Observables_cleanNoPermanent (vws_observables (exp_views e))) (\<lambda>obs.
       Inr (e\<lparr>exp_conditions := cs, exp_views := (exp_views e)\<lparr>vws_observables := obs\<rparr>\<rparr>)))"

section \<open>The dates of the experiment\<close>

text \<open>
  A write through the reference to a condition that \<^verbatim>\<open>Conditions::get\<close> returns.
\<close>

definition on_condition :: "string \<Rightarrow> (condition \<Rightarrow> condition result) \<Rightarrow> unit conditions_proc" where
  "on_condition name f = bindS getS (\<lambda>cs. bindS (liftS (Conditions_get name cs)) (\<lambda>c. bindS (liftS (f c)) (\<lambda>c'.
     updS (AList.update name c'))))"

text \<open>\<^verbatim>\<open>lastAddedPort() = v\<close>.\<close>

definition setLastAddedPort :: "val option \<Rightarrow> condition \<Rightarrow> condition result" where
  "setLastAddedPort v c = bindE (lastAddedPort c) (\<lambda>_. Inr (c\<lparr>cnd_list := AList.update (cnd_last_port c) v (cnd_list c)\<rparr>))"

text \<open>
  The member functions with which a client changes an experiment, one call at a time, those of its conditions through the
  reference to one of them included; a client that catches an exception goes on. A \<^verbatim>\<open>cleanNoPermanent\<close> that reads a flag nobody
  wrote is undefined behaviour, an error that leaves the experiment as it was. The raw containers that
  \<^verbatim>\<open>conditionlist()\<close> and \<^verbatim>\<open>conditionvalues()\<close> hand out are not written.
\<close>

datatype experiment_op =
    SetBegin double | SetDuration double | SetName string | SetCombination string
  | AddCondition condition | AddConditions conditions | DelCondition string | RenameCondition string string | CopyCondition string string
  | AddViews views | ClearExperiment | CleanNoPermanent
  | SetPort string string "val option" | AddPort string string | DelPort string string | ClearPort string string
  | SetLastPort string "val option" | SetConditionName string string | SetPermanent string bool | AssignCondition string condition

fun exec_op :: "experiment_op \<Rightarrow> unit exp_proc" where
  "exec_op (SetBegin b) = setBegin b"
| "exec_op (SetDuration d) = setDuration d"
| "exec_op (SetName n) = Experiment_setName n"
| "exec_op (SetCombination n) = setCombination n"
| "exec_op (AddCondition c) = on_conditions (Conditions_add c)"
| "exec_op (AddConditions cs) = addConditions cs"
| "exec_op (DelCondition n) = on_conditions (Conditions_del n)"
| "exec_op (RenameCondition a b) = on_conditions (Conditions_rename a b)"
| "exec_op (CopyCondition a b) = on_conditions (Conditions_copy a b)"
| "exec_op (AddViews v) = addViews v"
| "exec_op ClearExperiment = Experiment_clear"
| "exec_op CleanNoPermanent = bindS getS (\<lambda>e. bindS (liftS (Experiment_cleanNoPermanent e)) (\<lambda>e'. updS (\<lambda>_. e')))"
| "exec_op (SetPort n port v) = on_conditions (on_condition n (\<lambda>c. Inr (setValueToPort port v c)))"
| "exec_op (AddPort n port) = on_conditions (on_condition n (\<lambda>c. Inr (Condition_add port c)))"
| "exec_op (DelPort n port) = on_conditions (on_condition n (\<lambda>c. Inr (Condition_del port c)))"
| "exec_op (ClearPort n port) = on_conditions (on_condition n (clearValueOfPort port))"
| "exec_op (SetLastPort n v) = on_conditions (on_condition n (setLastAddedPort v))"
| "exec_op (SetConditionName n name) = on_conditions (on_condition n (\<lambda>c. Inr (Condition_setName name c)))"
| "exec_op (SetPermanent n b) = on_conditions (on_condition n (\<lambda>c. Inr (c\<lparr>cnd_permanent := Some b\<rparr>)))"
| "exec_op (AssignCondition n c) = on_conditions (on_condition n (\<lambda>_. Condition_copy c))"

definition exec_ops :: "experiment_op list \<Rightarrow> vpz_experiment \<Rightarrow> vpz_experiment" where
  "exec_ops ops e = fold (\<lambda>x e. final (exec_op x e)) ops e"

text \<open>
  What the operations mean for the condition of the simulation engine: its ports and the port that was added last. Whatever is
  done to the other conditions does not matter; nor does adding a condition under the name of the engine.
\<close>

type_synonym engine = "(string \<rightharpoonup> val option) \<times> string"

fun engine_step :: "experiment_op \<Rightarrow> engine \<Rightarrow> engine" where
  "engine_step (SetBegin b) (m, l) = (m(''begin'' \<mapsto> Some (VDouble b)), ''begin'')"
| "engine_step (SetDuration d) (m, l) = (m(''duration'' \<mapsto> Some (VDouble d)), ''duration'')"
| "engine_step (SetPort n port v) (m, l) = (if n = defaultSimulationEngineCondName then (m(port \<mapsto> v), port) else (m, l))"
| "engine_step (AddPort n port) (m, l) = (if n = defaultSimulationEngineCondName then (m(port \<mapsto> None), port) else (m, l))"
| "engine_step (DelPort n port) (m, l) = (if n = defaultSimulationEngineCondName then (m(port := None), l) else (m, l))"
| "engine_step (ClearPort n port) (m, l) = (if n = defaultSimulationEngineCondName \<and> m port \<noteq> None then (m(port \<mapsto> None), l) else (m, l))"
| "engine_step (SetLastPort n v) (m, l) = (if n = defaultSimulationEngineCondName \<and> m l \<noteq> None then (m(l \<mapsto> v), l) else (m, l))"
| "engine_step (AssignCondition n c) (m, l) = (if n = defaultSimulationEngineCondName
     then (case Condition_copy c of Inl _ \<Rightarrow> (m, l) | Inr c' \<Rightarrow> (map_of (cnd_list c'), cnd_last_port c')) else (m, l))"
| "engine_step _ p = p"

definition engine_start :: engine where
  "engine_start = ([''begin'' \<mapsto> Some (VDouble (dfin 0)), ''duration'' \<mapsto> Some (VDouble (dfin (100 * 2 ^ 1074)))], ''duration'')"

text \<open>Reading a date from the ports.\<close>

definition engine_date :: "string \<Rightarrow> engine \<Rightarrow> double result" where
  "engine_date port p = (case fst p port of
     None \<Rightarrow> Inl (ArgError ''Condition have no port'')
   | Some None \<Rightarrow> Inl (UndefinedBehaviour ''null value'')
   | Some (Some v) \<Rightarrow> toDouble v)"

text \<open>
  The engine would be erased by \<^verbatim>\<open>cleanNoPermanent\<close> if its flag were set.
\<close>

fun spares_engine :: "experiment_op \<Rightarrow> bool" where
  "spares_engine (SetPermanent n b) = (n \<noteq> defaultSimulationEngineCondName \<or> \<not> b)"
| "spares_engine (AssignCondition n c) = (n \<noteq> defaultSimulationEngineCondName \<or> cnd_permanent c \<noteq> Some True)"
| "spares_engine _ = True"

definition engine_at :: "condition \<Rightarrow> conditions \<Rightarrow> bool" where
  "engine_at c cs \<longleftrightarrow> map_of cs defaultSimulationEngineCondName = Some c"

definition shows_engine :: "engine \<Rightarrow> condition \<Rightarrow> bool" where
  "shows_engine p c \<longleftrightarrow> map_of (cnd_list c) = fst p \<and> cnd_last_port c = snd p \<and> cnd_permanent c \<noteq> Some True"

definition engine_of :: "(condition \<Rightarrow> bool) \<Rightarrow> vpz_experiment \<Rightarrow> bool" where
  "engine_of I e \<longleftrightarrow> (\<exists>c. engine_at c (exp_conditions e) \<and> I c)"

lemma preserves_Conditions_del [preserves_intros]: "preserves (engine_at c) (Conditions_del n)"
  by (auto simp: Conditions_del_def engine_at_def intro!: preserves_intros preserves_updS)

lemma preserves_Conditions_add [preserves_intros]: "preserves (engine_at c) (Conditions_add x)"
  unfolding Conditions_add_def
  by (intro preserves_intros preserves_updS) (auto simp: engine_at_def map_of_umap_insert split: option.split)

lemma preserves_Conditions_clear [preserves_intros]: "preserves (engine_at c) Conditions_clear"
proof -
  have "map_of (filter (\<lambda>e. fst e = k) cs) k = map_of cs k" for k :: string and cs :: conditions
    by (induction cs) auto
  then show ?thesis by (auto simp: Conditions_clear_def engine_at_def intro!: preserves_updS)
qed

lemma preserves_on_conditions: "(\<And>c. preserves (engine_at c) m) \<Longrightarrow> preserves (engine_of I) (on_conditions m)"
  unfolding preserves_def engine_of_def
proof (intro allI impI, elim exE conjE)
  fix e :: vpz_experiment and c
  assume m: "\<And>c. \<forall>cs. engine_at c cs \<longrightarrow> engine_at c (final (m cs))" "engine_at c (exp_conditions e)" "I c"
  then have "engine_at c (final (m (exp_conditions e)))" by blast
  then show "\<exists>c. engine_at c (exp_conditions (final (on_conditions m e))) \<and> I c"
    using m(3) by (cases "m (exp_conditions e)") (auto simp: on_conditions_def)
qed

lemma preserves_on_views [preserves_intros]: "preserves (engine_of I) (on_views m)"
  by (simp add: preserves_def engine_of_def on_views_def split: outcome.split)

lemma set_engine_port:
  assumes "engine_at c (exp_conditions e)"
  shows "\<exists>cs. set_engine port d e = Ret () (e\<lparr>exp_conditions := cs\<rparr>) \<and> engine_at (setValueToPort port (Some (VDouble d)) c) cs"
  using assms by (simp add: set_engine_def engine_condition_def Conditions_exist_def Conditions_get_def engine_at_def effect_defs
      on_conditions_def updS_def update_conv' exI [of _ "AList.update defaultSimulationEngineCondName (setValueToPort port (Some (VDouble d)) c) (exp_conditions e)"])

text \<open>A write to another condition, and one to the engine.\<close>

lemma preserves_on_condition: "n \<noteq> defaultSimulationEngineCondName \<Longrightarrow> preserves (engine_at c) (on_condition n f)"
  unfolding on_condition_def by (intro preserves_intros preserves_updS) (simp add: engine_at_def update_conv')

lemma on_condition_engine:
  assumes "engine_of I e" "\<And>c. I c \<Longrightarrow> (case f c of Inl _ \<Rightarrow> J c | Inr c' \<Rightarrow> J c')"
  shows "engine_of J (final (on_conditions (on_condition defaultSimulationEngineCondName f) e))"
proof -
  obtain c where c: "engine_at c (exp_conditions e)" "I c" using assms(1) by (auto simp: engine_of_def)
  then show ?thesis using assms(2) [OF c(2)]
    by (cases "f c") (auto simp: engine_of_def engine_at_def on_conditions_def on_condition_def Conditions_get_def effect_defs updS_def update_conv')
qed

lemma clean_permanent_keeps: "clean_permanent f xs = Inr ys \<Longrightarrow> map_of xs k = Some v \<Longrightarrow> f v \<noteq> Some True \<Longrightarrow> map_of ys k = Some v"
  by (induction xs arbitrary: ys) (auto simp: result_simps read_flag_def split: if_splits option.splits)

lemma cleanNoPermanent_engine:
  assumes "engine_of (shows_engine p) e" "Experiment_cleanNoPermanent e = Inr e'"
  shows "engine_of (shows_engine p) e'"
  using assms by (fastforce simp: engine_of_def engine_at_def shows_engine_def Experiment_cleanNoPermanent_def Conditions_cleanNoPermanent_def
      result_simps dest: clean_permanent_keeps)

lemma Condition_copy_flag: "Condition_copy c = Inr c' \<Longrightarrow> cnd_permanent c' = cnd_permanent c"
  by (auto simp: Condition_copy_def result_simps)

lemma exec_op_engine:
  assumes "engine_of (shows_engine p) e" "spares_engine x"
  shows "engine_of (shows_engine (engine_step x p)) (final (exec_op x e))"
proof -
  obtain m l where p: "p = (m, l)" by (cases p)
  have set: "engine_of (shows_engine q) (final (set_engine port d e))"
    if "\<And>c. shows_engine p c \<Longrightarrow> shows_engine q (setValueToPort port (Some (VDouble d)) c)" for q port d
    using assms(1) that set_engine_port [of _ e port d] by (fastforce simp: engine_of_def)
  have other: "engine_of (shows_engine p) (final (k e))" if "preserves (engine_of (shows_engine p)) k" for k :: "unit exp_proc"
    using preservesD [OF that assms(1)] .
  have at: "engine_of (shows_engine q) (final (on_conditions (on_condition n f) e))"
    if "n \<noteq> defaultSimulationEngineCondName \<longrightarrow> q = p"
      "n = defaultSimulationEngineCondName \<longrightarrow> (\<forall>c. shows_engine p c \<longrightarrow> (case f c of Inl _ \<Rightarrow> shows_engine q c | Inr c' \<Rightarrow> shows_engine q c'))"
    for n f q
    using that on_condition_engine [OF assms(1), where f = f and J = "shows_engine q"] other [OF preserves_on_conditions [OF preserves_on_condition [of n]]]
    by (cases "n = defaultSimulationEngineCondName") simp_all
  have upd: "preserves (engine_of I) (updS (exp_name_update f))" "preserves (engine_of I) (updS (exp_combination_update f))" for I f
    by (auto simp: engine_of_def intro!: preserves_updS)
  note rules = preserves_intros preserves_on_conditions upd
  note writes = shows_engine_def p setValueToPort_def Condition_add_def Condition_del_def clearValueOfPort_def setLastAddedPort_def lastAddedPort_def
    valueOfPort_def Condition_setName_def update_conv' map_of_smap_erase
  note others = Experiment_setName_def setCombination_def addConditions_def Conditions_add_all_def Conditions_rename_def Conditions_copy_def
    addViews_def Experiment_clear_def
  show ?thesis
  proof (cases x)
    case (SetBegin b)
    then show ?thesis by (auto simp: setBegin_def writes intro!: set)
  next
    case (SetDuration d)
    then show ?thesis by (auto simp: setDuration_def writes intro!: set)
  next
    case CleanNoPermanent
    then show ?thesis using assms(1) cleanNoPermanent_engine [OF assms(1)]
      by (cases "Experiment_cleanNoPermanent e") (simp_all add: p effect_defs updS_def)
  next
    case (SetPort n port v)
    show ?thesis unfolding SetPort exec_op.simps by (rule at) (auto simp: writes)
  next
    case (AddPort n port)
    show ?thesis unfolding AddPort exec_op.simps by (rule at) (auto simp: writes)
  next
    case (DelPort n port)
    show ?thesis unfolding DelPort exec_op.simps by (rule at) (auto simp: writes)
  next
    case (ClearPort n port)
    show ?thesis unfolding ClearPort exec_op.simps by (rule at) (auto simp: writes split: option.split)
  next
    case (SetLastPort n v)
    show ?thesis unfolding SetLastPort exec_op.simps by (rule at) (auto simp: writes split: option.split)
  next
    case (SetConditionName n name)
    show ?thesis unfolding SetConditionName exec_op.simps by (rule at) (auto simp: writes)
  next
    case (SetPermanent n b)
    show ?thesis using assms(2) unfolding SetPermanent exec_op.simps by (intro at) (auto simp: writes)
  next
    case (AssignCondition n c)
    show ?thesis using assms(2) Condition_copy_flag [of c] unfolding AssignCondition exec_op.simps
      by (intro at) (auto simp: shows_engine_def p split: sum.splits)
  qed (auto simp: p others intro!: other [unfolded p] rules)
qed

lemma exec_ops_engine:
  assumes "engine_of (shows_engine p) e" "list_all spares_engine ops"
  shows "engine_of (shows_engine (fold engine_step ops p)) (exec_ops ops e)"
  using assms
proof (induction ops arbitrary: p e)
  case (Cons x ops)
  then have "engine_of (shows_engine (engine_step x p)) (final (exec_op x e))" by (intro exec_op_engine) simp_all
  from Cons.IH [OF this] Cons.prems(2) show ?case by (simp add: exec_ops_def)
qed (simp add: exec_ops_def)

lemma engine_reads:
  assumes "engine_of (shows_engine p) e"
  shows "Experiment_begin e = engine_date ''begin'' p" "duration e = engine_date ''duration'' p"
  using assms by (auto simp: engine_of_def shows_engine_def engine_at_def Experiment_begin_def duration_def get_engine_def engine_condition_def
      Conditions_exist_def Conditions_get_def valueOfPort_def engine_date_def split: option.split)



end
