(* ===== verification/Events.thy ===== *)
theory Events
  imports Simulator Value_Containers Value_Matrix
begin

text \<open>
  \<^verbatim>\<open>ExternalEvent\<close> and \<^verbatim>\<open>InitEventList\<close>: what a model finds in an event it receives and in the conditions it is
  built with. The functions that return references return the content of the value.
\<close>

section \<open>External events\<close>

definition ExternalEvent_new :: "string \<Rightarrow> external_event" where
  "ExternalEvent_new port = \<lparr>ev_attributes = None, ev_port = port\<rparr>"

definition onPort :: "string \<Rightarrow> external_event \<Rightarrow> bool" where
  "onPort port ev \<longleftrightarrow> ev_port ev = port"

definition haveAttributes :: "external_event \<Rightarrow> bool" where
  "haveAttributes ev \<longleftrightarrow> ev_attributes ev \<noteq> None"

definition ExternalEvent_pp_add :: "val \<Rightarrow> external_event \<Rightarrow> external_event" where
  "ExternalEvent_pp_add v ev = ev\<lparr>ev_attributes := Some v\<rparr>"

definition ExternalEvent_addBoolean :: "bool \<Rightarrow> external_event \<Rightarrow> external_event" where
  "ExternalEvent_addBoolean x = ExternalEvent_pp_add (VBoolean x)"

definition ExternalEvent_addDouble :: "double \<Rightarrow> external_event \<Rightarrow> external_event" where
  "ExternalEvent_addDouble x = ExternalEvent_pp_add (VDouble x)"

definition ExternalEvent_addInteger :: "32 word \<Rightarrow> external_event \<Rightarrow> external_event" where
  "ExternalEvent_addInteger x = ExternalEvent_pp_add (VInteger x)"

definition ExternalEvent_addString :: "string \<Rightarrow> external_event \<Rightarrow> external_event" where
  "ExternalEvent_addString x = ExternalEvent_pp_add (VString x)"

definition ExternalEvent_addXml :: "string \<Rightarrow> external_event \<Rightarrow> external_event" where
  "ExternalEvent_addXml x = ExternalEvent_pp_add (VXml x)"

definition ExternalEvent_addTuple :: "nat \<Rightarrow> double \<Rightarrow> external_event \<Rightarrow> external_event" where
  "ExternalEvent_addTuple n x = ExternalEvent_pp_add (VTuple (replicate n x))"

definition ExternalEvent_addTable :: "nat \<Rightarrow> nat \<Rightarrow> external_event \<Rightarrow> external_event result" where
  "ExternalEvent_addTable width height ev =
     bindE (Table_new width height) (\<lambda>t. Inr (ExternalEvent_pp_add (VTable (t_width t) (t_height t) (t_value t)) ev))"

definition ExternalEvent_addMap :: "external_event \<Rightarrow> external_event" where
  "ExternalEvent_addMap = ExternalEvent_pp_add (VMap [])"

definition ExternalEvent_addSet :: "external_event \<Rightarrow> external_event" where
  "ExternalEvent_addSet = ExternalEvent_pp_add (VSet [])"

definition ExternalEvent_addMatrix :: "nat \<Rightarrow> nat \<Rightarrow> nat \<Rightarrow> nat \<Rightarrow> nat \<Rightarrow> nat \<Rightarrow> external_event \<Rightarrow> external_event result" where
  "ExternalEvent_addMatrix columns rows columnmax rowmax resizeColumns resizeRows ev =
     bindE (Matrix_new_max columns rows columnmax rowmax resizeColumns resizeRows) (\<lambda>m. Inr (ExternalEvent_pp_add (VMatrix m) ev))"

text \<open>The getters test the type first and throw an exception of their own.\<close>

definition event_content :: "val_type \<Rightarrow> (val \<Rightarrow> 'a result) \<Rightarrow> external_event \<Rightarrow> 'a result" where
  "event_content type cast ev = (case ev_attributes ev of
     None \<Rightarrow> Inl (ArgError ''ExternalEvent: getAttributes is empty or has another type'')
   | Some v \<Rightarrow> if getType v \<noteq> type then Inl (ArgError ''ExternalEvent: getAttributes is empty or has another type'') else cast v)"

definition ExternalEvent_getBoolean :: "external_event \<Rightarrow> bool result" where
  "ExternalEvent_getBoolean = event_content BOOLEAN toBoolean"

definition ExternalEvent_getDouble :: "external_event \<Rightarrow> double result" where
  "ExternalEvent_getDouble = event_content DOUBLE toDouble"

definition ExternalEvent_getInteger :: "external_event \<Rightarrow> 32 word result" where
  "ExternalEvent_getInteger = event_content INTEGER toInteger"

definition ExternalEvent_getString :: "external_event \<Rightarrow> string result" where
  "ExternalEvent_getString = event_content STRING toString"

definition ExternalEvent_getXml :: "external_event \<Rightarrow> string result" where
  "ExternalEvent_getXml = event_content XMLTYPE toXml"

definition ExternalEvent_getTuple :: "external_event \<Rightarrow> tuple_value result" where
  "ExternalEvent_getTuple = event_content TUPLE toTuple"

definition ExternalEvent_getTable :: "external_event \<Rightarrow> (nat \<times> nat \<times> double list) result" where
  "ExternalEvent_getTable = event_content TABLE toTable"

definition ExternalEvent_getMap :: "external_event \<Rightarrow> map_value result" where
  "ExternalEvent_getMap = event_content MAP toMap"

definition ExternalEvent_getSet :: "external_event \<Rightarrow> set_value result" where
  "ExternalEvent_getSet = event_content SET toSet"

definition ExternalEvent_getMatrix :: "external_event \<Rightarrow> val matrix result" where
  "ExternalEvent_getMatrix = event_content MATRIX toMatrix"

section \<open>Initial events\<close>

type_synonym init_event_list = "(string \<times> val option) list"

definition InitEventList_add :: "string \<Rightarrow> val option \<Rightarrow> init_event_list \<Rightarrow> init_event_list" where
  "InitEventList_add name v l = AList.update name v l"

definition InitEventList_exist :: "string \<Rightarrow> init_event_list \<Rightarrow> bool" where
  "InitEventList_exist name l \<longleftrightarrow> map_of l name \<noteq> None"

text \<open>\<^verbatim>\<open>get\<close> and \<^verbatim>\<open>operator[]\<close>.\<close>

definition InitEventList_get :: "init_event_list \<Rightarrow> string \<Rightarrow> val option result" where
  "InitEventList_get l name = (case map_of l name of
     None \<Rightarrow> Inl (ArgError ''Map: the key does not exist'') | Some p \<Rightarrow> Inr p)"

definition InitEventList_value :: "init_event_list \<Rightarrow> string \<Rightarrow> val result" where
  "InitEventList_value l name = bindE (InitEventList_get l name) (\<lambda>p.
     case p of None \<Rightarrow> Inl (ArgError ''Map: the key have empty (null) value'') | Some v \<Rightarrow> Inr v)"

definition InitEventList_getBoolean :: "init_event_list \<Rightarrow> string \<Rightarrow> bool result" where
  "InitEventList_getBoolean l name = bindE (InitEventList_value l name) toBoolean"

definition InitEventList_getDouble :: "init_event_list \<Rightarrow> string \<Rightarrow> double result" where
  "InitEventList_getDouble l name = bindE (InitEventList_value l name) toDouble"

definition InitEventList_getString :: "init_event_list \<Rightarrow> string \<Rightarrow> string result" where
  "InitEventList_getString l name = bindE (InitEventList_value l name) toString"

definition InitEventList_getXml :: "init_event_list \<Rightarrow> string \<Rightarrow> string result" where
  "InitEventList_getXml l name = bindE (InitEventList_value l name) toXml"

definition InitEventList_getTuple :: "init_event_list \<Rightarrow> string \<Rightarrow> tuple_value result" where
  "InitEventList_getTuple l name = bindE (InitEventList_value l name) toTuple"

definition InitEventList_getTable :: "init_event_list \<Rightarrow> string \<Rightarrow> (nat \<times> nat \<times> double list) result" where
  "InitEventList_getTable l name = bindE (InitEventList_value l name) toTable"

definition InitEventList_getMap :: "init_event_list \<Rightarrow> string \<Rightarrow> map_value result" where
  "InitEventList_getMap l name = bindE (InitEventList_value l name) toMap"

definition InitEventList_getSet :: "init_event_list \<Rightarrow> string \<Rightarrow> set_value result" where
  "InitEventList_getSet l name = bindE (InitEventList_value l name) toSet"

definition InitEventList_getMatrix :: "init_event_list \<Rightarrow> string \<Rightarrow> val matrix result" where
  "InitEventList_getMatrix l name = bindE (InitEventList_value l name) toMatrix"

definition InitEventList_getInt :: "init_event_list \<Rightarrow> string \<Rightarrow> 32 word result" where
  "InitEventList_getInt l name = bindE (InitEventList_value l name) toInteger"

end
