(* ===== verification/Model_Factory.thy ===== *)
theory Model_Factory
  imports Root_Coordinator Experiment_Data Events
begin

text \<open>
  \<^verbatim>\<open>devs/ModelFactory.cpp\<close>, \<^verbatim>\<open>Coordinator::buildViews\<close> and \<^verbatim>\<open>init\<close>, \<^verbatim>\<open>RootCoordinator::load\<close> and \<^verbatim>\<open>Simulation::runQuiet\<close>: how
  the description of an experiment becomes simulators and views, and the whole life of a simulation.
  What the dynamic linker finds in the libraries is an argument, the record \<open>modules\<close>.
\<close>

section \<open>Libraries\<close>

text \<open>
  The constructor of a user's class, by the kind of the module: it gets the atomic model and the
  initial events. The constructor of an executive also gets the coordinator, on which it may act; that
  of a wrapper gets the name of the library.
\<close>

datatype ('s, 'u) symbol =
    DynamicsSymbol "addr \<Rightarrow> init_event_list \<Rightarrow> 'u result"
  | ExecutiveSymbol "addr \<Rightarrow> init_event_list \<Rightarrow> ('s, 'u) proc"
  | WrapperSymbol "string \<Rightarrow> addr \<Rightarrow> init_event_list \<Rightarrow> 'u result"
  | OtherSymbol

text \<open>
  \<open>md_symbol\<close> and \<open>md_factory\<close> are \<^verbatim>\<open>get_symbol\<close> (package, library) and \<^verbatim>\<open>get_factory\<close> (library); \<open>md_oov\<close> calls
  the function found for an output plug-in (package, plug-in, location), \<open>md_oov_factory\<close> the one of the
  executable, with a null pointer as a possible result; \<open>md_null\<close> is the state of a simulator that has no
  dynamics yet and which nothing reads.
\<close>

record ('s, 'u, 'p) modules =
  md_symbol :: "string \<Rightarrow> string \<Rightarrow> ('s, 'u) symbol result"
  md_factory :: "string \<Rightarrow> ('s, 'u) symbol result"
  md_oov :: "string \<Rightarrow> string \<Rightarrow> string \<Rightarrow> 'p option result"
  md_oov_factory :: "string \<Rightarrow> string \<Rightarrow> 'p option result"
  md_onParameter :: "string \<Rightarrow> string \<Rightarrow> string \<Rightarrow> val option \<Rightarrow> time \<Rightarrow> ('p, unit) proc"
  md_null :: 'u

text \<open>The data the factory copies from the project.\<close>

record factory =
  mDynamics :: dynamics
  mExperiment :: vpz_experiment

section \<open>Event views\<close>

text \<open>The ports of an observable with the views they are attached to, in the order of the two loops.\<close>

definition attached_views :: "observable \<Rightarrow> (string \<times> string) list" where
  "attached_views ob = concat (map (\<lambda>e. map (\<lambda>view. (fst e, view)) (obp_list (snd e))) (obl_list ob))"

fun some_event_view :: "views \<Rightarrow> (string \<times> string) list \<Rightarrow> bool result" where
  "some_event_view vs [] = Inr False"
| "some_event_view vs (e # es) = bindE (Views_get (snd e) vs) (\<lambda>v.
     if vw_enabled v \<and> \<not> has_type (vw_type v) TIMED then Inr True else some_event_view vs es)"

definition haveEventView :: "views \<Rightarrow> string \<Rightarrow> bool result" where
  "haveEventView vs observable = (if observable = [] then Inr False
     else bindE (Observables_get observable (vws_observables vs)) (\<lambda>ob. some_event_view vs (attached_views ob)))"

definition assign_view :: "string set \<Rightarrow> views \<Rightarrow> string \<times> string \<Rightarrow> observer \<Rightarrow> observer result" where
  "assign_view open_views vs e ob = bindE (Views_get (snd e) vs) (\<lambda>v.
     let t = vw_type v; x = (snd e, fst e);
         add = (\<lambda>flag l. if has_type t flag then l @ [x] else l)
     in if t = TIMED then Inr ob
        else if snd e \<notin> open_views then Inr ob
        else Inr (ob\<lparr>ppOutput := add OUTPUT (ppOutput ob), ppInternal := add INTERNAL (ppInternal ob),
                     ppExternal := add EXTERNAL (ppExternal ob), ppConfluent := add CONFLUENT (ppConfluent ob),
                     ppFinish := add FINISH (ppFinish ob)\<rparr>))"

definition empty_observer :: observer where
  "empty_observer = \<lparr>ppOutput = [], ppInternal = [], ppExternal = [], ppConfluent = [], ppFinish = []\<rparr>"

definition assignEventView :: "string set \<Rightarrow> views \<Rightarrow> string \<Rightarrow> observer result" where
  "assignEventView open_views vs observable = bindE (Observables_get observable (vws_observables vs)) (\<lambda>ob.
     foldE (assign_view open_views vs) (attached_views ob) empty_observer)"

section \<open>Dynamics\<close>

text \<open>
  What \<^verbatim>\<open>attachDynamics\<close> returns: the state of the user's object, the observer around it, and whether it
  is an executive. The debug wrapper only writes traces and is left out.
\<close>

type_synonym 'u attached = "'u \<times> observer option \<times> bool"

definition modelling_error :: "string \<Rightarrow> ('s, 'a) proc \<Rightarrow> ('s, 'a) proc" where
  "modelling_error msg m = catchS m (\<lambda>_. throwS (ModellingError msg))"

text \<open>The observer is built after the user's object.\<close>

definition add_observer :: "views \<Rightarrow> string \<Rightarrow> bool \<Rightarrow> 'u \<Rightarrow> ('q, 'h, 'u, 'p, 'u attached) cproc" where
  "add_observer vs observable executive u = bindS (liftS (haveEventView vs observable)) (\<lambda>b.
     if b then bindS getS (\<lambda>c. bindS (liftS (assignEventView (dom (map_of (m_eventViewList c))) vs observable)) (\<lambda>ob.
       retS (u, Some ob, executive)))
     else retS (u, None, executive))"

definition buildNewDynamics :: "views \<Rightarrow> string \<Rightarrow> 'u result \<Rightarrow> ('q, 'h, 'u, 'p, 'u attached) cproc" where
  "buildNewDynamics vs observable fct =
     modelling_error ''Atomic model throws error in constructor'' (bindS (liftS fct) (add_observer vs observable False))"

definition buildNewExecutive :: "views \<Rightarrow> string \<Rightarrow> ('q, 'h, 'u, 'p, 'u) cproc \<Rightarrow> ('q, 'h, 'u, 'p, 'u attached) cproc" where
  "buildNewExecutive vs observable fct =
     modelling_error ''Executive model throws error in constructor'' (bindS fct (add_observer vs observable True))"

definition buildNewDynamicsWrapper :: "'u result \<Rightarrow> ('q, 'h, 'u, 'p, 'u attached) cproc" where
  "buildNewDynamicsWrapper fct =
     modelling_error ''Atomic model wrapper throws error in constructor'' (bindS (liftS fct) (\<lambda>u. retS (u, None, False)))"

definition attachDynamics :: "(('q, 'h, 'u, 'p) coordinator, 'u, 'p) modules \<Rightarrow> views \<Rightarrow> addr \<Rightarrow> dynamic \<Rightarrow> init_event_list \<Rightarrow> string
    \<Rightarrow> ('q, 'h, 'u, 'p, 'u attached) cproc" where
  "attachDynamics M vs atom dyn events observable =
     modelling_error ''Dynamic library loading problem''
       (if dnm_package dyn \<noteq> [] then
          bindS (liftS (md_symbol M (dnm_package dyn) (dnm_library dyn))) (\<lambda>symbol. case symbol of
            DynamicsSymbol fct \<Rightarrow> buildNewDynamics vs observable (fct atom events)
          | ExecutiveSymbol fct \<Rightarrow> buildNewExecutive vs observable (fct atom events)
          | WrapperSymbol fct \<Rightarrow> buildNewDynamicsWrapper (fct (dnm_library dyn) atom events)
          | OtherSymbol \<Rightarrow> throwS (InternalError ''Missing type''))
        else
          bindS (liftS (md_factory M (dnm_library dyn))) (\<lambda>symbol. case symbol of
            DynamicsSymbol fct \<Rightarrow> buildNewDynamics vs observable (fct atom events)
          | ExecutiveSymbol fct \<Rightarrow> buildNewExecutive vs observable (fct atom events)
          | _ \<Rightarrow> throwS (InternalError ''Missing type'')))"

section \<open>Models\<close>

definition add_init_values :: "condition \<Rightarrow> init_event_list \<Rightarrow> init_event_list result" where
  "add_init_values cnd = foldE (\<lambda>e l.
     if InitEventList_exist (fst e) l then Inl (InternalError ''Multiples condition with the same init port name'')
     else Inr (InitEventList_add (fst e) (snd e) l)) (cnd_list cnd)"

definition init_values :: "conditions \<Rightarrow> string list \<Rightarrow> init_event_list result" where
  "init_values cs names = foldE (\<lambda>name l. bindE (Conditions_get name cs) (\<lambda>cnd. add_init_values cnd l)) names []"

definition addDynamics :: "'u attached \<Rightarrow> ('h, 'u) simulator \<Rightarrow> ('h, 'u) simulator" where
  "addDynamics d sm = (case d of (u, ob, ex) \<Rightarrow> sm\<lparr>sim_dynamics := u, sim_observer := ob, sim_executive := ex\<rparr>)"

text \<open>The address of a new simulator differs from those of the simulators that exist.\<close>

definition new_simulator :: "('q, 'h, 'u, 'p) coordinator \<Rightarrow> sim_id" where
  "new_simulator c = Suc (fold max (m_simulators c) 0)"

definition createModel :: "('q, 'h, 'u, 'p) platform \<Rightarrow> ('q, 'h, 'u, 'p) coordinator executive_ops \<Rightarrow> (('q, 'h, 'u, 'p) coordinator, 'u, 'p) modules
    \<Rightarrow> factory \<Rightarrow> conditions \<Rightarrow> addr \<Rightarrow> string \<Rightarrow> string list \<Rightarrow> string \<Rightarrow> ('q, 'h, 'u, 'p, unit) cproc" where
  "createModel P E M F experiment_conditions model dynamics conditions observable =
     bindS (liftS (Dynamics_get dynamics (mDynamics F))) (\<lambda>dyn.
     bindS (bindS getS (\<lambda>c. Coordinator_addModel model (md_null M) False (new_simulator c))) (\<lambda>x.
     bindS (liftS (init_values experiment_conditions conditions)) (\<lambda>events.
     bindS (attachDynamics M (exp_views (mExperiment F)) model dyn events observable) (\<lambda>d.
     thenS (on_kernel (upd_sim x (addDynamics d)))
    (thenS (if observable \<noteq> [] then
              bindS (liftS (Observables_get observable (vws_observables (exp_views (mExperiment F))))) (\<lambda>ob.
                forS (\<lambda>e. addObservableToView P model (fst e) (snd e)) (attached_views ob))
            else retS ())
       (processInit P E x))))))"

text \<open>The dynamics, conditions and observable of an atomic model are read from the graph.\<close>

definition create_atomic :: "('q, 'h, 'u, 'p) platform \<Rightarrow> ('q, 'h, 'u, 'p) coordinator executive_ops \<Rightarrow> (('q, 'h, 'u, 'p) coordinator, 'u, 'p) modules
    \<Rightarrow> factory \<Rightarrow> conditions \<Rightarrow> addr \<Rightarrow> ('q, 'h, 'u, 'p, unit) cproc" where
  "create_atomic P E M F cs a = bindS (on_graph (deref a)) (\<lambda>n. case m_kind n of
     Coupled _ \<Rightarrow> throwS (UndefinedBehaviour ''not an atomic model'')
   | Atomic d \<Rightarrow> createModel P E M F cs a (m_dynamics d) (m_conditions d) (m_observables d))"

definition createModels :: "('q, 'h, 'u, 'p) platform \<Rightarrow> ('q, 'h, 'u, 'p) coordinator executive_ops \<Rightarrow> (('q, 'h, 'u, 'p) coordinator, 'u, 'p) modules
    \<Rightarrow> factory \<Rightarrow> addr option \<Rightarrow> ('q, 'h, 'u, 'p, unit) cproc" where
  "createModels P E M F node = (case node of
     None \<Rightarrow> retS ()
   | Some mdl \<Rightarrow> bindS (on_graph (deref mdl)) (\<lambda>n. bindS getS (\<lambda>c.
       bindS (if isAtomic n then retS [mdl]
              else (case getAtomicModelList (m_graph c) mdl [] of None \<Rightarrow> throwS NonTermination | Some r \<Rightarrow> liftS r))
         (forS (create_atomic P E M F (exp_conditions (mExperiment F)))))))"

section \<open>Views\<close>

text \<open>The two versions of \<^verbatim>\<open>View::open\<close>: with a package and from the factories of the executable.\<close>

definition View_open :: "('s, 'u, 'p) modules \<Rightarrow> string \<Rightarrow> vpz_output \<Rightarrow> string \<Rightarrow> time \<Rightarrow> val option \<Rightarrow> ('p, unit) vproc" where
  "View_open M name outp file time parameters =
     thenS (updS (\<lambda>v. v\<lparr>view_name := name\<rparr>))
    (bindS (liftS (if outp_package outp = [] then md_oov_factory M (outp_plugin outp) (outp_location outp)
                   else md_oov M (outp_package outp) (outp_plugin outp) (outp_location outp))) (\<lambda>plugin.
     thenS (updS (\<lambda>v. v\<lparr>view_plugin := plugin\<rparr>))
       (if plugin = None then throwS (FileError ''View: Can not open the plug-in'')
        else on_plugin (md_onParameter M (outp_plugin outp) (outp_location outp) file parameters time))))"

definition view_file :: "string \<Rightarrow> string \<Rightarrow> int \<Rightarrow> string" where
  "view_file experiment view inst = experiment @ ''_'' @ view @ (if inst \<ge> 0 then ''-'' @ show_nat (nat inst) else [])"

definition closed_view :: "'p view" where
  "closed_view = \<lparr>view_observables = [], view_name = [], view_plugin = None\<rparr>"

text \<open>
  Opening one view, in the map that \<open>insert_view\<close> writes and \<open>on_view\<close> reads. The entry is made before the
  plug-in is loaded, so that it stays when loading throws.
\<close>

definition open_view :: "(string \<Rightarrow> ('p, unit) vproc \<Rightarrow> ('q, 'h, 'u, 'p, unit) cproc) \<Rightarrow> (string \<Rightarrow> ('q, 'h, 'u, 'p) coordinator \<Rightarrow> ('q, 'h, 'u, 'p) coordinator)
    \<Rightarrow> ('s, 'u, 'p) modules \<Rightarrow> vpz_experiment \<Rightarrow> int \<Rightarrow> string \<times> vpz_view \<Rightarrow> ('q, 'h, 'u, 'p, unit) cproc" where
  "open_view on_view insert_view M e inst elem =
     bindS (liftS (Outputs_get (vw_output (snd elem)) (vws_outputs (exp_views e)))) (\<lambda>outp.
     thenS (updS (insert_view (vw_name (snd elem))))
    (bindS (liftS (clone_ptr clone (outp_data outp))) (\<lambda>data. bindS getS (\<lambda>c.
       on_view (vw_name (snd elem))
         (View_open M (vw_name (snd elem)) outp (view_file (exp_name e) (fst elem) inst) (m_currentTime c) data)))))"

definition insert_timed_view :: "string \<Rightarrow> ('q, 'h, 'u, 'p) coordinator \<Rightarrow> ('q, 'h, 'u, 'p) coordinator" where
  "insert_timed_view name c = c\<lparr>m_timedViewList := smap_insert name closed_view (m_timedViewList c)\<rparr>"

definition insert_event_view :: "string \<Rightarrow> ('q, 'h, 'u, 'p) coordinator \<Rightarrow> ('q, 'h, 'u, 'p) coordinator" where
  "insert_event_view name c = c\<lparr>m_eventViewList := smap_insert name closed_view (m_eventViewList c)\<rparr>"

definition build_view :: "('s, 'u, 'p) modules \<Rightarrow> vpz_experiment \<Rightarrow> int \<Rightarrow> string \<times> vpz_view \<Rightarrow> ('q, 'h, 'u, 'p, unit) cproc" where
  "build_view M e inst elem =
     (if \<not> vw_enabled (snd elem) then retS ()
      else if vw_type (snd elem) = TIMED then
        thenS (open_view on_timed_view insert_timed_view M e inst elem)
          (bindS getS (\<lambda>c. on_timed (addObservation (vw_name (snd elem)) (m_currentTime c) (vw_timestep (snd elem)))))
      else open_view on_event_view insert_event_view M e inst elem)"

definition buildViews :: "('s, 'u, 'p) modules \<Rightarrow> vpz_experiment \<Rightarrow> int \<Rightarrow> ('q, 'h, 'u, 'p, unit) cproc" where
  "buildViews M e inst = forS (build_view M e inst) (vws_list (exp_views e))"

section \<open>Loading\<close>

text \<open>
  The project as the simulation reads it: the root of the graph of models, the store it lives in, the
  dynamics, the experiment and the number of the instance. \<open>q\<close> is the empty heap, \<open>par\<close> whether the thread
  pool is used, which the settings say. \<open>m_durationTime\<close> has no value before \<^verbatim>\<open>init\<close>; nothing reads it.
\<close>

record vpz_project =
  prj_node :: "addr option"
  prj_graph :: graph
  prj_dynamics :: dynamics
  prj_experiment :: vpz_experiment
  prj_instance :: int

definition Coordinator_new :: "'q \<Rightarrow> bool \<Rightarrow> graph \<Rightarrow> ('q, 'h, 'u, 'p) coordinator" where
  "Coordinator_new q par g = \<lparr>m_currentTime = dfin 0, m_durationTime = dfin 0, m_parallelize = par, m_simulators = [], m_eventTable = Scheduler_new q,
     m_timed_observation_scheduler = [], m_eventViewList = [], m_timedViewList = [], m_delete_model = [], m_isStarted = False,
     m_graph = g, m_simulator = Map.empty\<rparr>"

definition Coordinator_init :: "('q, 'h, 'u, 'p) platform \<Rightarrow> ('q, 'h, 'u, 'p) coordinator executive_ops \<Rightarrow> (('q, 'h, 'u, 'p) coordinator, 'u, 'p) modules
    \<Rightarrow> factory \<Rightarrow> addr option \<Rightarrow> time \<Rightarrow> time \<Rightarrow> int \<Rightarrow> ('q, 'h, 'u, 'p, unit) cproc" where
  "Coordinator_init P E M F mdls current dur inst =
     thenS (updS (\<lambda>c. c\<lparr>m_currentTime := current, m_durationTime := dur\<rparr>))
    (thenS (buildViews M (mExperiment F) inst)
    (thenS (createModels P E M F mdls)
    (thenS (updS (\<lambda>c. c\<lparr>m_isStarted := True\<rparr>))
       (on_kernel (Scheduler_init (pf_heap P) current)))))"

definition copy_conditions :: "conditions \<Rightarrow> conditions result" where
  "copy_conditions cs = mapE (\<lambda>e. bindE (Condition_copy (snd e)) (\<lambda>c. Inr (fst e, c))) cs"

definition copy_outputs :: "outputs \<Rightarrow> outputs result" where
  "copy_outputs xs = mapE (\<lambda>e. bindE (Output_copy (snd e)) (\<lambda>x. Inr (fst e, x))) xs"

text \<open>The copy of the experiment in the factory: the values of the conditions and outputs are cloned.\<close>

definition Experiment_copy :: "vpz_experiment \<Rightarrow> vpz_experiment result" where
  "Experiment_copy e = bindE (copy_conditions (exp_conditions e)) (\<lambda>cs. bindE (copy_outputs (vws_outputs (exp_views e))) (\<lambda>xs.
     Inr (e\<lparr>exp_conditions := cs, exp_views := (exp_views e)\<lparr>vws_outputs := xs\<rparr>\<rparr>)))"

definition RootCoordinator_load :: "('q, 'h, 'u, 'p) platform \<Rightarrow> ('q, 'h, 'u, 'p) coordinator executive_ops \<Rightarrow> (('q, 'h, 'u, 'p) coordinator, 'u, 'p) modules
    \<Rightarrow> 'q \<Rightarrow> bool \<Rightarrow> vpz_project \<Rightarrow> ('q, 'h, 'u, 'p, unit) rproc" where
  "RootCoordinator_load P E M q par project =
     bindS (liftS (Experiment_begin (prj_experiment project))) (\<lambda>b.
     thenS (updS (\<lambda>r. r\<lparr>r_begin := b\<rparr>))
    (bindS (liftS (duration (prj_experiment project))) (\<lambda>d.
     thenS (updS (\<lambda>r. r\<lparr>r_end := dadd b d, r_currentTime := b\<rparr>))
    (bindS (liftS (Experiment_copy (prj_experiment project))) (\<lambda>e.
     thenS (updS (\<lambda>r. r\<lparr>r_coordinator := Some (Coordinator_new q par (prj_graph project))\<rparr>))
       (on_coordinator (Coordinator_init P E M \<lparr>mDynamics = prj_dynamics project, mExperiment = e\<rparr> (prj_node project)
          b (dadd b d) (prj_instance project))))))))"

text \<open>\<^verbatim>\<open>Simulation::runQuiet\<close>: the code of the error and the result.\<close>

definition runQuiet :: "('q, 'h, 'u, 'p) platform \<Rightarrow> ('q, 'h, 'u, 'p) coordinator executive_ops \<Rightarrow> (('q, 'h, 'u, 'p) coordinator, 'u, 'p) modules
    \<Rightarrow> 'q \<Rightarrow> bool \<Rightarrow> vpz_project \<Rightarrow> (int \<times> map_value option) result" where
  "runQuiet P E M q par project =
     (case thenS (RootCoordinator_load P E M q par project) (thenS RootCoordinator_init
        (thenS (run_loop (simulation_loop P E)) (RootCoordinator_finish P E))) RootCoordinator_new of
        Ret result _ \<Rightarrow> Inr (0, result)
      | Exn e _ \<Rightarrow> if is_exception e then Inr (-1, None) else Inl e)"

end
