(* ===== verification/Loading.thy ===== *)
theory Loading
  imports Model_Factory
begin

text \<open>
  Loading a project: on a well-formed project \<^verbatim>\<open>RootCoordinator::load\<close> opens the enabled views, builds one
  simulator for every atomic model and leaves the coordinator in the state in which the simulation
  loop may start. With the loop and \<^verbatim>\<open>finish\<close> this gives the whole of \<^verbatim>\<open>Simulation::runQuiet\<close>.
\<close>

section \<open>Views\<close>

text \<open>What opening a view needs: its output, a value that can be copied and a plug-in that starts.\<close>

definition opens :: "('s, 'u, 'p) modules \<Rightarrow> outputs \<Rightarrow> vpz_view \<Rightarrow> bool" where
  "opens M xs v \<longleftrightarrow> (\<exists>outp data p. map_of xs (vw_output v) = Some outp \<and> clone_ptr clone (outp_data outp) = Inr data
     \<and> (if outp_package outp = [] then md_oov_factory M (outp_plugin outp) (outp_location outp)
        else md_oov M (outp_package outp) (outp_plugin outp) (outp_location outp)) = Inr (Some p)
     \<and> (\<forall>file t. returns (md_onParameter M (outp_plugin outp) (outp_location outp) file data t)))"

definition view_ready :: "('s, 'u, 'p) modules \<Rightarrow> outputs \<Rightarrow> time \<Rightarrow> time \<Rightarrow> string \<times> vpz_view \<Rightarrow> bool" where
  "view_ready M xs now dur elem \<longleftrightarrow> vw_name (snd elem) = fst elem \<and> (vw_enabled (snd elem) \<longrightarrow> opens M xs (snd elem)
     \<and> (vw_type (snd elem) = TIMED \<longrightarrow> \<not> isInfinity (vw_timestep (snd elem))
          \<and> advances dur \<lparr>ve_view = fst elem, ve_time = now, ve_timestep = vw_timestep (snd elem)\<rparr>))"

definition timed_names :: "(string \<times> vpz_view) list \<Rightarrow> string set" where
  "timed_names l = fst ` {e \<in> set l. vw_enabled (snd e) \<and> vw_type (snd e) = TIMED}"

definition event_names :: "(string \<times> vpz_view) list \<Rightarrow> string set" where
  "event_names l = fst ` {e \<in> set l. vw_enabled (snd e) \<and> vw_type (snd e) \<noteq> TIMED}"

definition opened :: "string set \<Rightarrow> (string \<times> 'p view) list \<Rightarrow> bool" where
  "opened N l \<longleftrightarrow> dom (map_of l) = N \<and> (\<forall>n v. map_of l n = Some v \<longrightarrow> view_plugin v \<noteq> None \<and> view_observables v = [])"

lemma wp_View_open:
  assumes "(if outp_package outp = [] then md_oov_factory M (outp_plugin outp) (outp_location outp)
        else md_oov M (outp_package outp) (outp_plugin outp) (outp_location outp)) = Inr (Some p)"
    and "returns (md_onParameter M (outp_plugin outp) (outp_location outp) file data t)"
  shows "wp (View_open M name outp file t data) v (\<lambda>_ v'. view_plugin v' \<noteq> None \<and> view_observables v' = view_observables v)"
  unfolding View_open_def assms(1) wp_thenS wp_updS wp_bindS wp_liftS
  by (simp add: wp_simps) (rule wp_mono [OF wp_on_plugin [OF _ assms(2)]], auto simp: same_view_def)

lemma opened_entry:
  assumes "opened N l" "wp m (case map_of l n of None \<Rightarrow> closed_view | Some v \<Rightarrow> v)
    (\<lambda>_ v'. view_plugin v' \<noteq> None \<and> view_observables v' = [])"
  shows "wp (on_entry n m) (smap_insert n closed_view l) (\<lambda>_. opened (insert n N))"
proof -
  obtain x v' where "m (case map_of l n of None \<Rightarrow> closed_view | Some v \<Rightarrow> v) = Ret x v'" "view_plugin v' \<noteq> None" "view_observables v' = []"
    using assms(2) by (auto simp: wp_iff)
  then show ?thesis using assms(1)
    by (auto simp: on_entry_def wp_def map_of_smap_insert opened_def split: option.splits if_splits)
qed

lemma wp_opened_entry:
  assumes l: "opened N l" and v: "opens M xs v" and xs: "xs = vws_outputs (exp_views e)"
  shows "\<exists>outp. Outputs_get (vw_output v) xs = Inr outp \<and> (\<exists>data. clone_ptr clone (outp_data outp) = Inr data \<and> (\<forall>file t.
    wp (on_entry n (View_open M n outp file t data)) (smap_insert n closed_view l) (\<lambda>_. opened (insert n N))))"
proof -
  from v obtain outp data p where o: "map_of xs (vw_output v) = Some outp" "clone_ptr clone (outp_data outp) = Inr data"
    "(if outp_package outp = [] then md_oov_factory M (outp_plugin outp) (outp_location outp)
        else md_oov M (outp_package outp) (outp_plugin outp) (outp_location outp)) = Inr (Some p)"
    "\<And>file t. returns (md_onParameter M (outp_plugin outp) (outp_location outp) file data t)" unfolding opens_def by blast
  have "view_observables (case map_of l n of None \<Rightarrow> closed_view | Some v \<Rightarrow> v) = []"
    using l by (auto simp: opened_def closed_view_def split: option.split)
  then have "wp (on_entry n (View_open M n outp f t data)) (smap_insert n closed_view l) (\<lambda>_. opened (insert n N))" for f t
    by (intro opened_entry [OF l] wp_mono [OF wp_View_open [OF o(3,4)]]) simp
  then show ?thesis using o(1,2) by (simp add: Outputs_get_def)
qed

text \<open>The state of the coordinator while its views are opened.\<close>

definition views_built :: "('q, 'h, 'u, 'p) coordinator \<Rightarrow> (string \<times> vpz_view) list \<Rightarrow> ('q, 'h, 'u, 'p) coordinator \<Rightarrow> bool" where
  "views_built c0 pre c \<longleftrightarrow> (\<exists>ev ti sch. c = c0\<lparr>m_timed_observation_scheduler := sch, m_eventViewList := ev, m_timedViewList := ti\<rparr>
     \<and> opened (event_names pre) ev \<and> opened (timed_names pre) ti \<and> timed_ok c)"

lemma wp_build_view:
  assumes r: "view_ready M (vws_outputs (exp_views e)) (m_currentTime c0) (m_durationTime c0) elem" and now: "m_currentTime c0 \<noteq> dnan" "\<not> isInfinity (m_currentTime c0)"
    and b: "views_built c0 pre c"
  shows "wp (build_view M e inst elem) c (\<lambda>_. views_built c0 (pre @ [elem]))"
proof -
  let ?v = "snd elem" and ?n = "fst elem"
  have name: "vw_name ?v = ?n" using r by (simp add: view_ready_def)
  from b obtain ev ti sch where c: "c = c0\<lparr>m_timed_observation_scheduler := sch, m_eventViewList := ev, m_timedViewList := ti\<rparr>"
    and ev: "opened (event_names pre) ev" and ti: "opened (timed_names pre) ti" and ok: "timed_ok c" unfolding views_built_def by blast
  consider "\<not> vw_enabled ?v" | "vw_enabled ?v" "vw_type ?v = TIMED" | "vw_enabled ?v" "vw_type ?v \<noteq> TIMED" by blast
  then show ?thesis
  proof cases
    case 1
    then have "event_names (pre @ [elem]) = event_names pre" "timed_names (pre @ [elem]) = timed_names pre"
      by (auto simp: event_names_def timed_names_def)
    then have "views_built c0 (pre @ [elem]) c" using b by (simp add: views_built_def)
    then show ?thesis using 1 by (simp add: build_view_def wp_retS)
  next
    case 2
    let ?ev = "\<lparr>ve_view = ?n, ve_time = m_currentTime c0, ve_timestep = vw_timestep ?v\<rparr>"
    have names: "event_names (pre @ [elem]) = event_names pre" "timed_names (pre @ [elem]) = insert ?n (timed_names pre)"
      using 2 by (auto simp: event_names_def timed_names_def)
    have r2: "opens M (vws_outputs (exp_views e)) ?v" "\<not> isInfinity (vw_timestep ?v)" "advances (m_durationTime c0) ?ev"
      using r 2 by (auto simp: view_ready_def)
    have built: "views_built c0 (pre @ [elem]) (c\<lparr>m_timedViewList := l, m_timed_observation_scheduler := push ?ev sch\<rparr>)"
      if l: "opened (insert ?n (timed_names pre)) l" for l
    proof -
      let ?c = "c\<lparr>m_timedViewList := l, m_timed_observation_scheduler := push ?ev sch\<rparr>"
      have sch: "is_heap sch" "\<forall>e \<in> set sch. event_ok (timed_names pre) (m_durationTime c0) e"
        using ok ti by (auto simp: timed_ok_def c opened_def)
      then have "dated sch" by (auto simp: dated_def event_ok_def)
      note push = push_spec [OF sch(1) this, of ?ev]
      have "event_ok (insert ?n (timed_names pre)) (m_durationTime c0) e" if "e \<in> set (push ?ev sch)" for e
      proof -
        have "e = ?ev \<or> e \<in> set sch" using that arg_cong [OF push(2), of set_mset] now(1) by auto
        then show ?thesis using sch(2) r2 now by (auto simp: event_ok_def)
      qed
      then have "timed_ok ?c" using push(1) now(1) l by (simp add: timed_ok_def c opened_def)
      then show ?thesis unfolding views_built_def names using l ev by (intro exI [of _ ev] exI [of _ l] exI [of _ "push ?ev sch"]) (simp add: c)
    qed
    from wp_opened_entry [OF ti r2(1) refl, of ?n] obtain outp data where o: "Outputs_get (vw_output ?v) (vws_outputs (exp_views e)) = Inr outp"
      "clone_ptr clone (outp_data outp) = Inr data"
      "\<And>file t. wp (on_entry ?n (View_open M ?n outp file t data)) (smap_insert ?n closed_view ti) (\<lambda>_. opened (insert ?n (timed_names pre)))" by blast
    have neg: "\<not> isNegativeInfinity (m_currentTime c0)" using now(2) by (auto simp: isInfinity_iff isNegativeInfinity_iff)
    have fields: "m_currentTime c = m_currentTime c0" "m_timedViewList c = ti" "m_timed_observation_scheduler c = sch" by (simp_all add: c)
    have step: "wp (on_timed (addObservation ?n (m_currentTime c0) (vw_timestep ?v))) (c\<lparr>m_timedViewList := l\<rparr>) (\<lambda>_. views_built c0 (pre @ [elem]))"
      if "opened (insert ?n (timed_names pre)) l" for l
      using built [OF that] now r2(2) neg by (simp add: on_timed_def addObservation_def ViewEvent_new_def wp_simps fields)
    show ?thesis
      using 2 name
      by (simp add: build_view_def open_view_def wp_simps o(1,2) insert_timed_view_def on_timed_view_def fields)
        (rule wp_mono [OF o(3)], rule step)
  next
    case 3
    have names: "timed_names (pre @ [elem]) = timed_names pre" "event_names (pre @ [elem]) = insert ?n (event_names pre)"
      using 3 by (auto simp: event_names_def timed_names_def)
    have r3: "opens M (vws_outputs (exp_views e)) ?v" using r 3 by (auto simp: view_ready_def)
    from wp_opened_entry [OF ev r3 refl, of ?n] obtain outp data where o: "Outputs_get (vw_output ?v) (vws_outputs (exp_views e)) = Inr outp"
      "clone_ptr clone (outp_data outp) = Inr data"
      "\<And>file t. wp (on_entry ?n (View_open M ?n outp file t data)) (smap_insert ?n closed_view ev) (\<lambda>_. opened (insert ?n (event_names pre)))" by blast
    have fields: "m_currentTime c = m_currentTime c0" "m_eventViewList c = ev" by (simp_all add: c)
    have step: "views_built c0 (pre @ [elem]) (c\<lparr>m_eventViewList := l\<rparr>)" if "opened (insert ?n (event_names pre)) l" for l
      unfolding views_built_def names using that ti ok
      by (intro exI [of _ l] exI [of _ ti] exI [of _ sch]) (simp add: c timed_ok_def)
    show ?thesis
      using 3 name
      by (simp add: build_view_def open_view_def wp_simps o(1,2) insert_event_view_def on_event_view_def fields)
        (rule wp_mono [OF o(3)], rule step)
  qed
qed

lemma wp_buildViews:
  assumes "\<And>elem. elem \<in> set (vws_list (exp_views e)) \<Longrightarrow> view_ready M (vws_outputs (exp_views e)) (m_currentTime c) (m_durationTime c) elem"
    and "m_currentTime c \<noteq> dnan" "\<not> isInfinity (m_currentTime c)"
    and "m_timed_observation_scheduler c = []" "m_eventViewList c = []" "m_timedViewList c = []"
  shows "wp (buildViews M e inst) c (\<lambda>_. views_built c (vws_list (exp_views e)))"
  unfolding buildViews_def
proof (rule wp_forS_prefix)
  have "c = c\<lparr>m_timed_observation_scheduler := [], m_eventViewList := [], m_timedViewList := []\<rparr>"
    using assms(4-6) by (intro coordinator.equality) simp_all
  then show "views_built c [] c" unfolding views_built_def
    using assms(4-6) by (intro exI [of _ "[]"]) (simp add: opened_def event_names_def timed_names_def timed_ok_def is_heap_def)
qed (rule wp_build_view [OF assms(1-3)], auto)

section \<open>Dynamics\<close>

text \<open>The library has a class for the dynamics, not an executive, and its constructor returns the object.\<close>

definition constructs :: "('s, 'u, 'p) modules \<Rightarrow> dynamic \<Rightarrow> addr \<Rightarrow> init_event_list \<Rightarrow> 'u \<Rightarrow> bool" where
  "constructs M dyn a events u \<longleftrightarrow>
     (if dnm_package dyn \<noteq> [] then
        (\<exists>f. md_symbol M (dnm_package dyn) (dnm_library dyn) = Inr (DynamicsSymbol f) \<and> f a events = Inr u)
        \<or> (\<exists>f. md_symbol M (dnm_package dyn) (dnm_library dyn) = Inr (WrapperSymbol f) \<and> f (dnm_library dyn) a events = Inr u)
      else (\<exists>f. md_factory M (dnm_library dyn) = Inr (DynamicsSymbol f) \<and> f a events = Inr u))"

definition observable_ok :: "views \<Rightarrow> string \<Rightarrow> bool" where
  "observable_ok vs name \<longleftrightarrow> name = [] \<or> (\<exists>ob. map_of (vws_observables vs) name = Some ob \<and> distinct (attached_views ob)
     \<and> (\<forall>e \<in> set (attached_views ob). map_of (vws_list vs) (snd e) \<noteq> None))"

lemma some_event_view_total: "(\<And>e. e \<in> set es \<Longrightarrow> map_of (vws_list vs) (snd e) \<noteq> None) \<Longrightarrow> \<exists>b. some_event_view vs es = Inr b"
  by (induction es) (auto simp: Views_get_def split: option.split)

lemma haveEventView_total: "observable_ok vs name \<Longrightarrow> \<exists>b. haveEventView vs name = Inr b \<and> (b \<longrightarrow> name \<noteq> [])"
  unfolding observable_ok_def
proof (elim disjE exE conjE)
  fix ob
  assume "map_of (vws_observables vs) name = Some ob" "\<forall>e \<in> set (attached_views ob). map_of (vws_list vs) (snd e) \<noteq> None"
  then show ?thesis using some_event_view_total [of "attached_views ob" vs] by (auto simp: haveEventView_def Observables_get_def)
qed (auto simp: haveEventView_def)

lemma assign_views:
  assumes "\<And>e. e \<in> set es \<Longrightarrow> map_of (vws_list vs) (snd e) \<noteq> None" "fst ` set (all_ports ob) \<subseteq> V"
  shows "\<exists>ob'. foldE (assign_view V vs) es ob = Inr ob' \<and> fst ` set (all_ports ob') \<subseteq> V"
  using assms
proof (induction es arbitrary: ob)
  case (Cons e es)
  obtain v where v: "map_of (vws_list vs) (snd e) = Some v" using Cons.prems(1) [of e] by auto
  have "\<exists>ob1. assign_view V vs e ob = Inr ob1 \<and> fst ` set (all_ports ob1) \<subseteq> V"
    using Cons.prems(2) v by (simp add: assign_view_def Views_get_def Let_def all_ports_def image_Un)
  then obtain ob1 where "assign_view V vs e ob = Inr ob1" "fst ` set (all_ports ob1) \<subseteq> V" by blast
  then show ?case using Cons.IH [of ob1] Cons.prems(1) by auto
qed simp

lemma assignEventView_total:
  assumes "observable_ok vs name" "name \<noteq> []"
  shows "\<exists>ob. assignEventView V vs name = Inr ob \<and> fst ` set (all_ports ob) \<subseteq> V"
proof -
  obtain ob where ob: "map_of (vws_observables vs) name = Some ob" "\<And>e. e \<in> set (attached_views ob) \<Longrightarrow> map_of (vws_list vs) (snd e) \<noteq> None"
    using assms by (auto simp: observable_ok_def)
  from assign_views [OF ob(2), where V = V and ob = empty_observer] show ?thesis
    using ob(1) by (simp add: assignEventView_def Observables_get_def empty_observer_def all_ports_def)
qed

definition attached_ok :: "'u \<Rightarrow> string set \<Rightarrow> 'u attached \<Rightarrow> bool" where
  "attached_ok u V d \<longleftrightarrow> (\<exists>ob. d = (u, ob, False) \<and> (\<forall>x. ob = Some x \<longrightarrow> fst ` set (all_ports x) \<subseteq> V))"

lemma wp_add_observer:
  assumes "observable_ok vs name"
  shows "wp (add_observer vs name False u) c (\<lambda>d c'. c' = c \<and> attached_ok u (dom (map_of (m_eventViewList c))) d)"
proof -
  obtain b where b: "haveEventView vs name = Inr b" "b \<longrightarrow> name \<noteq> []" using haveEventView_total [OF assms] by blast
  show ?thesis
  proof (cases b)
    case True
    with b assignEventView_total [OF assms] show ?thesis
      by (auto simp: add_observer_def wp_simps attached_ok_def)
  qed (use b in \<open>auto simp: add_observer_def wp_simps attached_ok_def\<close>)
qed

lemma wp_attachDynamics:
  assumes "constructs M dyn a events u" "observable_ok vs name"
  shows "wp (attachDynamics M vs a dyn events name) c (\<lambda>d c'. c' = c \<and> attached_ok u (dom (map_of (m_eventViewList c))) d)"
proof -
  let ?Q = "\<lambda>d c'. c' = c \<and> attached_ok u (dom (map_of (m_eventViewList c))) d"
  have dyn: "wp (buildNewDynamics vs name (Inr u)) c ?Q"
    unfolding buildNewDynamics_def modelling_error_def by (rule wp_catchS) (simp add: wp_simps wp_add_observer [OF assms(2)])
  have wrap: "wp (buildNewDynamicsWrapper (Inr u)) c ?Q"
    unfolding buildNewDynamicsWrapper_def modelling_error_def by (rule wp_catchS) (simp add: wp_simps attached_ok_def)
  show ?thesis
    unfolding attachDynamics_def modelling_error_def
    by (rule wp_catchS) (use assms(1) dyn wrap in \<open>auto simp: constructs_def wp_simps split: if_splits\<close>)
qed

section \<open>The start of a simulator\<close>

text \<open>The kernel before the first date: nothing is active.\<close>

definition starting :: "('q \<Rightarrow> 'h \<Rightarrow> (time \<times> sim_id) option) \<Rightarrow> ('q \<Rightarrow> bool) \<Rightarrow> ('q, 'h, 'u) kernel \<Rightarrow> bool" where
  "starting elems invar k \<longleftrightarrow> sched_ok elems invar k \<and> k_time k = negativeInfinity \<and> k_bag k = empty_bag"

lemma starting_put:
  assumes "starting elems invar k" "k_sims k x = None \<or> (\<exists>sm0. k_sims k x = Some sm0 \<and> sim_handle sm0 = None)" "sim_handle sm = None"
  shows "starting elems invar (put_sim x sm k)"
proof -
  have ag: "agree (elems (k_heap k)) (k_sims k)" using assms(1) by (simp add: starting_def sched_ok_def sched_from_def)
  have "agree (elems (k_heap k)) ((k_sims k)(x \<mapsto> sm))"
  proof (rule agreeI)
    fix h t y
    assume "elems (k_heap k) h = Some (t, y)"
    from agree_entry [OF ag this] show "\<exists>sm'. ((k_sims k)(x \<mapsto> sm)) y = Some sm' \<and> sim_handle sm' = Some h \<and> sim_tn sm' = t"
      using assms(2) by auto
  next
    fix y sm' h
    assume "((k_sims k)(x \<mapsto> sm)) y = Some sm'" "sim_handle sm' = Some h"
    then have "k_sims k y = Some sm'" using assms(3) by (auto split: if_splits)
    from agree_handle [OF ag this \<open>sim_handle sm' = Some h\<close>] show "elems (k_heap k) h = Some (sim_tn sm', y) \<and> \<not> sim_internal sm'" .
  qed
  then show ?thesis using assms(1) by (auto simp: starting_def sched_ok_def sched_from_def put_sim_def bag_ok_def empty_bag_def)
qed

lemma wp_Simulator_init:
  assumes "well_behaved D"
  shows "wp (Simulator_init D t) sm (\<lambda>tn sm'. \<exists>d u. dle (dfin 0) d \<and> tn = dadd d t \<and> sm' = sm\<lparr>sim_dynamics := u, sim_tn := tn\<rparr>)"
proof -
  have d: "wp (dyn_init D t) (sim_dynamics sm) (\<lambda>d _. dle (dfin 0) d)"
    using assms by (simp add: well_behaved_def gives_duration_def)
  show ?thesis
    unfolding Simulator_init_def wp_bindS wp_call_user
    by (rule wp_mono [OF d]) (auto simp: wp_simps double_simps)
qed

context event_heap
begin

lemma wp_processInit:
  assumes P: "pf_heap P = H" and k: "starting elems invar (m_eventTable c)" and sm: "k_sims (m_eventTable c) x = Some sm"
    and f: "\<not> sim_executive sm" "sim_handle sm = None" "\<not> sim_internal sm"
    and D: "well_behaved (pf_dynamics P x)" and now: "m_currentTime c \<noteq> dnan" "\<not> isInfinity (m_currentTime c)"
  shows "wp (processInit P E x) c (\<lambda>_ c'. \<exists>k u tn h. c' = c\<lparr>m_eventTable := k\<rparr> \<and> starting elems invar k
    \<and> k_sims k = (k_sims (m_eventTable c))(x \<mapsto> sm\<lparr>sim_dynamics := u, sim_tn := tn, sim_handle := h\<rparr>)
    \<and> dle (m_currentTime c) tn \<and> (h = None \<longrightarrow> tn = infinity))"
proof -
  let ?k = "m_eventTable c" and ?now = "m_currentTime c"
  have fin: "?now \<noteq> dinf" "?now \<noteq> dninf" using now(2) by (auto simp: isInfinity_iff)
  have step: "wp (if \<not> isInfinity tn then addInternal H x tn else retS ()) (put_sim x (sm\<lparr>sim_dynamics := u, sim_tn := tn\<rparr>) ?k)
      (\<lambda>_ k. starting elems invar k \<and> dle ?now tn \<and> (\<exists>h. k_sims k = (k_sims ?k)(x \<mapsto> sm\<lparr>sim_dynamics := u, sim_tn := tn, sim_handle := h\<rparr>)
         \<and> (h = None \<longrightarrow> tn = infinity)))" if d: "dle (dfin 0) d" "tn = dadd d ?now" for d tn u
  proof -
    let ?sm = "sm\<lparr>sim_dynamics := u, sim_tn := tn\<rparr>"
    have tn: "dle ?now tn" using dadd_nonneg_ge [OF d(1) now(1) fin(2)] d(2) by (simp add: dadd_comm [of d])
    have k1: "starting elems invar (put_sim x ?sm ?k)" using sm f by (intro starting_put [OF k]) auto
    show ?thesis
    proof (cases "isInfinity tn")
      case True
      have "tn = infinity" using tn True fin by (cases ?now rule: double_cases) (auto simp: isInfinity_iff double_simps)
      moreover have "\<exists>h. (k_sims ?k)(x \<mapsto> ?sm) = (k_sims ?k)(x \<mapsto> sm\<lparr>sim_dynamics := u, sim_tn := tn, sim_handle := h\<rparr>)"
        by (intro exI [of _ None] arg_cong [where f = "\<lambda>s. (k_sims ?k)(x \<mapsto> s)"] simulator.equality) (simp_all add: f(2))
      ultimately show ?thesis using True k1 tn by (auto simp: wp_retS put_sim_def)
    next
      case False
      have "dle (k_time (put_sim x ?sm ?k)) tn" using k1 tn by (auto simp: starting_def double_simps)
      from addInternal_wp [OF _ _ _ _ _ this False, of x ?sm] k1 f
      have "wp (addInternal H x tn) (put_sim x ?sm ?k) (\<lambda>_ k'. sched_ok elems invar k' \<and> k_time k' = k_time (put_sim x ?sm ?k) \<and> k_bag k' = k_bag (put_sim x ?sm ?k)
        \<and> (\<exists>h. elems (k_heap (put_sim x ?sm ?k)) h = None \<and> elems (k_heap k') = (elems (k_heap (put_sim x ?sm ?k)))(h \<mapsto> (tn, x))
        \<and> k_sims k' = (k_sims (put_sim x ?sm ?k))(x \<mapsto> ?sm\<lparr>sim_handle := Some h\<rparr>)))"
        by (simp add: starting_def put_sim_def)
      then have "wp (addInternal H x tn) (put_sim x ?sm ?k) (\<lambda>_ k. starting elems invar k \<and> dle ?now tn \<and>
         (\<exists>h. k_sims k = (k_sims ?k)(x \<mapsto> sm\<lparr>sim_dynamics := u, sim_tn := tn, sim_handle := h\<rparr>) \<and> (h = None \<longrightarrow> tn = infinity)))"
        by (rule wp_mono) (use k1 tn in \<open>auto simp: starting_def put_sim_def\<close>)
      then show ?thesis using False by simp
    qed
  qed
  have "wp (on_kernel (on_sim x (Simulator_init (pf_dynamics P x) ?now))) c (\<lambda>tn c1.
    \<exists>d u. dle (dfin 0) d \<and> tn = dadd d ?now \<and> c1 = c\<lparr>m_eventTable := put_sim x (sm\<lparr>sim_dynamics := u, sim_tn := tn\<rparr>) ?k\<rparr>)"
    using sm by (simp add: wp_on_kernel wp_on_sim) (rule wp_mono [OF wp_Simulator_init [OF D]], blast)
  then have "wp (on_kernel (on_sim x (Simulator_init (pf_dynamics P x) ?now))) c (\<lambda>tn c1.
    wp (if \<not> isInfinity tn then on_kernel (addInternal H x tn) else retS ()) c1 (\<lambda>_ c'. \<exists>k u tn h. c' = c\<lparr>m_eventTable := k\<rparr> \<and> starting elems invar k
    \<and> k_sims k = (k_sims ?k)(x \<mapsto> sm\<lparr>sim_dynamics := u, sim_tn := tn, sim_handle := h\<rparr>) \<and> dle ?now tn \<and> (h = None \<longrightarrow> tn = infinity)))"
  proof (rule wp_mono, elim exE conjE)
    fix tn c1 d u
    assume d: "dle (dfin 0) d" "tn = dadd d ?now" and c1: "c1 = c\<lparr>m_eventTable := put_sim x (sm\<lparr>sim_dynamics := u, sim_tn := tn\<rparr>) ?k\<rparr>"
    have eq: "(if \<not> isInfinity tn then on_kernel (addInternal H x tn) else retS ()) = on_kernel (if \<not> isInfinity tn then addInternal H x tn else retS ())"
      by (auto simp: on_kernel_def focus_def retS_def fun_eq_iff)
    show "wp (if \<not> isInfinity tn then on_kernel (addInternal H x tn) else retS ()) c1 (\<lambda>_ c'. \<exists>k u tn h. c' = c\<lparr>m_eventTable := k\<rparr> \<and> starting elems invar k
      \<and> k_sims k = (k_sims ?k)(x \<mapsto> sm\<lparr>sim_dynamics := u, sim_tn := tn, sim_handle := h\<rparr>) \<and> dle ?now tn \<and> (h = None \<longrightarrow> tn = infinity))"
      unfolding eq c1 wp_on_kernel
    proof (rule back_subst [of "\<lambda>k. wp _ k _"])
      show "wp (if \<not> isInfinity tn then addInternal H x tn else retS ()) (put_sim x (sm\<lparr>sim_dynamics := u, sim_tn := tn\<rparr>) ?k)
        (\<lambda>_ k. \<exists>ka ua tna h. c\<lparr>m_eventTable := put_sim x (sm\<lparr>sim_dynamics := u, sim_tn := tn\<rparr>) ?k, m_eventTable := k\<rparr> = c\<lparr>m_eventTable := ka\<rparr>
          \<and> starting elems invar ka \<and> k_sims ka = (k_sims ?k)(x \<mapsto> sm\<lparr>sim_dynamics := ua, sim_tn := tna, sim_handle := h\<rparr>)
          \<and> dle ?now tna \<and> (h = None \<longrightarrow> tna = infinity))"
        by (rule wp_mono [OF step [OF d]]) (use coordinator.equality in auto)
    qed simp
  qed
  then show ?thesis using sm f(1) unfolding processInit_def P
    by (simp add: wp_bindS wp_getS wp_on_kernel [of "get_sim x"] wp_get_sim)
qed

end

end
