(* ===== verification/Project_Loading.thy ===== *)
theory Project_Loading
  imports Loading
begin

text \<open>
  The models of a project: what \<^verbatim>\<open>createModel\<close> does for one atomic model, \<^verbatim>\<open>createModels\<close> for all of them, and
  the state in which \<^verbatim>\<open>RootCoordinator::load\<close> leaves the coordinator.
\<close>

section \<open>The ports a view observes\<close>

text \<open>Views after ports of the simulator \<open>x\<close> were added to them; \<open>pre\<close> lists the ports with their views.\<close>

definition wider :: "sim_id \<Rightarrow> (string \<times> string) list \<Rightarrow> string \<Rightarrow> 'p view \<Rightarrow> 'p view \<Rightarrow> bool" where
  "wider x pre n v v' \<longleftrightarrow> (view_plugin v' = None \<longleftrightarrow> view_plugin v = None)
     \<and> set (view_observables v') \<subseteq> set (view_observables v) \<union> {(x, p) | p. (p, n) \<in> set pre}"

definition grown :: "sim_id \<Rightarrow> (string \<times> string) list \<Rightarrow> (string \<times> 'p view) list \<Rightarrow> (string \<times> 'p view) list \<Rightarrow> bool" where
  "grown x pre l l' \<longleftrightarrow> (\<forall>n. rel_option (wider x pre n) (map_of l n) (map_of l' n))"

definition observing :: "sim_id \<Rightarrow> ('q, 'h, 'u, 'p) coordinator \<Rightarrow> (string \<times> string) list \<Rightarrow> ('q, 'h, 'u, 'p) coordinator \<Rightarrow> bool" where
  "observing x c pre c' \<longleftrightarrow> (\<exists>ev ti. c' = c\<lparr>m_eventViewList := ev, m_timedViewList := ti\<rparr>
     \<and> grown x pre (m_eventViewList c) ev \<and> grown x pre (m_timedViewList c) ti)"

text \<open>No view observes a simulator that does not exist.\<close>

definition observed_sims :: "('q, 'h, 'u, 'p) coordinator \<Rightarrow> sim_id set \<Rightarrow> bool" where
  "observed_sims c X \<longleftrightarrow> (\<forall>n v e. map_of (m_eventViewList c) n = Some v \<or> map_of (m_timedViewList c) n = Some v \<longrightarrow> e \<in> set (view_observables v) \<longrightarrow> fst e \<in> X)"

lemma grown_refl: "grown x [] l l"
  by (simp add: grown_def wider_def option.rel_refl)

lemma grown_mono: "grown x pre l l' \<Longrightarrow> grown x (pre @ [e]) l l'"
  unfolding grown_def by (rule allI, erule allE, erule option.rel_mono_strong) (auto simp: wider_def)

lemma grown_some: "grown x pre l l' \<Longrightarrow> map_of l' n = Some v' \<Longrightarrow> \<exists>v. map_of l n = Some v \<and> wider x pre n v v'"
  unfolding grown_def using rel_option_backward by metis

lemma grown_dom: "grown x pre l l' \<Longrightarrow> dom (map_of l') = dom (map_of l)"
  unfolding grown_def dom_def by (metis option.rel_distinct(1,2) option.exhaust)

lemma grown_update:
  assumes "grown x pre l l'" "map_of l' n = Some v'" "view_plugin v'' = None \<longleftrightarrow> view_plugin v' = None"
    "set (view_observables v'') = insert (x, p) (set (view_observables v'))"
  shows "grown x (pre @ [(p, n)]) l (smap_update n v'' l')"
proof -
  obtain v where v: "map_of l n = Some v" "wider x pre n v v'" using grown_some [OF assms(1,2)] by blast
  then have "wider x (pre @ [(p, n)]) n v v''" using assms(3,4) by (auto simp: wider_def)
  then show ?thesis using grown_mono [OF assms(1), of "(p, n)"] v(1) by (simp add: grown_def)
qed

lemma wp_addObservable:
  assumes W: "plugin_ok W" and nm: "env_names env x = Inr nm" and v: "view_plugin v \<noteq> None" and new: "(x, p) \<notin> set (view_observables v)"
  shows "wp (addObservable W env x p t) v (\<lambda>_ v'. view_plugin v' \<noteq> None \<and> set (view_observables v') = insert (x, p) (set (view_observables v)))"
proof -
  obtain a b where ab: "nm = (a, b)" by force
  let ?v = "v\<lparr>view_observables := mmap_insert x p (view_observables v)\<rparr>"
  have "returns (oov_onNewObservable W a b p (view_name v) t)" using W by (simp add: plugin_ok_def)
  from wp_on_plugin [OF _ this, of ?v] v
  have "wp (on_plugin (oov_onNewObservable W a b p (view_name v) t)) ?v (\<lambda>_ v'. view_plugin v' \<noteq> None \<and> set (view_observables v') = insert (x, p) (set (view_observables v)))"
    by (auto simp: same_view_def elim!: wp_mono)
  moreover have "\<not> View_exist_port x p v" using new by (auto simp: View_exist_port_def mmap_range_def)
  ultimately show ?thesis using nm v by (simp add: addObservable_def wp_simps ab)
qed

lemma on_entry_grown:
  assumes g: "grown x pre l l'" and v: "map_of l' n = Some v" "view_plugin v \<noteq> None"
    and m: "wp m v (\<lambda>_ v'. view_plugin v' \<noteq> None \<and> set (view_observables v') = insert (x, p) (set (view_observables v)))"
  shows "wp (on_entry n m) l' (\<lambda>_. grown x (pre @ [(p, n)]) l)"
proof -
  obtain y v' where "m v = Ret y v'" "view_plugin v' \<noteq> None" "set (view_observables v') = insert (x, p) (set (view_observables v))"
    using m by (auto simp: wp_iff)
  then show ?thesis using grown_update [OF g v(1), of v' p] v by (simp add: on_entry_def wp_def)
qed

lemma wp_observe_ports:
  assumes vw: "viewable P c" and gs: "m_simulator c a = Some x" and sm: "k_sims (m_eventTable c) x \<noteq> None"
    and free: "observed_sims c X" "x \<notin> X" and dist: "distinct es"
  shows "wp (forS (\<lambda>e. addObservableToView P a (fst e) (snd e)) es) c (\<lambda>_. observing x c es)"
proof (rule wp_forS_prefix)
  have "c = c\<lparr>m_eventViewList := m_eventViewList c, m_timedViewList := m_timedViewList c\<rparr>" by simp
  then show "observing x c [] c" unfolding observing_def using grown_refl by blast
  fix pre e post c'
  assume split: "es = pre @ e # post" and J: "observing x c pre c'"
  let ?n = "snd e" and ?p = "fst e"
  from J obtain ev ti where c': "c' = c\<lparr>m_eventViewList := ev, m_timedViewList := ti\<rparr>"
    and ev: "grown x pre (m_eventViewList c) ev" and ti: "grown x pre (m_timedViewList c) ti" unfolding observing_def by blast
  have fields: "m_eventViewList c' = ev" "m_timedViewList c' = ti" "m_simulator c' a = Some x" by (simp_all add: c' gs)
  obtain nm where nm: "env_names (model_env_of P c') x = Inr nm" using vw sm by (fastforce simp: viewable_def c' model_env_of_def)
  have W: "plugin_ok (pf_plugin P)" using vw by (simp add: viewable_def)
  have e: "(?p, ?n) \<notin> set pre" using dist split by auto
  have fresh: "(x, ?p) \<notin> set (view_observables v')" "view_plugin v' \<noteq> None"
    if g: "grown x pre l l'" and v': "map_of l' ?n = Some v'" and l: "l = m_eventViewList c \<or> l = m_timedViewList c" for l l' v'
  proof -
    obtain v where v: "map_of l ?n = Some v" "wider x pre ?n v v'" using grown_some [OF g v'] by blast
    have "(x, ?p) \<notin> set (view_observables v)" using free v(1) l by (fastforce simp: observed_sims_def)
    then show "(x, ?p) \<notin> set (view_observables v')" using v(2) e by (auto simp: wider_def)
    show "view_plugin v' \<noteq> None" using v(1,2) l vw by (auto simp: viewable_def wider_def)
  qed
  have add: "wp (on_entry ?n (addObservable (pf_plugin P) (model_env_of P c') x ?p (m_currentTime c'))) l' (\<lambda>_. grown x (pre @ [e]) l)"
    if g: "grown x pre l l'" and n: "map_of l' ?n = Some v'" and l: "l = m_eventViewList c \<or> l = m_timedViewList c" for l l' v'
    using on_entry_grown [OF g n fresh(2) [OF g n l] wp_addObservable [OF W nm fresh(2) [OF g n l] fresh(1) [OF g n l]]] by simp
  have "wp (if map_of ev ?n \<noteq> None then on_event_view ?n (addObservable (pf_plugin P) (model_env_of P c') x ?p (m_currentTime c'))
      else if map_of ti ?n \<noteq> None then on_timed_view ?n (addObservable (pf_plugin P) (model_env_of P c') x ?p (m_currentTime c'))
      else retS ()) c' (\<lambda>_. observing x c (pre @ [e]))"
  proof -
    consider v where "map_of ev ?n = Some v" | v where "map_of ev ?n = None" "map_of ti ?n = Some v" | "map_of ev ?n = None" "map_of ti ?n = None" by blast
    then show ?thesis
    proof cases
      case 1
      have "observing x c (pre @ [e]) (c'\<lparr>m_eventViewList := l\<rparr>)" if "grown x (pre @ [e]) (m_eventViewList c) l" for l
        unfolding observing_def using that grown_mono [OF ti] c' by (intro exI [of _ l] exI [of _ ti]) simp
      then show ?thesis using 1 by (simp add: on_event_view_def wp_focus fields) (rule wp_mono [OF add [OF ev 1]], auto)
    next
      case 2
      have "observing x c (pre @ [e]) (c'\<lparr>m_timedViewList := l\<rparr>)" if "grown x (pre @ [e]) (m_timedViewList c) l" for l
        unfolding observing_def using that grown_mono [OF ev] c' by (intro exI [of _ ev] exI [of _ l]) simp
      then show ?thesis using 2 by (simp add: on_timed_view_def wp_focus fields) (rule wp_mono [OF add [OF ti 2(2)]], auto)
    next
      case 3
      have "observing x c (pre @ [e]) c'" unfolding observing_def using grown_mono [OF ev] grown_mono [OF ti] c' by blast
      then show ?thesis using 3 by (simp add: wp_retS)
    qed
  qed
  then show "wp (addObservableToView P a ?p ?n) c' (\<lambda>_. observing x c (pre @ [e]))"
    using fields(3) by (auto simp: addObservableToView_def wp_thenS wp_assertS wp_bindS wp_getS fields(1,2) split: if_splits)
qed

section \<open>One model\<close>

definition named :: "('q, 'h, 'u, 'p) platform \<Rightarrow> graph \<Rightarrow> addr \<Rightarrow> bool" where
  "named P g a \<longleftrightarrow> (\<exists>n p. outcome_result (getName a g) = Inr n \<and> outcome_result (getParentName (pf_depth P) a g) = Inr p)"

text \<open>The project has what the model at \<open>a\<close> needs: dynamics with a class, conditions with different ports, an observable.\<close>

definition buildable :: "('s, 'u, 'p) modules \<Rightarrow> factory \<Rightarrow> conditions \<Rightarrow> graph \<Rightarrow> addr \<Rightarrow> bool" where
  "buildable M F cs g a \<longleftrightarrow> (\<exists>n d dyn events u. g a = Some n \<and> m_kind n = Atomic d \<and> map_of (mDynamics F) (m_dynamics d) = Some dyn
     \<and> init_values cs (m_conditions d) = Inr events \<and> constructs M dyn a events u \<and> observable_ok (exp_views (mExperiment F)) (m_observables d))"

text \<open>The simulator of the model number \<open>i\<close> of the list has the address \<open>i + 1\<close>.\<close>

definition unstarted :: "addr list \<Rightarrow> time \<Rightarrow> string set \<Rightarrow> sim_id \<Rightarrow> ('h, 'u) simulator \<Rightarrow> bool" where
  "unstarted as now V x sm \<longleftrightarrow> 0 < x \<and> x \<le> length as \<and> sim_model sm = as ! (x - 1) \<and> \<not> sim_executive sm \<and> observed_views sm \<subseteq> V \<and> sim_targets sm = [] \<and> sim_external sm = []
     \<and> sim_result sm = [] \<and> sim_observations sm = [] \<and> \<not> sim_internal sm \<and> dle now (sim_tn sm) \<and> (sim_handle sm = None \<longrightarrow> sim_tn sm = infinity)"

text \<open>The coordinator while the simulators of the models \<open>as\<close> have been built, from the state \<open>c0\<close> after the views.\<close>

definition making :: "('q \<Rightarrow> 'h \<Rightarrow> (time \<times> sim_id) option) \<Rightarrow> ('q \<Rightarrow> bool) \<Rightarrow> ('q, 'h, 'u, 'p) platform \<Rightarrow> ('q, 'h, 'u, 'p) coordinator
    \<Rightarrow> addr list \<Rightarrow> ('q, 'h, 'u, 'p) coordinator \<Rightarrow> bool" where
  "making elems invar P c0 as c \<longleftrightarrow> starting elems invar (m_eventTable c) \<and> m_simulators c = [1..<Suc (length as)] \<and> dom (k_sims (m_eventTable c)) = set (m_simulators c)
     \<and> viewable P c \<and> timed_ok c \<and> observed_sims c (set (m_simulators c))
     \<and> m_graph c = m_graph c0 \<and> m_currentTime c = m_currentTime c0 \<and> m_durationTime c = m_durationTime c0 \<and> m_delete_model c = m_delete_model c0
     \<and> dom (map_of (m_eventViewList c)) = dom (map_of (m_eventViewList c0))
     \<and> (\<forall>a \<in> set as. \<exists>x sm. m_simulator c a = Some x \<and> k_sims (m_eventTable c) x = Some sm)
     \<and> all_sims (unstarted as (m_currentTime c0) (dom (map_of (m_eventViewList c0)))) (m_eventTable c)"

lemma new_simulator_next:
  assumes "m_simulators c = [1..<Suc n]"
  shows "new_simulator c = Suc n"
proof -
  have "fold max [1..<Suc n] 0 = n" by (induction n) simp_all
  then show ?thesis by (simp only: new_simulator_def assms)
qed

lemma viewable_new:
  assumes "viewable P c" "named P (m_graph c) (sim_model sm)"
  shows "viewable P (c\<lparr>m_simulators := xs, m_simulator := gs, m_eventTable := put_sim x sm (m_eventTable c)\<rparr>)"
proof -
  let ?c = "c\<lparr>m_simulators := xs, m_simulator := gs, m_eventTable := put_sim x sm (m_eventTable c)\<rparr>"
  have "\<exists>nm. env_names (model_env_of P ?c) y = Inr nm" if y: "k_sims (m_eventTable ?c) y = Some sm'" for y sm'
  proof (cases "y = x")
    case True
    then show ?thesis using assms(2) by (auto simp: named_def model_env_of_def put_sim_def)
  next
    case False
    then have "env_names (model_env_of P ?c) y = env_names (model_env_of P c) y"
      by (simp add: model_env_of_def put_sim_def split: option.split)
    then show ?thesis using y False assms(1) by (auto simp: viewable_def put_sim_def)
  qed
  then show ?thesis using assms(1) by (auto simp: viewable_def put_sim_def)
qed

lemma viewable_observing:
  assumes v: "viewable P c" and ob: "observing x c es c'" and x: "k_sims (m_eventTable c) x \<noteq> None"
  shows "viewable P c'"
proof -
  from ob obtain ev ti where c': "c' = c\<lparr>m_eventViewList := ev, m_timedViewList := ti\<rparr>"
    and ev: "grown x es (m_eventViewList c) ev" and ti: "grown x es (m_timedViewList c) ti" unfolding observing_def by blast
  have "m_eventTable c' = m_eventTable c" "m_graph c' = m_graph c" by (simp_all add: c')
  then have "model_env_of P c' = model_env_of P c" unfolding model_env_of_def by (simp only:)
  moreover have "view_plugin w \<noteq> None" if w: "map_of ev n = Some w" for n w
  proof -
    obtain w0 where "map_of (m_eventViewList c) n = Some w0" "wider x es n w0 w" using grown_some [OF ev w] by blast
    moreover from this(1) have "view_plugin w0 \<noteq> None" using v unfolding viewable_def by blast
    ultimately show ?thesis by (simp add: wider_def)
  qed
  moreover have "view_plugin w \<noteq> None \<and> (\<forall>e \<in> set (view_observables w). k_sims (m_eventTable c) (fst e) \<noteq> None)" if w: "map_of ti n = Some w" for n w
  proof -
    obtain w0 where "map_of (m_timedViewList c) n = Some w0" "wider x es n w0 w" using grown_some [OF ti w] by blast
    moreover from this(1) have "view_plugin w0 \<noteq> None \<and> (\<forall>e \<in> set (view_observables w0). k_sims (m_eventTable c) (fst e) \<noteq> None)"
      using v unfolding viewable_def by blast
    ultimately show ?thesis using x by (fastforce simp: wider_def)
  qed
  ultimately show ?thesis using v by (simp add: viewable_def c')
qed

lemma observing_fields:
  assumes "observing x c es c'"
  shows "m_eventTable c' = m_eventTable c" "m_simulators c' = m_simulators c" "m_simulator c' = m_simulator c" "m_graph c' = m_graph c"
    "m_currentTime c' = m_currentTime c" "m_durationTime c' = m_durationTime c" "m_delete_model c' = m_delete_model c"
    "m_timed_observation_scheduler c' = m_timed_observation_scheduler c"
    "dom (map_of (m_eventViewList c')) = dom (map_of (m_eventViewList c))" "dom (map_of (m_timedViewList c')) = dom (map_of (m_timedViewList c))"
proof -
  from assms obtain ev ti where "c' = c\<lparr>m_eventViewList := ev, m_timedViewList := ti\<rparr>"
    "grown x es (m_eventViewList c) ev" "grown x es (m_timedViewList c) ti" unfolding observing_def by blast
  then show "m_eventTable c' = m_eventTable c" "m_simulators c' = m_simulators c" "m_simulator c' = m_simulator c" "m_graph c' = m_graph c"
    "m_currentTime c' = m_currentTime c" "m_durationTime c' = m_durationTime c" "m_delete_model c' = m_delete_model c"
    "m_timed_observation_scheduler c' = m_timed_observation_scheduler c"
    "dom (map_of (m_eventViewList c')) = dom (map_of (m_eventViewList c))" "dom (map_of (m_timedViewList c')) = dom (map_of (m_timedViewList c))"
    using grown_dom [of x es "m_eventViewList c" ev] grown_dom [of x es "m_timedViewList c" ti] by simp_all
qed

lemma observing_sims:
  assumes "observing x c es c'" "observed_sims c X"
  shows "observed_sims c' (insert x X)"
proof -
  from assms(1) obtain ev ti where c': "c' = c\<lparr>m_eventViewList := ev, m_timedViewList := ti\<rparr>"
    and ev: "grown x es (m_eventViewList c) ev" and ti: "grown x es (m_timedViewList c) ti" unfolding observing_def by blast
  have "fst e \<in> insert x X" if w: "map_of ev n = Some w \<or> map_of ti n = Some w" and e: "e \<in> set (view_observables w)" for n w e
  proof -
    obtain v where "map_of (m_eventViewList c) n = Some v \<or> map_of (m_timedViewList c) n = Some v" "wider x es n v w"
      using w grown_some [OF ev, of n w] grown_some [OF ti, of n w] by blast
    then show ?thesis using assms(2) e unfolding observed_sims_def wider_def by fastforce
  qed
  then show ?thesis unfolding observed_sims_def c' by auto
qed

lemma wp_observables:
  assumes "observable_ok vs name" and c: "viewable P c" "m_simulator c a = Some x" "k_sims (m_eventTable c) x \<noteq> None" "observed_sims c X" "x \<notin> X"
  shows "wp (if name \<noteq> [] then bindS (liftS (Observables_get name (vws_observables vs))) (\<lambda>ob.
      forS (\<lambda>e. addObservableToView P a (fst e) (snd e)) (attached_views ob)) else retS ()) c (\<lambda>_ c'. \<exists>es. observing x c es c')"
proof (cases "name = []")
  case True
  have "c = c\<lparr>m_eventViewList := m_eventViewList c, m_timedViewList := m_timedViewList c\<rparr>" by simp
  then have "observing x c [] c" unfolding observing_def using grown_refl by blast
  then show ?thesis using True by (auto simp: wp_retS)
next
  case False
  then obtain ob where ob: "map_of (vws_observables vs) name = Some ob" "distinct (attached_views ob)" using assms(1) by (auto simp: observable_ok_def)
  have "wp (forS (\<lambda>e. addObservableToView P a (fst e) (snd e)) (attached_views ob)) c (\<lambda>_ c'. \<exists>es. observing x c es c')"
    by (rule wp_mono [OF wp_observe_ports [OF c ob(2)]]) blast
  then show ?thesis using False ob(1) by (simp add: wp_simps Observables_get_def)
qed

context event_heap
begin

lemma wp_start_model:
  assumes P: "pf_heap P = H" and mk: "making elems invar P c0 as c" and x: "x = Suc (length as)"
    and sm: "sm = (Simulator_new a u False)\<lparr>sim_observer := ob\<rparr>" "observed_views sm \<subseteq> dom (map_of (m_eventViewList c0))"
    and nm: "named P (m_graph c0) a" and ok: "observable_ok vs name" and now: "m_currentTime c0 \<noteq> dnan" "\<not> isInfinity (m_currentTime c0)"
  shows "wp (thenS (if name \<noteq> [] then bindS (liftS (Observables_get name (vws_observables vs))) (\<lambda>ob.
      forS (\<lambda>e. addObservableToView P a (fst e) (snd e)) (attached_views ob)) else retS ()) (processInit P E x))
      (c\<lparr>m_simulators := m_simulators c @ [x], m_simulator := (m_simulator c)(a \<mapsto> x), m_eventTable := put_sim x sm (m_eventTable c)\<rparr>)
      (\<lambda>_. making elems invar P c0 (as @ [a]))"
proof -
  let ?k = "m_eventTable c" and ?V = "dom (map_of (m_eventViewList c0))"
  let ?c2 = "c\<lparr>m_simulators := m_simulators c @ [x], m_simulator := (m_simulator c)(a \<mapsto> x), m_eventTable := put_sim x sm ?k\<rparr>"
  have m: "starting elems invar ?k" "dom (k_sims ?k) = set (m_simulators c)" "viewable P c" "timed_ok c" "observed_sims c (set (m_simulators c))"
    "m_graph c = m_graph c0" "m_currentTime c = m_currentTime c0" "m_durationTime c = m_durationTime c0" "m_delete_model c = m_delete_model c0"
    "dom (map_of (m_eventViewList c)) = ?V" "\<And>b. b \<in> set as \<Longrightarrow> \<exists>x sm. m_simulator c b = Some x \<and> k_sims ?k x = Some sm"
    "all_sims (unstarted as (m_currentTime c0) ?V) ?k" using mk by (auto simp: making_def)
  have xs: "x \<notin> set (m_simulators c)" "m_simulators c = [1..<Suc (length as)]" using mk x by (auto simp: making_def)
  have new: "k_sims ?k x = None" using m(2) xs(1) by (auto simp: domIff)
  have v2: "viewable P ?c2" by (rule viewable_new [OF m(3)]) (simp add: sm(1) Simulator_new_def m(6) nm)
  have k2: "starting elems invar (m_eventTable ?c2)" using starting_put [OF m(1), of x sm] new by (simp add: sm(1) Simulator_new_def)
  have o2: "observed_sims ?c2 (set (m_simulators c))" using m(5) by (simp add: observed_sims_def)
  show ?thesis unfolding wp_thenS
  proof (rule wp_mono [OF wp_observables [OF ok v2 _ _ o2 xs(1)]], goal_cases)
    case (3 _ c3)
    then obtain es where ob3: "observing x ?c2 es c3" by blast
    note f = observing_fields [OF ob3]
    have v3: "viewable P c3" by (rule viewable_observing [OF v2 ob3]) (simp add: put_sim_def)
    have kx: "k_sims (m_eventTable c3) x = Some sm" by (simp add: f put_sim_def)
    have D: "well_behaved (pf_dynamics P x)" using m(3) by (simp add: viewable_def)
    have "starting elems invar (m_eventTable c3)" "m_currentTime c3 \<noteq> dnan" "\<not> isInfinity (m_currentTime c3)" using k2 now m(7) by (simp_all add: f)
    from wp_processInit [OF P this(1) kx _ _ _ D this(2,3), of E]
    have "wp (processInit P E x) c3 (\<lambda>_ c'. \<exists>k u tn h. c' = c3\<lparr>m_eventTable := k\<rparr> \<and> starting elems invar k
      \<and> k_sims k = (k_sims (m_eventTable c3))(x \<mapsto> sm\<lparr>sim_dynamics := u, sim_tn := tn, sim_handle := h\<rparr>)
      \<and> dle (m_currentTime c3) tn \<and> (h = None \<longrightarrow> tn = infinity))" by (simp add: sm(1) Simulator_new_def)
    then show ?case
    proof (rule wp_mono, elim exE conjE)
      fix r c4 k4 u' tn h
      assume c4: "c4 = c3\<lparr>m_eventTable := k4\<rparr>" and k4: "starting elems invar k4"
        and s4: "k_sims k4 = (k_sims (m_eventTable c3))(x \<mapsto> sm\<lparr>sim_dynamics := u', sim_tn := tn, sim_handle := h\<rparr>)"
        and tn: "dle (m_currentTime c3) tn" "h = None \<longrightarrow> tn = infinity"
      have sims: "k_sims k4 = (k_sims ?k)(x \<mapsto> sm\<lparr>sim_dynamics := u', sim_tn := tn, sim_handle := h\<rparr>)"
        by (simp add: s4 f put_sim_def)
      have "viewable P c4" unfolding c4
        by (rule viewable_kernel [OF v3]) (simp add: s4 kx)
      moreover have "timed_ok c4" using m(4) by (simp add: timed_ok_def c4 f)
      moreover have "observed_sims c4 (set (m_simulators c4))"
        using observing_sims [OF ob3 o2] by (simp add: observed_sims_def c4 f)
      moreover have "\<exists>y sm'. m_simulator c4 b = Some y \<and> k_sims k4 y = Some sm'" if b: "b \<in> set (as @ [a])" for b
      proof (cases "b = a")
        case False
        then obtain y sm' where y: "m_simulator c b = Some y" "k_sims ?k y = Some sm'" using m(11) [of b] b by auto
        moreover have "y \<noteq> x" using new y(2) by auto
        ultimately show ?thesis using False by (simp add: c4 f sims)
      qed (simp add: c4 f sims)
      moreover have "all_sims (unstarted (as @ [a]) (m_currentTime c0) ?V) k4"
      proof -
        have "unstarted (as @ [a]) (m_currentTime c0) ?V x (sm\<lparr>sim_dynamics := u', sim_tn := tn, sim_handle := h\<rparr>)"
          using sm tn m(7) x by (auto simp: unstarted_def Simulator_new_def f observed_views_def)
        moreover have "unstarted (as @ [a]) (m_currentTime c0) ?V y sm'" if "k_sims ?k y = Some sm'" for y sm'
          using all_simsD [OF m(12) that] by (auto simp: unstarted_def nth_append)
        ultimately show ?thesis by (auto simp: all_sims_def sims split: if_splits)
      qed
      ultimately show "making elems invar P c0 (as @ [a]) c4"
        using k4 m(2,6-10) x xs(2) by (simp add: making_def c4 f sims)
    qed
  qed (simp_all add: put_sim_def)
qed

lemma wp_create_atomic:
  assumes P: "pf_heap P = H" and mk: "making elems invar P c0 as c" and b: "buildable M F cs (m_graph c0) a" and nm: "named P (m_graph c0) a"
    and now: "m_currentTime c0 \<noteq> dnan" "\<not> isInfinity (m_currentTime c0)"
  shows "wp (create_atomic P E M F cs a) c (\<lambda>_. making elems invar P c0 (as @ [a]))"
proof -
  from b obtain n d dyn events u where n: "m_graph c0 a = Some n" "m_kind n = Atomic d" "map_of (mDynamics F) (m_dynamics d) = Some dyn"
    "init_values cs (m_conditions d) = Inr events" "constructs M dyn a events u" "observable_ok (exp_views (mExperiment F)) (m_observables d)"
    unfolding buildable_def by blast
  let ?x = "new_simulator c" and ?sm = "Simulator_new a (md_null M) False"
  let ?c1 = "c\<lparr>m_simulators := m_simulators c @ [?x], m_simulator := (m_simulator c)(a \<mapsto> ?x), m_eventTable := put_sim ?x ?sm (m_eventTable c)\<rparr>"
  have g: "m_graph c = m_graph c0" "dom (map_of (m_eventViewList c)) = dom (map_of (m_eventViewList c0))" using mk by (simp_all add: making_def)
  have nx: "?x = Suc (length as)" using mk by (intro new_simulator_next) (simp add: making_def)
  have attach: "wp (attachDynamics M (exp_views (mExperiment F)) a dyn events (m_observables d)) ?c1 (\<lambda>w c'. wp (thenS (on_kernel (upd_sim ?x (addDynamics w)))
      (thenS (if m_observables d \<noteq> [] then bindS (liftS (Observables_get (m_observables d) (vws_observables (exp_views (mExperiment F))))) (\<lambda>ob.
          forS (\<lambda>e. addObservableToView P a (fst e) (snd e)) (attached_views ob)) else retS ()) (processInit P E ?x))) c' (\<lambda>_. making elems invar P c0 (as @ [a])))"
  proof (rule wp_mono [OF wp_attachDynamics [OF n(5,6)]], elim conjE)
    fix w c'
    assume "c' = ?c1" "attached_ok u (dom (map_of (m_eventViewList ?c1))) w"
    then obtain ob where w: "w = (u, ob, False)" "\<And>y. ob = Some y \<Longrightarrow> fst ` set (all_ports y) \<subseteq> dom (map_of (m_eventViewList c0))" and c': "c' = ?c1"
      by (auto simp: attached_ok_def g)
    let ?sm2 = "(Simulator_new a u False)\<lparr>sim_observer := ob\<rparr>"
    have "observed_views ?sm2 \<subseteq> dom (map_of (m_eventViewList c0))" using w(2) by (auto simp: observed_views_def split: option.split)
    from wp_start_model [OF P mk nx refl this nm n(6) now, of E]
    show "wp (thenS (on_kernel (upd_sim ?x (addDynamics w)))
      (thenS (if m_observables d \<noteq> [] then bindS (liftS (Observables_get (m_observables d) (vws_observables (exp_views (mExperiment F))))) (\<lambda>ob.
          forS (\<lambda>e. addObservableToView P a (fst e) (snd e)) (attached_views ob)) else retS ()) (processInit P E ?x))) c' (\<lambda>_. making elems invar P c0 (as @ [a]))"
      unfolding wp_thenS [of "on_kernel _"] wp_on_kernel c' wp_upd_sim
      by (simp add: put_sim_def addDynamics_def w(1) Simulator_new_def)
  qed
  have read: "wp (on_graph (deref a)) c Q = Q n c" for Q
    using n(1) unfolding on_graph_def wp_focus by (simp add: wp_def deref_def g(1) [symmetric])
  have add: "wp (bindS getS (\<lambda>c. Coordinator_addModel a (md_null M) False (new_simulator c))) c Q = Q ?x ?c1" for Q
    by (simp add: Coordinator_addModel_def wp_simps)
  have lift: "wp (liftS (Inr y)) s Q = Q y s" for y s and Q :: "'x \<Rightarrow> ('q, 'h, 'u, 'p) coordinator \<Rightarrow> bool"
    by (simp add: wp_liftS)
  have get: "Dynamics_get (m_dynamics d) (mDynamics F) = Inr dyn" using n(3) by (simp add: Dynamics_get_def)
  show ?thesis
    unfolding create_atomic_def wp_bindS [of "on_graph _"] read n(2) createModel_def model_kind.case wp_bindS [of "liftS _"] get n(4) lift
      wp_bindS [of "bindS getS _"] add wp_bindS [of "attachDynamics _ _ _ _ _ _"]
    by (rule attach)
qed

end

end
