(* ===== verification/Simulation_Run.thy ===== *)
theory Simulation_Run
  imports Project_Loading
begin

text \<open>
  The whole of \<^verbatim>\<open>Simulation::runQuiet\<close>: on a well-formed project \<^verbatim>\<open>RootCoordinator::load\<close> reaches the invariant of the
  simulation loop, the loop ends, and \<^verbatim>\<open>finish\<close> returns the results of the views.
\<close>

section \<open>All the models\<close>

text \<open>The state after the views, in which no model exists yet.\<close>

lemma views_built_making:
  assumes "views_built c0 pre c" "starting elems invar (m_eventTable c0)" "k_sims (m_eventTable c0) = Map.empty" "m_simulators c0 = []"
    and "plugin_ok (pf_plugin P)" "\<And>x. well_behaved (pf_dynamics P x)"
  shows "making elems invar P c [] c"
proof -
  from assms(1) obtain ev ti sch where c: "c = c0\<lparr>m_timed_observation_scheduler := sch, m_eventViewList := ev, m_timedViewList := ti\<rparr>"
    and v: "opened (event_names pre) ev" "opened (timed_names pre) ti" "timed_ok c" unfolding views_built_def by blast
  have f: "m_eventTable c = m_eventTable c0" "m_simulators c = []" "m_eventViewList c = ev" "m_timedViewList c = ti" using assms(4) by (simp_all add: c)
  have "viewable P c" using v(1,2) assms(3,5,6) by (auto simp: viewable_def f opened_def)
  moreover have "observed_sims c {}" using v(1,2) by (auto simp: observed_sims_def f opened_def)
  ultimately show ?thesis using assms(2,3) v(3) by (simp add: making_def f all_sims_def)
qed

context event_heap
begin

lemma wp_createModels:
  assumes P: "pf_heap P = H" and mk: "making elems invar P c0 [] c" and as: "atomic_list (m_graph c0) node as"
    and ok: "\<And>a. a \<in> set as \<Longrightarrow> buildable M F (exp_conditions (mExperiment F)) (m_graph c0) a \<and> named P (m_graph c0) a"
    and now: "m_currentTime c0 \<noteq> dnan" "\<not> isInfinity (m_currentTime c0)"
  shows "wp (createModels P E M F (Some node)) c (\<lambda>_. making elems invar P c0 as)"
proof -
  have g: "m_graph c = m_graph c0" using mk by (simp add: making_def)
  obtain n where n: "m_graph c0 node = Some n" using as by (auto simp: atomic_list_def getAtomicModelList_def split: option.splits)
  have read: "wp (on_graph (deref node)) c Q = Q n c" for Q
    using n unfolding on_graph_def wp_focus by (simp add: wp_def deref_def g [symmetric])
  have all: "wp (forS (create_atomic P E M F (exp_conditions (mExperiment F))) as) c (\<lambda>_. making elems invar P c0 as)"
    by (rule wp_forS_prefix [where J = "\<lambda>as. making elems invar P c0 as"]) (rule mk, rule wp_create_atomic [OF P _ _ _ now], use ok in auto)
  have "as = [node]" if "isAtomic n" using as n that by (simp add: atomic_list_def getAtomicModelList_def)
  then show ?thesis
    unfolding createModels_def option.case wp_bindS [of "on_graph _"] read
    using as all by (cases "isAtomic n") (simp_all add: wp_simps atomic_list_def g)
qed

text \<open>The first bag: the models whose next date is the begin of the experiment.\<close>

lemma making_quiet:
  assumes mk: "making elems invar P c0 as c" and g: "graph_ok (m_graph c0)" and atoms: "\<And>b. atomic_at (m_graph c0) b \<Longrightarrow> b \<in> set as"
    and srv: "\<And>i. i < length as \<Longrightarrow> serves (m_graph c0) (as ! i) (pf_dynamics P (Suc i))"
    and c0: "m_currentTime c0 = t" "t \<noteq> dnan" "\<not> isInfinity t" "m_durationTime c0 \<noteq> dnan" "m_delete_model c0 = []"
  shows "wp (Scheduler_init H t) (m_eventTable c) (\<lambda>_ k. quiet elems invar P (c\<lparr>m_isStarted := True, m_eventTable := k\<rparr>)
    \<and> dom (k_sims k) = set (m_simulators c) \<and> all_sims (\<lambda>x sm. sim_model sm = as ! (x - 1)) k)"
proof -
  let ?k = "m_eventTable c" and ?V = "dom (map_of (m_eventViewList c))"
  have m: "starting elems invar ?k" "dom (k_sims ?k) = set (m_simulators c)" "viewable P c" "timed_ok c" "m_graph c = m_graph c0"
    "m_currentTime c = t" "m_durationTime c = m_durationTime c0" "m_delete_model c = []" "?V = dom (map_of (m_eventViewList c0))"
    "\<And>b. b \<in> set as \<Longrightarrow> \<exists>x sm. m_simulator c b = Some x \<and> k_sims ?k x = Some sm" "all_sims (unstarted as t ?V) ?k"
    using mk c0 by (auto simp: making_def)
  have ok: "sched_ok elems invar ?k" "k_time ?k = negativeInfinity" using m(1) by (auto simp: starting_def)
  then have ag: "agree (elems (k_heap ?k)) (k_sims ?k)" and dts: "dates_ok negativeInfinity (elems (k_heap ?k))"
    by (auto simp: sched_ok_def sched_from_def)
  from ok have "sched_from elems invar negativeInfinity ?k" by (simp add: sched_ok_def)
  from Scheduler_init_wp [OF this c0(2)] show ?thesis
  proof (rule wp_mono, elim conjE)
    fix k
    assume k: "sched_ok elems invar k" "k_time k = t" "bag_unique (k_bag k) = due (elems (k_heap ?k)) (\<lambda>u. dle u t)"
      "elems (k_heap k) = drop_due (elems (k_heap ?k)) (\<lambda>u. dle u t)" "k_sims k = activate (bag_unique (k_bag k)) (k_sims ?k)"
    let ?B = "bag_unique (k_bag k)"
    have sim: "\<exists>sm. k_sims ?k x = Some sm \<and> sm' = (if x \<in> ?B then sm\<lparr>sim_internal := True, sim_handle := None\<rparr> else sm)"
      if "k_sims k x = Some sm'" for x sm' using that by (auto simp: k(5) activate_def split: if_splits)
    have model: "map_option sim_model (k_sims k x) = map_option sim_model (k_sims ?k x)" for x
      by (simp add: k(5) activate_def option.map_comp comp_def)
    have now: "sim_tn sm = t" if B: "x \<in> ?B" and sm: "k_sims ?k x = Some sm" for x sm
    proof -
      from B obtain h u where h: "elems (k_heap ?k) h = Some (u, x)" "dle u t" by (auto simp: k(3) due_def)
      then have "sim_tn sm = u" using agree_entry [OF ag h(1)] sm by auto
      moreover have "dle t (sim_tn sm)" using all_simsD [OF m(11) sm] by (simp add: unstarted_def)
      ultimately show ?thesis using h(2) dval_inject [of t u] by (auto simp: double_simps)
    qed
    have "later t (elems (k_heap k))"
    proof -
      have "dless t u" if h: "elems (k_heap ?k) h = Some (u, x)" "\<not> dle u t" for h u x
        using dts h c0(2) by (fastforce simp: dates_ok_def double_simps)
      then show ?thesis by (auto simp: later_def k(4) drop_due_def split: option.splits if_splits)
    qed
    then have "delivering elems invar k" using k(1,2) by (simp add: delivering_def)
    moreover have "wired (m_graph c) (m_simulator c) (k_sims k)"
    proof -
      have "\<exists>y sm. m_simulator c b = Some y \<and> k_sims k y = Some sm" if "atomic_at (m_graph c0) b" for b
        using m(10) [OF atoms [OF that]] by (auto simp: k(5) activate_def)
      moreover have "sim_targets sm' = []" if x: "k_sims k x = Some sm'" for x sm'
        using sim [OF x] m(11) by (auto simp: all_sims_def unstarted_def)
      ultimately show ?thesis using g by (simp add: wired_def m(5) targets_cached_def mmap_range_def)
    qed
    moreover have "all_sims (member P (m_graph c) ?V) k"
    proof -
      have "member P (m_graph c) ?V x sm'" if x: "k_sims k x = Some sm'" for x sm'
      proof -
        obtain sm where sm: "k_sims ?k x = Some sm" "sm' = (if x \<in> ?B then sm\<lparr>sim_internal := True, sim_handle := None\<rparr> else sm)" using sim [OF x] by blast
        have u: "unstarted as t ?V x sm" using all_simsD [OF m(11) sm(1)] .
        have "serves (m_graph c0) (as ! (x - 1)) (pf_dynamics P (Suc (x - 1)))" by (rule srv) (use u in \<open>auto simp: unstarted_def\<close>)
        then show ?thesis using u sm(2) m(3,5) by (auto simp: member_def unstarted_def observed_views_def pending_views_def viewable_def)
      qed
      then show ?thesis by (simp add: all_sims_def)
    qed
    moreover have "all_sims (idle (k_time k) ?B) k"
    proof -
      have "idle t ?B x sm'" if x: "k_sims k x = Some sm'" for x sm'
        using sim [OF x] now [of x] m(11) by (auto simp: idle_def all_sims_def unstarted_def)
      then show ?thesis by (simp add: all_sims_def k(2))
    qed
    moreover have "viewable P (c\<lparr>m_isStarted := True, m_eventTable := k\<rparr>)"
      using viewable_kernel [OF m(3) model] by (simp add: viewable_def model_env_of_def)
    moreover have "dom (k_sims k) = dom (k_sims ?k)" by (auto simp: k(5) activate_def dom_def)
    moreover have "sim_model sm' = as ! (x - 1)" if x: "k_sims k x = Some sm'" for x sm'
      using sim [OF x] m(11) by (auto simp: all_sims_def unstarted_def)
    then have "all_sims (\<lambda>x sm. sim_model sm = as ! (x - 1)) k" by (simp add: all_sims_def)
    ultimately show "quiet elems invar P (c\<lparr>m_isStarted := True, m_eventTable := k\<rparr>) \<and> dom (k_sims k) = set (m_simulators c)
      \<and> all_sims (\<lambda>x sm. sim_model sm = as ! (x - 1)) k"
      using m(2,4,6,7,8) c0(2-4) k(2) by (simp add: quiet_def calm_def timed_ok_def isInfinity_iff)
  qed
qed

text \<open>\<^verbatim>\<open>Coordinator::init\<close> from the state the constructor leaves.\<close>

lemma wp_Coordinator_init:
  fixes P :: "('q, 'h, 'u, 'p) platform"
  assumes P: "pf_heap P = H" "plugin_ok (pf_plugin P)" "\<And>x. well_behaved (pf_dynamics P x)" and q: "elems q = Map.empty" "invar q"
    and t: "t \<noteq> dnan" "\<not> isInfinity t" "dur \<noteq> dnan" and g: "graph_ok g" and as: "atomic_list g node as" and atoms: "\<And>b. atomic_at g b \<Longrightarrow> b \<in> set as"
    and ready: "\<And>e. e \<in> set (vws_list (exp_views (mExperiment F))) \<Longrightarrow> view_ready M (vws_outputs (exp_views (mExperiment F))) t dur e"
    and built: "\<And>a. a \<in> set as \<Longrightarrow> buildable M F (exp_conditions (mExperiment F)) g a \<and> named P g a"
    and srv: "\<And>i. i < length as \<Longrightarrow> serves g (as ! i) (pf_dynamics P (Suc i))"
  shows "wp (Coordinator_init P E M F (Some node) t dur inst) (Coordinator_new q par g) (\<lambda>_ c. quiet elems invar P c \<and> m_currentTime c = t
    \<and> m_graph c = g \<and> m_simulators c = [1..<Suc (length as)] \<and> dom (k_sims (m_eventTable c)) = set (m_simulators c)
    \<and> all_sims (\<lambda>x sm. sim_model sm = as ! (x - 1)) (m_eventTable c))"
proof -
  let ?c0 = "(Coordinator_new q par g :: ('q, 'h, 'u, 'p) coordinator)\<lparr>m_currentTime := t, m_durationTime := dur\<rparr>"
  have c0: "m_currentTime ?c0 = t" "m_durationTime ?c0 = dur" "m_graph ?c0 = g" "m_delete_model ?c0 = []" "m_simulators ?c0 = []" "m_eventViewList ?c0 = []"
    "m_timedViewList ?c0 = []" "m_timed_observation_scheduler ?c0 = []" "k_sims (m_eventTable ?c0) = Map.empty"
    by (simp_all add: Coordinator_new_def Scheduler_new_def)
  have start: "starting elems invar (m_eventTable ?c0)"
    using q by (simp add: starting_def Coordinator_new_def Scheduler_new_def sched_ok_def sched_from_def agree_def dates_ok_def bag_ok_def empty_bag_def)
  let ?R = "\<lambda>c. quiet elems invar P c \<and> m_currentTime c = t \<and> m_graph c = g \<and> m_simulators c = [1..<Suc (length as)]
    \<and> dom (k_sims (m_eventTable c)) = set (m_simulators c) \<and> all_sims (\<lambda>x sm. sim_model sm = as ! (x - 1)) (m_eventTable c)"
  have "wp (buildViews M (mExperiment F) inst) ?c0 (\<lambda>_. views_built ?c0 (vws_list (exp_views (mExperiment F))))"
    by (rule wp_buildViews) (simp_all only: c0 ready t not_False_eq_True)
  then have "wp (buildViews M (mExperiment F) inst) ?c0 (\<lambda>_ c1. wp (createModels P E M F (Some node)) c1
    (\<lambda>_ c. wp (Scheduler_init H t) (m_eventTable c) (\<lambda>_ k. ?R (c\<lparr>m_isStarted := True, m_eventTable := k\<rparr>))))"
  proof (rule wp_mono)
    fix c1
    assume v: "views_built ?c0 (vws_list (exp_views (mExperiment F))) c1"
    then obtain ev ti sch where c1: "c1 = ?c0\<lparr>m_timed_observation_scheduler := sch, m_eventViewList := ev, m_timedViewList := ti\<rparr>" unfolding views_built_def by blast
    have f: "m_graph c1 = g" "m_currentTime c1 = t" "m_durationTime c1 = dur" "m_delete_model c1 = []" by (simp_all add: c1 Coordinator_new_def)
    have mk: "making elems invar P c1 [] c1" by (rule views_built_making [OF v start c0(9,5) P(2,3)])
    have "wp (createModels P E M F (Some node)) c1 (\<lambda>_. making elems invar P c1 as)"
      by (rule wp_createModels [OF P(1) mk]) (simp_all only: f as built t not_False_eq_True)
    then show "wp (createModels P E M F (Some node)) c1
      (\<lambda>_ c. wp (Scheduler_init H t) (m_eventTable c) (\<lambda>_ k. ?R (c\<lparr>m_isStarted := True, m_eventTable := k\<rparr>)))"
    proof (rule wp_mono)
      fix c
      assume mk: "making elems invar P c1 as c"
      have "wp (Scheduler_init H t) (m_eventTable c) (\<lambda>_ k. quiet elems invar P (c\<lparr>m_isStarted := True, m_eventTable := k\<rparr>) \<and> dom (k_sims k) = set (m_simulators c)
          \<and> all_sims (\<lambda>x sm. sim_model sm = as ! (x - 1)) k)"
        by (rule making_quiet [OF mk]) (simp_all only: f atoms srv g t not_False_eq_True)
      then show "wp (Scheduler_init H t) (m_eventTable c) (\<lambda>_ k. ?R (c\<lparr>m_isStarted := True, m_eventTable := k\<rparr>))"
        by (rule wp_mono) (use mk f in \<open>simp add: making_def\<close>)
    qed
  qed
  then show ?thesis by (simp add: Coordinator_init_def wp_thenS wp_updS wp_on_kernel P(1))
qed

end

section \<open>The end\<close>

text \<open>What \<^verbatim>\<open>finish\<close> needs of a coordinator and keeps.\<close>

definition finishing :: "('q, 'h, 'u, 'p) platform \<Rightarrow> graph \<Rightarrow> string set \<Rightarrow> string set \<Rightarrow> sim_id set \<Rightarrow> ('q, 'h, 'u, 'p) coordinator \<Rightarrow> bool" where
  "finishing P g V T X c \<longleftrightarrow> viewable P c \<and> all_sims (member P g V) (m_eventTable c) \<and> dom (map_of (m_eventViewList c)) = V
     \<and> dom (map_of (m_timedViewList c)) = T \<and> dom (k_sims (m_eventTable c)) = X"

lemma finishing_frame:
  assumes "finishing P g V T X c" "view_frame c c'"
  shows "finishing P g V T X c'"
  using assms viewable_frame [OF assms(2)] same_views_dom [OF view_frame_fields(9) [OF assms(2)]]
    same_views_dom [OF view_frame_fields(10) [OF assms(2)]] view_frame_fields(1) [OF assms(2)]
  by (simp add: finishing_def)

lemma finishing_put:
  assumes "finishing P g V T X c" "k_sims (m_eventTable c) x = Some sm" "member P g V x sm'" "sim_model sm' = sim_model sm"
  shows "finishing P g V T X (c\<lparr>m_eventTable := put_sim x sm' (m_eventTable c)\<rparr>)"
proof -
  have "viewable P (c\<lparr>m_eventTable := put_sim x sm' (m_eventTable c)\<rparr>)"
    by (rule viewable_kernel) (use assms in \<open>auto simp: finishing_def put_sim_def\<close>)
  then show ?thesis using assms by (auto simp: finishing_def put_sim_def all_sims_def)
qed

lemma wp_Simulator_finish:
  assumes "well_behaved D"
  shows "wp (Simulator_finish D) sm (\<lambda>_. user_frame sm)"
  unfolding Simulator_finish_def wp_thenS
proof (rule wp_mono [OF wp_call_returns])
  show "returns (dyn_finish D)" using assms by (simp add: well_behaved_def)
  fix sm1
  assume "user_frame sm sm1"
  then show "wp (observe D ppFinish infinity) sm1 (\<lambda>_. user_frame sm)"
    by (intro wp_mono [OF wp_observe [OF assms]]) (auto simp: all_ports_def elim: user_frame_trans)
qed

lemma wp_finish_simulator:
  assumes f: "finishing P g V T X c" and x: "x \<in> X"
  shows "wp (finish_simulator P E x) c (\<lambda>_. finishing P g V T X)"
proof -
  obtain sm where sm: "k_sims (m_eventTable c) x = Some sm" "member P g V x sm" using f x by (auto simp: finishing_def all_sims_def)
  have "wp (Simulator_finish (pf_dynamics P x)) sm (\<lambda>_ sm'. wp (send_observations P x) (c\<lparr>m_eventTable := put_sim x sm' (m_eventTable c)\<rparr>) (\<lambda>_. finishing P g V T X))"
  proof (rule wp_mono [OF wp_Simulator_finish])
    show "well_behaved (pf_dynamics P x)" using sm(2) by (simp add: member_def)
    fix sm'
    assume fr: "user_frame sm sm'"
    let ?c = "c\<lparr>m_eventTable := put_sim x sm' (m_eventTable c)\<rparr>"
    have mem: "member P g V x sm'" "sim_model sm' = sim_model sm" using sm(2) fr same_wiring_views [of sm sm'] by (auto simp: member_def user_frame_def same_wiring_def)
    have fc: "finishing P g V T X ?c" by (rule finishing_put [OF f sm(1) mem])
    have kx: "k_sims (m_eventTable ?c) x = Some sm'" by (simp add: put_sim_def)
    have "viewable P ?c" "pending_views sm' \<subseteq> dom (map_of (m_eventViewList ?c))" using fc mem(1) by (auto simp: finishing_def member_def)
    from wp_send_observations [OF this(1) kx this(2)] show "wp (send_observations P x) ?c (\<lambda>_. finishing P g V T X)"
    proof (rule wp_mono, elim exE conjE)
      fix c' c1
      assume c1: "view_frame ?c c1" "c' = c1\<lparr>m_eventTable := put_sim x (sm'\<lparr>sim_observations := []\<rparr>) (m_eventTable ?c)\<rparr>"
      have tab: "m_eventTable c1 = m_eventTable ?c" by (rule view_frame_fields(1) [OF c1(1)])
      show "finishing P g V T X c'" unfolding c1(2) tab [symmetric]
        by (rule finishing_put [OF finishing_frame [OF fc c1(1)]]) (use kx tab mem(1) in \<open>auto simp: member_def observed_views_def\<close>)
    qed
  qed
  then show ?thesis using sm by (simp add: finish_simulator_def wp_simps member_def)
qed

lemma wp_View_finish: "plugin_ok W \<Longrightarrow> view_plugin v \<noteq> None \<Longrightarrow> wp (View_finish W t) v (\<lambda>_. same_view v)"
  unfolding View_finish_def by (rule wp_on_plugin) (auto simp: plugin_ok_def)

lemma view_frame_lists:
  "same_views (m_eventViewList c) l \<Longrightarrow> view_frame c (c\<lparr>m_eventViewList := l\<rparr>)"
  "same_views (m_timedViewList c) l \<Longrightarrow> view_frame c (c\<lparr>m_timedViewList := l\<rparr>)"
proof -
  have "c\<lparr>m_eventViewList := l\<rparr> = c\<lparr>m_currentTime := m_currentTime c, m_timed_observation_scheduler := m_timed_observation_scheduler c,
    m_eventViewList := l, m_timedViewList := m_timedViewList c\<rparr>" by simp
  then show "same_views (m_eventViewList c) l \<Longrightarrow> view_frame c (c\<lparr>m_eventViewList := l\<rparr>)" unfolding view_frame_def using same_views_refl by blast
  have "c\<lparr>m_timedViewList := l\<rparr> = c\<lparr>m_currentTime := m_currentTime c, m_timed_observation_scheduler := m_timed_observation_scheduler c,
    m_eventViewList := m_eventViewList c, m_timedViewList := l\<rparr>" by simp
  then show "same_views (m_timedViewList c) l \<Longrightarrow> view_frame c (c\<lparr>m_timedViewList := l\<rparr>)" unfolding view_frame_def using same_views_refl by blast
qed

text \<open>The keys of the result.\<close>

definition result_keys :: "map_value option \<Rightarrow> string set" where
  "result_keys r = (case r of None \<Rightarrow> {} | Some m \<Rightarrow> dom (map_of m))"

definition view_names :: "('q, 'h, 'u, 'p) coordinator \<Rightarrow> string set" where
  "view_names c = dom (map_of (m_eventViewList c)) \<union> dom (map_of (m_timedViewList c))"

lemma add_matrix_keys: "result_keys (add_matrix name m r) \<subseteq> insert name (result_keys r)"
  by (auto simp: add_matrix_def result_keys_def Map_add_def split: option.splits)

lemma wp_finish_views:
  assumes step: "\<And>name c t. finishing P g V T X c \<Longrightarrow> name \<in> N \<Longrightarrow> wp (on name (View_finish W t)) c (\<lambda>_. finishing P g V T X)"
    and "finishing P g V T X c" "set l \<subseteq> N"
  shows "wp (finish_views on W l r) c (\<lambda>r' c'. finishing P g V T X c' \<and> result_keys r' \<subseteq> result_keys r \<union> set l)"
  using assms(2,3)
proof (induction l arbitrary: c r)
  case (Cons name l)
  have "wp (on name (View_finish W (m_currentTime c))) c (\<lambda>_. finishing P g V T X)" using Cons.prems by (intro step) auto
  then show ?case
  proof (simp add: wp_bindS wp_getS, rule_tac wp_mono, assumption)
    fix m c'
    assume "finishing P g V T X c'"
    then show "wp (finish_views on W l (add_matrix name m r)) c' (\<lambda>r' c'. finishing P g V T X c' \<and> result_keys r' \<subseteq> insert name (result_keys r \<union> set l))"
      using Cons.prems(2) add_matrix_keys [of name m r] by (intro wp_mono [OF Cons.IH]) auto
  qed
qed (simp add: wp_retS)

lemma finishing_view:
  assumes "finishing P g V T X c"
  shows "name \<in> V \<Longrightarrow> wp (on_event_view name (View_finish (pf_plugin P) t)) c (\<lambda>_. finishing P g V T X)"
    "name \<in> T \<Longrightarrow> wp (on_timed_view name (View_finish (pf_plugin P) t)) c (\<lambda>_. finishing P g V T X)"
proof -
  have v: "plugin_ok (pf_plugin P)" "\<And>n v. map_of (m_eventViewList c) n = Some v \<Longrightarrow> view_plugin v \<noteq> None"
    "\<And>n v. map_of (m_timedViewList c) n = Some v \<Longrightarrow> view_plugin v \<noteq> None" "dom (map_of (m_eventViewList c)) = V" "dom (map_of (m_timedViewList c)) = T"
    using assms unfolding finishing_def viewable_def by blast+
  show "name \<in> V \<Longrightarrow> wp (on_event_view name (View_finish (pf_plugin P) t)) c (\<lambda>_. finishing P g V T X)"
  proof -
    assume "name \<in> V"
    then obtain w where w: "map_of (m_eventViewList c) name = Some w" using v(4) by blast
    show ?thesis unfolding on_event_view_def wp_focus
      by (rule wp_mono [OF wp_on_entry [OF w wp_View_finish [OF v(1) v(2) [OF w]]]]) (rule finishing_frame [OF assms view_frame_lists(1)])
  qed
  show "name \<in> T \<Longrightarrow> wp (on_timed_view name (View_finish (pf_plugin P) t)) c (\<lambda>_. finishing P g V T X)"
  proof -
    assume "name \<in> T"
    then obtain w where w: "map_of (m_timedViewList c) name = Some w" using v(5) by blast
    show ?thesis unfolding on_timed_view_def wp_focus
      by (rule wp_mono [OF wp_on_entry [OF w wp_View_finish [OF v(1) v(3) [OF w]]]]) (rule finishing_frame [OF assms view_frame_lists(2)])
  qed
qed

lemma wp_Coordinator_finish:
  assumes f: "finishing P g V T X c" and "set (m_simulators c) \<subseteq> X"
  shows "wp (Coordinator_finish P E) c (\<lambda>r c'. finishing P g V T X c' \<and> result_keys r \<subseteq> V \<union> T)"
proof -
  have dom: "set (map fst (m_timedViewList c)) \<subseteq> T" "set (map fst (m_eventViewList c)) \<subseteq> V" using f by (auto simp: finishing_def dom_map_of_conv_image_fst)
  have sims: "wp (forS (finish_simulator P E) (m_simulators c)) c (\<lambda>_. finishing P g V T X)"
    by (rule wp_forS_prefix [where J = "\<lambda>_. finishing P g V T X"]) (rule f, rule wp_finish_simulator, use assms(2) in auto)
  have timed: "wp (finish_views on_timed_view (pf_plugin P) (map fst (m_timedViewList c)) None) c1 (\<lambda>r c'. finishing P g V T X c' \<and> result_keys r \<subseteq> T)"
    if "finishing P g V T X c1" for c1
    using dom(1) by (intro wp_mono [OF wp_finish_views [where on = on_timed_view and N = T, OF finishing_view(2) that dom(1)]]) (auto simp: result_keys_def)
  have event: "wp (finish_views on_event_view (pf_plugin P) (map fst (m_eventViewList c)) r) c1 (\<lambda>r c'. finishing P g V T X c' \<and> result_keys r \<subseteq> V \<union> T)"
    if "finishing P g V T X c1" "result_keys r \<subseteq> T" for c1 r
    using dom(2) that(2) by (intro wp_mono [OF wp_finish_views [where on = on_event_view and N = V, OF finishing_view(1) that(1) dom(2)]]) (auto 4 4)
  show ?thesis unfolding Coordinator_finish_def wp_bindS wp_getS wp_thenS
    by (rule wp_mono [OF sims], rule wp_mono [OF timed], assumption, rule event) auto
qed

lemma quiet_finishing:
  assumes "quiet elems invar P c"
  shows "finishing P (m_graph c) (dom (map_of (m_eventViewList c))) (dom (map_of (m_timedViewList c))) (dom (k_sims (m_eventTable c))) c"
  using assms by (simp add: quiet_def calm_def finishing_def)

section \<open>Well-formed projects\<close>

text \<open>User code that does not throw and gives no negative or undefined durations.\<close>

definition platform_ok :: "('q, 'h, 'u, 'p) platform \<Rightarrow> bool" where
  "platform_ok P \<longleftrightarrow> plugin_ok (pf_plugin P) \<and> (\<forall>x. well_behaved (pf_dynamics P x))"

text \<open>
  The graph is well formed and hangs below the root; the experiment has a begin, a duration and values that can be
  copied, in the copy \<open>e\<close>; its enabled views can be opened; every atomic model has dynamics, conditions and an observable;
  and the dynamics send on ports of their models and move the date forward from the begin \<open>b\<close> to the end \<open>t\<close>.
\<close>

definition project_ok :: "('q, 'h, 'u, 'p) platform \<Rightarrow> ('s, 'u, 'p) modules \<Rightarrow> vpz_project \<Rightarrow> addr \<Rightarrow> vpz_experiment \<Rightarrow> time \<Rightarrow> time \<Rightarrow> bool" where
  "project_ok P M project node e b d \<longleftrightarrow> (let g = prj_graph project; t = dadd b d in
     prj_node project = Some node \<and> g node \<noteq> None \<and> graph_ok g \<and> (\<forall>a. atomic_at g a \<longrightarrow> a = node \<or> a \<in> atomic_below g node)
     \<and> Experiment_begin (prj_experiment project) = Inr b \<and> duration (prj_experiment project) = Inr d \<and> b \<noteq> dnan \<and> \<not> isInfinity b \<and> t \<noteq> dnan
     \<and> Experiment_copy (prj_experiment project) = Inr e
     \<and> (\<forall>v \<in> set (vws_list (exp_views e)). view_ready M (vws_outputs (exp_views e)) b t v)
     \<and> (\<forall>a. atomic_at g a \<longrightarrow> buildable M \<lparr>mDynamics = prj_dynamics project, mExperiment = e\<rparr> (exp_conditions e) g a \<and> named P g a)
     \<and> (\<forall>as i. atomic_list g node as \<longrightarrow> i < length as \<longrightarrow> serves g (as ! i) (pf_dynamics P (Suc i)) \<and> moves b t (pf_dynamics P (Suc i))))"

text \<open>The simulators of a loaded project are one for each of its atomic models, in their order.\<close>

definition simulators_of :: "addr list \<Rightarrow> ('q, 'h, 'u, 'p) coordinator \<Rightarrow> bool" where
  "simulators_of as c \<longleftrightarrow> m_simulators c = [1..<Suc (length as)] \<and> dom (k_sims (m_eventTable c)) = set (m_simulators c)
     \<and> all_sims (\<lambda>x sm. sim_model sm = as ! (x - 1)) (m_eventTable c)"

lemma project_models:
  assumes "project_ok P M project node e b d"
  shows "\<exists>as. atomic_list (prj_graph project) node as \<and> distinct as \<and> set as = {a. atomic_at (prj_graph project) a}"
proof -
  let ?g = "prj_graph project"
  have g: "tree_ok ?g" "?g node \<noteq> None" "\<And>a. atomic_at ?g a \<Longrightarrow> a = node \<or> a \<in> atomic_below ?g node"
    using assms by (auto simp: project_ok_def Let_def graph_ok_def)
  obtain as where as: "atomic_list ?g node as" "distinct as" "set as = (if atomic_at ?g node then {node} else atomic_below ?g node)"
    using atomic_list_total [OF g(1,2)] by blast
  have "models ?g node = []" if "atomic_at ?g node" using that by (auto simp: atomic_at_def models_def isAtomic_def split: option.splits model_kind.splits)
  then have "atomic_below ?g node = {}" if "atomic_at ?g node" using atomic_below_unfold [OF g(1), of node] that by simp
  moreover have "atomic_below ?g node \<subseteq> {a. atomic_at ?g a}" by (auto simp: atomic_below_def)
  ultimately show ?thesis using as g(3) by (intro exI [of _ as]) auto
qed

context event_heap
begin

lemma wp_RootCoordinator_load:
  fixes P :: "('q, 'h, 'u, 'p) platform"
  assumes P: "pf_heap P = H" "platform_ok P" and q: "elems q = Map.empty" "invar q" and ok: "project_ok P M project node e b d"
    and as: "atomic_list (prj_graph project) node as"
  shows "\<exists>c. RootCoordinator_load P E M q par project r = Ret () \<lparr>r_begin = b, r_currentTime = b, r_end = dadd b d, r_coordinator = Some c\<rparr>
    \<and> loaded elems invar P \<lparr>r_begin = b, r_currentTime = b, r_end = dadd b d, r_coordinator = Some c\<rparr> c \<and> m_currentTime c = b
    \<and> m_graph c = prj_graph project \<and> simulators_of as c"
proof -
  let ?g = "prj_graph project" and ?F = "\<lparr>mDynamics = prj_dynamics project, mExperiment = e\<rparr>"
  have p: "plugin_ok (pf_plugin P)" "\<And>x. well_behaved (pf_dynamics P x)" using P(2) by (auto simp: platform_ok_def)
  have j: "prj_node project = Some node" "graph_ok ?g" "Experiment_begin (prj_experiment project) = Inr b" "duration (prj_experiment project) = Inr d"
    "b \<noteq> dnan" "\<not> isInfinity b" "dadd b d \<noteq> dnan" "Experiment_copy (prj_experiment project) = Inr e"
    "\<And>v. v \<in> set (vws_list (exp_views e)) \<Longrightarrow> view_ready M (vws_outputs (exp_views e)) b (dadd b d) v"
    "\<And>a. atomic_at ?g a \<Longrightarrow> buildable M ?F (exp_conditions e) ?g a \<and> named P ?g a"
    "\<And>i. i < length as \<Longrightarrow> serves ?g (as ! i) (pf_dynamics P (Suc i)) \<and> moves b (dadd b d) (pf_dynamics P (Suc i))"
    using ok as by (auto simp: project_ok_def Let_def)
  have atoms: "set as = {a. atomic_at ?g a}" using project_models [OF ok] as by (auto simp: atomic_list_def)
  have "wp (Coordinator_init P E M ?F (Some node) b (dadd b d) (prj_instance project)) (Coordinator_new q par ?g) (\<lambda>_ c. quiet elems invar P c \<and> m_currentTime c = b
    \<and> m_graph c = ?g \<and> m_simulators c = [1..<Suc (length as)] \<and> dom (k_sims (m_eventTable c)) = set (m_simulators c)
    \<and> all_sims (\<lambda>x sm. sim_model sm = as ! (x - 1)) (m_eventTable c))"
    by (rule wp_Coordinator_init [OF P(1) p q j(5,6,7,2) as]) (use j(9,10,11) atoms in auto)
  then obtain c where c: "Coordinator_init P E M ?F (Some node) b (dadd b d) (prj_instance project) (Coordinator_new q par ?g) = Ret () c"
    "quiet elems invar P c" "m_currentTime c = b" "m_graph c = ?g" "simulators_of as c" by (auto simp: wp_iff simulators_of_def)
  have "moves b (dadd b d) (pf_dynamics P x)" if "x \<in> dom (k_sims (m_eventTable c))" for x
  proof -
    have "0 < x" "x - 1 < length as" using c(5) that by (auto simp: simulators_of_def)
    then show ?thesis using j(11) [of "x - 1"] by simp
  qed
  then have "loaded elems invar P \<lparr>r_begin = b, r_currentTime = b, r_end = dadd b d, r_coordinator = Some c\<rparr> c"
    using c(2,3) j(5,7) by (simp add: loaded_def double_simps)
  then show ?thesis
    using c j(1,3,4,8) by (cases r) (simp add: RootCoordinator_load_def effect_defs updS_def liftS_def on_coordinator_def)
qed

lemma runQuiet_returns:
  fixes P :: "('q, 'h, 'u, 'p) platform"
  assumes P: "pf_heap P = H" "platform_ok P" and q: "elems q = Map.empty" "invar q" and ok: "project_ok P M project node e b d"
    and as: "atomic_list (prj_graph project) node as"
  shows "\<exists>r c r' c' result. RootCoordinator_load P E M q par project RootCoordinator_new = Ret () r \<and> r_coordinator r = Some c
    \<and> simulators_of as c \<and> m_graph c = prj_graph project \<and> simulation_loop P E r = Some (Ret () r') \<and> r_coordinator r' = Some c'
    \<and> devs_run (pf_dynamics P) (route c) (dadd b d) (model_states c) b (model_states c') (m_currentTime c')
    \<and> (m_currentTime c' = infinity \<or> dless (dadd b d) (m_currentTime c'))
    \<and> runQuiet P E M q par project = Inr (0, result) \<and> result_keys result \<subseteq> view_names c'"
proof -
  from wp_RootCoordinator_load [OF P q ok as, of E par RootCoordinator_new] obtain c r where
    r: "r = \<lparr>r_begin = b, r_currentTime = b, r_end = dadd b d, r_coordinator = Some c\<rparr>" "RootCoordinator_load P E M q par project RootCoordinator_new = Ret () r"
      "loaded elems invar P r c" "m_currentTime c = b" "m_graph c = prj_graph project" "simulators_of as c" by blast
  have init: "RootCoordinator_init r = Ret () r" by (simp add: RootCoordinator_init_def updS_def r(1) effect_defs)
  from simulation_runs [OF P(1) r(3), of E] obtain r' c' where
    c': "simulation_loop P E r = Some (Ret () r')" "loaded elems invar P r' c'" "m_simulators c' = m_simulators c"
      "dom (k_sims (m_eventTable c')) = dom (k_sims (m_eventTable c))" "m_currentTime c' = infinity \<or> dless (r_end r) (m_currentTime c')"
      "devs_run (pf_dynamics P) (route c) (r_end r) (model_states c) (m_currentTime c) (model_states c') (m_currentTime c')" by blast
  have l': "r_coordinator r' = Some c'" "quiet elems invar P c'" using c'(2) by (auto simp: loaded_def)
  have "set (m_simulators c') \<subseteq> dom (k_sims (m_eventTable c'))" using c'(3,4) r(6) by (simp add: simulators_of_def)
  from wp_Coordinator_finish [OF quiet_finishing [OF l'(2)] this, of E] obtain result c'' where
    fin: "Coordinator_finish P E c' = Ret result c''" "result_keys result \<subseteq> view_names c'" by (auto simp: wp_iff view_names_def)
  then have "RootCoordinator_finish P E r' = Ret result (r'\<lparr>r_coordinator := Some c''\<rparr>)"
    using l'(1) by (simp add: RootCoordinator_finish_def effect_defs on_coordinator_def)
  then have "runQuiet P E M q par project = Inr (0, result)"
    by (simp add: runQuiet_def thenS_def bindS_def r(2) init run_loop_def c'(1))
  moreover have "r_end r = dadd b d" "r_coordinator r = Some c" by (simp_all add: r(1))
  ultimately show ?thesis using r(2,4,5,6) c'(1,5,6) l'(1) fin(2)
    by (intro exI [of _ r] exI [of _ c] exI [of _ r'] exI [of _ c'] exI [of _ result]) simp
qed

end

section \<open>Properties\<close>

text \<open>
  C1. The whole life of a simulation. On a well-formed project, with user code that does not throw and
  moves the date forward, \<^verbatim>\<open>Simulation::runQuiet\<close> returns without an error: \<^verbatim>\<open>RootCoordinator::load\<close> builds exactly one
  simulator for every atomic model of the graph, the loop takes the models from their initial states at the begin
  of the experiment through a run of the abstract DEVS simulator to a date past begin + duration or to infinity, and
  \<^verbatim>\<open>finish\<close> returns a result whose keys are names of open views.
\<close>

theorem runQuiet_refines:
  assumes "event_heap (pf_heap P) elems top_handle invar" "elems q = Map.empty" "invar q" "platform_ok P" "project_ok P M project node e b d"
  shows "\<exists>as r c r' c' result. distinct as \<and> set as = {a. atomic_at (prj_graph project) a}
    \<and> RootCoordinator_load P E M q par project RootCoordinator_new = Ret () r \<and> r_coordinator r = Some c
    \<and> simulators_of as c \<and> m_graph c = prj_graph project \<and> simulation_loop P E r = Some (Ret () r') \<and> r_coordinator r' = Some c'
    \<and> devs_run (pf_dynamics P) (route c) (dadd b d) (model_states c) b (model_states c') (m_currentTime c')
    \<and> (m_currentTime c' = infinity \<or> dless (dadd b d) (m_currentTime c'))
    \<and> runQuiet P E M q par project = Inr (0, result) \<and> result_keys result \<subseteq> view_names c'"
proof -
  obtain as where "atomic_list (prj_graph project) node as" "distinct as" "set as = {a. atomic_at (prj_graph project) a}"
    using project_models [OF assms(5)] by blast
  with event_heap.runQuiet_returns [OF assms(1) refl assms(4,2,3,5), of as E par] show ?thesis by blast
qed

text \<open>The two clocks of the sample graph, up to date 3, with a timed view.\<close>

definition clock_modules :: "((list_heap, nat, int, unit) coordinator, int, unit) modules" where
  "clock_modules = \<lparr>md_symbol = (\<lambda>_ _. Inr (DynamicsSymbol (\<lambda>_ _. Inr 0))), md_factory = (\<lambda>_. Inr OtherSymbol), md_oov = (\<lambda>_ _ _. Inr (Some ())),
     md_oov_factory = (\<lambda>_ _. Inr None), md_onParameter = (\<lambda>_ _ _ _ _. retS ()), md_null = 0\<rparr>"

definition clock_experiment :: vpz_experiment where
  "clock_experiment = \<lparr>exp_name = ''clocks'', exp_combination = [],
     exp_conditions = [(defaultSimulationEngineCondName, \<lparr>cnd_list = [(''begin'', Some (VDouble (dfin 0))), (''duration'', Some (VDouble (dfin 3)))],
        cnd_name = defaultSimulationEngineCondName, cnd_last_port = ''duration'', cnd_permanent = None\<rparr>)],
     exp_views = \<lparr>vws_list = [(''v'', \<lparr>vw_timestep = dfin 1, vw_name = ''v'', vw_output = ''v'', vw_data = [], vw_enabled = True, vw_type = TIMED\<rparr>)],
        vws_outputs = [(''v'', \<lparr>outp_name = ''v'', outp_plugin = ''storage'', outp_location = [], outp_package = ''vle.output'', outp_data = None\<rparr>)],
        vws_observables = []\<rparr>\<rparr>"

definition clock_project :: vpz_project where
  "clock_project = \<lparr>prj_node = Some 0, prj_graph = sample, prj_dynamics = [([], Dynamic_new [] ''clocks'' ''Clock'' [])],
     prj_experiment = clock_experiment, prj_instance = 0\<rparr>"

lemma sample_named: "atomic_at sample a \<Longrightarrow> named clock_platform sample a"
  by (auto simp: sample_atomic named_def clock_platform_def sample_platform_def outcome_result_def getName_def getParentName_def getParent_def deref_def
      effect_defs sample_nodes)

lemma sample_below: "atomic_at sample a \<Longrightarrow> a \<in> atomic_below sample 0"
proof -
  assume a: "atomic_at sample a"
  have "(1, 0) \<in> parent_rel sample" "(2, 0) \<in> parent_rel sample" "(3, 2) \<in> parent_rel sample" by (auto simp: parent_rel_def sample_parent)
  then have "(1, 0) \<in> (parent_rel sample)\<^sup>+" "(3, 0) \<in> (parent_rel sample)\<^sup>+" by (auto intro: trancl_into_trancl2)
  then show ?thesis using a by (auto simp: atomic_below_def ancestors_def sample_atomic)
qed

lemma clock_platform_ok: "platform_ok clock_platform"
  using clock_quiet by (simp add: platform_ok_def quiet_def viewable_def)

lemma clock_buildable:
  "atomic_at sample a \<Longrightarrow> buildable clock_modules \<lparr>mDynamics = prj_dynamics clock_project, mExperiment = clock_experiment\<rparr> (exp_conditions clock_experiment) sample a"
  unfolding buildable_def sample_atomic
  by (rule exI [of _ "the (sample a)"], rule exI [of _ atomic_init], rule exI [of _ "Dynamic_new [] ''clocks'' ''Clock'' []"], rule exI [of _ "[]"], rule exI [of _ 0])
    (auto simp: sample_nodes atomic_init_def clock_project_def Dynamic_new_def init_values_def constructs_def clock_modules_def observable_ok_def)

lemma clock_dates: "Experiment_begin clock_experiment = Inr (dfin 0)" "duration clock_experiment = Inr (dfin 3)"
  "Experiment_copy clock_experiment = Inr clock_experiment" "dadd (dfin 0) (dfin 3) = dfin 3"
  by (simp_all add: clock_experiment_def Experiment_begin_def duration_def get_engine_def engine_condition_def Conditions_exist_def Conditions_get_def
      valueOfPort_def  Experiment_copy_def copy_conditions_def copy_outputs_def Condition_copy_def Output_copy_def clone_shared_def clone_ptr_def dadd_dfin fp_round_small)

lemma clock_view_ready: "v \<in> set (vws_list (exp_views clock_experiment)) \<Longrightarrow>
    view_ready clock_modules (vws_outputs (exp_views clock_experiment)) (dfin 0) (dfin 3) v"
  using unit_step_advances by (simp add: clock_experiment_def view_ready_def opens_def clock_modules_def isInfinity_iff dfin_not_inf returns_def wp_simps clone_ptr_def)

lemma clock_project_ok: "project_ok clock_platform clock_modules clock_project 0 clock_experiment (dfin 0) (dfin 3)"
proof -
  have "serves sample (as ! i) (pf_dynamics clock_platform (Suc i))" if "atomic_list sample 0 as" "i < length as" for as i
  proof -
    obtain as' where "atomic_list sample 0 as'" "set as' = (if atomic_at sample 0 then {0} else atomic_below sample 0)"
      using atomic_list_total [OF sample_tree_ok, of 0] by (auto simp: sample_nodes)
    moreover from this(1) have "as' = as" using that(1) unfolding atomic_list_def by simp
    ultimately have "atomic_at sample (as ! i)" using nth_mem [OF that(2)] by (auto simp: atomic_below_def split: if_splits)
    then have "has_port sample Out (as ! i) ''o''" by (auto simp: sample_atomic read_store sample_nodes)
    from counter_serves [OF this] show ?thesis by (simp add: serves_def clock_platform_def)
  qed
  moreover have "moves (dfin 0) (dfin 3) (pf_dynamics clock_platform x)" for x using clock_moves by (simp add: clock_platform_def)
  moreover have "prj_graph clock_project = sample" "prj_node clock_project = Some 0" "prj_experiment clock_project = clock_experiment" by (simp_all add: clock_project_def)
  ultimately show ?thesis
    using sample_graph_ok sample_below sample_named clock_buildable clock_dates clock_view_ready
    by (simp add: project_ok_def Let_def sample_nodes isInfinity_iff dfin_not_inf)
qed

theorem runQuiet_refines_witness:
  "\<exists>result. runQuiet clock_platform no_executives clock_modules [] False clock_project = Inr (0, result)"
proof -
  have H: "event_heap (pf_heap clock_platform) map_of (\<lambda>q. fst (min_entry q)) list_heap_ok"
    using list_heap.event_heap_axioms by (simp add: clock_platform_def sample_platform_def)
  have "map_of [] = Map.empty" "list_heap_ok []" by (simp_all add: list_heap_ok_def)
  from runQuiet_refines [OF H this clock_platform_ok clock_project_ok] show ?thesis by blast
qed

end
