(* ===== verification/Model_Copy.thy ===== *)
theory Model_Copy
  imports Connection_Properties Model_Tree
begin

text \<open>
  The copy constructors of \<^verbatim>\<open>vpz/BaseModel.cpp\<close>, \<^verbatim>\<open>AtomicModel.cpp\<close> and \<^verbatim>\<open>CoupledModel.cpp\<close> and \<^verbatim>\<open>clone\<close>: the copy of
  a model has copies of all models below it and the connections between them, and no connections of its own.
  The original, which the constructors only read, is the argument \<open>src\<close>; the allocator hands out the
  addresses from \<open>x\<close> on.
\<close>

section \<open>The copy constructors\<close>

definition copy_node :: "base_model \<Rightarrow> base_model" where
  "copy_node n = (node_shape n)\<lparr>m_parent := None,
     m_kind := (case m_kind n of Atomic w \<Rightarrow> Atomic w
       | Coupled c \<Rightarrow> Coupled \<lparr>m_modelList = m_modelList c, m_internalInputList = clear_conns (m_internalInputList c),
           m_internalOutputList = clear_conns (m_internalOutputList c), m_srcConnections = [], m_dstConnections = []\<rparr>)\<rparr>"

text \<open>The model of the copy at \<open>x\<close> that has the name of the model \<open>m\<close> of the original.\<close>

definition clone_end :: "graph \<Rightarrow> addr \<Rightarrow> addr \<Rightarrow> addr gproc" where
  "clone_end src x m = bindS (liftS (outcome_result (getName m src))) (\<lambda>name.
     bindS (CoupledModel_findModel x name) (\<lambda>dstmodel. case dstmodel of
       None \<Rightarrow> throwS (AssertionFailed ''dstmodel'') | Some b \<Rightarrow> retS b))"

definition copyPort :: "graph \<Rightarrow> addr \<Rightarrow> side \<Rightarrow> string \<times> port_list \<Rightarrow> unit gproc" where
  "copyPort src x d e = forS (\<lambda>it. bindS (clone_end src x (fst it)) (\<lambda>b. port_add d x (fst e) b (snd it))) (snd e)"

definition copyConnection :: "graph \<Rightarrow> addr \<Rightarrow> side \<Rightarrow> connection_list \<Rightarrow> unit gproc" where
  "copyConnection src x d l = forS (copyPort src x d) l"

definition copyInternalPort :: "graph \<Rightarrow> addr \<Rightarrow> addr \<Rightarrow> side \<Rightarrow> addr \<Rightarrow> string \<times> port_list \<Rightarrow> unit gproc" where
  "copyInternalPort src a x d y e = forS (\<lambda>it.
     bindS (if fst it = a then retS x else clone_end src x (fst it)) (\<lambda>b. port_add d y (fst e) b (snd it))) (snd e)"

definition copyInternalConnection :: "graph \<Rightarrow> addr \<Rightarrow> addr \<Rightarrow> side \<Rightarrow> addr \<Rightarrow> connection_list \<Rightarrow> unit gproc" where
  "copyInternalConnection src a x d y l = forS (copyInternalPort src a x d y) l"

text \<open>The list of a side of a model of the original.\<close>

definition src_list :: "graph \<Rightarrow> side \<Rightarrow> addr \<Rightarrow> connection_list gproc" where
  "src_list src d a = liftS (outcome_result (getPortList d a src))"

text \<open>
  The last loop of the constructor walks over the models of the original and of the copy, which have the same keys.
\<close>

definition copy_child :: "graph \<Rightarrow> addr \<Rightarrow> addr \<Rightarrow> (string \<times> addr) \<times> (string \<times> addr) \<Rightarrow> unit gproc" where
  "copy_child src a x e = (case e of ((_, b), (_, y)) \<Rightarrow>
     thenS (bindS (src_list src In b) (copyInternalConnection src a x In y))
       (bindS (src_list src Out b) (copyInternalConnection src a x Out y)))"

definition copy_connections :: "graph \<Rightarrow> addr \<Rightarrow> addr \<Rightarrow> unit gproc" where
  "copy_connections src a x =
     thenS (bindS (src_list src IntIn a) (copyConnection src x IntIn))
    (thenS (bindS (src_list src IntOut a) (copyConnection src x IntOut))
       (bindS (getModelList x) (\<lambda>ml. forS (copy_child src a x) (zip (models src a) ml))))"

text \<open>
  \<^verbatim>\<open>clone\<close> with a bound of the depth; it returns the next free address. The entries of the list of models are replaced
  one after the other by their copies.
\<close>

function clone_model :: "nat \<Rightarrow> graph \<Rightarrow> addr \<Rightarrow> addr \<Rightarrow> addr gproc"
  and clone_entries :: "nat \<Rightarrow> graph \<Rightarrow> addr \<Rightarrow> model_list \<Rightarrow> addr \<Rightarrow> addr gproc" where
  "clone_model d src a x = (case d of 0 \<Rightarrow> throwS NonTermination | Suc d' \<Rightarrow>
     bindS (liftS (outcome_result (deref a src))) (\<lambda>n.
     thenS (\<lambda>s. Ret () (s(x \<mapsto> copy_node n)))
       (case m_kind n of
          Atomic _ \<Rightarrow> retS (Suc x)
        | Coupled c \<Rightarrow> bindS (clone_entries d' src x (m_modelList c) (Suc x)) (\<lambda>nxt.
            thenS (copy_connections src a x) (retS nxt)))))"
| "clone_entries d src x [] nxt = retS nxt"
| "clone_entries d src x (e # es) nxt = bindS (clone_model d src (snd e) nxt) (\<lambda>nxt'.
     thenS (modify_coupled x (m_modelList_update (ref_set (fst e) nxt)))
    (thenS (setParent nxt (Some x)) (clone_entries d src x es nxt')))"
  by pat_completeness auto
termination
  by (relation "measures [\<lambda>p. case p of Inl (d, _) \<Rightarrow> d | Inr (d, _) \<Rightarrow> d,
      \<lambda>p. case p of Inl _ \<Rightarrow> 0 | Inr (_, _, _, es, _) \<Rightarrow> Suc (length es)]") auto


section \<open>Copying the ends of connections\<close>

text \<open>Ends were added to the lists of the side \<open>d\<close> of \<open>y\<close>: \<open>M p\<close> to the one of the port \<open>p\<close>.\<close>

definition grows :: "side \<Rightarrow> addr \<Rightarrow> (string \<Rightarrow> (addr \<times> string) multiset) \<Rightarrow> graph \<Rightarrow> graph \<Rightarrow> bool" where
  "grows d y M s s' \<longleftrightarrow> shape s' = shape s \<and> (\<forall>z. z \<noteq> y \<longrightarrow> s' z = s z)
     \<and> (\<forall>d' p. mset (ports s' d' y p) = mset (ports s d' y p) + (if d' = d then M p else {#}))"

lemma grows_refl: "grows d y (\<lambda>_. {#}) s s"
  by (simp add: grows_def)

lemma grows_trans: "grows d y M s s1 \<Longrightarrow> grows d y N s1 s2 \<Longrightarrow> grows d y (\<lambda>p. M p + N p) s s2"
  by (simp add: grows_def add.assoc)

lemma set_port_other: "z \<noteq> y \<Longrightarrow> set_port d y p l s z = s z"
  by (simp add: set_port_def split: option.split)

lemma grows_add:
  assumes "has_port s d y p"
  shows "grows d y (\<lambda>p'. if p' = p then {#(b, q)#} else {#}) s (set_port d y p (mmap_insert b q (ports s d y p)) s)"
  using assms by (simp add: grows_def shape_set_port ports_set_port set_port_other)

lemma wp_copy_ends:
  assumes tgt: "\<And>m t. m \<in> fst ` set l \<Longrightarrow> shape t = shape s \<Longrightarrow> wp (tgt m) t (\<lambda>b t'. b = g m \<and> t' = t)"
    and p: "has_port s d y p"
  shows "wp (forS (\<lambda>it. bindS (tgt (fst it)) (\<lambda>b. port_add d y p b (snd it))) l) s
    (\<lambda>_. grows d y (\<lambda>p'. if p' = p then image_mset (map_prod g id) (mset l) else {#}) s)"
proof (rule wp_forS_prefix [where J = "\<lambda>pre. grows d y (\<lambda>p'. if p' = p then image_mset (map_prod g id) (mset pre) else {#}) s"])
  show "grows d y (\<lambda>p'. if p' = p then image_mset (map_prod g id) (mset []) else {#}) s s" by (simp add: grows_def)
  fix pre it post t
  assume split: "l = pre @ it # post" and J: "grows d y (\<lambda>p'. if p' = p then image_mset (map_prod g id) (mset pre) else {#}) s t"
  have sh: "shape t = shape s" using J by (simp add: grows_def)
  have pt: "has_port t d y p" using p shape_cong(1) [OF sh] by simp
  have "wp (tgt (fst it)) t (\<lambda>b t'. b = g (fst it) \<and> t' = t)" using split by (intro tgt sh) auto
  then show "wp (bindS (tgt (fst it)) (\<lambda>b. port_add d y p b (snd it))) t
    (\<lambda>_. grows d y (\<lambda>p'. if p' = p then image_mset (map_prod g id) (mset (pre @ [it])) else {#}) s)"
    unfolding wp_bindS
  proof (rule wp_mono, elim conjE)
    fix b t'
    assume b: "b = g (fst it)" "t' = t"
    have "grows d y (\<lambda>p'. if p' = p then image_mset (map_prod g id) (mset (pre @ [it])) else {#}) s
      (set_port d y p (mmap_insert (g (fst it)) (snd it) (ports t d y p)) t)"
      by (rule back_subst [of "\<lambda>M. grows d y M s _", OF grows_trans [OF J grows_add [OF pt, of "g (fst it)" "snd it"]]])
        (auto simp: fun_eq_iff map_prod_def split: prod.split)
    then show "wp (port_add d y p b (snd it)) t' (\<lambda>_. grows d y (\<lambda>p'. if p' = p then image_mset (map_prod g id) (mset (pre @ [it])) else {#}) s)"
      using pt by (simp add: wp_onPort b)
  qed
qed

definition conns_at :: "connection_list \<Rightarrow> string \<Rightarrow> port_list" where
  "conns_at l p = (case map_of l p of None \<Rightarrow> [] | Some pl \<Rightarrow> pl)"

lemma wp_copy_list:
  assumes tgt: "\<And>m t. m \<in> fst ` (\<Union>e \<in> set L. set (snd e)) \<Longrightarrow> shape t = shape s \<Longrightarrow> wp (tgt m) t (\<lambda>b t'. b = g m \<and> t' = t)"
    and p: "\<And>e. e \<in> set L \<Longrightarrow> has_port s d y (fst e)" and dist: "distinct (map fst L)"
  shows "wp (forS (\<lambda>e. forS (\<lambda>it. bindS (tgt (fst it)) (\<lambda>b. port_add d y (fst e) b (snd it))) (snd e)) L) s
    (\<lambda>_. grows d y (\<lambda>p. image_mset (map_prod g id) (mset (conns_at L p))) s)"
proof (rule wp_forS_prefix [where J = "\<lambda>pre. grows d y (\<lambda>p. image_mset (map_prod g id) (mset (conns_at pre p))) s"])
  show "grows d y (\<lambda>p. image_mset (map_prod g id) (mset (conns_at [] p))) s s" using grows_refl by (simp add: conns_at_def)
  fix pre e post t
  assume split: "L = pre @ e # post" and J: "grows d y (\<lambda>p. image_mset (map_prod g id) (mset (conns_at pre p))) s t"
  have sh: "shape t = shape s" using J by (simp add: grows_def)
  have new: "map_of pre (fst e) = None" using dist split by (auto simp: map_of_eq_None_iff)
  have M: "conns_at (pre @ [e]) p = conns_at pre p @ (if p = fst e then snd e else [])" for p
    using new by (auto simp: conns_at_def map_add_def split: option.split)
  have "wp (forS (\<lambda>it. bindS (tgt (fst it)) (\<lambda>b. port_add d y (fst e) b (snd it))) (snd e)) t
    (\<lambda>_. grows d y (\<lambda>p'. if p' = fst e then image_mset (map_prod g id) (mset (snd e)) else {#}) t)"
  proof (rule wp_copy_ends)
    show "has_port t d y (fst e)" using p split shape_cong(1) [OF sh] by simp
    show "wp (tgt m) t' (\<lambda>b t''. b = g m \<and> t'' = t')" if "m \<in> fst ` set (snd e)" "shape t' = shape t" for m t'
      by (rule tgt) (use that split sh in auto)
  qed
  then show "wp (forS (\<lambda>it. bindS (tgt (fst it)) (\<lambda>b. port_add d y (fst e) b (snd it))) (snd e)) t
    (\<lambda>_. grows d y (\<lambda>p. image_mset (map_prod g id) (mset (conns_at (pre @ [e]) p))) s)"
    by (rule wp_mono) (drule grows_trans [OF J], erule back_subst [of "\<lambda>M. grows d y M s _"], simp add: fun_eq_iff M)
qed


section \<open>What a copy is\<close>

definition below :: "graph \<Rightarrow> addr \<Rightarrow> addr set" where
  "below s a = insert a {b. a \<in> ancestors s b}"

definition renamed :: "(addr \<Rightarrow> addr) \<Rightarrow> addr option \<Rightarrow> base_model \<Rightarrow> base_model" where
  "renamed f par n = (node_shape n)\<lparr>m_parent := par,
     m_kind := (case m_kind n of Atomic w \<Rightarrow> Atomic w
       | Coupled c \<Rightarrow> Coupled \<lparr>m_modelList = map (map_prod id f) (m_modelList c), m_internalInputList = clear_conns (m_internalInputList c),
           m_internalOutputList = clear_conns (m_internalOutputList c), m_srcConnections = [], m_dstConnections = []\<rparr>)\<rparr>"

text \<open>
  The models below \<open>a\<close> have copies at the addresses \<open>f\<close> gives: the same data, the sub-models and the ends of the
  connections replaced by their copies. The copy of \<open>a\<close> has the parent \<open>par\<close> and no connections outside.
\<close>

definition copied :: "(addr \<Rightarrow> addr) \<Rightarrow> graph \<Rightarrow> addr option \<Rightarrow> addr \<Rightarrow> graph \<Rightarrow> bool" where
  "copied f src par a s \<longleftrightarrow> (\<forall>b \<in> below src a.
     shape s (f b) = map_option (renamed f (if b = a then par else map_option f (parent src b))) (src b)
     \<and> (\<forall>d p. mset (ports s d (f b) p) =
          (if b = a \<and> (d = In \<or> d = Out) then {#} else image_mset (map_prod f id) (mset (ports src d b p)))))"

definition cloned :: "(addr \<Rightarrow> addr) \<Rightarrow> graph \<Rightarrow> addr \<Rightarrow> addr \<Rightarrow> addr \<Rightarrow> graph \<Rightarrow> graph \<Rightarrow> bool" where
  "cloned f src a x nxt s s' \<longleftrightarrow> f a = x \<and> inj_on f (below src a) \<and> f ` below src a \<subseteq> {x..<nxt}
     \<and> (\<forall>y. y \<notin> f ` below src a \<longrightarrow> s' y = s y) \<and> copied f src None a s'"

lemma below_child:
  assumes "tree_ok s" "parent s b = Some a" "b' \<in> below s b"
  shows "b' \<in> below s a" "b' \<noteq> a"
proof -
  have "(b, a) \<in> parent_rel s" using assms(2) by (simp add: parent_rel_def)
  then have "(b', a) \<in> (parent_rel s)\<^sup>+" using assms(3) by (auto simp: below_def ancestors_def intro: trancl_into_trancl)
  then show "b' \<in> below s a" "b' \<noteq> a" using assms(1) by (auto simp: below_def ancestors_def tree_ok_def acyclic_def)
qed

lemma below_trans: "b \<in> below s a \<Longrightarrow> m \<in> below s b \<Longrightarrow> m \<in> below s a"
  by (auto simp: below_def ancestors_def intro: trancl_trans)

lemma below_step: "parent s m = Some b \<Longrightarrow> m \<in> below s b"
  by (auto simp: below_def ancestors_def parent_rel_def)

lemma below_parent: "b \<in> below s a \<Longrightarrow> b \<noteq> a \<Longrightarrow> \<exists>c. parent s b = Some c \<and> c \<in> below s a"
  by (auto simp: below_def ancestors_def parent_rel_def rtrancl_eq_or_trancl dest!: tranclD)

lemma below_unfold:
  assumes "tree_ok s"
  shows "below s a = insert a (\<Union>b \<in> snd ` set (models s a). below s b)"
proof (intro set_eqI iffI)
  fix b
  assume "b \<in> below s a"
  then consider "b = a" | "(b, a) \<in> (parent_rel s)\<^sup>+" by (auto simp: below_def ancestors_def)
  then show "b \<in> insert a (\<Union>b \<in> snd ` set (models s a). below s b)"
  proof cases
    case 2
    then obtain c where "(b, c) \<in> (parent_rel s)\<^sup>*" "(c, a) \<in> parent_rel s" by (meson tranclD2)
    then have "c \<in> snd ` set (models s a)" "b \<in> below s c"
      using tree_child_iff [OF assms, of c a] by (auto simp: parent_rel_def below_def ancestors_def rtrancl_eq_or_trancl)
    then show ?thesis by blast
  qed simp
next
  fix b
  assume "b \<in> insert a (\<Union>b \<in> snd ` set (models s a). below s b)"
  then show "b \<in> below s a" using below_child(1) [OF assms] tree_child_iff [OF assms] by (auto simp: below_def)
qed

lemma below_disjoint:
  assumes t: "tree_ok s" and "parent s x = Some c" "parent s y = Some c" "x \<noteq> y"
  shows "below s x \<inter> below s y = {}"
proof -
  have no: "x \<notin> ancestors s y" "y \<notin> ancestors s x" using below_siblings_disjoint(1) [OF t] assms(2-4) by auto
  have "False" if "b \<in> below s x" "b \<in> below s y" for b
    using that no ancestors_chain [of x s b y] assms(4) by (auto simp: below_def)
  then show ?thesis by blast
qed

lemma end_below:
  assumes "linked s" "tree_ok s" "(m, q) \<in> set (ports s d b p)" "b \<in> below s a" "b = a \<longrightarrow> d = IntIn \<or> d = IntOut"
  shows "m \<in> below s a"
proof -
  have mc: "may_connect s d b m" by (rule linked_D(1) [OF assms(1,3)])
  have sub: "m \<in> below s a" if "parent s m = Some b" by (rule below_trans [OF assms(4) below_step [OF that]])
  show ?thesis
  proof (cases "d = IntIn \<or> d = IntOut")
    case True
    then show ?thesis using mc sub by (auto simp: may_connect_def)
  next
    case False
    then have "b \<noteq> a" "parent s b = Some m \<or> parent s b = parent s m \<and> parent s b \<noteq> None"
      using assms(5) mc by (cases d; auto simp: may_connect_def)+
    moreover obtain c where "parent s b = Some c" "c \<in> below s a" using below_parent [OF assms(4) \<open>b \<noteq> a\<close>] by blast
    ultimately show ?thesis using below_trans [OF _ below_step] by auto
  qed
qed

lemma child_below: "tree_ok s \<Longrightarrow> s b = Some n \<Longrightarrow> m_kind n = Coupled c \<Longrightarrow> (k, m) \<in> set (m_modelList c) \<Longrightarrow> b \<in> below s a \<Longrightarrow> m \<in> below s a"
  using tree_child [of s k m b] by (auto simp: models_def intro: below_trans below_step)

text \<open>Only the addresses of the models below matter.\<close>

lemma copied_cong:
  assumes src: "linked src" "tree_ok src" and c: "copied f src par a s" and "\<And>b. b \<in> below src a \<Longrightarrow> g b = f b \<and> s' (f b) = s (f b)"
  shows "copied g src par a s'"
  unfolding copied_def
proof (intro ballI conjI allI)
  fix b d p
  assume b: "b \<in> below src a"
  have g: "g m = f m" if "m \<in> below src a" for m using assms(4) that by simp
  have same: "shape s' (g b) = shape s (f b)" "ports s' d (g b) p = ports s d (f b) p" using assms(4) [OF b] by (simp_all add: shape_def ports_def)
  have "map_option (renamed g (if b = a then par else map_option g (parent src b))) (src b)
      = map_option (renamed f (if b = a then par else map_option f (parent src b))) (src b)"
  proof (cases "src b")
    case (Some n)
    have "map (map_prod id g) (m_modelList c) = map (map_prod id f) (m_modelList c)" if "m_kind n = Coupled c" for c
      using g child_below [OF src(2) Some that _ b] by (auto simp: map_prod_def)
    moreover have "map_option g (parent src b) = map_option f (parent src b)" if "b \<noteq> a"
      using g below_parent [OF b that] by auto
    ultimately show ?thesis using Some by (auto simp: renamed_def split: model_kind.split)
  qed simp
  then show "shape s' (g b) = map_option (renamed g (if b = a then par else map_option g (parent src b))) (src b)"
    using c b same(1) by (simp add: copied_def)
  have "image_mset (map_prod g id) (mset (ports src d b p)) = image_mset (map_prod f id) (mset (ports src d b p))"
    if "\<not> (b = a \<and> (d = In \<or> d = Out))"
  proof (rule image_mset_cong)
    fix e
    assume "e \<in># mset (ports src d b p)"
    moreover obtain m q where "e = (m, q)" by force
    moreover have "b = a \<longrightarrow> d = IntIn \<or> d = IntOut" using that by (cases d) auto
    ultimately show "map_prod g id e = map_prod f id e" using g end_below [OF src _ b, of m q d p] by simp
  qed
  then show "mset (ports s' d (g b) p) = (if b = a \<and> (d = In \<or> d = Out) then {#} else image_mset (map_prod g id) (mset (ports src d b p)))"
    using c b same(2) by (auto simp: copied_def)
qed


section \<open>The copies of the sub-models\<close>

text \<open>The copy of a coupled model while its entries are replaced.\<close>

definition building :: "base_model \<Rightarrow> coupled_data \<Rightarrow> model_list \<Rightarrow> base_model" where
  "building n c ml = (node_shape n)\<lparr>m_parent := None, m_kind := Coupled \<lparr>m_modelList = ml,
     m_internalInputList = clear_conns (m_internalInputList c), m_internalOutputList = clear_conns (m_internalOutputList c),
     m_srcConnections = [], m_dstConnections = []\<rparr>\<rparr>"

definition subs :: "graph \<Rightarrow> model_list \<Rightarrow> addr set" where
  "subs src cs = (\<Union>e \<in> set cs. below src (snd e))"

definition entries_cloned :: "(addr \<Rightarrow> addr) \<Rightarrow> graph \<Rightarrow> addr \<Rightarrow> model_list \<Rightarrow> addr \<Rightarrow> graph \<Rightarrow> graph \<Rightarrow> bool" where
  "entries_cloned f src x cs nxt s s1 \<longleftrightarrow> inj_on f (subs src cs) \<and> f ` subs src cs \<subseteq> {Suc x..<nxt} \<and> x < nxt
     \<and> (\<forall>y. y \<notin> f ` subs src cs \<longrightarrow> y \<noteq> x \<longrightarrow> s1 y = s y) \<and> (\<forall>e \<in> set cs. copied f src (Some x) (snd e) s1)"

lemma wp_modify: "wp (modify a f) s P = (\<exists>n. s a = Some n \<and> P () (s(a \<mapsto> f n)))"
  by (simp add: modify_def wp_bindS wp_deref) (auto simp: wp_def)

lemma wp_put: "wp (\<lambda>s. Ret () (g s)) s P = P () (g s)"
  by (simp add: wp_def)

lemma wp_set_entry:
  assumes "s x = Some (building n c ml)"
  shows "wp (modify_coupled x (m_modelList_update g)) s P = P () (s(x \<mapsto> building n c (g ml)))"
  using assms by (simp add: modify_coupled_def deref_coupled_def wp_bindS wp_deref wp_modify building_def wp_retS)

lemma ref_set_absent: "k \<notin> fst ` set l \<Longrightarrow> ref_set k v l = l"
  by (induction l) (auto simp: ref_set_def)

lemma ref_set_entry:
  assumes "distinct (map fst (pre @ e # post))"
  shows "ref_set (fst e) v (map (map_prod id f) pre @ e # post) = map (map_prod id f) pre @ (fst e, v) # post"
proof -
  have "ref_set (fst e) v (map (map_prod id f) pre) = map (map_prod id f) pre" "ref_set (fst e) v post = post"
    using assms by (auto intro!: ref_set_absent simp: image_image) (metis fst_conv image_eqI)
  then show ?thesis by (simp add: ref_set_def)
qed

lemma copied_parent:
  assumes "copied f src None a s" "s (f a) = Some n" "inj_on f (below src a)"
  shows "copied f src (Some x) a (s(f a \<mapsto> m_parent_update (\<lambda>_. Some x) n))"
  unfolding copied_def
proof (intro ballI conjI allI)
  fix b d p
  assume b: "b \<in> below src a"
  let ?s = "s(f a \<mapsto> m_parent_update (\<lambda>_. Some x) n)"
  have c: "shape s (f b) = map_option (renamed f (if b = a then None else map_option f (parent src b))) (src b)"
    "mset (ports s d (f b) p) = (if b = a \<and> (d = In \<or> d = Out) then {#} else image_mset (map_prod f id) (mset (ports src d b p)))"
    using assms(1) b by (auto simp: copied_def)
  have "ports ?s d y p = ports s d y p" for y
    using assms(2) by (auto simp: ports_def node_conns_def split: side.split)
  then show "mset (ports ?s d (f b) p) = (if b = a \<and> (d = In \<or> d = Out) then {#} else image_mset (map_prod f id) (mset (ports src d b p)))"
    using c(2) by simp
  show "shape ?s (f b) = map_option (renamed f (if b = a then Some x else map_option f (parent src b))) (src b)"
  proof (cases "b = a")
    case True
    then obtain m where "src a = Some m" "node_shape n = renamed f None m" using c(1) assms(2) by (cases "src a") (auto simp: shape_def)
    then have "(node_shape n)\<lparr>m_parent := Some x\<rparr> = renamed f (Some x) m" by (simp add: renamed_def)
    moreover have "node_shape (m_parent_update (\<lambda>_. Some x) n) = (node_shape n)\<lparr>m_parent := Some x\<rparr>" by (simp add: node_shape_def)
    ultimately show ?thesis using True \<open>src a = Some m\<close> by (simp add: shape_def)
  next
    case False
    have "a \<in> below src a" by (simp add: below_def)
    then have "f b \<noteq> f a" using assms(3) b False by (auto simp: inj_on_def)
    then show ?thesis using c(1) False by (simp add: shape_def)
  qed
qed

lemma entries_cloned_next:
  assumes src: "linked src" "tree_ok src" and e: "entries_cloned f src x pre nxt s s1" and g: "cloned g src (snd e) nxt nxt' s1 s2"
    and dis: "subs src pre \<inter> below src (snd e) = {}" and s2: "s2 nxt = Some n"
  shows "entries_cloned (\<lambda>b. if b \<in> below src (snd e) then g b else f b) src x (pre @ [e]) nxt' s
    (s2(x := v, nxt \<mapsto> m_parent_update (\<lambda>_. Some x) n))"
proof -
  let ?B = "below src (snd e)" and ?U = "subs src pre"
  let ?h = "\<lambda>b. if b \<in> ?B then g b else f b"
  let ?s = "s2(x := v, nxt \<mapsto> m_parent_update (\<lambda>_. Some x) n)"
  have f: "inj_on f ?U" "f ` ?U \<subseteq> {Suc x..<nxt}" "x < nxt" "\<And>y. y \<notin> f ` ?U \<Longrightarrow> y \<noteq> x \<Longrightarrow> s1 y = s y" "\<And>e. e \<in> set pre \<Longrightarrow> copied f src (Some x) (snd e) s1"
    using e by (auto simp: entries_cloned_def)
  have g': "g (snd e) = nxt" "inj_on g ?B" "g ` ?B \<subseteq> {nxt..<nxt'}" "\<And>y. y \<notin> g ` ?B \<Longrightarrow> s2 y = s1 y" "copied g src None (snd e) s2"
    using g by (auto simp: cloned_def)
  have top: "snd e \<in> ?B" by (simp add: below_def)
  then have nn: "nxt < nxt'" using g'(1,3) by force
  have subs: "subs src (pre @ [e]) = ?U \<union> ?B" by (simp add: subs_def Un_commute)
  have im: "?h ` ?B = g ` ?B" "?h ` ?U = f ` ?U" using dis by (auto intro!: image_cong)
  have inj: "inj_on ?h (?U \<union> ?B)"
  proof -
    have "inj_on ?h ?U" using f(1) dis by (auto simp: inj_on_def)
    moreover have "inj_on ?h ?B" using g'(2) by (auto simp: inj_on_def)
    moreover have "f ` ?U \<inter> g ` ?B = {}" using f(2) g'(3) by fastforce
    then have "?h ` (?U - ?B) \<inter> ?h ` (?B - ?U) = {}" using im by blast
    ultimately show ?thesis by (simp add: inj_on_Un)
  qed
  have range: "?h ` (?U \<union> ?B) \<subseteq> {Suc x..<nxt'}" unfolding image_Un im using f(2,3) g'(3) nn by fastforce
  have frame: "?s y = s y" if "y \<notin> ?h ` (?U \<union> ?B)" "y \<noteq> x" for y
  proof -
    have "y \<notin> f ` ?U" "y \<notin> g ` ?B" using that(1) unfolding image_Un im by auto
    moreover have "y \<noteq> nxt" using calculation(2) top g'(1) by auto
    ultimately show ?thesis using f(4) g'(4) that(2) by simp
  qed
  have old: "copied ?h src (Some x) (snd e') ?s" if "e' \<in> set pre" for e'
  proof (rule copied_cong [OF src f(5) [OF that]])
    fix b
    assume "b \<in> below src (snd e')"
    then have b: "b \<in> ?U" using that by (auto simp: subs_def)
    then have fb: "f b \<in> {Suc x..<nxt}" using f(2) by auto
    then have "f b \<notin> g ` ?B" using g'(3) by fastforce
    then show "?h b = f b \<and> ?s (f b) = s1 (f b)" using b dis g'(4) fb by auto
  qed
  have new: "copied ?h src (Some x) (snd e) ?s"
  proof (rule copied_cong [OF src])
    have "s2 (g (snd e)) = Some n" using s2 g'(1) by simp
    from copied_parent [OF g'(5) this g'(2)] show "copied g src (Some x) (snd e) (s2(nxt \<mapsto> m_parent_update (\<lambda>_. Some x) n))" by (simp add: g'(1))
    fix b
    assume "b \<in> ?B"
    then have "g b \<noteq> x" using g'(3) f(3) by force
    then show "?h b = g b \<and> ?s (g b) = (s2(nxt \<mapsto> m_parent_update (\<lambda>_. Some x) n)) (g b)" using \<open>b \<in> ?B\<close> by auto
  qed
  show ?thesis unfolding entries_cloned_def subs using inj range frame old new f(3) nn by auto
qed


lemma wp_clone_entries:
  assumes src: "linked src" "tree_ok src" and n: "src a = Some n" "m_kind n = Coupled c"
    and IH: "\<And>b y t. parent src b = Some a \<Longrightarrow> (\<And>z. y \<le> z \<Longrightarrow> t z = None) \<Longrightarrow> wp (clone_model d src b y) t (\<lambda>nxt t'. \<exists>f. cloned f src b y nxt t t')"
    and free: "\<And>y. x \<le> y \<Longrightarrow> s y = None"
  shows "m_modelList c = pre @ post \<Longrightarrow> entries_cloned f src x pre nxt s s1 \<Longrightarrow> s1 x = Some (building n c (map (map_prod id f) pre @ post))
    \<Longrightarrow> wp (clone_entries d src x post nxt) s1 (\<lambda>nxt' s2. \<exists>f. entries_cloned f src x (m_modelList c) nxt' s s2
      \<and> s2 x = Some (building n c (map (map_prod id f) (m_modelList c))))"
proof (induction post arbitrary: pre f nxt s1)
  case Nil
  then show ?case by (auto simp: wp_retS)
next
  case (Cons e post)
  let ?B = "below src (snd e)"
  have ml: "models src a = m_modelList c" using n by (simp add: models_def)
  have ent: "entries_cloned f src x pre nxt s s1" by (rule Cons.prems(2))
  have nx: "x < nxt" "f ` subs src pre \<subseteq> {Suc x..<nxt}" "\<And>y. y \<notin> f ` subs src pre \<Longrightarrow> y \<noteq> x \<Longrightarrow> s1 y = s y" using ent by (auto simp: entries_cloned_def)
  have "(fst e, snd e) \<in> set (models src a)" using Cons.prems(1) ml by simp
  then have par: "parent src (snd e) = Some a" using tree_child [OF src(2)] by blast
  have "smap_ok (models src a)" using src(2) by (simp add: tree_ok_def)
  then have keys: "distinct (map fst (pre @ e # post))" "distinct (map snd (pre @ e # post))"
    using distinct_children [OF src(2), of a] unfolding ml Cons.prems(1) smap_ok_def strict_sorted_iff by blast+
  have dis: "subs src pre \<inter> ?B = {}"
  proof -
    have "below src (snd e') \<inter> ?B = {}" if "e' \<in> set pre" for e'
    proof (rule below_disjoint [OF src(2) _ par])
      show "parent src (snd e') = Some a" using tree_child [OF src(2), of "fst e'" "snd e'" a] that ml Cons.prems(1) by simp
      show "snd e' \<noteq> snd e" using keys(2) image_eqI [of "snd e" snd e' "set pre"] that by fastforce
    qed
    then show ?thesis by (auto simp: subs_def)
  qed
  have "s1 z = None" if "nxt \<le> z" for z
  proof -
    have "z \<notin> f ` subs src pre" "z \<noteq> x" using nx(1,2) that by auto
    then show ?thesis using nx(1,3) free that by simp
  qed
  then have "wp (clone_model d src (snd e) nxt) s1 (\<lambda>nxt' t'. \<exists>g. cloned g src (snd e) nxt nxt' s1 t')" by (rule IH [OF par])
  then show ?case unfolding clone_entries.simps wp_bindS wp_thenS
  proof (rule wp_mono, elim exE)
    fix nxt' s2 g
    assume g: "cloned g src (snd e) nxt nxt' s1 s2"
    then have g': "g (snd e) = nxt" "g ` ?B \<subseteq> {nxt..<nxt'}" "\<And>y. y \<notin> g ` ?B \<Longrightarrow> s2 y = s1 y" "copied g src None (snd e) s2"
      by (auto simp: cloned_def)
    have top: "snd e \<in> ?B" by (simp add: below_def)
    have "x \<notin> g ` ?B" using g'(2) nx(1) by auto
    then have sx: "s2 x = Some (building n c (map (map_prod id f) pre @ e # post))" by (rule trans [OF g'(3) Cons.prems(3)])
    let ?v = "building n c (map (map_prod id f) pre @ (fst e, nxt) # post)"
    have "shape s2 nxt = map_option (renamed g None) (src (snd e))" using g'(1,4) top by (auto simp: copied_def)
    moreover have "src (snd e) \<noteq> None" using par by (simp add: parent_def split: option.splits)
    ultimately obtain nn where nn: "s2 nxt = Some nn" by (auto simp: shape_def)
    let ?h = "\<lambda>b. if b \<in> ?B then g b else f b"
    let ?s = "s2(x \<mapsto> ?v, nxt \<mapsto> m_parent_update (\<lambda>_. Some x) nn)"
    have ent': "entries_cloned ?h src x (pre @ [e]) nxt' s ?s" by (rule entries_cloned_next [OF src ent g dis nn])
    have same: "map (map_prod id ?h) pre = map (map_prod id f) pre"
    proof (rule map_cong [OF refl])
      fix e'
      assume "e' \<in> set pre"
      then have "snd e' \<in> subs src pre" by (auto simp: subs_def below_def)
      then show "map_prod id ?h e' = map_prod id f e'" using dis by (cases e') auto
    qed
    have "map_prod id ?h e = (fst e, nxt)" using g'(1) top by (cases e) simp
    then have ml': "map (map_prod id ?h) (pre @ [e]) @ post = map (map_prod id f) pre @ (fst e, nxt) # post" unfolding map_append same by simp
    have "?s x = Some ?v" using nx(1) by simp
    then have sx': "?s x = Some (building n c (map (map_prod id ?h) (pre @ [e]) @ post))" unfolding ml' .
    have "wp (clone_entries d src x post nxt') ?s (\<lambda>nxt' s2. \<exists>f. entries_cloned f src x (m_modelList c) nxt' s s2
      \<and> s2 x = Some (building n c (map (map_prod id f) (m_modelList c))))"
      by (rule Cons.IH [OF _ ent' sx']) (simp add: Cons.prems(1))
    moreover have "nxt \<noteq> x" using nx(1) by simp
    ultimately show "wp (modify_coupled x (m_modelList_update (ref_set (fst e) nxt))) s2 (\<lambda>_ t. wp (setParent nxt (Some x)) t (\<lambda>_ t. wp (clone_entries d src x post nxt') t
      (\<lambda>nxt' s2. \<exists>f. entries_cloned f src x (m_modelList c) nxt' s s2 \<and> s2 x = Some (building n c (map (map_prod id f) (m_modelList c))))))"
      using nn by (simp add: wp_set_entry [of s2 x n c "map (map_prod id f) pre @ e # post", OF sx] ref_set_entry [OF keys(1)] setParent_def wp_modify)
  qed
qed


section \<open>The connections between the copies\<close>

lemma node_conns_renamed: "node_conns d (renamed f par n) = map_option clear_conns (node_conns d n)"
  by (auto simp: node_conns_def renamed_def node_shape_def split: side.splits model_kind.splits)

lemma has_port_renamed:
  assumes "shape s y = Some (renamed f par n)" "src b = Some n"
  shows "has_port s d y p = has_port src d b p"
  using assms by (auto simp: has_port_shape_def [of s] has_port_def [of src] node_conns_renamed map_of_clear_conns split: option.split)

lemma building_renamed: "m_kind n = Coupled c \<Longrightarrow> building n c (map (map_prod id f) (m_modelList c)) = renamed f None n"
  by (simp add: building_def renamed_def)

lemma clear_conns_idem [simp]: "clear_conns (clear_conns l) = clear_conns l"
  by (simp add: clear_conns_def)

lemma node_shape_renamed [simp]: "node_shape (renamed f par n) = renamed f par n"
  by (simp add: node_shape_def renamed_def split: model_kind.split)

lemma ports_renamed:
  assumes "s y = Some (renamed f par n)"
  shows "ports s d y p = []"
  using assms by (auto simp: ports_def node_conns_renamed map_of_clear_conns split: option.split)

lemma wp_clone_end:
  assumes "src m = Some n" "map_of (models s x) (m_name n) = Some b"
  shows "wp (clone_end src x m) s (\<lambda>b' s'. b' = b \<and> s' = s)"
proof -
  obtain k c where "s x = Some k" "m_kind k = Coupled c" "m_modelList c = models s x"
    using assms(2) by (auto simp: models_def split: option.splits model_kind.splits)
  then show ?thesis using assms
    by (simp add: clone_end_def wp_bindS wp_read_result wp_getName CoupledModel_findModel_def getModelList_def deref_coupled_def wp_deref wp_retS)
qed

lemma list_ports:
  assumes "keys_ok src" "src b = Some n" "node_conns d n = Some l"
  shows "conns_at l p = ports src d b p" "distinct (map fst l)" "e \<in> set l \<Longrightarrow> has_port src d b (fst e)" "e \<in> set l \<Longrightarrow> snd e = ports src d b (fst e)"
proof -
  show d: "distinct (map fst l)" using assms unfolding keys_ok_def by blast
  show "conns_at l p = ports src d b p" using assms(2,3) by (simp add: conns_at_def ports_def split: option.split)
  show "has_port src d b (fst e)" if "e \<in> set l" using that assms(2,3) by (simp add: has_port_def map_of_eq_None_iff)
  show "snd e = ports src d b (fst e)" if "e \<in> set l"
    using map_of_is_SomeI [OF d, of "fst e" "snd e"] that assms(2,3) by (simp add: ports_def)
qed

lemma forS_map: "forS f (map g xs) = forS (\<lambda>x. f (g x)) xs"
  by (induction xs) simp_all


lemma map_of_clones: "distinct (map fst l) \<Longrightarrow> (k, m) \<in> set l \<Longrightarrow> map_of (map (map_prod id f) l) k = Some (f m)"
  by (induction l) (auto simp: rev_image_eqI)

text \<open>The state in which the connections are copied: the addresses of the copies of the children and of the model itself.\<close>

definition copying :: "graph \<Rightarrow> addr \<Rightarrow> addr \<Rightarrow> (addr \<Rightarrow> addr) \<Rightarrow> base_model \<Rightarrow> coupled_data \<Rightarrow> graph \<Rightarrow> bool" where
  "copying src a x f n c s1 \<longleftrightarrow> linked src \<and> tree_ok src \<and> keys_ok src \<and> src a = Some n \<and> m_kind n = Coupled c
     \<and> s1 x = Some (building n c (map (map_prod id f) (m_modelList c)))
     \<and> (\<forall>b. parent src b = Some a \<longrightarrow> f b \<noteq> x \<and> copied f src (Some x) b s1)"

lemma copying_D:
  assumes "copying src a x f n c s1"
  shows "linked src" "tree_ok src" "keys_ok src" "src a = Some n" "m_kind n = Coupled c"
    "s1 x = Some (building n c (map (map_prod id f) (m_modelList c)))"
    "parent src b = Some a \<Longrightarrow> f b \<noteq> x" "parent src b = Some a \<Longrightarrow> copied f src (Some x) b s1"
    "parent src b = Some a \<Longrightarrow> b \<noteq> a"
  using assms tree_irrefl by (auto simp: copying_def)

lemma models_list:
  assumes "copying src a x f n c s1"
  shows "models src a = m_modelList c" "distinct (map fst (m_modelList c))"
proof -
  show "models src a = m_modelList c" using copying_D(4,5) [OF assms] by (simp add: models_def)
  moreover have "smap_ok (models src a)" using copying_D(2) [OF assms] by (simp add: tree_ok_def)
  ultimately show "distinct (map fst (m_modelList c))" by (simp add: smap_ok_def strict_sorted_iff)
qed

lemma kid_node:
  assumes "copying src a x f n c s1" "parent src b = Some a"
  shows "\<exists>m. src b = Some m \<and> (m_name m, b) \<in> set (m_modelList c) \<and> shape s1 (f b) = Some (renamed f (Some x) m)"
proof -
  obtain m where m: "src b = Some m" "m_parent m = Some a" using assms(2) by (auto simp: parent_def split: option.splits)
  then have "(m_name m, b) \<in> set (models src a)" using copying_D(2) [OF assms(1)] by (simp add: tree_ok_def)
  moreover have "shape s1 (f b) = map_option (renamed f (Some x)) (src b)" using copying_D(8) [OF assms] by (simp add: copied_def below_def)
  ultimately show ?thesis using m by (simp add: models_list [OF assms(1)])
qed

lemma models_copy:
  assumes "copying src a x f n c s1" "shape s = shape s1"
  shows "models s x = map (map_prod id f) (m_modelList c)"
  using copying_D(6) [OF assms(1)] unfolding shape_cong(3) [OF assms(2)] by (simp add: models_def building_def)

lemma wp_find:
  assumes "copying src a x f n c s1" "parent src m = Some a" "shape s = shape s1"
  shows "wp (clone_end src x m) s (\<lambda>b s'. b = (f(a := x)) m \<and> s' = s)"
proof -
  obtain k where k: "src m = Some k" "(m_name k, m) \<in> set (m_modelList c)" using kid_node [OF assms(1,2)] by blast
  have "map_of (models s x) (m_name k) = Some (f m)"
    using map_of_clones [OF models_list(2) [OF assms(1)] k(2)] by (simp add: models_copy [OF assms(1,3)])
  from wp_clone_end [of src m k, OF k(1) this] show ?thesis using copying_D(9) [OF assms(1,2)] by simp
qed

lemma wp_copyConnection:
  assumes c: "copying src a x f n c s1" and d: "d = IntIn \<or> d = IntOut" and s: "shape s = shape s1" and l: "node_conns d n = Some l"
  shows "wp (copyConnection src x d l) s (\<lambda>_. grows d x (\<lambda>p. image_mset (map_prod (f(a := x)) id) (mset (ports src d a p))) s)"
proof -
  note lp = list_ports [OF copying_D(3,4) [OF c] l]
  have "wp (copyConnection src x d l) s (\<lambda>_. grows d x (\<lambda>p. image_mset (map_prod (f(a := x)) id) (mset (conns_at l p))) s)"
    unfolding copyConnection_def copyPort_def
  proof (rule wp_copy_list [OF _ _ lp(2)])
    fix m t
    assume "m \<in> fst ` (\<Union>e \<in> set l. set (snd e))" and t: "shape t = shape s"
    then obtain e q where e: "e \<in> set l" "(m, q) \<in> set (snd e)" by auto
    then have "(m, q) \<in> set (ports src d a (fst e))" using lp(4) by simp
    from linked_D(1) [OF copying_D(1) [OF c] this] have "parent src m = Some a" using d by (auto simp: may_connect_def)
    then show "wp (clone_end src x m) t (\<lambda>b t'. b = (f(a := x)) m \<and> t' = t)" using s t by (intro wp_find [OF c]) simp_all
  next
    fix e
    assume "e \<in> set l"
    then have "has_port src d a (fst e)" by (rule lp(3))
    then show "has_port s d x (fst e)"
      using copying_D(4-6) [OF c] d by (auto simp: shape_cong(1) [OF s] has_port_def node_conns_def building_def map_of_clear_conns)
  qed
  then show ?thesis by (simp add: lp(1))
qed

lemma wp_copyInternalConnection:
  assumes c: "copying src a x f n c s1" and d: "d = In \<or> d = Out" and s: "shape s = shape s1" and b: "parent src b = Some a" "src b = Some m" and l: "node_conns d m = Some l"
  shows "wp (copyInternalConnection src a x d (f b) l) s (\<lambda>_. grows d (f b) (\<lambda>p. image_mset (map_prod (f(a := x)) id) (mset (ports src d b p))) s)"
proof -
  note lp = list_ports [OF copying_D(3) [OF c] b(2) l]
  have "wp (copyInternalConnection src a x d (f b) l) s (\<lambda>_. grows d (f b) (\<lambda>p. image_mset (map_prod (f(a := x)) id) (mset (conns_at l p))) s)"
    unfolding copyInternalConnection_def copyInternalPort_def
  proof (rule wp_copy_list [OF _ _ lp(2)])
    fix k t
    assume "k \<in> fst ` (\<Union>e \<in> set l. set (snd e))" and t: "shape t = shape s"
    then obtain e q where e: "e \<in> set l" "(k, q) \<in> set (snd e)" by auto
    then have "(k, q) \<in> set (ports src d b (fst e))" using lp(4) by simp
    from linked_D(1) [OF copying_D(1) [OF c] this] have "k = a \<or> parent src k = Some a" using d b(1) by (auto simp: may_connect_def)
    then show "wp (if k = a then retS x else clone_end src x k) t (\<lambda>b t'. b = (f(a := x)) k \<and> t' = t)"
      using wp_find [OF c, of k t] s t by (auto simp: wp_retS)
  next
    fix e
    assume "e \<in> set l"
    then have "has_port src d b (fst e)" by (rule lp(3))
    moreover have "shape s (f b) = Some (renamed f (Some x) m)" using kid_node [OF c b(1)] b(2) s by auto
    ultimately show "has_port s d (f b) (fst e)" using has_port_renamed b(2) by blast
  qed
  then show ?thesis by (simp add: lp(1))
qed


text \<open>The loop over the sub-models: the children \<open>B\<close> have got their connections.\<close>

definition kids_connected :: "graph \<Rightarrow> (addr \<Rightarrow> addr) \<Rightarrow> (addr \<Rightarrow> addr) \<Rightarrow> addr set \<Rightarrow> graph \<Rightarrow> graph \<Rightarrow> bool" where
  "kids_connected src f F B s t \<longleftrightarrow> shape t = shape s \<and> (\<forall>y. y \<notin> f ` B \<longrightarrow> t y = s y)
     \<and> (\<forall>b \<in> B. \<forall>d p. mset (ports t d (f b) p) = mset (ports s d (f b) p)
          + (if d = In \<or> d = Out then image_mset (map_prod F id) (mset (ports src d b p)) else {#}))"

lemma wp_copy_child:
  assumes c: "copying src a x f n c s1" and b: "parent src b = Some a" and J: "kids_connected src f (f(a := x)) B s t" and s: "shape s = shape s1"
    and new: "f b \<notin> f ` B" "b \<notin> B"
  shows "wp (copy_child src a x ((k, b), (k', f b))) t (\<lambda>_. kids_connected src f (f(a := x)) (insert b B) s)"
proof -
  let ?F = "f(a := x)"
  obtain m where m: "src b = Some m" using kid_node [OF c b] by blast
  have J': "shape t = shape s" "\<And>y. y \<notin> f ` B \<Longrightarrow> t y = s y" "\<And>b d p. b \<in> B \<Longrightarrow> mset (ports t d (f b) p) = mset (ports s d (f b) p)
          + (if d = In \<or> d = Out then image_mset (map_prod ?F id) (mset (ports src d b p)) else {#})" using J by (auto simp: kids_connected_def)
  have "wp (copyInternalConnection src a x In (f b) (m_inPortList m)) t (\<lambda>_ t1. wp (copyInternalConnection src a x Out (f b) (m_outPortList m)) t1
    (\<lambda>_. kids_connected src f ?F (insert b B) s))"
  proof (rule wp_mono [OF wp_copyInternalConnection [OF c _ _ b m]])
    show "In = In \<or> In = Out" "shape t = shape s1" "node_conns In m = Some (m_inPortList m)" using J'(1) s by (simp_all add: node_conns_def)
    fix t1
    assume t1: "grows In (f b) (\<lambda>p. image_mset (map_prod ?F id) (mset (ports src In b p))) t t1"
    show "wp (copyInternalConnection src a x Out (f b) (m_outPortList m)) t1 (\<lambda>_. kids_connected src f ?F (insert b B) s)"
    proof (rule wp_mono [OF wp_copyInternalConnection [OF c _ _ b m]])
      show "Out = In \<or> Out = Out" "shape t1 = shape s1" "node_conns Out m = Some (m_outPortList m)" using t1 J'(1) s by (simp_all add: node_conns_def grows_def)
      fix t2
      assume t2: "grows Out (f b) (\<lambda>p. image_mset (map_prod ?F id) (mset (ports src Out b p))) t1 t2"
      have "shape t2 = shape s" using t1 t2 J'(1) by (simp add: grows_def)
      moreover have other: "t2 y = t y" if "y \<noteq> f b" for y using t1 t2 that by (simp add: grows_def)
      moreover have "mset (ports t2 d (f b) p) = mset (ports s d (f b) p) + (if d = In \<or> d = Out then image_mset (map_prod ?F id) (mset (ports src d b p)) else {#})" for d p
      proof -
        have "ports t d (f b) p = ports s d (f b) p" using J'(2) new(1) by (simp add: ports_def)
        then show ?thesis using t1 t2 by (cases d) (simp_all add: grows_def)
      qed
      moreover have "ports t2 d (f b') p = ports t d (f b') p" if "b' \<in> B" for b' d p
      proof -
        have "f b' \<noteq> f b" using new(1) that by (metis image_eqI)
        then show ?thesis using other by (simp add: ports_def)
      qed
      ultimately show "kids_connected src f ?F (insert b B) s t2" using J'(2,3) by (auto simp: kids_connected_def)
    qed
  qed
  then show ?thesis using m by (simp add: copy_child_def src_list_def wp_thenS wp_bindS wp_read_result wp_getPortList node_conns_def)
qed

lemma wp_models_shape:
  assumes "shape s x = Some m" "m_kind m = Coupled c"
  shows "wp (getModelList x) s P = P (m_modelList c) s"
proof -
  obtain k where k: "s x = Some k" "node_shape k = m" using assms(1) by (auto simp: shape_def)
  then obtain c' where "m_kind k = Coupled c'" "m_modelList c' = m_modelList c" using assms(2) by (auto simp: node_shape_def split: model_kind.splits)
  then show ?thesis using k(1) by (simp add: getModelList_def deref_coupled_def wp_bindS wp_deref wp_retS)
qed

lemma wp_copy_connections:
  assumes c: "copying src a x f n c s1" and inj: "inj_on f {b. parent src b = Some a}"
  shows "wp (copy_connections src a x) s1 (\<lambda>_ s4. \<exists>s2 s3. grows IntIn x (\<lambda>p. image_mset (map_prod (f(a := x)) id) (mset (ports src IntIn a p))) s1 s2
    \<and> grows IntOut x (\<lambda>p. image_mset (map_prod (f(a := x)) id) (mset (ports src IntOut a p))) s2 s3
    \<and> kids_connected src f (f(a := x)) {b. parent src b = Some a} s3 s4)"
proof -
  let ?F = "f(a := x)"
  let ?Q = "\<lambda>s4. \<exists>s2 s3. grows IntIn x (\<lambda>p. image_mset (map_prod ?F id) (mset (ports src IntIn a p))) s1 s2
    \<and> grows IntOut x (\<lambda>p. image_mset (map_prod ?F id) (mset (ports src IntOut a p))) s2 s3
    \<and> kids_connected src f ?F {b. parent src b = Some a} s3 s4"
  note D = copying_D [OF c]
  have kids: "set (map snd (m_modelList c)) = {b. parent src b = Some a}"
    using tree_child_iff [OF D(2), of _ a] by (auto simp: models_list [OF c])
  have li: "node_conns IntIn n = Some (m_internalInputList c)" "node_conns IntOut n = Some (m_internalOutputList c)" using D(5) by (simp_all add: node_conns_def)
  have "wp (copyConnection src x IntIn (m_internalInputList c)) s1 (\<lambda>_ s2. wp (copyConnection src x IntOut (m_internalOutputList c)) s2 (\<lambda>_ s3.
    wp (getModelList x) s3 (\<lambda>ml s. wp (forS (copy_child src a x) (zip (models src a) ml)) s (\<lambda>_. ?Q))))"
  proof (rule wp_mono [OF wp_copyConnection [OF c _ _ li(1)]])
    show "IntIn = IntIn \<or> IntIn = IntOut" "shape s1 = shape s1" by simp_all
    fix s2
    assume s2: "grows IntIn x (\<lambda>p. image_mset (map_prod ?F id) (mset (ports src IntIn a p))) s1 s2"
    then have sh2: "shape s2 = shape s1" by (simp add: grows_def)
    show "wp (copyConnection src x IntOut (m_internalOutputList c)) s2 (\<lambda>_ s3.
      wp (getModelList x) s3 (\<lambda>ml s. wp (forS (copy_child src a x) (zip (models src a) ml)) s (\<lambda>_. ?Q)))"
    proof (rule wp_mono [OF wp_copyConnection [OF c _ sh2 li(2)]])
      show "IntOut = IntIn \<or> IntOut = IntOut" by simp
      fix s3
      assume s3: "grows IntOut x (\<lambda>p. image_mset (map_prod ?F id) (mset (ports src IntOut a p))) s2 s3"
      then have sh3: "shape s3 = shape s1" using sh2 by (simp add: grows_def)
      have "shape s3 x = Some (renamed f None n)" using D(6) by (simp add: sh3 shape_def building_renamed [OF D(5)])
      moreover have "m_kind (renamed f None n) = Coupled \<lparr>m_modelList = map (map_prod id f) (m_modelList c), m_internalInputList = clear_conns (m_internalInputList c),
           m_internalOutputList = clear_conns (m_internalOutputList c), m_srcConnections = [], m_dstConnections = []\<rparr>" by (simp add: renamed_def D(5))
      note ml = wp_models_shape [OF calculation this]
      have "zip (models src a) (map (map_prod id f) (m_modelList c)) = map (\<lambda>e. (e, (fst e, f (snd e)))) (m_modelList c)"
        unfolding models_list(1) [OF c] by (simp add: zip_map2 map_prod_def split_beta zip_same_conv_map)
      moreover have "wp (forS (\<lambda>e. copy_child src a x (e, (fst e, f (snd e)))) (m_modelList c)) s3 (\<lambda>_. kids_connected src f ?F (set (map snd (m_modelList c))) s3)"
      proof (rule wp_forS_prefix [where J = "\<lambda>pre. kids_connected src f ?F (set (map snd pre)) s3"])
        show "kids_connected src f ?F (set (map snd [])) s3 s3" by (simp add: kids_connected_def)
        fix pre e post t
        assume split: "m_modelList c = pre @ e # post" and J: "kids_connected src f ?F (set (map snd pre)) s3 t"
        have e: "parent src (snd e) = Some a" "\<And>e'. e' \<in> set pre \<Longrightarrow> parent src (snd e') = Some a" using kids split by auto
        have "distinct (map snd (m_modelList c))" using distinct_children [OF D(2), of a] by (simp add: models_list [OF c])
        then have new: "snd e \<notin> set (map snd pre)" using split by auto
        have "f (snd e) \<noteq> f (snd e')" if "e' \<in> set pre" for e'
        proof -
          have "snd e \<noteq> snd e'" using new that by (metis image_eqI set_map)
          then show ?thesis using inj e(1) e(2) [OF that] by (auto simp: inj_on_def)
        qed
        then have "f (snd e) \<notin> f ` set (map snd pre)" by auto
        from wp_copy_child [OF c e(1) J sh3 this new, of "fst e" "fst e"]
        show "wp (copy_child src a x (e, fst e, f (snd e))) t (\<lambda>_. kids_connected src f ?F (set (map snd (pre @ [e]))) s3)" by simp
      qed
      ultimately show "wp (getModelList x) s3 (\<lambda>ml s. wp (forS (copy_child src a x) (zip (models src a) ml)) s (\<lambda>_. ?Q))"
        using s2 s3 unfolding kids ml by (simp add: forS_map) (erule wp_mono, blast)
    qed
  qed
  then show ?thesis using D(4) li
    by (simp add: copy_connections_def src_list_def wp_thenS wp_bindS wp_read_result wp_getPortList)
qed


section \<open>The copy of a model\<close>

lemma below_dom: "b \<in> below s a \<Longrightarrow> s a \<noteq> None \<Longrightarrow> s b \<noteq> None"
  using below_parent [of b s a] by (cases "b = a") (auto simp: parent_def split: option.splits)

lemma below_bound:
  assumes "tree_ok src" "parent src b = Some a" "finite (below src a)" "card (below src a) \<le> Suc d"
  shows "finite (below src b)" "card (below src b) \<le> d"
proof -
  have sub: "below src b \<subseteq> below src a - {a}" using below_child [OF assms(1,2)] by blast
  then show "finite (below src b)" using assms(3) by (meson finite_Diff finite_subset)
  have "a \<in> below src a" by (simp add: below_def)
  then have "card (below src a - {a}) \<le> d" using assms(3,4) by (simp add: card_Diff_singleton)
  then show "card (below src b) \<le> d" using card_mono [OF _ sub] assms(3) by fastforce
qed

lemma renamed_cong:
  assumes "tree_ok src" "src a = Some n" "\<And>b. parent src b = Some a \<Longrightarrow> g b = f b"
  shows "renamed g par n = renamed f par n"
proof -
  have "map (map_prod id g) (m_modelList c) = map (map_prod id f) (m_modelList c)" if "m_kind n = Coupled c" for c
    using assms(3) tree_child [OF assms(1)] assms(2) that by (force simp: models_def)
  then show ?thesis by (simp add: renamed_def split: model_kind.split)
qed

lemma cloned_atomic:
  assumes "tree_ok src" "src a = Some n" "m_kind n = Atomic w"
  shows "cloned (\<lambda>_. x) src a x (Suc x) s (s(x \<mapsto> copy_node n))"
proof -
  have "below src a = {a}" using below_unfold [OF assms(1), of a] assms(2,3) by (simp add: models_def)
  moreover have c: "copy_node n = renamed (\<lambda>_. x) None n" using assms(3) by (simp add: copy_node_def renamed_def)
  moreover have "ports (s(x \<mapsto> copy_node n)) d x p = []" for d p unfolding c by (rule ports_renamed [where s = "s(x \<mapsto> renamed (\<lambda>_. x) None n)"]) simp
  moreover have "ports src IntIn a p = []" "ports src IntOut a p = []" for p using assms(2,3) by (simp_all add: ports_def node_conns_def)
  then have "\<not> (d = In \<or> d = Out) \<Longrightarrow> ports src d a p = []" for d p by (cases d) simp_all
  ultimately show ?thesis using assms(2) by (simp add: cloned_def copied_def shape_def)
qed

lemma cloned_coupled:
  assumes src: "linked src" "tree_ok src" "keys_ok src" and n: "src a = Some n" "m_kind n = Coupled c"
    and e: "entries_cloned f src x (m_modelList c) nxt s s1" and root: "s1 x = Some (building n c (map (map_prod id f) (m_modelList c)))"
    and g: "grows IntIn x (\<lambda>p. image_mset (map_prod (f(a := x)) id) (mset (ports src IntIn a p))) s1 s2"
      "grows IntOut x (\<lambda>p. image_mset (map_prod (f(a := x)) id) (mset (ports src IntOut a p))) s2 s3"
    and k: "kids_connected src f (f(a := x)) {b. parent src b = Some a} s3 s4"
  shows "cloned (f(a := x)) src a x nxt s s4"
proof -
  let ?F = "f(a := x)" and ?U = "subs src (m_modelList c)"
  have ml: "models src a = m_modelList c" using n by (simp add: models_def)
  have U: "below src a = insert a ?U" using below_unfold [OF src(2), of a] by (simp add: subs_def ml)
  have a: "a \<notin> ?U" using below_child(2) [OF src(2)] tree_child [OF src(2)] unfolding subs_def ml [symmetric] by force
  have kids: "b \<in> ?U" if "parent src b = Some a" for b
    using that tree_child_iff [OF src(2), of b a] by (force simp: subs_def below_def ml)
  have F: "inj_on f ?U" "f ` ?U \<subseteq> {Suc x..<nxt}" "x < nxt" "\<And>y. y \<notin> f ` ?U \<Longrightarrow> y \<noteq> x \<Longrightarrow> s1 y = s y"
    "\<And>e. e \<in> set (m_modelList c) \<Longrightarrow> copied f src (Some x) (snd e) s1" using e by (auto simp: entries_cloned_def)
  have xk: "f b \<noteq> x" if "b \<in> ?U" for b using F(2) that by force
  have im: "?F ` below src a = insert x (f ` ?U)" using a unfolding U by (auto simp: image_iff)
  have inj: "inj_on ?F (below src a)" using F(1) a xk unfolding U by (auto simp: inj_on_def)
  have s3: "s3 y = s1 y" if "y \<noteq> x" for y using g that by (simp add: grows_def)
  have s4: "s4 y = s3 y" if "y \<notin> f ` {b. parent src b = Some a}" for y using k that by (simp add: kids_connected_def)
  have sh: "shape s4 = shape s1" using g k by (simp add: grows_def kids_connected_def)
  have frame: "s4 y = s y" if "y \<notin> ?F ` below src a" for y
    using that kids s4 s3 F(4) unfolding im by force
  have "copied ?F src None a s4"
    unfolding copied_def
  proof (intro ballI conjI allI)
    fix b d p
    assume b: "b \<in> below src a"
    have "shape s4 (?F b) = map_option (renamed ?F (if b = a then None else map_option ?F (parent src b))) (src b)
      \<and> mset (ports s4 d (?F b) p) = (if b = a \<and> (d = In \<or> d = Out) then {#} else image_mset (map_prod ?F id) (mset (ports src d b p)))"
    proof (cases "b = a")
      case True
      have ren: "renamed ?F None n = renamed f None n" by (rule renamed_cong [OF src(2) n(1)]) (use a kids in auto)
      have rt: "s1 x = Some (renamed f None n)" using root building_renamed [OF n(2)] by simp
      then have "shape s1 x = Some (renamed ?F None n)" unfolding ren by (simp add: shape_def)
      moreover have "ports s1 d' x p = []" for d' by (rule ports_renamed [where s = s1 and f = f and par = None and n = n, OF rt])
      moreover have "s4 x = s3 x" using kids xk by (intro s4) force
      then have "ports s4 d x p = ports s3 d x p" by (simp add: ports_def)
      ultimately show ?thesis using True g n(1) sh by (cases d) (simp_all add: grows_def)
    next
      case False
      then obtain e where e: "e \<in> set (m_modelList c)" "b \<in> below src (snd e)" using b U by (auto simp: subs_def)
      have par: "parent src (snd e) = Some a" using tree_child [OF src(2), of "fst e" "snd e" a] e(1) ml by simp
      have bU: "b \<in> ?U" using e by (auto simp: subs_def)
      have cp: "copied ?F src (Some x) (snd e) s1"
      proof (rule copied_cong [OF src(1,2) F(5) [OF e(1)]])
        fix m
        assume "m \<in> below src (snd e)"
        then show "?F m = f m \<and> s1 (f m) = s1 (f m)" using below_child(2) [OF src(2) par] by simp
      qed
      then have C: "shape s1 (f b) = map_option (renamed ?F (if b = snd e then Some x else map_option ?F (parent src b))) (src b)"
        "mset (ports s1 d (f b) p) = (if b = snd e \<and> (d = In \<or> d = Out) then {#} else image_mset (map_prod ?F id) (mset (ports src d b p)))"
        using bspec [OF cp [unfolded copied_def] e(2)] False by simp_all
      have s31: "s3 (f b) = s1 (f b)" by (rule s3 [OF xk [OF bU]])
      show ?thesis
      proof (cases "b = snd e")
        case True
        have "mset (ports s4 d (f b) p) = mset (ports s3 d (f b) p) + (if d = In \<or> d = Out then image_mset (map_prod ?F id) (mset (ports src d b p)) else {#})"
          using k par True by (simp add: kids_connected_def)
        moreover have "ports s3 d (f b) p = ports s1 d (f b) p" using s31 by (simp add: ports_def)
        ultimately show ?thesis using C True False par sh by simp
      next
        case other: False
        have "f b \<noteq> f m" if "parent src m = Some a" for m
        proof
          assume "f b = f m"
          then have "b = m" using F(1) bU kids [OF that] by (auto simp: inj_on_def)
          then have "b \<in> below src m" by (simp add: below_def)
          then show False using below_disjoint [OF src(2) that par] e(2) other \<open>b = m\<close> by auto
        qed
        then have "s4 (f b) = s1 (f b)" using s4 s31 by force
        then have "ports s4 d (f b) p = ports s1 d (f b) p" by (simp add: ports_def)
        then show ?thesis using C other False sh by simp
      qed
    qed
    then show "shape s4 (?F b) = map_option (renamed ?F (if b = a then None else map_option ?F (parent src b))) (src b)"
      "mset (ports s4 d (?F b) p) = (if b = a \<and> (d = In \<or> d = Out) then {#} else image_mset (map_prod ?F id) (mset (ports src d b p)))" by simp_all
  qed
  moreover have "?F ` below src a \<subseteq> {x..<nxt}" unfolding im using F(2,3) by force
  ultimately show ?thesis using inj frame by (simp add: cloned_def)
qed

lemma wp_clone_model:
  assumes src: "linked src" "tree_ok src" "keys_ok src"
  shows "src a \<noteq> None \<Longrightarrow> finite (below src a) \<Longrightarrow> card (below src a) \<le> d \<Longrightarrow> (\<And>y. x \<le> y \<Longrightarrow> s y = None)
    \<Longrightarrow> wp (clone_model d src a x) s (\<lambda>nxt s'. \<exists>f. cloned f src a x nxt s s')"
proof (induction d arbitrary: a x s)
  case 0
  then have "below src a = {}" by simp
  then show ?case by (simp add: below_def)
next
  case (Suc d)
  obtain n where n: "src a = Some n" using Suc.prems(1) by blast
  show ?case
  proof (cases "m_kind n")
    case (Atomic w)
    then show ?thesis using n cloned_atomic [OF src(2) n Atomic, of x s] by (auto simp: wp_bindS wp_thenS wp_read_result wp_deref wp_retS wp_put)
  next
    case (Coupled c)
    let ?s = "s(x \<mapsto> copy_node n)"
    have b: "copy_node n = building n c (map (map_prod id (\<lambda>_. x)) [] @ m_modelList c)" using Coupled by (simp add: copy_node_def building_def)
    have "wp (clone_entries d src x (m_modelList c) (Suc x)) ?s (\<lambda>nxt s1. \<exists>f. entries_cloned f src x (m_modelList c) nxt s s1
      \<and> s1 x = Some (building n c (map (map_prod id f) (m_modelList c))))"
    proof (rule wp_clone_entries [OF src(1,2) n Coupled, where pre = "[]" and f = "\<lambda>_. x"])
      fix b y :: addr and t :: graph
      assume b: "parent src b = Some a" and t: "\<And>z. y \<le> z \<Longrightarrow> t z = None"
      have "src b \<noteq> None" using b by (simp add: parent_def split: option.splits)
      then show "wp (clone_model d src b y) t (\<lambda>nxt t'. \<exists>f. cloned f src b y nxt t t')"
        using below_bound [OF src(2) b Suc.prems(2,3)] t by (intro Suc.IH)
    next
      show "entries_cloned (\<lambda>_. x) src x [] (Suc x) s ?s" by (simp add: entries_cloned_def subs_def)
    qed (use Suc.prems(4) b in auto)
    then have "wp (clone_entries d src x (m_modelList c) (Suc x)) ?s (\<lambda>nxt s1. wp (copy_connections src a x) s1 (\<lambda>_ s4. \<exists>f. cloned f src a x nxt s s4))"
    proof (rule wp_mono, elim exE conjE)
      fix nxt s1 f
      assume e: "entries_cloned f src x (m_modelList c) nxt s s1" and r: "s1 x = Some (building n c (map (map_prod id f) (m_modelList c)))"
      have ml: "models src a = m_modelList c" using n Coupled by (simp add: models_def)
      have kid: "\<exists>e \<in> set (m_modelList c). snd e = b" if "parent src b = Some a" for b
        using that tree_child_iff [OF src(2), of b a] by (force simp: ml)
      then have sub: "{b. parent src b = Some a} \<subseteq> subs src (m_modelList c)" by (force simp: subs_def below_def)
      have "inj_on f {b. parent src b = Some a}" using e sub by (auto simp: entries_cloned_def intro: inj_on_subset)
      moreover have "copying src a x f n c s1"
        using src n Coupled r e kid sub by (force simp: copying_def entries_cloned_def)
      ultimately have "wp (copy_connections src a x) s1 (\<lambda>_ s4. \<exists>s2 s3. grows IntIn x (\<lambda>p. image_mset (map_prod (f(a := x)) id) (mset (ports src IntIn a p))) s1 s2
        \<and> grows IntOut x (\<lambda>p. image_mset (map_prod (f(a := x)) id) (mset (ports src IntOut a p))) s2 s3
        \<and> kids_connected src f (f(a := x)) {b. parent src b = Some a} s3 s4)" by (rule wp_copy_connections [rotated])
      then show "wp (copy_connections src a x) s1 (\<lambda>_ s4. \<exists>f. cloned f src a x nxt s s4)"
        by (rule wp_mono) (use cloned_coupled [OF src n Coupled e r] in blast)
    qed
    then show ?thesis using n Coupled by (simp add: wp_bindS wp_thenS wp_read_result wp_deref wp_retS wp_put)
  qed
qed

end
