(* ===== verification/Copy_Properties.thy ===== *)
theory Copy_Properties
  imports Model_Copy Traversal
begin

text \<open>
  The copy of a model of a well-formed graph is well-formed too, beside the graph it was put in.
\<close>

section \<open>The graph with the copy\<close>

text \<open>The models below \<open>a\<close> of \<open>src\<close> have been copied into the well-formed graph \<open>s\<close>.\<close>

definition beside :: "(addr \<Rightarrow> addr) \<Rightarrow> graph \<Rightarrow> addr \<Rightarrow> addr \<Rightarrow> addr \<Rightarrow> graph \<Rightarrow> graph \<Rightarrow> bool" where
  "beside f src a x nxt s s' \<longleftrightarrow> graph_ok src \<and> graph_ok s \<and> src a \<noteq> None \<and> (\<forall>y. x \<le> y \<longrightarrow> s y = None) \<and> cloned f src a x nxt s s'"

lemma beside_D:
  assumes "beside f src a x nxt s s'"
  shows "linked src" "tree_ok src" "linked s" "tree_ok s" "src a \<noteq> None"
    "y \<notin> f ` below src a \<Longrightarrow> s' y = s y" "y \<in> f ` below src a \<Longrightarrow> s y = None"
  using assms by (auto simp: beside_def graph_ok_def cloned_def)

lemma beside_eq:
  assumes "beside f src a x nxt s s'" "b \<in> below src a" "m \<in> below src a"
  shows "f b = f m \<longleftrightarrow> b = m"
  using assms by (auto simp: beside_def cloned_def inj_on_def)

lemma beside_node:
  assumes "beside f src a x nxt s s'" "b \<in> below src a"
  shows "\<exists>n. src b = Some n \<and> shape s' (f b) = Some (renamed f (if b = a then None else map_option f (parent src b)) n)"
  using assms below_dom [OF assms(2)] by (fastforce simp: beside_def cloned_def copied_def)

lemma beside_ports:
  assumes "beside f src a x nxt s s'" "b \<in> below src a"
  shows "mset (ports s' d (f b) p) = (if b = a \<and> (d = In \<or> d = Out) then {#} else image_mset (map_prod f id) (mset (ports src d b p)))"
  using assms by (auto simp: beside_def cloned_def copied_def)

lemma parent_shape: "parent s y = (case shape s y of None \<Rightarrow> None | Some n \<Rightarrow> m_parent n)"
  by (auto simp: parent_def shape_def node_shape_def split: option.split)

lemma models_shape: "models s y = (case shape s y of None \<Rightarrow> [] | Some n \<Rightarrow> (case m_kind n of Atomic _ \<Rightarrow> [] | Coupled c \<Rightarrow> m_modelList c))"
  by (auto simp: models_def shape_def node_shape_def split: option.split model_kind.split)

lemma renamed_simps [simp]:
  "m_parent (renamed f par n) = par" "m_name (renamed f par n) = m_name n"
  by (simp_all add: renamed_def node_shape_def)

lemma beside_parent:
  assumes "beside f src a x nxt s s'" "b \<in> below src a"
  shows "parent s' (f b) = (if b = a then None else map_option f (parent src b))"
  using beside_node [OF assms] by (auto simp: parent_shape)

lemma beside_models:
  assumes "beside f src a x nxt s s'" "b \<in> below src a"
  shows "models s' (f b) = map (map_prod id f) (models src b)"
proof -
  obtain n where "src b = Some n" "shape s' (f b) = Some (renamed f (if b = a then None else map_option f (parent src b)) n)" using beside_node [OF assms] by blast
  then show ?thesis by (simp add: models_shape [of s'] models_def [of src] renamed_def split: model_kind.split)
qed

lemma beside_old:
  assumes "beside f src a x nxt s s'" "y \<notin> f ` below src a"
  shows "parent s' y = parent s y" "models s' y = models s y" "ports s' d y p = ports s d y p" "has_port s' d y p = has_port s d y p"
  using beside_D(6) [OF assms] by (simp_all add: parent_def models_def ports_def has_port_def)

lemma above_not_below:
  assumes "tree_ok src" "b \<in> below src a"
  shows "parent src a \<noteq> Some b"
  using below_child(2) [OF assms(1), of b a b] below_child(2) [OF assms(1) _ assms(2)] below_trans [OF assms(2)] by (auto simp: below_def)

lemma beside_child:
  assumes "beside f src a x nxt s s'" "b \<in> below src a" "m \<in> below src a"
  shows "parent s' (f m) = Some (f b) \<longleftrightarrow> parent src m = Some b"
proof (cases "m = a")
  case True
  then show ?thesis using above_not_below [OF beside_D(2) [OF assms(1)] assms(2)] beside_parent [OF assms(1,3)] by simp
next
  case False
  then obtain c where c: "parent src m = Some c" "c \<in> below src a" using below_parent [OF assms(3)] by blast
  then show ?thesis using False beside_parent [OF assms(1,3)] beside_eq [OF assms(1) c(2) assms(2)] by simp
qed

lemma beside_may_connect:
  assumes e: "beside f src a x nxt s s'" and b: "b \<in> below src a" and m: "m \<in> below src a" and d: "b = a \<Longrightarrow> d = IntIn \<or> d = IntOut"
  shows "may_connect s' d (f b) (f m) \<longleftrightarrow> may_connect src d b m"
proof (cases "d = IntIn \<or> d = IntOut")
  case True
  then show ?thesis using beside_child [OF e b m] by (auto simp: may_connect_def)
next
  case False
  then have "b \<noteq> a" using d by blast
  then obtain c where c: "parent src b = Some c" "c \<in> below src a" using below_parent [OF b] by blast
  then have "parent s' (f b) = Some (f c)" using beside_parent [OF e b] \<open>b \<noteq> a\<close> by simp
  then show ?thesis using beside_child [OF e c(2) m] beside_eq [OF e c(2) m] c(1) False
    by (cases d) (auto simp: may_connect_def eq_commute [of "Some c"] eq_commute [of "Some (f c)"])
qed

lemma beside_other_side:
  assumes "beside f src a x nxt s s'" "b \<in> below src a" "m \<in> below src a"
  shows "other_side s' d (f b) (f m) = other_side src d b m"
  using beside_child [OF assms(1,3,2)] by (simp add: other_side_def split: side.split)

lemma cnt_mset: "cnt s d a p b q = count (mset (ports s d a p)) (b, q)"
  by (simp add: cnt_def count_mset)

lemma count_image_inj:
  assumes "inj_on f A" "x \<in> A" "set_mset M \<subseteq> A"
  shows "count (image_mset f M) (f x) = count M x"
  using assms(3)
proof (induction M)
  case (add y M)
  then have "f x = f y \<longleftrightarrow> x = y" using assms(1,2) by (auto simp: inj_on_def)
  then have "f y = f x \<longleftrightarrow> y = x" by metis
  then show ?case using add by simp
qed simp

lemma beside_cnt:
  assumes e: "beside f src a x nxt s s'" and b: "b \<in> below src a" and m: "m \<in> below src a"
  shows "cnt s' d (f b) p (f m) q = (if b = a \<and> (d = In \<or> d = Out) then 0 else cnt src d b p m q)"
proof (cases "b = a \<and> (d = In \<or> d = Out)")
  case False
  have ends: "set_mset (mset (ports src d b p)) \<subseteq> below src a \<times> UNIV"
  proof
    fix w
    assume "w \<in># mset (ports src d b p)"
    moreover obtain k r where "w = (k, r)" by force
    moreover have "b = a \<longrightarrow> d = IntIn \<or> d = IntOut" using False by (cases d) auto
    ultimately show "w \<in> below src a \<times> UNIV" using end_below [OF beside_D(1,2) [OF e] _ b, of k r d p] by simp
  qed
  have "inj_on f (below src a)" using e by (simp add: beside_def cloned_def)
  then have "inj_on (map_prod f id) (below src a \<times> (UNIV :: string set))" by (auto simp: inj_on_def)
  from count_image_inj [OF this _ ends, of "(m, q)"]
  have "count (image_mset (map_prod f id) (mset (ports src d b p))) (f m, q) = count (mset (ports src d b p)) (m, q)" using m by simp
  moreover have "mset (ports s' d (f b) p) = image_mset (map_prod f id) (mset (ports src d b p))"
    using beside_ports [OF e b, of d p] by (simp only: False if_False)
  ultimately show ?thesis by (simp only: cnt_mset False if_False)
qed (use beside_ports [OF e b, of d p] in \<open>simp add: cnt_mset\<close>)

lemma beside_cnt_out:
  assumes e: "beside f src a x nxt s s'" and b: "b \<in> below src a" and y: "y \<notin> f ` below src a"
  shows "cnt s' d (f b) p y q = 0" "cnt s' d y q (f b) p = 0"
proof -
  have "(y, q) \<notin># mset (ports s' d (f b) p)"
  proof
    assume "(y, q) \<in># mset (ports s' d (f b) p)"
    then have "\<not> (b = a \<and> (d = In \<or> d = Out))" "(y, q) \<in># image_mset (map_prod f id) (mset (ports src d b p))"
      using beside_ports [OF e b, of d p] by (auto split: if_splits)
    then obtain k where k: "y = f k" "(k, q) \<in> set (ports src d b p)" "b = a \<longrightarrow> d = IntIn \<or> d = IntOut" by (cases d) auto
    then show False using end_below [OF beside_D(1,2) [OF e] k(2) b k(3)] y by simp
  qed
  then show "cnt s' d (f b) p y q = 0" by (simp add: cnt_mset not_in_iff)
  have "s (f b) = None" using beside_D(7) [OF e] b by simp
  moreover have "models s (f b) = []" "parent s (f b) = None" using calculation by (simp_all add: models_def parent_def)
  then have "parent s y \<noteq> Some (f b)" using tree_child_iff [OF beside_D(4) [OF e], of y "f b"] by simp
  then have "cnt s d y q (f b) p = 0"
    using linked_may_connect [OF beside_D(3) [OF e], of d y q "f b" p] \<open>parent s (f b) = None\<close> by (cases "cnt s d y q (f b) p = 0"; cases d) (auto simp: may_connect_def)
  then show "cnt s' d y q (f b) p = 0" by (simp add: cnt_def beside_old [OF e y])
qed

lemma beside_linked:
  assumes e: "beside f src a x nxt s s'"
  shows "linked s'"
  unfolding linked_def
proof (intro conjI allI)
  note D = beside_D [OF e]
  let ?I = "f ` below src a"
  fix z
  show "parent s' z \<noteq> Some z"
  proof (cases "z \<in> ?I")
    case True
    then show ?thesis using beside_child [OF e] linked_parent [OF D(1)] by auto
  next
    case False
    then show ?thesis using beside_old(1) [OF e] linked_parent [OF D(3)] by simp
  qed
  fix d p w q
  consider (old) "z \<notin> ?I" "w \<notin> ?I" | (new) b m where "z = f b" "w = f m" "b \<in> below src a" "m \<in> below src a"
    | (out) b where "z = f b" "b \<in> below src a" "w \<notin> ?I" | (in_) m where "w = f m" "m \<in> below src a" "z \<notin> ?I" by blast
  then show "cnt s' d z p w q = (if may_connect s' d z w then cnt s' (other_side s' d z w) w q z p else 0)"
  proof cases
    case old
    then have "may_connect s' d z w = may_connect s d z w" "other_side s' d z w = other_side s d z w" "cnt s' d' z p w q = cnt s d' z p w q"
      "cnt s' d' w q z p = cnt s d' w q z p" for d' by (simp_all add: may_connect_def other_side_def cnt_def beside_old [OF e] cong: side.case_cong)
    then show ?thesis using D(3) by (simp add: linked_def)
  next
    case new
    show ?thesis
    proof (cases "b = a \<and> (d = In \<or> d = Out)")
      case True
      then have "\<not> may_connect s' d z w" using beside_parent [OF e new(3)] new(1) by (auto simp: may_connect_def)
      then show ?thesis using True beside_cnt [OF e new(3,4)] by (simp add: new)
    next
      case False
      have mc: "may_connect s' d (f b) (f m) \<longleftrightarrow> may_connect src d b m"
        by (rule beside_may_connect [OF e new(3,4)]) (use False in \<open>cases d; auto\<close>)
      have "\<not> (m = a \<and> (other_side src d b m = In \<or> other_side src d b m = Out))" if mc': "may_connect src d b m"
      proof
        assume "m = a \<and> (other_side src d b m = In \<or> other_side src d b m = Out)"
        then have m: "m = a" "d = In \<or> d = Out \<Longrightarrow> parent src b = parent src a" "d = IntIn \<or> d = IntOut \<Longrightarrow> parent src a = Some b"
          using mc' by (auto simp: other_side_def may_connect_def split: side.splits if_splits)
        have up: "parent src a = Some c \<Longrightarrow> c \<in> below src a \<Longrightarrow> False" for c using above_not_below [OF D(2)] by blast
        show False using m False new(3) below_parent [OF new(3)] by (cases d) (auto dest: up)
      qed
      then have bk: "cnt s' (other_side src d b m) (f m) q (f b) p = cnt src (other_side src d b m) m q b p" if "may_connect src d b m"
        using that beside_cnt [OF e new(4,3), of "other_side src d b m" q p] by auto
      have "cnt s' d (f b) p (f m) q = cnt src d b p m q" using beside_cnt [OF e new(3,4), of d p q] by (simp only: False if_False)
      moreover have "cnt src d b p m q = (if may_connect src d b m then cnt src (other_side src d b m) m q b p else 0)" using D(1) unfolding linked_def by blast
      ultimately show ?thesis unfolding new(1,2) mc beside_other_side [OF e new(3,4)] using bk by (cases "may_connect src d b m") (simp_all only: if_True if_False)
    qed
  next
    case out
    then show ?thesis using beside_cnt_out [OF e out(2,3)] by simp
  next
    case in_
    then show ?thesis using beside_cnt_out [OF e in_(2,3)] by simp
  qed
qed

lemma wf_inv_part:
  assumes "wf R" "inj_on f A" "\<And>u v. (u, v) \<in> S \<Longrightarrow> \<exists>b c. u = f b \<and> v = f c \<and> b \<in> A \<and> c \<in> A \<and> (b, c) \<in> R"
  shows "wf S"
proof (rule wf_subset)
  show "wf (inv_image R (the_inv_into A f))" using assms(1) by (rule wf_inv_image)
  show "S \<subseteq> inv_image R (the_inv_into A f)" using assms(2,3) by (force simp: the_inv_into_f_f)
qed

lemma tree_wf: "tree_ok s \<Longrightarrow> wf (parent_rel s)"
proof -
  assume t: "tree_ok s"
  have "parent_rel s \<subseteq> dom s \<times> dom s"
  proof
    fix e
    assume "e \<in> parent_rel s"
    then obtain b c where e: "e = (b, c)" "parent s b = Some c" by (auto simp: parent_rel_def)
    then have "b \<in> snd ` set (models s c)" using tree_child_iff [OF t] by simp
    then have "s c \<noteq> None" by (cases "s c") (simp_all add: models_def)
    then show "e \<in> dom s \<times> dom s" using e by (auto simp: parent_def split: option.splits)
  qed
  then have "finite (parent_rel s)" using t by (meson finite_SigmaI finite_subset tree_ok_def)
  then show ?thesis using t by (simp add: tree_ok_def finite_acyclic_wf)
qed

lemma beside_wf:
  assumes e: "beside f src a x nxt s s'"
  shows "wf (parent_rel s')"
proof -
  let ?S = "{(u, v). parent s' u = Some v \<and> u \<in> f ` below src a}"
  note D = beside_D [OF e]
  have inj: "inj_on f (below src a)" using e by (simp add: beside_def cloned_def)
  have new: "\<exists>b c. u = f b \<and> v = f c \<and> b \<in> below src a \<and> c \<in> below src a \<and> (b, c) \<in> parent_rel src" if uv: "(u, v) \<in> ?S" for u v
  proof -
    obtain b where b: "u = f b" "b \<in> below src a" "parent s' (f b) = Some v" using uv by auto
    then have "b \<noteq> a" using beside_parent [OF e b(2)] by auto
    then obtain c where "parent src b = Some c" "c \<in> below src a" using below_parent [OF b(2)] by blast
    then show ?thesis using b beside_parent [OF e b(2)] \<open>b \<noteq> a\<close> by (auto simp: parent_rel_def)
  qed
  have "wf ?S" by (rule wf_inv_part [OF tree_wf [OF D(2)] inj new])
  have "wf (parent_rel s \<union> ?S)"
  proof (rule wf_Un [OF tree_wf [OF D(4)] \<open>wf ?S\<close>])
    show "Domain (parent_rel s) \<inter> Range ?S = {}" using new D(7) by (fastforce simp: parent_rel_def parent_def split: option.splits)
  qed
  moreover have "parent_rel s' \<subseteq> parent_rel s \<union> ?S"
  proof
    fix p
    assume "p \<in> parent_rel s'"
    then obtain u v where "p = (u, v)" "parent s' u = Some v" by (auto simp: parent_rel_def)
    then show "p \<in> parent_rel s \<union> ?S" using beside_old(1) [OF e, of u] by (cases "u \<in> f ` below src a") (auto simp: parent_rel_def)
  qed
  ultimately show ?thesis by (rule wf_subset)
qed

lemma beside_tree:
  assumes e: "beside f src a x nxt s s'"
  shows "tree_ok s'"
  unfolding tree_ok_def
proof (intro conjI allI impI)
  note D = beside_D [OF e]
  let ?I = "f ` below src a"
  have "dom s' \<subseteq> dom s \<union> {x..<nxt}"
  proof
    fix y
    assume "y \<in> dom s'"
    moreover have "?I \<subseteq> {x..<nxt}" using e by (simp add: beside_def cloned_def)
    ultimately show "y \<in> dom s \<union> {x..<nxt}" using D(6) [of y] by (cases "y \<in> ?I") auto
  qed
  then show "finite (dom s')" by (rule finite_subset) (use D(4) in \<open>simp add: tree_ok_def\<close>)
  show "acyclic (parent_rel s')" by (rule wf_acyclic [OF beside_wf [OF e]])
  fix c
  show "smap_ok (models s' c)"
  proof (cases "c \<in> ?I")
    case True
    then obtain b where "c = f b" "b \<in> below src a" by blast
    moreover have "smap_ok (models src b)" using D(2) by (simp add: tree_ok_def)
    ultimately show ?thesis using beside_models [OF e] by (simp add: smap_ok_def comp_def)
  next
    case False
    then show ?thesis using beside_old(2) [OF e] D(4) by (simp add: tree_ok_def)
  qed
  fix name y
  {
    assume y: "(name, y) \<in> set (models s' c)"
    show "\<exists>n. s' y = Some n \<and> m_name n = name \<and> m_parent n = Some c"
    proof (cases "c \<in> ?I")
      case True
      then obtain b where b: "c = f b" "b \<in> below src a" by blast
      then obtain m where m: "y = f m" "(name, m) \<in> set (models src b)" using y beside_models [OF e b(2)] by auto
      then obtain n where n: "src m = Some n" "m_name n = name" "m_parent n = Some b" using D(2) unfolding tree_ok_def by blast
      have par: "parent src m = Some b" using tree_child [OF D(2) m(2)] by simp
      then have mb: "m \<in> below src a" "m \<noteq> a" using below_trans [OF b(2) below_step [OF par]] above_not_below [OF D(2) b(2)] by auto
      then have "shape s' (f m) = Some (renamed f (Some (f b)) n)" using beside_node [OF e mb(1)] n par by auto
      then obtain k where "s' (f m) = Some k" "node_shape k = renamed f (Some (f b)) n" by (auto simp: shape_def)
      moreover have "m_name (node_shape k) = m_name k" "m_parent (node_shape k) = m_parent k" by (simp_all add: node_shape_def)
      ultimately show ?thesis using n b(1) m(1) by simp
    next
      case False
      then obtain n where n: "s y = Some n" "m_name n = name" "m_parent n = Some c" using y D(4) unfolding tree_ok_def beside_old(2) [OF e False] by blast
      then have "y \<notin> ?I" using D(7) by force
      then show ?thesis using n D(6) by simp
    qed
  }
  fix n d
  assume n: "s' y = Some n" "m_parent n = Some d"
  show "(m_name n, y) \<in> set (models s' d)"
  proof (cases "y \<in> ?I")
    case True
    then obtain m where m: "y = f m" "m \<in> below src a" by blast
    have par: "parent s' (f m) = Some d" using n m(1) by (simp add: parent_def)
    then have "m \<noteq> a" using beside_parent [OF e m(2)] by auto
    then obtain b where b: "parent src m = Some b" "b \<in> below src a" using below_parent [OF m(2)] by blast
    then have d: "d = f b" using par beside_parent [OF e m(2)] \<open>m \<noteq> a\<close> by simp
    obtain k where k: "src m = Some k" "shape s' (f m) = Some (renamed f (Some (f b)) k)" using beside_node [OF e m(2)] b(1) \<open>m \<noteq> a\<close> by auto
    have "m_name (node_shape n) = m_name n" by (simp add: node_shape_def)
    then have "m_name n = m_name k" using k(2) n(1) m(1) by (simp add: shape_def)
    moreover have "(m_name k, m) \<in> set (models src b)" using D(2) b(1) k(1) by (simp add: tree_ok_def parent_def)
    ultimately show ?thesis unfolding d beside_models [OF e b(2)] m(1) by force
  next
    case False
    then have "(m_name n, y) \<in> set (models s d)" using n D(4,6) by (simp add: tree_ok_def)
    moreover have "d \<notin> ?I" using calculation D(7) by (auto simp: models_def)
    ultimately show ?thesis using beside_old(2) [OF e] by simp
  qed
qed

lemma coupled_at_shape: "coupled_at s c \<longleftrightarrow> (case shape s c of None \<Rightarrow> False | Some n \<Rightarrow> isCoupled n)"
  by (auto simp: coupled_at_def shape_def node_shape_def isCoupled_def split: option.split model_kind.split)

lemma beside_mirrored:
  assumes e: "beside f src a x nxt s s'" and m: "mirrored src" "mirrored s"
  shows "mirrored s'"
  unfolding mirrored_def
proof (intro allI impI)
  fix c q
  assume c: "coupled_at s' c"
  show "(has_port s' In c q \<longrightarrow> has_port s' IntIn c q) \<and> (has_port s' Out c q \<longrightarrow> has_port s' IntOut c q)
      \<and> (ports s' IntIn c q \<noteq> [] \<longrightarrow> has_port s' In c q) \<and> (ports s' IntOut c q \<noteq> [] \<longrightarrow> has_port s' Out c q)"
  proof (cases "c \<in> f ` below src a")
    case True
    then obtain b where b: "c = f b" "b \<in> below src a" by blast
    obtain n where n: "src b = Some n" "shape s' (f b) = Some (renamed f (if b = a then None else map_option f (parent src b)) n)"
      using beside_node [OF e b(2)] by blast
    have "has_port s' d (f b) q = has_port src d b q" for d by (rule has_port_renamed [where s = s' and y = "f b" and src = src and b = b, OF n(2,1)])
    moreover have "isCoupled (renamed f (if b = a then None else map_option f (parent src b)) n)" using c n(2) by (simp add: coupled_at_shape b(1))
    then have "coupled_at src b" using n(1) by (simp add: coupled_at_def renamed_def isCoupled_def split: model_kind.splits)
    moreover have "ports s' d (f b) q = [] \<longleftrightarrow> ports src d b q = []" if "d = IntIn \<or> d = IntOut" for d
    proof -
      have "mset (ports s' d (f b) q) = image_mset (map_prod f id) (mset (ports src d b q))" using that beside_ports [OF e b(2), of d q] by auto
      then show ?thesis by (metis image_mset_is_empty_iff mset_zero_iff)
    qed
    ultimately show ?thesis using m(1) by (simp add: b(1) mirrored_def)
  next
    case False
    have "coupled_at s c" using c beside_D(6) [OF e False] by (simp add: coupled_at_def)
    then show ?thesis using m(2) by (simp add: beside_old [OF e False] mirrored_def)
  qed
qed

lemma beside_graph_ok: "beside f src a x nxt s s' \<Longrightarrow> graph_ok s'"
proof -
  assume e: "beside f src a x nxt s s'"
  then have "mirrored src" "mirrored s" by (simp_all add: beside_def graph_ok_def)
  then show "graph_ok s'" using beside_linked [OF e] beside_tree [OF e] beside_mirrored [OF e] by (simp add: graph_ok_def)
qed

lemma beside_keys_ok:
  assumes e: "beside f src a x nxt s s'" and k: "keys_ok src" "keys_ok s"
  shows "keys_ok s'"
  unfolding keys_ok_def
proof (intro allI impI)
  fix y n d l
  assume n: "s' y = Some n" "node_conns d n = Some l"
  show "distinct (map fst l)"
  proof (cases "y \<in> f ` below src a")
    case True
    then obtain b where b: "y = f b" "b \<in> below src a" by blast
    obtain m par where m: "src b = Some m" "shape s' (f b) = Some (renamed f par m)" using beside_node [OF e b(2)] by blast
    have keys: "map fst (clear_conns l) = map fst l" for l by (simp add: clear_conns_def)
    have "node_conns d (node_shape n) = Some (clear_conns l)" using n(2) by (auto simp: node_conns_def node_shape_def split: side.splits model_kind.splits)
    moreover have "node_shape n = renamed f par m" using m(2) n(1) b(1) by (simp add: shape_def)
    ultimately have "map_option clear_conns (node_conns d m) = Some (clear_conns l)" by (simp add: node_conns_renamed)
    then obtain l' where "node_conns d m = Some l'" "clear_conns l' = clear_conns l" by auto
    moreover have "distinct (map fst l')" using k(1) m(1) calculation(1) unfolding keys_ok_def by blast
    ultimately show ?thesis by (metis keys)
  next
    case False
    then have "s y = Some n" using beside_D(6) [OF e] n(1) by simp
    then show ?thesis using k(2) n(2) unfolding keys_ok_def by blast
  qed
qed


section \<open>The property\<close>

text \<open>C31. The copy constructor of a model of a well-formed graph returns, with a bound of the depth that is at least the
  number of the models: every model below the original has exactly one copy, at a new address, with the same name,
  position, size, ports and conditions; the sub-models and the ends of the connections of the copies are the copies of the
  sub-models and of the ends, each connection as often as in the original; the copy of the root has no parent and no
  connection to its surroundings; nothing else changes, and the graph is well-formed with the copy in it.\<close>

lemma clone_model_spec:
  assumes "graph_ok src" "keys_ok src" "graph_ok s" "keys_ok s" "src a \<noteq> None" "card (dom src) \<le> d" "\<forall>y. x \<le> y \<longrightarrow> s y = None"
  shows "\<exists>f nxt s'. clone_model d src a x s = Ret nxt s' \<and> cloned f src a x nxt s s' \<and> graph_ok s' \<and> keys_ok s'"
proof -
  have fin: "finite (dom src)" "linked src" "tree_ok src" using assms(1) by (auto simp: graph_ok_def tree_ok_def)
  have sub: "below src a \<subseteq> dom src" using below_dom assms(5) by blast
  then have "finite (below src a)" "card (below src a) \<le> d" using fin(1) assms(6) card_mono [OF fin(1) sub] by (auto intro: finite_subset)
  then have "wp (clone_model d src a x) s (\<lambda>nxt s'. \<exists>f. cloned f src a x nxt s s')"
    using wp_clone_model [OF fin(2,3) assms(2,5)] assms(7) by blast
  then obtain f nxt s' where c: "clone_model d src a x s = Ret nxt s'" "cloned f src a x nxt s s'"
    unfolding wp_def by (cases "clone_model d src a x s") auto
  then have "beside f src a x nxt s s'" using assms by (simp add: beside_def)
  then show ?thesis using c beside_graph_ok beside_keys_ok assms(2,4) by blast
qed

lemma clone_model_spec_witness:
  "\<exists>f nxt s'. clone_model 4 sample 0 4 sample = Ret nxt s' \<and> cloned f sample 0 4 nxt sample s' \<and> graph_ok s' \<and> keys_ok s'"
proof (rule clone_model_spec [OF sample_graph_ok sample_keys_ok sample_graph_ok sample_keys_ok])
  show "sample 0 \<noteq> None" by (simp add: sample_nodes)
  show "card (dom sample) \<le> 4" by (simp add: dom_sample)
  show "\<forall>y \<ge> 4. sample y = None" by (simp add: sample_def)
qed

end
