(* ===== verification/Model_Assign.thy ===== *)
theory Model_Assign
  imports Copy_Properties Model_Lifecycle
begin

text \<open>
  The assignment operators of \<^verbatim>\<open>vpz/AtomicModel.cpp\<close> and \<^verbatim>\<open>vpz/CoupledModel.cpp\<close>: a copy of the right-hand side at a new
  address \<open>x\<close>, the exchange of some members, and the destruction of the copy.
\<close>

section \<open>Assignment\<close>

definition with_base :: "base_model \<Rightarrow> base_model \<Rightarrow> base_model" where
  "with_base n m = n\<lparr>m_parent := m_parent m, m_inPortList := m_inPortList m, m_outPortList := m_outPortList m, m_x := m_x m, m_y := m_y m,
     m_width := m_width m, m_height := m_height m, m_name := m_name m\<rparr>"

definition swap_base :: "addr \<Rightarrow> addr \<Rightarrow> unit gproc" where
  "swap_base a b = bindS (deref a) (\<lambda>n. bindS (deref b) (\<lambda>m.
     thenS (modify a (\<lambda>_. with_base n m)) (modify b (\<lambda>_. with_base m n))))"

definition swap_internals :: "addr \<Rightarrow> addr \<Rightarrow> unit gproc" where
  "swap_internals a b = bindS (getPortList IntIn a) (\<lambda>i. bindS (getPortList IntIn b) (\<lambda>j.
     bindS (getPortList IntOut a) (\<lambda>k. bindS (getPortList IntOut b) (\<lambda>l.
     thenS (putPortList IntIn a j) (thenS (putPortList IntIn b i) (thenS (putPortList IntOut a l) (putPortList IntOut b k)))))))"

definition AtomicModel_assign :: "addr \<Rightarrow> addr \<Rightarrow> addr \<Rightarrow> unit gproc" where
  "AtomicModel_assign this mdl x = bindS getS (\<lambda>s. thenS (clone_model 1 s mdl x) (thenS (swap_base this x) (destroy 1 x)))"

definition CoupledModel_assign :: "nat \<Rightarrow> addr \<Rightarrow> addr \<Rightarrow> addr \<Rightarrow> unit gproc" where
  "CoupledModel_assign d this mdl x = bindS getS (\<lambda>s. thenS (clone_model d s mdl x)
     (thenS (swap_base this x) (thenS (swap_internals this x) (destroy d x))))"

section \<open>What an assignment does\<close>

lemma wp_clone_atomic:
  "src a = Some n \<Longrightarrow> m_kind n = Atomic w \<Longrightarrow> wp (clone_model (Suc d) src a x) s Q = Q (Suc x) (s(x \<mapsto> copy_node n))"
  by (simp add: wp_bindS wp_thenS wp_retS wp_deref wp_read_result wp_put)

lemma wp_swap_base:
  "s a = Some n \<Longrightarrow> s b = Some m \<Longrightarrow> a \<noteq> b \<Longrightarrow> wp (swap_base a b) s Q = Q () (s(a \<mapsto> with_base n m, b \<mapsto> with_base m n))"
  by (simp add: swap_base_def wp_simps wp_modify)

lemma wp_destroy_atomic: "s a = Some n \<Longrightarrow> m_kind n = Atomic w \<Longrightarrow> wp (destroy (Suc d) a) s Q = Q () (s(a := None))"
  by (simp add: wp_simps wp_put isCoupled_def)

text \<open>
  C34. The assignment of an atomic model that is a sub-model takes the name, the position, the size and the names of the ports of the
  right-hand side, the ports without connections, and not its dynamics, conditions and observables; no other
  model changes. It also exchanges the parent: the assigned model has none, while its coupled model still lists it under its
  old name, so that the tree is no longer well-formed.
\<close>

theorem AtomicModel_assign_breaks_tree:
  assumes "tree_ok s" "s a = Some n" "m_kind n = Atomic w" "m_parent n = Some c" "s b = Some m" "m_kind m = Atomic w'" "s x = None"
  shows "\<exists>s' n'. AtomicModel_assign a b x s = Ret () s' \<and> s' a = Some n'
    \<and> m_inPortList n' = clear_conns (m_inPortList m) \<and> m_outPortList n' = clear_conns (m_outPortList m)
    \<and> m_name n' = m_name m \<and> (m_x n', m_y n', m_width n', m_height n') = (m_x m, m_y m, m_width m, m_height m)
    \<and> m_kind n' = Atomic w \<and> (\<forall>y. y \<noteq> a \<longrightarrow> s' y = s y)
    \<and> m_parent n' = None \<and> (m_name n, a) \<in> set (models s' c) \<and> \<not> tree_ok s'"
proof -
  let ?n = "with_base n (copy_node m)"
  let ?s = "(s(a \<mapsto> ?n))(x := None)"
  have ax: "a \<noteq> x" using assms(2,7) by auto
  have c: "(s(x \<mapsto> copy_node m)) a = Some n" "(s(x \<mapsto> copy_node m)) x = Some (copy_node m)" using assms(2) ax by simp_all
  have k: "(s(x \<mapsto> copy_node m, a \<mapsto> ?n, x \<mapsto> with_base (copy_node m) n)) x = Some (with_base (copy_node m) n)"
    "m_kind (with_base (copy_node m) n) = Atomic w'" using assms(6) by (simp_all add: with_base_def copy_node_def)
  have "s(x \<mapsto> copy_node m, a \<mapsto> ?n, x \<mapsto> with_base (copy_node m) n, x := None) = ?s" using ax by (simp add: fun_eq_iff)
  then have "wp (AtomicModel_assign a b x) s (\<lambda>_ s'. s' = ?s)"
    unfolding AtomicModel_assign_def wp_bindS wp_getS wp_thenS One_nat_def wp_clone_atomic [where src = s, OF assms(5,6)] wp_swap_base [where s = "s(x \<mapsto> copy_node m)", OF c ax]
      wp_destroy_atomic [where s = "s(x \<mapsto> copy_node m, a \<mapsto> ?n, x \<mapsto> with_base (copy_node m) n)" and a = x, OF k] by simp
  then have run: "AtomicModel_assign a b x s = Ret () ?s" unfolding wp_def by (cases "AtomicModel_assign a b x s") auto
  have "(m_name n, a) \<in> set (models s c)" using assms(1,2,4) unfolding tree_ok_def by blast
  moreover have "c \<noteq> a" using tree_irrefl [OF assms(1), of a] assms(2,4) by (auto simp: parent_def)
  moreover have "c \<noteq> x" using calculation(1) assms(7) by (auto simp: models_def)
  ultimately have listed: "(m_name n, a) \<in> set (models ?s c)" by (simp add: models_def)
  have n': "?s a = Some ?n" "m_parent ?n = None" "m_kind ?n = Atomic w" "m_name ?n = m_name m"
    "m_inPortList ?n = clear_conns (m_inPortList m)" "m_outPortList ?n = clear_conns (m_outPortList m)"
    "(m_x ?n, m_y ?n, m_width ?n, m_height ?n) = (m_x m, m_y m, m_width m, m_height m)"
    using ax assms(3) by (simp_all add: with_base_def copy_node_def node_shape_def)
  moreover have "\<not> tree_ok ?s" using listed n'(1,2) unfolding tree_ok_def by fastforce
  moreover have "\<forall>y. y \<noteq> a \<longrightarrow> ?s y = s y" using assms(7) by simp
  ultimately show ?thesis using run listed by blast
qed

theorem AtomicModel_assign_breaks_tree_witness:
  "\<exists>s' n'. AtomicModel_assign 1 3 4 sample = Ret () s' \<and> s' 1 = Some n' \<and> m_kind n' = Atomic atomic_init \<and> m_parent n' = None \<and> m_name n' = ''x''
     \<and> \<not> tree_ok s'"
proof -
  have "sample 4 = None" by (simp add: sample_def)
  from AtomicModel_assign_breaks_tree [OF sample_tree_ok sample_nodes(2) _ _ sample_nodes(4) _ this, of atomic_init 0 atomic_init]
  show ?thesis by fastforce
qed

end
