(* ===== verification/Graph_Growth.thy ===== *)
theory Graph_Growth
  imports Copy_Properties Model_Lifecycle
begin

text \<open>
  Operations that let a well-formed graph grow: new ports without connections, and a new model, not yet
  connected, that gets a parent.
\<close>

section \<open>New ports\<close>

text \<open>What the tree depends on.\<close>

definition skeleton :: "graph \<Rightarrow> addr \<Rightarrow> (string \<times> addr option \<times> model_list option) option" where
  "skeleton s a = map_option (\<lambda>n. (m_name n, m_parent n, case m_kind n of Atomic _ \<Rightarrow> None | Coupled c \<Rightarrow> Some (m_modelList c))) (s a)"

lemma read_skeleton:
  "parent s a = (case skeleton s a of None \<Rightarrow> None | Some (_, p, _) \<Rightarrow> p)"
  "models s a = (case skeleton s a of Some (_, _, Some ml) \<Rightarrow> ml | _ \<Rightarrow> [])"
  "coupled_at s a \<longleftrightarrow> (case skeleton s a of Some (_, _, Some _) \<Rightarrow> True | _ \<Rightarrow> False)"
  "map_option m_name (s a) = map_option fst (skeleton s a)" "a \<in> dom s \<longleftrightarrow> skeleton s a \<noteq> None"
  by (auto simp: skeleton_def parent_def models_def coupled_at_def isCoupled_def option.map_comp comp_def split: option.split model_kind.split)

lemma skeleton_cong:
  assumes "skeleton s = skeleton t"
  shows "parent s = parent t" "models s = models t" "dom s = dom t" "coupled_at s = coupled_at t"
    "map_option m_name (s a) = map_option m_name (t a)"
proof -
  show "parent s = parent t" by (rule ext) (simp only: read_skeleton(1) assms)
  show "models s = models t" by (rule ext) (simp only: read_skeleton(2) assms)
  show "dom s = dom t" by (rule set_eqI) (simp only: read_skeleton(5) assms)
  show "coupled_at s = coupled_at t" by (rule ext) (simp only: read_skeleton(3) assms)
  show "map_option m_name (s a) = map_option m_name (t a)" by (simp only: read_skeleton(4) assms)
qed

lemma tree_ok_alt:
  "tree_ok s \<longleftrightarrow> finite (dom s) \<and> acyclic (parent_rel s) \<and> (\<forall>c name a. (name, a) \<in> set (models s c) \<longrightarrow> map_option m_name (s a) = Some name \<and> parent s a = Some c)
     \<and> (\<forall>a c. parent s a = Some c \<longrightarrow> (the (map_option m_name (s a)), a) \<in> set (models s c)) \<and> (\<forall>c. smap_ok (models s c))"
  unfolding tree_ok_def parent_def by (auto split: option.splits; fastforce)

lemma tree_ok_skeleton:
  assumes "skeleton s = skeleton t"
  shows "tree_ok s = tree_ok t"
  unfolding tree_ok_alt parent_rel_def skeleton_cong [OF assms] by simp

lemma linked_cong:
  assumes "parent s = parent t" "ports s = ports t"
  shows "linked s = linked t"
  using assms by (simp add: linked_def may_connect_def other_side_def cnt_def cong: side.case_cong)

text \<open>The graph after ports without connections were added.\<close>

definition wider_ports :: "addr \<Rightarrow> graph \<Rightarrow> graph \<Rightarrow> bool" where
  "wider_ports a s s' \<longleftrightarrow> skeleton s' = skeleton s \<and> ports s' = ports s \<and> mirrored s' \<and> keys_ok s' \<and> (\<forall>b. b \<noteq> a \<longrightarrow> s' b = s b)"

lemma wider_ports_graph_ok: "wider_ports a s s' \<Longrightarrow> graph_ok s \<Longrightarrow> graph_ok s' \<and> keys_ok s'"
  using tree_ok_skeleton [of s' s] linked_cong [of s' s] skeleton_cong(1) [of s' s] by (auto simp: wider_ports_def graph_ok_def)

lemma distinct_insert: "distinct (map fst l) \<Longrightarrow> distinct (map fst (smap_insert k v l))"
proof -
  have "k \<notin> fst ` set l \<Longrightarrow> distinct (map fst l) \<Longrightarrow> distinct (map fst (smap_update k v l))"
  proof (induction l)
    case (Cons e l)
    moreover obtain a b where "e = (a, b)" by force
    moreover have "fst ` set (smap_update k v l) = insert k (fst ` set l)" by (rule keys_smap_update)
    ultimately show ?case by auto
  qed simp
  then show "distinct (map fst l) \<Longrightarrow> distinct (map fst (smap_insert k v l))"
    by (auto simp: smap_insert_def map_of_eq_None_iff split: option.split)
qed

lemma ports_insert: "(case map_of (smap_insert k [] l) p of None \<Rightarrow> [] | Some pl \<Rightarrow> pl) = (case map_of l p of None \<Rightarrow> [] | Some pl \<Rightarrow> pl)"
  by (simp add: map_of_smap_insert split: option.split)

lemma set_smap_new: "k \<notin> fst ` set l \<Longrightarrow> set (smap_update k v l) = insert (k, v) (set l)"
  by (induction k v l rule: smap_update.induct) auto

text \<open>A port list of one node with a new port.\<close>

definition more_ports :: "side \<Rightarrow> string \<Rightarrow> base_model \<Rightarrow> base_model" where
  "more_ports d p n = (case node_conns d n of None \<Rightarrow> n | Some l \<Rightarrow> set_node_conns d (smap_insert p [] l) n)"

lemma node_conns_more: "node_conns e (more_ports d p n) = map_option (if e = d then smap_insert p [] else (\<lambda>l. l)) (node_conns e n)"
  by (cases "node_conns e n") (auto simp: more_ports_def node_conns_set split: option.split)

lemma skeleton_more: "s a = Some n \<Longrightarrow> skeleton (s(a \<mapsto> more_ports d p n)) = skeleton s"
  by (rule ext) (auto simp: skeleton_def more_ports_def set_node_conns_def split: option.split side.split model_kind.split)

lemma ports_more: "s a = Some n \<Longrightarrow> ports (s(a \<mapsto> more_ports d p n)) = ports s"
  by (intro ext) (auto simp: ports_def node_conns_more ports_insert split: option.split)

lemma has_port_more:
  "s a = Some n \<Longrightarrow> has_port (s(a \<mapsto> more_ports d p n)) e b q = (has_port s e b q \<or> e = d \<and> b = a \<and> q = p \<and> node_conns d n \<noteq> None)"
  by (auto simp: has_port_def node_conns_more map_of_smap_insert split: option.split)

lemma keys_more: "s a = Some n \<Longrightarrow> keys_ok s \<Longrightarrow> keys_ok (s(a \<mapsto> more_ports d p n))"
  unfolding keys_ok_def by (auto simp: node_conns_more distinct_insert split: if_splits)

lemma wider_ports_refl: "mirrored s \<Longrightarrow> keys_ok s \<Longrightarrow> wider_ports a s s"
  by (simp add: wider_ports_def)

lemma wp_addPort:
  assumes s: "graph_ok s" "keys_ok s" and n: "s a = Some n" and d: "(d, i) = (In, IntIn) \<or> (d, i) = (Out, IntOut)"
  shows "wp (addPort d i a p) s (\<lambda>_. wider_ports a s)"
proof -
  obtain l where l: "node_conns d n = Some l" using d by (auto simp: node_conns_def)
  have m: "mirrored s" using s(1) by (simp add: graph_ok_def)
  show ?thesis
  proof (cases "map_of l p")
    case (Some pl)
    then show ?thesis using n l wider_ports_refl [OF m s(2)] by (simp add: addPort_def wp_simps)
  next
    case new: None
    show ?thesis
    proof (cases "m_kind n")
      case (Atomic w)
      let ?s = "s(a \<mapsto> more_ports d p n)"
      have "\<not> coupled_at ?s a" using skeleton_cong(4) [OF skeleton_more [of s a n d p]] n Atomic by (simp add: coupled_at_def isCoupled_def)
      then have "mirrored ?s" using m n skeleton_cong(4) [OF skeleton_more [of s a n d p]] has_port_more [of s a n d p] ports_more [of s a n d p]
        unfolding mirrored_def by auto
      then have "wider_ports a s ?s" using n s(2) by (simp add: wider_ports_def skeleton_more ports_more keys_more)
      then show ?thesis using n l new Atomic by (simp add: addPort_def wp_simps isCoupled_def more_ports_def)
    next
      case (Coupled c)
      let ?n = "more_ports i p n"
      let ?s = "s(a \<mapsto> ?n)" and ?t = "s(a \<mapsto> more_ports d p ?n)"
      have at: "?s a = Some ?n" by simp
      have t: "?t = ?s(a \<mapsto> more_ports d p ?n)" by simp
      obtain k where k: "node_conns i n = Some k" using d Coupled by (auto simp: node_conns_def)
      have ln: "node_conns d ?n = Some l" using d l by (auto simp: node_conns_more)
      have sk: "skeleton ?t = skeleton s" unfolding t skeleton_more [where s = ?s and a = a and n = ?n, OF at] by (rule skeleton_more [where s = s, OF n])
      have pt: "ports ?t = ports s" unfolding t ports_more [where s = ?s and a = a and n = ?n, OF at] by (rule ports_more [where s = s, OF n])
      have hp: "has_port ?t e b q = (has_port s e b q \<or> (e = d \<or> e = i) \<and> b = a \<and> q = p)" for e b q
        unfolding t has_port_more [where s = ?s and a = a and n = ?n, OF at] has_port_more [where s = s, OF n] using ln k by auto
      have "mirrored ?t" using m d unfolding mirrored_def pt skeleton_cong(4) [OF sk] hp by auto
      moreover have "keys_ok ?t" unfolding t by (rule keys_more [where s = ?s and a = a and n = ?n, OF at keys_more [where s = s, OF n s(2)]])
      ultimately have "wider_ports a s ?t" by (simp add: wider_ports_def sk pt)
      moreover have "more_ports d p ?n = set_node_conns d (smap_insert p [] l) ?n" using ln by (simp add: more_ports_def)
      moreover have "?n = set_node_conns i (smap_insert p [] k) n" using k by (simp add: more_ports_def)
      ultimately show ?thesis using n l new k Coupled by (simp add: addPort_def wp_simps isCoupled_def)
    qed
  qed
qed

lemma wider_ports_trans: "wider_ports a s t \<Longrightarrow> wider_ports a t u \<Longrightarrow> wider_ports a s u"
  by (simp add: wider_ports_def)

lemma wp_addPorts:
  assumes s: "graph_ok s" "keys_ok s" and n: "s a \<noteq> None" and d: "(d, i) = (In, IntIn) \<or> (d, i) = (Out, IntOut)"
  shows "wp (forS (addPort d i a) ps) s (\<lambda>_. wider_ports a s)"
proof (rule wp_forS_prefix [where J = "\<lambda>_. wider_ports a s"])
  show "wider_ports a s s" using s by (intro wider_ports_refl) (simp_all add: graph_ok_def)
  fix p t
  assume t: "wider_ports a s t"
  note ok = wider_ports_graph_ok [OF t s(1)]
  have "dom t = dom s" using t by (intro skeleton_cong(3)) (simp add: wider_ports_def)
  then obtain m where "t a = Some m" using n by blast
  then have "wp (addPort d i a p) t (\<lambda>_. wider_ports a t)" using ok d by (intro wp_addPort) auto
  then show "wp (addPort d i a p) t (\<lambda>_. wider_ports a s)" by (rule wp_mono) (rule wider_ports_trans [OF t])
qed

text \<open>A model without its ports, and the ports the loop leaves.\<close>

definition bare :: "base_model \<Rightarrow> base_model" where
  "bare n = n\<lparr>m_inPortList := [], m_outPortList := [], m_kind := (case m_kind n of Atomic w \<Rightarrow> Atomic w
     | Coupled c \<Rightarrow> Coupled (c\<lparr>m_internalInputList := [], m_internalOutputList := []\<rparr>))\<rparr>"

lemma bare_simps [simp]: "bare (set_node_conns d l n) = bare n" "bare (node_shape n) = bare n"
  by (cases d; cases "m_kind n"; simp add: bare_def set_node_conns_def)
    (cases "m_kind n"; simp add: bare_def node_shape_def)

definition named_ports :: "side \<Rightarrow> addr \<Rightarrow> string list \<Rightarrow> graph \<Rightarrow> graph \<Rightarrow> bool" where
  "named_ports d a ps s s' \<longleftrightarrow> map_option bare (s' a) = map_option bare (s a)
     \<and> (\<forall>e \<in> {In, Out}. \<forall>q. has_port s' e a q = (has_port s e a q \<or> e = d \<and> q \<in> set ps))"

lemma wp_addPort_named:
  assumes n: "s a = Some n" and d: "(d, i) = (In, IntIn) \<or> (d, i) = (Out, IntOut)"
  shows "wp (addPort d i a p) s (\<lambda>_. named_ports d a [p] s)"
proof -
  obtain l where l: "node_conns d n = Some l" using d by (auto simp: node_conns_def)
  show ?thesis
  proof (cases "map_of l p")
    case (Some pl)
    then show ?thesis using n l by (auto simp: addPort_def wp_simps named_ports_def has_port_def)
  next
    case new: None
    have at: "named_ports d a [p] s (s(a \<mapsto> set_node_conns d (smap_insert p [] l) n'))"
      if "bare n' = bare n" "node_conns d n' = Some l" "\<And>e. e \<in> {In, Out} \<Longrightarrow> node_conns e n' = node_conns e n" for n'
      using n l new that by (auto simp: named_ports_def has_port_def node_conns_set map_of_smap_insert)
    show ?thesis
    proof (cases "m_kind n")
      case (Atomic w)
      then show ?thesis using n l new at [of n] by (simp add: addPort_def wp_simps isCoupled_def)
    next
      case (Coupled c)
      obtain k where k: "node_conns i n = Some k" using d Coupled by (auto simp: node_conns_def)
      let ?n = "set_node_conns i (smap_insert p [] k) n"
      have "node_conns e ?n = node_conns e n" if "e \<in> {In, Out}" for e using that d k by (auto simp: node_conns_set)
      moreover have "node_conns d ?n = Some l" using d k l by (auto simp: node_conns_set)
      ultimately show ?thesis using n l new k Coupled at [of ?n] by (simp add: addPort_def wp_simps isCoupled_def)
    qed
  qed
qed

lemma wp_addPorts_named:
  assumes n: "s a \<noteq> None" and d: "(d, i) = (In, IntIn) \<or> (d, i) = (Out, IntOut)"
  shows "wp (forS (addPort d i a) ps) s (\<lambda>_. named_ports d a ps s)"
proof (rule wp_forS_prefix [where J = "\<lambda>pre. named_ports d a pre s"])
  show "named_ports d a [] s s" by (simp add: named_ports_def)
  fix pre p post t
  assume t: "named_ports d a pre s t"
  then obtain m where m: "t a = Some m" using n by (auto simp: named_ports_def)
  from wp_addPort_named [where s = t, OF m d] show "wp (addPort d i a p) t (\<lambda>_. named_ports d a (pre @ [p]) s)"
    by (rule wp_mono) (use t in \<open>auto simp: named_ports_def\<close>)
qed

section \<open>A new sub-model\<close>

text \<open>The model \<open>r\<close>, which has no parent and no connections outside, becomes the sub-model \<open>k\<close> of \<open>p\<close>.\<close>

definition adopts :: "addr \<Rightarrow> addr \<Rightarrow> string \<Rightarrow> graph \<Rightarrow> graph \<Rightarrow> bool" where
  "adopts p r k s s' \<longleftrightarrow> ports s' = ports s \<and> has_port s' = has_port s \<and> coupled_at s' = coupled_at s \<and> dom s' = dom s
     \<and> parent s' = (parent s)(r := Some p) \<and> models s' = (models s)(p := smap_update k r (models s p))
     \<and> (\<forall>a. map_option m_name (s' a) = (if a = r then Some k else map_option m_name (s a)))"

definition orphan :: "graph \<Rightarrow> addr \<Rightarrow> bool" where
  "orphan s r \<longleftrightarrow> s r \<noteq> None \<and> parent s r = None \<and> (\<forall>q. ports s In r q = [] \<and> ports s Out r q = [])"

lemma adopts_linked:
  assumes s: "linked s" "orphan s r" "adopts p r k s s'" "p \<noteq> r"
  shows "linked s'"
proof -
  have P: "parent s' z = (if z = r then Some p else parent s z)" for z using s(3) by (simp add: adopts_def)
  have C: "cnt s' d z q w u = cnt s d z q w u" for d z q w u using s(3) by (simp add: adopts_def cnt_def)
  have r: "parent s r = None" "cnt s In r q w u = 0" "cnt s Out r q w u = 0" for q w u using s(2) by (simp_all add: orphan_def cnt_def)
  have L: "cnt s d z q w u = (if may_connect s d z w then cnt s (other_side s d z w) w u z q else 0)" for d z q w u using s(1) unfolding linked_def by blast
  have irr: "parent s z \<noteq> Some z" for z using s(1) by (rule linked_parent)
  have "cnt s d z q w u = (if may_connect s' d z w then cnt s (other_side s' d z w) w u z q else 0)" for d z q w u
  proof (cases "z = r \<or> w = r")
    case False
    then have "may_connect s' d z w = may_connect s d z w" "other_side s' d z w = other_side s d z w" by (auto simp: may_connect_def other_side_def P split: side.split)
    then show ?thesis using L [of d z q w u] by simp
  next
    case True
    have Z: "cnt s e w u r q = 0" if "parent s w \<noteq> Some r \<or> e = IntIn \<or> e = IntOut" for e w u q
      by (rule ccontr, drule linked_may_connect [OF s(1)]) (use r(1) that in \<open>cases e; auto simp: may_connect_def\<close>)
    show ?thesis
    proof (cases "z = r")
      case zr: True
      show ?thesis
      proof (cases "d = In \<or> d = Out")
        case True
        then have "parent s w \<noteq> Some r \<or> other_side s' d r w = IntIn \<or> other_side s' d r w = IntOut" if "may_connect s' d r w"
          using that r(1) s(4) by (cases d) (auto simp: may_connect_def other_side_def P split: if_splits)
        then show ?thesis using zr True r(2,3) Z by auto
      next
        case False
        then have "may_connect s' d r w = may_connect s d r w" "other_side s' d r w = other_side s d r w" using r(1) s(4) by (cases d; auto simp: may_connect_def other_side_def P)+
        then show ?thesis using L [of d r q w u] zr by simp
      qed
    next
      case zr: False
      then have w: "w = r" using True by simp
      show ?thesis
      proof (cases "parent s z = Some r \<and> (d = In \<or> d = Out)")
        case True
        then have "may_connect s' d z r = may_connect s d z r" "other_side s' d z r = other_side s d z r" using zr by (cases d; auto simp: may_connect_def other_side_def P)+
        then show ?thesis using L [of d z q r u] w by simp
      next
        case False
        then have "cnt s d z q r u = 0" by (intro Z) (cases d; auto)
        moreover have "other_side s' d z r = In \<or> other_side s' d z r = Out" using False zr by (cases d) (auto simp: other_side_def P)
        then have "cnt s (other_side s' d z r) r u z q = 0" using r(2,3) by auto
        ultimately show ?thesis using w by simp
      qed
    qed
  qed
  then show ?thesis using irr s(4) by (simp add: linked_def C P)
qed

lemma adopts_tree:
  assumes s: "tree_ok s" "orphan s r" "adopts p r k s s'" and p: "p \<noteq> r" "r \<notin> ancestors s p" and k: "map_of (models s p) k = None"
  shows "tree_ok s'"
proof -
  have A: "dom s' = dom s" "parent s' = (parent s)(r := Some p)" "models s' = (models s)(p := smap_update k r (models s p))"
    "\<And>a. map_option m_name (s' a) = (if a = r then Some k else map_option m_name (s a))" using s(3) by (simp_all add: adopts_def)
  have T: "finite (dom s)" "acyclic (parent_rel s)" "\<And>c name a. (name, a) \<in> set (models s c) \<Longrightarrow> map_option m_name (s a) = Some name \<and> parent s a = Some c"
     "\<And>a c. parent s a = Some c \<Longrightarrow> (the (map_option m_name (s a)), a) \<in> set (models s c)" "\<And>c. smap_ok (models s c)"
    using s(1) unfolding tree_ok_alt by blast+
  have r: "parent s r = None" using s(2) by (simp add: orphan_def)
  have "parent_rel s' = insert (r, p) (parent_rel s)" using r by (auto simp: parent_rel_def A(2) split: if_splits)
  moreover have "(p, r) \<notin> (parent_rel s)\<^sup>*" using p by (simp add: ancestors_def rtrancl_eq_or_trancl)
  ultimately have "acyclic (parent_rel s')" using T(2) by (simp add: acyclic_insert)
  moreover have "k \<notin> fst ` set (models s p)" using k by (simp add: map_of_eq_None_iff)
  then have set: "set (smap_update k r (models s p)) = insert (k, r) (set (models s p))" by (rule set_smap_new)
  have "map_option m_name (s' a) = Some name \<and> parent s' a = Some c" if "(name, a) \<in> set (models s' c)" for c name a
  proof (cases "c = p \<and> a = r")
    case True
    moreover have "(name, r) \<notin> set (models s p)" using T(3) r by fastforce
    ultimately show ?thesis using that set by (simp add: A)
  next
    case False
    then have "(name, a) \<in> set (models s c)" using that set by (auto simp: A(3) split: if_splits)
    moreover from T(3) [OF this] have "a \<noteq> r" using r by auto
    ultimately show ?thesis using T(3) by (simp add: A)
  qed
  moreover have "(the (map_option m_name (s' a)), a) \<in> set (models s' c)" if "parent s' a = Some c" for a c
    using that set T(4) [of a c] by (auto simp: A split: if_splits)
  moreover have "smap_ok (models s' c)" for c using T(5) by (simp add: A(3) smap_ok_update)
  ultimately show ?thesis unfolding tree_ok_alt A(1) using T(1) by blast
qed

lemma adopts_graph_ok:
  assumes "graph_ok s" "orphan s r" "adopts p r k s s'" "p \<noteq> r" "r \<notin> ancestors s p" "map_of (models s p) k = None"
  shows "graph_ok s'"
proof -
  have "mirrored s'" using assms(1,3) by (simp add: graph_ok_def mirrored_def adopts_def)
  then show ?thesis using assms adopts_linked [of s r p k s'] adopts_tree [of s r p k s'] by (simp add: graph_ok_def)
qed

lemma wp_read_models:
  "s p = Some m \<Longrightarrow> m_kind m = Coupled c \<Longrightarrow> wp (getModelList p) s Q = Q (m_modelList c) s"
  "s p = Some m \<Longrightarrow> m_kind m = Coupled c \<Longrightarrow> wp (modify_coupled p g) s Q' = Q' () (s(p \<mapsto> m\<lparr>m_kind := Coupled (g c)\<rparr>))"
  by (simp_all add: getModelList_def modify_coupled_def deref_coupled_def wp_simps wp_modify)

lemma wp_addModel_named:
  assumes p: "coupled_at s p" "map_of (models s p) k = None" and r: "orphan s r" "p \<noteq> r" and keys: "keys_ok s"
  shows "wp (addModel_named p r k) s (\<lambda>_ s'. adopts p r k s s' \<and> keys_ok s' \<and> (\<forall>a. a \<noteq> p \<longrightarrow> a \<noteq> r \<longrightarrow> s' a = s a)
    \<and> s' r = map_option (\<lambda>n. n\<lparr>m_name := k, m_parent := Some p\<rparr>) (s r))"
proof -
  obtain m c where m: "s p = Some m" "m_kind m = Coupled c" using p(1) by (auto simp: coupled_at_def isCoupled_def split: option.splits model_kind.splits)
  have ml: "models s p = m_modelList c" using m by (simp add: models_def)
  obtain n where n: "s r = Some n" "m_parent n = None" using r(1) by (auto simp: orphan_def parent_def)
  let ?n = "n\<lparr>m_name := k, m_parent := Some p\<rparr>" and ?m = "m\<lparr>m_kind := Coupled (m_modelList_update (smap_update k r) c)\<rparr>"
  let ?s = "s(r \<mapsto> ?n, p \<mapsto> ?m)"
  have conns: "node_conns d ?n = node_conns d n" "node_conns d ?m = node_conns d m" for d using m(2) by (auto simp: node_conns_def split: side.split)
  have "adopts p r k s ?s"
    unfolding adopts_def
  proof (intro conjI allI)
    show "ports ?s = ports s" "has_port ?s = has_port s" using m n conns by (auto simp: ports_def has_port_def fun_eq_iff)
    show "coupled_at ?s = coupled_at s" using m n by (auto simp: coupled_at_def fun_eq_iff isCoupled_def)
    show "dom ?s = dom s" using m n by auto
    show "parent ?s = (parent s)(r := Some p)" using m r(2) by (auto simp: parent_def fun_eq_iff)
    show "models ?s = (models s)(p := smap_update k r (models s p))" using m n r(2) by (auto simp: models_def fun_eq_iff)
    show "map_option m_name (?s a) = (if a = r then Some k else map_option m_name (s a))" for a using m n r(2) by auto
  qed
  moreover have "keys_ok ?s" using keys m(1) n(1) r(2) conns unfolding keys_ok_def by (auto split: if_splits)
  moreover have "parent s r = None" using r(1) by (simp add: orphan_def)
  moreover have "s(r \<mapsto> n\<lparr>m_name := k, m_parent := Some p\<rparr>, p \<mapsto> m\<lparr>m_kind := Coupled (m_modelList_update (smap_update k r) c)\<rparr>) = ?s" by simp
  ultimately show ?thesis
    using m n r(2) p(2) unfolding ml
    by (simp add: addModel_named_def addModel_def exist_def rename_def setParent_def wp_simps wp_modify wp_read_models)
qed

end
