(* ===== verification/Executive.thy ===== *)
theory Executive
  imports Root_Coordinator
begin

text \<open>
  \<^verbatim>\<open>devs/Executive.cpp\<close>: the operations with which an executive changes the structure of its coupled model
  during the simulation. An operation gets the model of the executive; \<^verbatim>\<open>cpled\<close> is the parent of that model.
\<close>

section \<open>Operations\<close>

definition cpled :: "addr \<Rightarrow> ('q, 'h, 'u, 'p, addr) cproc" where
  "cpled self = bindS (on_graph (getParent self)) (\<lambda>p. case p of
     None \<Rightarrow> throwS (UndefinedBehaviour ''null coupled model'') | Some a \<Rightarrow> retS a)"

definition coupledmodelName :: "addr \<Rightarrow> ('q, 'h, 'u, 'p, string) cproc" where
  "coupledmodelName self = bindS (cpled self) (\<lambda>a. on_graph (getName a))"

definition find_submodel :: "addr \<Rightarrow> string \<Rightarrow> ('q, 'h, 'u, 'p, addr option) cproc" where
  "find_submodel self name = bindS (cpled self) (\<lambda>a. on_graph (CoupledModel_findModel a name))"

text \<open>A sub-model that must exist.\<close>

definition known_submodel :: "addr \<Rightarrow> string \<Rightarrow> ('q, 'h, 'u, 'p, addr) cproc" where
  "known_submodel self name = bindS (find_submodel self name) (\<lambda>m. case m of
     None \<Rightarrow> throwS (DevsGraphError ''Executive error: unknown model'') | Some mdl \<Rightarrow> retS mdl)"

definition Executive_addObservableToView :: "('q, 'h, 'u, 'p) platform \<Rightarrow> addr \<Rightarrow> string \<Rightarrow> string \<Rightarrow> string \<Rightarrow> ('q, 'h, 'u, 'p, unit) cproc" where
  "Executive_addObservableToView P self model portname view = bindS (known_submodel self model) (\<lambda>mdl.
     bindS (on_graph (deref mdl)) (\<lambda>nd.
     if isCoupled nd then throwS (DevsGraphError ''Executive error: can not add observable to coupled model'')
     else addObservableToView P mdl portname view))"

definition Executive_delModel :: "addr \<Rightarrow> string \<Rightarrow> ('q, 'h, 'u, 'p, unit) cproc" where
  "Executive_delModel self modelname = bindS (known_submodel self modelname) prepare_dynamic_deletion"

text \<open>An exception of \<^verbatim>\<open>rename\<close> is caught and thrown again as \<^verbatim>\<open>DevsGraphError\<close>.\<close>

definition rethrow :: "string \<Rightarrow> ('s, 'a) proc \<Rightarrow> ('s, 'a) proc" where
  "rethrow msg m = catchS m (\<lambda>_. throwS (DevsGraphError msg))"

definition renameModel :: "addr \<Rightarrow> string \<Rightarrow> string \<Rightarrow> ('q, 'h, 'u, 'p, unit) cproc" where
  "renameModel self oldname newname = bindS (find_submodel self oldname) (\<lambda>m. case m of
     None \<Rightarrow> throwS (DevsGraphError ''Executive error: rename failed, does not exist'')
   | Some mdl \<Rightarrow> bindS (cpled self) (\<lambda>a. bindS (on_graph (exist a newname)) (\<lambda>b.
       if b then throwS (DevsGraphError ''Executive error: rename failed, already exists'')
       else rethrow ''Executive error: rename failed'' (on_graph (rename (Some mdl) newname)))))"

text \<open>The sources of every entry of a list of ports.\<close>

fun sources_of_targets :: "port_list \<Rightarrow> source list \<Rightarrow> ('q, 'h, 'u, 'p, source list) cproc" where
  "sources_of_targets [] lst = retS lst"
| "sources_of_targets (elem # es) lst = bindS (getSimulatorsSource_port (fst elem) (snd elem) lst) (sources_of_targets es)"

definition Executive_addConnection :: "addr \<Rightarrow> string \<Rightarrow> string \<Rightarrow> string \<Rightarrow> string \<Rightarrow> ('q, 'h, 'u, 'p, unit) cproc" where
  "Executive_addConnection self srcModelName srcPortName dstModelName dstPortName =
     bindS (cpled self) (\<lambda>a. bindS (coupledmodelName self) (\<lambda>modelName.
     bindS (if modelName = srcModelName then retS (Some a) else find_submodel self srcModelName) (\<lambda>srcModel.
     bindS (if modelName = dstModelName then retS (Some a) else find_submodel self dstModelName) (\<lambda>dstModel.
     case (srcModel, dstModel) of
       (Some src, Some dst) \<Rightarrow>
         bindS (if modelName = srcModelName then
                  thenS (on_graph (addInputConnection a srcPortName dstModel dstPortName)) (getSimulatorsSource_port src srcPortName [])
                else if modelName = dstModelName then
                  thenS (on_graph (addOutputConnection a srcModel srcPortName dstPortName))
                    (bindS getS (\<lambda>c. case getAtomicModelsTarget (m_graph c) a dstPortName [] of
                        None \<Rightarrow> throwS NonTermination
                      | Some r \<Rightarrow> bindS (liftS r) (\<lambda>lst. sources_of_targets lst [])))
                else
                  thenS (on_graph (addInternalConnection a srcModel srcPortName dstModel dstPortName))
                    (getSimulatorsSource_port dst dstPortName []))
           updateSimulatorsTarget
     | _ \<Rightarrow> throwS (DevsGraphError ''Executive error: cannot add connection'')))))"

definition Executive_removeConnection :: "addr \<Rightarrow> string \<Rightarrow> string \<Rightarrow> string \<Rightarrow> string \<Rightarrow> ('q, 'h, 'u, 'p, unit) cproc" where
  "Executive_removeConnection self srcModelName srcPortName dstModelName dstPortName =
     bindS (cpled self) (\<lambda>a. bindS (coupledmodelName self) (\<lambda>modelName.
     bindS (find_submodel self srcModelName) (\<lambda>src0. bindS (find_submodel self dstModelName) (\<lambda>dst0.
     let srcModel = (if src0 = None \<and> srcModelName = modelName then Some a else src0);
         dstModel = (if dst0 = None \<and> dstModelName = modelName then Some a else dst0) in
     case (srcModel, dstModel) of
       (Some src, Some dst) \<Rightarrow>
         bindS (if a = src then
                  bindS (getSimulatorsSource_port dst dstPortName []) (\<lambda>toupdate.
                  thenS (on_graph (delInputConnection a srcPortName dstModel dstPortName)) (retS toupdate))
                else if a = dst then
                  thenS (on_graph (delOutputConnection a srcModel srcPortName dstPortName)) (retS [])
                else
                  bindS (getSimulatorsSource_port dst dstPortName []) (\<lambda>toupdate.
                  thenS (on_graph (delInternalConnection a srcModel srcPortName dstModel dstPortName)) (retS toupdate)))
           updateSimulatorsTarget
     | _ \<Rightarrow> throwS (DevsGraphError ''Executive error: cannot remove connection'')))))"

definition Executive_addInputPort :: "addr \<Rightarrow> string \<Rightarrow> string \<Rightarrow> ('q, 'h, 'u, 'p, unit) cproc" where
  "Executive_addInputPort self modelName portName = bindS (known_submodel self modelName) (\<lambda>mdl. on_graph (addInputPort mdl portName))"

definition Executive_addOutputPort :: "addr \<Rightarrow> string \<Rightarrow> string \<Rightarrow> ('q, 'h, 'u, 'p, unit) cproc" where
  "Executive_addOutputPort self modelName portName = bindS (known_submodel self modelName) (\<lambda>mdl. on_graph (addOutputPort mdl portName))"

definition removeInputPort :: "addr \<Rightarrow> string \<Rightarrow> string \<Rightarrow> ('q, 'h, 'u, 'p, unit) cproc" where
  "removeInputPort self modelName portName = bindS (known_submodel self modelName) (\<lambda>mdl.
     bindS (getSimulatorsSource_port mdl portName []) (\<lambda>toupdate.
     thenS (on_graph (delInputPort mdl portName)) (updateSimulatorsTarget toupdate)))"

definition removeOutputPort :: "addr \<Rightarrow> string \<Rightarrow> string \<Rightarrow> ('q, 'h, 'u, 'p, unit) cproc" where
  "removeOutputPort self modelName portName = bindS (known_submodel self modelName) (\<lambda>mdl.
     bindS (on_graph (deref mdl)) (\<lambda>nd.
     if isAtomic nd then
       thenS (on_graph (delOutputPort mdl portName)) (removeSimulatorTargetPort mdl portName)
     else
       bindS (getSimulatorsSource_port mdl portName []) (\<lambda>toupdate.
       thenS (on_graph (delOutputPort mdl portName)) (updateSimulatorsTarget toupdate))))"


section \<open>Properties\<close>

lemma wp_on_graph [wp_simps]: "wp (on_graph m) c Q = wp m (m_graph c) (\<lambda>x g. Q x (c\<lparr>m_graph := g\<rparr>))"
  by (simp add: on_graph_def wp_focus)

inductive_cases reaches_cases: "reaches up down g (d, a, p) e"

lemma parent_node: "g self = Some n \<Longrightarrow> parent g self = m_parent n"
  by (simp add: parent_def)

lemma wp_cpled: "m_graph c self = Some n \<Longrightarrow> m_parent n = Some a \<Longrightarrow> wp (cpled self) c Q = Q a c"
  by (simp add: cpled_def wp_simps parent_node)

lemma wp_find_submodel:
  assumes "m_graph c self = Some n" "m_parent n = Some a" "m_graph c a = Some na" "m_kind na = Coupled cd"
  shows "wp (find_submodel self name) c Q = Q (map_of (m_modelList cd) name) c"
  using assms
  by (simp add: find_submodel_def wp_bindS wp_cpled wp_on_graph CoupledModel_findModel_def getModelList_def deref_coupled_def wp_deref wp_retS)

lemma wp_coupledmodelName:
  "m_graph c self = Some n \<Longrightarrow> m_parent n = Some a \<Longrightarrow> m_graph c a = Some na \<Longrightarrow> wp (coupledmodelName self) c Q = Q (m_name na) c"
  by (simp add: coupledmodelName_def wp_bindS wp_cpled wp_on_graph wp_getName)

text \<open>Removing an output connection of the coupled model touches the graph only.\<close>

lemma removeConnection_output:
  assumes g: "linked (m_graph c)" "m_graph c self = Some n" "m_parent n = Some a" "m_graph c a = Some na" "m_kind na = Coupled cd"
    and names: "map_of (m_modelList cd) sname = Some src" "map_of (m_modelList cd) (m_name na) = None" "parent (m_graph c) src = Some a"
    and ports: "has_port (m_graph c) Out src p" "has_port (m_graph c) IntOut a q"
  shows "wp (Executive_removeConnection self sname p (m_name na) q) c
    (\<lambda>_ c'. \<exists>g'. c' = c\<lparr>m_graph := g'\<rparr> \<and> link_changed (\<lambda>_. 0) (m_graph c) Out src p a q g')"
proof -
  have ne: "a \<noteq> src" using linked_parent [OF g(1), of src] names(3) by auto
  note look = wp_cpled [OF g(2,3)] wp_find_submodel [OF g(2-5)] wp_coupledmodelName [OF g(2-4)]
  have "wp (delOutputConnection a (Some src) p q) (m_graph c) (\<lambda>_. link_changed (\<lambda>_. 0) (m_graph c) Out src p a q)"
    using output_conn.del_spec [OF g(1) _ ports] names(3) by simp
  then show ?thesis
    unfolding Executive_removeConnection_def
    by (simp add: wp_bindS look names ne Let_def wp_thenS wp_on_graph wp_retS)
      (auto simp: updateSimulatorsTarget_def wp_simps elim!: wp_mono)
qed

text \<open>
  C24. Removing an output connection of a coupled model leaves the caches of the simulators as they are: when the removed
  connection was the only one of the port, the graph reaches nothing from the port any more, but the
  simulator still returns its old targets, and its next output goes to them.
\<close>

theorem removeConnection_stale:
  assumes g: "linked (m_graph c)" "m_graph c self = Some n" "m_parent n = Some a" "m_graph c a = Some na" "m_kind na = Coupled cd"
    and names: "map_of (m_modelList cd) sname = Some src" "map_of (m_modelList cd) (m_name na) = None" "parent (m_graph c) src = Some a"
    and ports: "has_port (m_graph c) Out src p" "has_port (m_graph c) IntOut a q" "set (ports (m_graph c) Out src p) \<subseteq> {(a, q)}"
    and sim: "k_sims (m_eventTable c) x = Some sm" "mmap_range p (sim_targets sm) = (p, Some y, r) # rest"
  shows "\<exists>c'. Executive_removeConnection self sname p (m_name na) q c = Ret () c'
    \<and> (\<forall>e. \<not> reaches Out IntIn (m_graph c') (Out, src, p) e)
    \<and> (\<exists>k. on_sim x (targets (m_graph c') (m_simulator c') p) (m_eventTable c') = Ret ((Some y, r) # map snd rest) k)"
proof -
  obtain g' where g': "Executive_removeConnection self sname p (m_name na) q c = Ret () (c\<lparr>m_graph := g'\<rparr>)"
    "link_changed (\<lambda>_. 0) (m_graph c) Out src p a q g'"
    using removeConnection_output [OF g names ports(1,2)] by (auto simp: wp_iff)
  have "cnt g' Out src p b r' = 0" for b r'
  proof (cases "(b, r') = (a, q)")
    case True
    then show ?thesis using g'(2) by (simp add: link_changed_def same_link_def)
  next
    case False
    then have "(b, r') \<notin> set (ports (m_graph c) Out src p)" using ports(3) by auto
    then have "cnt (m_graph c) Out src p b r' = 0" by (simp add: cnt_def count_list_0_iff)
    then show ?thesis using g'(2) by (simp add: link_changed_def)
  qed
  then have "ports g' Out src p = []" unfolding cnt_def count_list_0_iff by (cases "ports g' Out src p") auto
  then have "\<not> reaches Out IntIn g' (Out, src, p) e" for e by (auto elim: reaches_cases)
  moreover have "on_sim x (targets g' gs p) (m_eventTable c) = Ret ((Some y, r) # map snd rest) (put_sim x sm (m_eventTable c))" for gs
    using sim by (simp add: on_sim_def targets_def effect_defs)
  ultimately show ?thesis using g'(1) by auto
qed

text \<open>
  The model \<^verbatim>\<open>x\<close> of the sample graph has sent on its port \<^verbatim>\<open>o\<close>, which reaches the model \<^verbatim>\<open>a\<close> through the output
  port of the coupled model \<^verbatim>\<open>c\<close>, so its simulator has cached this target.
\<close>

definition cached_running :: "(list_heap, nat, int, unit) coordinator" where
  "cached_running = sample_running\<lparr>m_eventTable := put_sim 3 ((Simulator_new 3 0 True)\<lparr>sim_tn := infinity, sim_targets := [(''o'', Some 1, ''i'')]\<rparr>)
     (m_eventTable sample_running)\<rparr>"

lemma cached_running_graph: "m_graph cached_running = sample"
  by (simp add: cached_running_def sample_running_fields)

theorem removeConnection_stale_witness:
  "\<exists>c'. Executive_removeConnection 3 ''x'' ''o'' ''c'' ''o'' cached_running = Ret () c'
    \<and> (\<forall>e. \<not> reaches Out IntIn (m_graph c') (Out, 3, ''o'') e)
    \<and> (\<exists>k. on_sim 3 (targets (m_graph c') (m_simulator c') ''o'') (m_eventTable c') = Ret [(Some 1, ''i'')] k)"
proof -
  obtain n where n: "sample 3 = Some n" "m_parent n = Some 2" by (simp add: sample_nodes)
  obtain na cd where na: "sample 2 = Some na" "m_kind na = Coupled cd" "m_name na = ''c''" "m_modelList cd = [(''x'', 3)]"
    by (simp add: sample_nodes)
  have "has_port sample Out 3 ''o''" "has_port sample IntOut 2 ''o''" "set (ports sample Out 3 ''o'') \<subseteq> {(2, ''o'')}"
    by (simp_all add: read_store sample_nodes)
  moreover obtain sm where "k_sims (m_eventTable cached_running) 3 = Some sm" "mmap_range ''o'' (sim_targets sm) = [(''o'', Some 1, ''i'')]"
    by (simp add: cached_running_def put_sim_def mmap_range_def)
  ultimately show ?thesis
    using removeConnection_stale [where c = cached_running and self = 3 and n = n and a = 2 and na = na and cd = cd and sname = "''x''" and src = 3
        and p = "''o''" and q = "''o''" and x = 3 and sm = sm and y = 1 and r = "''i''" and rest = "[]"]
      sample_linked sample_parent(3) n na unfolding cached_running_graph by simp
qed

end
