(* ===== verification/Model_Classes.thy ===== *)
theory Model_Classes
  imports Graph_Growth Model_Factory Executive
begin

text \<open>
  \<^verbatim>\<open>vpz/Model.cpp\<close>, \<^verbatim>\<open>vpz/Class.cpp\<close>, \<^verbatim>\<open>vpz/Classes.cpp\<close> and the creation of models during a simulation:
  \<^verbatim>\<open>ModelFactory::createModelFromClass\<close> and its callers, \<^verbatim>\<open>Executive::createModel\<close>.
\<close>

section \<open>A model of a project and a class\<close>

text \<open>
  \<open>mdl_graph\<close> is the owned graph, \<open>mdl_node\<close> the other pointer. The models it points to are
  kept in a store of their own. The two types have the same operations; a class has a name too.
\<close>

record vpz_model =
  mdl_heap :: graph
  mdl_graph :: "addr option"
  mdl_node :: "addr option"

record vpz_class = vpz_model +
  cls_name :: string

definition Model_new :: vpz_model where
  "Model_new = \<lparr>mdl_heap = Map.empty, mdl_graph = None, mdl_node = None\<rparr>"

definition Class_new :: "string \<Rightarrow> vpz_class" where
  "Class_new name = \<lparr>mdl_heap = Map.empty, mdl_graph = None, mdl_node = None, cls_name = name\<rparr>"

text \<open>The copy constructors; \<open>d\<close> bounds the depth of the graph, the copy is built in an empty store.\<close>

definition clone_to :: "nat \<Rightarrow> graph \<Rightarrow> addr \<Rightarrow> graph result" where
  "clone_to d h a = (case clone_model d h a 0 Map.empty of Ret _ h' \<Rightarrow> Inr h' | Exn e _ \<Rightarrow> Inl e)"

definition Model_copy :: "nat \<Rightarrow> 'a vpz_model_scheme \<Rightarrow> 'a vpz_model_scheme result" where
  "Model_copy d m = (case mdl_graph m of
     Some a \<Rightarrow> bindE (clone_to d (mdl_heap m) a) (\<lambda>h. Inr (m\<lparr>mdl_heap := h, mdl_graph := Some 0, mdl_node := Some 0\<rparr>))
   | None \<Rightarrow> (case mdl_node m of
       Some a \<Rightarrow> bindE (clone_to d (mdl_heap m) a) (\<lambda>h. Inr (m\<lparr>mdl_heap := h, mdl_node := Some 0\<rparr>))
     | None \<Rightarrow> Inr (m\<lparr>mdl_heap := Map.empty\<rparr>)))"

definition Model_clear :: "('a vpz_model_scheme, unit) proc" where
  "Model_clear = updS (\<lambda>m. m\<lparr>mdl_graph := None, mdl_node := None\<rparr>)"

text \<open>The new graph comes with its store.\<close>

definition setGraph :: "graph \<Rightarrow> addr option \<Rightarrow> ('a vpz_model_scheme, unit) proc" where
  "setGraph h a = thenS (assertS (\<lambda>m. mdl_graph m = mdl_node m) ''Can not assign vpz.project.model with a node'')
     (updS (\<lambda>m. m\<lparr>mdl_heap := h, mdl_graph := a, mdl_node := a\<rparr>))"

definition model_graph :: "('a vpz_model_scheme, addr option) proc" where
  "model_graph = thenS (assertS (\<lambda>m. mdl_graph m = mdl_node m) ''Can not assign vpz.project.model with a node'')
     (bindS getS (\<lambda>m. thenS (updS (\<lambda>m. m\<lparr>mdl_graph := None, mdl_node := None\<rparr>)) (retS (mdl_graph m))))"

definition setNode :: "graph \<Rightarrow> addr option \<Rightarrow> ('a vpz_model_scheme, unit) proc" where
  "setNode h a = thenS (assertS (\<lambda>m. mdl_graph m = None) ''Can not use setNode with vpz.project.model'')
     (updS (\<lambda>m. m\<lparr>mdl_heap := h, mdl_node := a\<rparr>))"

text \<open>The operations on all atomic models, of \<^verbatim>\<open>Model\<close> and of \<^verbatim>\<open>Class\<close>, which does not test its graph.\<close>

definition on_heap :: "(addr \<Rightarrow> 'b gproc) \<Rightarrow> ('a vpz_model_scheme, 'b) proc" where
  "on_heap g = bindS getS (\<lambda>m. case mdl_graph m of
     None \<Rightarrow> throwS (UndefinedBehaviour ''null graph'')
   | Some a \<Rightarrow> focus mdl_heap (\<lambda>h m. m\<lparr>mdl_heap := h\<rparr>) (g a))"

definition on_model_graph :: "(addr \<Rightarrow> 'b gproc) \<Rightarrow> (vpz_model, 'b) proc" where
  "on_model_graph g = thenS (assertS (\<lambda>m. mdl_node m = None \<and> mdl_graph m \<noteq> None) ''vle::vpz::Model not used in graph'') (on_heap g)"

definition on_class_graph :: "(addr \<Rightarrow> 'b gproc) \<Rightarrow> (vpz_class, 'b) proc" where
  "on_class_graph g = thenS (assertS (\<lambda>m. mdl_node m = None) ''Can not get node with a vpz.project.class'') (on_heap g)"

definition Model_updateDynamics :: "nat \<Rightarrow> string \<Rightarrow> string \<Rightarrow> (vpz_model, unit) proc" where
  "Model_updateDynamics d oldname newname = on_model_graph (updateDynamics oldname newname d)"

definition Model_purgeDynamics :: "nat \<Rightarrow> string set \<Rightarrow> (vpz_model, unit) proc" where
  "Model_purgeDynamics d lst = on_model_graph (purgeDynamics lst d)"

definition Model_updateObservable :: "nat \<Rightarrow> string \<Rightarrow> string \<Rightarrow> (vpz_model, unit) proc" where
  "Model_updateObservable d oldname newname = on_model_graph (updateObservable oldname newname d)"

definition Model_purgeObservable :: "nat \<Rightarrow> string set \<Rightarrow> (vpz_model, unit) proc" where
  "Model_purgeObservable d lst = on_model_graph (purgeObservable lst d)"

definition Model_updateConditions :: "nat \<Rightarrow> string \<Rightarrow> string \<Rightarrow> (vpz_model, unit) proc" where
  "Model_updateConditions d oldname newname = on_model_graph (updateConditions oldname newname d)"

definition Model_purgeConditions :: "nat \<Rightarrow> string set \<Rightarrow> (vpz_model, unit) proc" where
  "Model_purgeConditions d lst = on_model_graph (purgeConditions lst d)"

definition Class_updateDynamics :: "nat \<Rightarrow> string \<Rightarrow> string \<Rightarrow> (vpz_class, unit) proc" where
  "Class_updateDynamics d oldname newname = on_class_graph (updateDynamics oldname newname d)"

definition Class_purgeDynamics :: "nat \<Rightarrow> string set \<Rightarrow> (vpz_class, unit) proc" where
  "Class_purgeDynamics d lst = on_class_graph (purgeDynamics lst d)"

definition Class_updateObservable :: "nat \<Rightarrow> string \<Rightarrow> string \<Rightarrow> (vpz_class, unit) proc" where
  "Class_updateObservable d oldname newname = on_class_graph (updateObservable oldname newname d)"

definition Class_purgeObservable :: "nat \<Rightarrow> string set \<Rightarrow> (vpz_class, unit) proc" where
  "Class_purgeObservable d lst = on_class_graph (purgeObservable lst d)"

definition Class_updateConditions :: "nat \<Rightarrow> string \<Rightarrow> string \<Rightarrow> (vpz_class, unit) proc" where
  "Class_updateConditions d oldname newname = on_class_graph (updateConditions oldname newname d)"

definition Class_purgeConditions :: "nat \<Rightarrow> string set \<Rightarrow> (vpz_class, unit) proc" where
  "Class_purgeConditions d lst = on_class_graph (purgeConditions lst d)"

text \<open>\<^verbatim>\<open>getAtomicModelList\<close> of a graph, as a procedure.\<close>

definition atomic_models :: "addr \<Rightarrow> addr list gproc" where
  "atomic_models a s = (case getAtomicModelList s a [] of None \<Rightarrow> Exn NonTermination s
     | Some r \<Rightarrow> (case r of Inl e \<Rightarrow> Exn e s | Inr l \<Rightarrow> Ret l s))"

definition Model_getAtomicModelList :: "(vpz_model, addr list) proc" where
  "Model_getAtomicModelList = on_model_graph atomic_models"

definition Class_getAtomicModelList :: "(vpz_class, addr list) proc" where
  "Class_getAtomicModelList = on_class_graph atomic_models"

definition Model_findModelFromPath :: "string \<Rightarrow> 'a vpz_model_scheme \<Rightarrow> addr option result" where
  "Model_findModelFromPath pathname m = (case mdl_node m of
     None \<Rightarrow> Inl (UndefinedBehaviour ''null model'')
   | Some a \<Rightarrow> bindE (outcome_result (getName a (mdl_heap m))) (\<lambda>n.
       let pre = n @ '','' in
       if take (length pre) pathname \<noteq> pre then Inr None
       else outcome_result (findModelFromPath a (drop (length pre) pathname) (mdl_heap m))))"

section \<open>The container of the classes\<close>

type_synonym classes = "(string \<times> vpz_class) list"

text \<open>\<^verbatim>\<open>add\<close> returns a reference to the new class; the model leaves it to the caller.\<close>

definition Classes_add :: "string \<Rightarrow> classes \<Rightarrow> classes result" where
  "Classes_add name l = (if map_of l name \<noteq> None then Inl (ArgError ''Class already exists'') else Inr (smap_insert name (Class_new name) l))"

definition Classes_del :: "string \<Rightarrow> classes \<Rightarrow> classes" where
  "Classes_del name l = smap_erase name l"

definition Classes_get :: "string \<Rightarrow> classes \<Rightarrow> vpz_class result" where
  "Classes_get name l = (case map_of l name of None \<Rightarrow> Inl (ArgError ''Unknow class'') | Some c \<Rightarrow> Inr c)"

definition Classes_clear :: "classes \<Rightarrow> classes" where
  "Classes_clear l = []"

definition Classes_exist :: "string \<Rightarrow> classes \<Rightarrow> bool" where
  "Classes_exist name l \<longleftrightarrow> map_of l name \<noteq> None"

text \<open>The class is copied into the pair and with the pair into the map.\<close>

definition Classes_rename :: "nat \<Rightarrow> string \<Rightarrow> string \<Rightarrow> classes \<Rightarrow> classes result" where
  "Classes_rename d oldname newname l = (if Classes_exist newname l then Inl (ArgError ''Class already exists'')
     else (case map_of l oldname of
       None \<Rightarrow> Inl (ArgError ''Unknow class'')
     | Some c \<Rightarrow> bindE (Model_copy d c) (\<lambda>c. bindE (Model_copy d c) (\<lambda>c.
         Inr (smap_erase oldname (smap_insert newname (c\<lparr>cls_name := newname\<rparr>) l))))))"

text \<open>A procedure on every class, in the order of the names.\<close>

fun each_class :: "(vpz_class, unit) proc \<Rightarrow> (classes, unit) proc" where
  "each_class m [] = Ret () []"
| "each_class m ((k, c) # es) = (case m c of
     Exn e c' \<Rightarrow> Exn e ((k, c') # es)
   | Ret _ c' \<Rightarrow> (case each_class m es of Ret _ es' \<Rightarrow> Ret () ((k, c') # es') | Exn e es' \<Rightarrow> Exn e ((k, c') # es')))"

definition Classes_updateDynamics :: "nat \<Rightarrow> string \<Rightarrow> string \<Rightarrow> (classes, unit) proc" where
  "Classes_updateDynamics d oldname newname = each_class (Class_updateDynamics d oldname newname)"

definition Classes_purgeDynamics :: "nat \<Rightarrow> string set \<Rightarrow> (classes, unit) proc" where
  "Classes_purgeDynamics d lst = each_class (Class_purgeDynamics d lst)"

definition Classes_updateObservable :: "nat \<Rightarrow> string \<Rightarrow> string \<Rightarrow> (classes, unit) proc" where
  "Classes_updateObservable d oldname newname = each_class (Class_updateObservable d oldname newname)"

definition Classes_purgeObservable :: "nat \<Rightarrow> string set \<Rightarrow> (classes, unit) proc" where
  "Classes_purgeObservable d lst = each_class (Class_purgeObservable d lst)"

definition Classes_updateConditions :: "nat \<Rightarrow> string \<Rightarrow> string \<Rightarrow> (classes, unit) proc" where
  "Classes_updateConditions d oldname newname = each_class (Class_updateConditions d oldname newname)"

definition Classes_purgeConditions :: "nat \<Rightarrow> string set \<Rightarrow> (classes, unit) proc" where
  "Classes_purgeConditions d lst = each_class (Class_purgeConditions d lst)"

section \<open>Models created during a simulation\<close>

text \<open>
  The factory with its classes. The part of \<^verbatim>\<open>createModelFromClass\<close> before the simulators are built works on
  the graph: the copy, its ports, the list of its atomic models, its parent. \<open>x\<close> is the address the allocator
  returns for the copy.
\<close>

record class_factory = factory +
  mClasses :: classes

definition copy_of_class :: "nat \<Rightarrow> addr \<Rightarrow> vpz_class \<Rightarrow> string \<Rightarrow> string list \<Rightarrow> string list \<Rightarrow> addr \<Rightarrow> addr list gproc" where
  "copy_of_class d cpl classe modelname inputs outputs x = (case mdl_node classe of
     None \<Rightarrow> throwS (UndefinedBehaviour ''null model'')
   | Some node \<Rightarrow>
       thenS (clone_model d (mdl_heap classe) node x)
      (thenS (forS (addInputPort x) inputs)
      (thenS (forS (addOutputPort x) outputs)
      (bindS (atomic_models x) (\<lambda>l.
       thenS (addModel_named cpl x modelname) (retS l))))))"

definition createModelFromClass :: "nat \<Rightarrow> ('q, 'h, 'u, 'p) platform \<Rightarrow> ('q, 'h, 'u, 'p) coordinator executive_ops \<Rightarrow> (('q, 'h, 'u, 'p) coordinator, 'u, 'p) modules
    \<Rightarrow> class_factory \<Rightarrow> addr \<Rightarrow> string \<Rightarrow> string \<Rightarrow> conditions \<Rightarrow> string list \<Rightarrow> string list \<Rightarrow> addr \<Rightarrow> ('q, 'h, 'u, 'p, addr) cproc" where
  "createModelFromClass d P E M F cpl classname modelname conditions inputs outputs x =
     bindS (liftS (Classes_get classname (mClasses F))) (\<lambda>classe.
     bindS (on_graph (copy_of_class d cpl classe modelname inputs outputs x)) (\<lambda>l.
     thenS (forS (create_atomic P E M (factory.truncate F) conditions) l) (retS x)))"

text \<open>
  \<^verbatim>\<open>Executive::conditions\<close>: the first call copies the conditions of the experiment into the executive,
  whose member \<open>own\<close> is passed and returned.
\<close>

definition Executive_conditions :: "class_factory \<Rightarrow> conditions option \<Rightarrow> (conditions \<times> conditions option) result" where
  "Executive_conditions F own = (case own of
     Some cs \<Rightarrow> Inr (cs, own)
   | None \<Rightarrow> bindE (copy_conditions (exp_conditions (mExperiment F))) (\<lambda>cs. Inr (cs, Some cs)))"

definition setDebug :: "addr \<Rightarrow> unit gproc" where
  "setDebug a = modify a (m_kind_update (\<lambda>k. case k of Atomic w \<Rightarrow> Atomic (w\<lparr>m_debug := True\<rparr>) | Coupled c \<Rightarrow> Coupled c))"

definition resetDebug :: "addr \<Rightarrow> unit gproc" where
  "resetDebug a = modify a (m_kind_update (\<lambda>k. case k of Atomic w \<Rightarrow> Atomic (w\<lparr>m_debug := False\<rparr>) | Coupled c \<Rightarrow> Coupled c))"

definition Executive_createModel :: "('q, 'h, 'u, 'p) platform \<Rightarrow> ('q, 'h, 'u, 'p) coordinator executive_ops \<Rightarrow> (('q, 'h, 'u, 'p) coordinator, 'u, 'p) modules
    \<Rightarrow> class_factory \<Rightarrow> conditions option \<Rightarrow> addr \<Rightarrow> string \<Rightarrow> string list \<Rightarrow> string list \<Rightarrow> string \<Rightarrow> string list \<Rightarrow> string \<Rightarrow> bool \<Rightarrow> addr
    \<Rightarrow> ('q, 'h, 'u, 'p, addr \<times> conditions option) cproc" where
  "Executive_createModel P E M F own self name inputs outputs dynamics conds observable debug x =
     bindS (cpled self) (\<lambda>a.
     thenS (on_graph (thenS (AtomicModel_new x name (Some a))
       (thenS (if debug then setDebug x else retS ())
       (thenS (forS (addInputPort x) inputs) (forS (addOutputPort x) outputs)))))
    (bindS (liftS (Executive_conditions F own)) (\<lambda>(cs, own').
     thenS (createModel P E M (factory.truncate F) cs x dynamics conds observable) (retS (x, own')))))"

definition Executive_createModelFromClass :: "nat \<Rightarrow> ('q, 'h, 'u, 'p) platform \<Rightarrow> ('q, 'h, 'u, 'p) coordinator executive_ops \<Rightarrow> (('q, 'h, 'u, 'p) coordinator, 'u, 'p) modules
    \<Rightarrow> class_factory \<Rightarrow> conditions option \<Rightarrow> addr \<Rightarrow> string \<Rightarrow> string \<Rightarrow> string list \<Rightarrow> string list \<Rightarrow> addr
    \<Rightarrow> ('q, 'h, 'u, 'p, addr \<times> conditions option) cproc" where
  "Executive_createModelFromClass d P E M F own self classname modelname inputs outputs x =
     bindS (cpled self) (\<lambda>a.
     bindS (liftS (Executive_conditions F own)) (\<lambda>(cs, own').
     bindS (createModelFromClass d P E M F a classname modelname cs inputs outputs x) (\<lambda>mdl. retS (mdl, own'))))"


section \<open>The operations on the atomic models of a class fail\<close>

text \<open>The states of a model or a class that its operations reach.\<close>

inductive holder_reach :: "'a vpz_model_scheme \<Rightarrow> bool" where
  new: "mdl_graph m = None \<Longrightarrow> mdl_node m = None \<Longrightarrow> holder_reach m"
| set_graph: "holder_reach m \<Longrightarrow> holder_reach (final (setGraph h a m))"
| take_graph: "holder_reach m \<Longrightarrow> holder_reach (final (model_graph m))"
| set_node: "holder_reach m \<Longrightarrow> holder_reach (final (setNode h a m))"
| clear: "holder_reach m \<Longrightarrow> holder_reach (final (Model_clear m))"
| copy: "holder_reach m \<Longrightarrow> Model_copy d m = Inr m' \<Longrightarrow> holder_reach m'"
| set_name: "holder_reach m \<Longrightarrow> mdl_graph m' = mdl_graph m \<Longrightarrow> mdl_node m' = mdl_node m \<Longrightarrow> holder_reach m'"

lemma final_holder:
  "final (setGraph h a m) = (if mdl_graph m = mdl_node m then m\<lparr>mdl_heap := h, mdl_graph := a, mdl_node := a\<rparr> else m)"
  "final (model_graph m) = (if mdl_graph m = mdl_node m then m\<lparr>mdl_graph := None, mdl_node := None\<rparr> else m)"
  "final (setNode h a m) = (if mdl_graph m = None then m\<lparr>mdl_heap := h, mdl_node := a\<rparr> else m)"
  "final (Model_clear m) = m\<lparr>mdl_graph := None, mdl_node := None\<rparr>"
  by (simp_all add: setGraph_def model_graph_def setNode_def Model_clear_def effect_defs assertS_def updS_def final_def)

lemma holder_node: "holder_reach m \<Longrightarrow> mdl_graph m \<noteq> None \<Longrightarrow> mdl_node m = mdl_graph m"
proof (induction rule: holder_reach.induct)
  case (copy m d m')
  then show ?case by (auto simp: Model_copy_def bindE_def split: option.splits sum.splits)
qed (auto simp: final_holder split: if_splits)

lemma on_class_graph_fails: "holder_reach m \<Longrightarrow> \<exists>e. on_class_graph g m = Exn e m \<and> \<not> is_exception e"
  by (cases "mdl_graph m"; cases "mdl_node m")
    (auto simp: on_class_graph_def on_heap_def assertS_def effect_defs is_exception_def dest!: holder_node)

lemma on_model_graph_fails: "holder_reach m \<Longrightarrow> on_model_graph g m = Exn (AssertionFailed ''vle::vpz::Model not used in graph'') m"
  by (auto simp: on_model_graph_def assertS_def effect_defs dest: holder_node)

text \<open>
  C33. Whatever the operations on a class before it, and whether it has a graph or not, renaming or removing the
  dynamics, observables or conditions of its atomic models and listing them all fail: with a graph because of
  the assertion that there is no node, which \<^verbatim>\<open>setGraph\<close> has set, without one because the graph is a null
  pointer. The same operations of a model always fail in their assertion.
\<close>

theorem atomic_operations_fail:
  fixes c :: vpz_class and m :: vpz_model
  assumes "holder_reach c" "holder_reach m"
  shows "(\<forall>r \<in> {Class_updateDynamics d o' n c, Class_purgeDynamics d S c, Class_updateObservable d o' n c, Class_purgeObservable d S c,
      Class_updateConditions d o' n c, Class_purgeConditions d S c}. \<exists>e. r = Exn e c \<and> \<not> is_exception e)
    \<and> (\<exists>e. Class_getAtomicModelList c = Exn e c \<and> \<not> is_exception e)
    \<and> (\<forall>r \<in> {Model_updateDynamics d o' n m, Model_purgeDynamics d S m, Model_updateObservable d o' n m, Model_purgeObservable d S m,
      Model_updateConditions d o' n m, Model_purgeConditions d S m}. r = Exn (AssertionFailed ''vle::vpz::Model not used in graph'') m)
    \<and> Model_getAtomicModelList m = Exn (AssertionFailed ''vle::vpz::Model not used in graph'') m"
  unfolding Class_updateDynamics_def Class_purgeDynamics_def Class_updateObservable_def Class_purgeObservable_def Class_updateConditions_def Class_purgeConditions_def
    Model_updateDynamics_def Model_purgeDynamics_def Model_updateObservable_def Model_purgeObservable_def Model_updateConditions_def Model_purgeConditions_def
    Class_getAtomicModelList_def Model_getAtomicModelList_def
  by (intro conjI ballI) (auto intro: on_class_graph_fails [OF assms(1)] simp: on_model_graph_fails [OF assms(2)])

lemma atomic_operations_fail_witness:
  "\<exists>e. Class_updateDynamics 5 ''a'' ''b'' (final (setGraph sample (Some 0) (Class_new ''C''))) = Exn e (final (setGraph sample (Some 0) (Class_new ''C'')))
     \<and> \<not> is_exception e"
proof -
  have "holder_reach (final (setGraph sample (Some 0) (Class_new ''C'')))"
    by (rule holder_reach.set_graph [OF holder_reach.new]) (simp_all add: Class_new_def)
  moreover have "holder_reach Model_new" by (rule holder_reach.new) (simp_all add: Model_new_def)
  ultimately show ?thesis using atomic_operations_fail [of _ Model_new 5 "''a''" "''b''" "{}"] by blast
qed

section \<open>The graph after a model was created from a class\<close>

lemma not_above_new:
  assumes e: "beside f src a x nxt s s'" and p: "s p \<noteq> None"
  shows "x \<notin> ancestors s' p"
proof
  note D = beside_D [OF e]
  assume "x \<in> ancestors s' p"
  then have "(p, x) \<in> (parent_rel s')\<^sup>+" by (simp add: ancestors_def)
  then have "s x \<noteq> None"
  proof (induction rule: trancl_induct)
    case (base y)
    then have "parent s p = Some y" using beside_old(1) [OF e, of p] D(7) [of p] p by (cases "p \<in> f ` below src a") (auto simp: parent_rel_def)
    then show ?case using tree_child_iff [OF D(4), of p y] by (cases "s y") (simp_all add: models_def)
  next
    case (step y z)
    then have "parent s y = Some z" using beside_old(1) [OF e, of y] D(7) [of y] by (cases "y \<in> f ` below src a") (auto simp: parent_rel_def)
    then show ?case using tree_child_iff [OF D(4), of y z] by (cases "s z") (simp_all add: models_def)
  qed
  then show False using e by (simp add: beside_def)
qed

lemma wp_clone_beside:
  assumes "graph_ok src" "keys_ok src" "graph_ok s" "keys_ok s" "src a \<noteq> None" "card (dom src) \<le> d" "\<And>y. x \<le> y \<Longrightarrow> s y = None"
  shows "wp (clone_model d src a x) s (\<lambda>nxt s'. \<exists>f. beside f src a x nxt s s' \<and> graph_ok s' \<and> keys_ok s')"
proof -
  have fin: "finite (dom src)" "linked src" "tree_ok src" using assms(1) by (auto simp: graph_ok_def tree_ok_def)
  have sub: "below src a \<subseteq> dom src" using below_dom assms(5) by blast
  then have "finite (below src a)" "card (below src a) \<le> d" using fin(1) assms(6) card_mono [OF fin(1) sub] by (auto intro: finite_subset)
  then have "wp (clone_model d src a x) s (\<lambda>nxt s'. \<exists>f. cloned f src a x nxt s s')"
    using wp_clone_model [OF fin(2,3) assms(2,5)] assms(7) by blast
  then show ?thesis
  proof (rule wp_mono, elim exE)
    fix nxt s' f
    assume "cloned f src a x nxt s s'"
    then have "beside f src a x nxt s s'" using assms by (simp add: beside_def)
    then show "\<exists>f. beside f src a x nxt s s' \<and> graph_ok s' \<and> keys_ok s'" using beside_graph_ok beside_keys_ok assms(2,4) by blast
  qed
qed

lemma wp_atomic_models:
  assumes "tree_ok s" "s a \<noteq> None"
  shows "wp (atomic_models a) s (\<lambda>l s'. s' = s \<and> distinct l \<and> set l = (if atomic_at s a then {a} else atomic_below s a))"
  using atomic_list_total [OF assms] by (auto simp: atomic_models_def atomic_list_def wp_def)

lemma adopts_atomic:
  assumes "adopts p r k s s'" "r \<notin> ancestors s p" "p \<noteq> r" "parent s r = None"
  shows "atomic_at s' = atomic_at s" "atomic_below s' r = atomic_below s r"
proof -
  have at: "atomic_at t a \<longleftrightarrow> a \<in> dom t \<and> \<not> coupled_at t a" for t a by (auto simp: atomic_at_def coupled_at_def isCoupled_iff split: option.split)
  show same: "atomic_at s' = atomic_at s" using assms(1) by (simp add: at fun_eq_iff adopts_def)
  have R: "parent_rel s' = insert (r, p) (parent_rel s)" using assms(1,4) by (auto simp: parent_rel_def adopts_def split: if_splits)
  have "(p, r) \<notin> (parent_rel s)\<^sup>*" using assms(2,3) by (simp add: ancestors_def rtrancl_eq_or_trancl)
  then have "(a, r) \<in> (parent_rel s')\<^sup>+ \<longleftrightarrow> (a, r) \<in> (parent_rel s)\<^sup>+" for a unfolding R trancl_insert by auto
  then show "atomic_below s' r = atomic_below s r" by (simp add: atomic_below_def ancestors_def same)
qed

lemma wider_ports_orphan: "wider_ports a s s' \<Longrightarrow> orphan s r \<Longrightarrow> orphan s' r"
  using skeleton_cong(1,3) [of s' s] by (auto simp: wider_ports_def orphan_def)

lemma beside_orphan:
  assumes e: "beside f src a x nxt s s'"
  shows "orphan s' x"
proof -
  have a: "a \<in> below src a" by (simp add: below_def)
  have x: "x = f a" using e by (simp add: beside_def cloned_def)
  have "s' (f a) \<noteq> None" using beside_node [OF e a] by (auto simp: shape_def)
  moreover have "ports s' d (f a) q = []" if "d = In \<or> d = Out" for d q using beside_ports [OF e a, of d q] that by auto
  ultimately show ?thesis using beside_parent [OF e a] by (simp add: orphan_def x)
qed

text \<open>
  The model at \<open>f node\<close> is an instance of the class whose graph is \<open>src\<close> with the root \<open>node\<close>: it has the data and the sub-models
  of the root, the new name and parent, and the ports of the root with those that were asked for; every model below has its copy, and
  the connections inside are those of the class.
\<close>

definition instance_of :: "(addr \<Rightarrow> addr) \<Rightarrow> graph \<Rightarrow> addr \<Rightarrow> string \<Rightarrow> addr \<Rightarrow> string list \<Rightarrow> string list \<Rightarrow> graph \<Rightarrow> bool" where
  "instance_of f src node name cpl inputs outputs s \<longleftrightarrow> inj_on f (below src node)
     \<and> map_option bare (s (f node)) = map_option (\<lambda>n. (bare (renamed f (Some cpl) n))\<lparr>m_name := name\<rparr>) (src node)
     \<and> (\<forall>q. has_port s In (f node) q = (has_port src In node q \<or> q \<in> set inputs))
     \<and> (\<forall>q. has_port s Out (f node) q = (has_port src Out node q \<or> q \<in> set outputs))
     \<and> (\<forall>b \<in> below src node. b \<noteq> node \<longrightarrow> shape s (f b) = map_option (renamed f (map_option f (parent src b))) (src b))
     \<and> (\<forall>b \<in> below src node. \<forall>d p. mset (ports s d (f b) p) =
          (if b = node \<and> (d = In \<or> d = Out) then {#} else image_mset (map_prod f id) (mset (ports src d b p))))"

lemma has_port_shape: "has_port s d a p = (case shape s a of None \<Rightarrow> False | Some n \<Rightarrow> (case node_conns d n of None \<Rightarrow> False | Some l \<Rightarrow> map_of l p \<noteq> None))"
  by (auto simp: has_port_def shape_def node_conns_def node_shape_def map_of_clear_conns split: option.splits side.splits model_kind.splits)

lemma map_option_bare: "map_option bare (s a) = map_option bare (shape s a)"
  by (simp add: shape_def option.map_comp comp_def)

lemma copy_becomes_instance:
  assumes e: "beside f src node x nxt s s1" and p2: "named_ports In x inputs s1 s2" and p3: "named_ports Out x outputs s2 s3"
    and w: "wider_ports x s1 s3" and a: "adopts cpl x name s3 s'" and fr: "\<forall>a. a \<noteq> cpl \<longrightarrow> a \<noteq> x \<longrightarrow> s' a = s3 a"
    and r: "s' x = map_option (\<lambda>n. n\<lparr>m_name := name, m_parent := Some cpl\<rparr>) (s3 x)" and cpl: "cpl < x"
  shows "instance_of f src node name cpl inputs outputs s'"
proof -
  have x: "x = f node" using e by (simp add: beside_def cloned_def)
  have node: "node \<in> below src node" by (simp add: below_def)
  obtain n where n: "src node = Some n" "shape s1 x = Some (renamed f None n)" using beside_node [OF e node] x by auto
  have upd: "bare (m\<lparr>m_name := name, m_parent := Some cpl\<rparr>) = (bare m)\<lparr>m_name := name, m_parent := Some cpl\<rparr>" for m by (simp add: bare_def)
  have "map_option bare (s3 x) = map_option bare (s1 x)" using p2 p3 by (simp add: named_ports_def)
  also have "\<dots> = Some (bare (renamed f None n))" using n(2) by (simp add: map_option_bare [of s1])
  finally obtain m where "s3 x = Some m" "bare m = bare (renamed f None n)" by auto
  then have "map_option bare (s' x) = Some ((bare (renamed f None n))\<lparr>m_name := name, m_parent := Some cpl\<rparr>)" by (simp add: r upd)
  also have "\<dots> = Some ((bare (renamed f (Some cpl) n))\<lparr>m_name := name\<rparr>)" by (simp add: bare_def renamed_def)
  finally have root: "map_option bare (s' x) = map_option (\<lambda>n. (bare (renamed f (Some cpl) n))\<lparr>m_name := name\<rparr>) (src node)" using n(1) by simp
  have "has_port s1 d x q = has_port src d node q" if "d \<in> {In, Out}" for d q
    using that n unfolding has_port_shape [of s1] by (auto simp: has_port_def node_conns_def renamed_def node_shape_def map_of_clear_conns split: option.split)
  then have named: "has_port s' In x q = (has_port src In node q \<or> q \<in> set inputs)" "has_port s' Out x q = (has_port src Out node q \<or> q \<in> set outputs)" for q
    using p2 p3 a by (simp_all add: named_ports_def adopts_def)
  have below: "shape s' (f b) = map_option (renamed f (map_option f (parent src b))) (src b)" if b: "b \<in> below src node" "b \<noteq> node" for b
  proof -
    have "f b \<noteq> x" "x \<le> f b" using beside_eq [OF e b(1) node] b e x by (auto simp: beside_def cloned_def)
    then have "s' (f b) = s1 (f b)" using fr w cpl by (simp add: wider_ports_def)
    moreover obtain m where "src b = Some m" "shape s1 (f b) = Some (renamed f (map_option f (parent src b)) m)" using beside_node [OF e b(1)] b(2) by auto
    ultimately show ?thesis by (simp add: shape_def)
  qed
  have "ports s' = ports s1" using w a by (simp add: wider_ports_def adopts_def)
  then show ?thesis
    using root named below beside_ports [OF e] e unfolding instance_of_def x by (auto simp: beside_def cloned_def)
qed

text \<open>
  C32. With a class whose graph is well-formed, the part of \<^verbatim>\<open>createModelFromClass\<close> before the simulators are built puts an instance
  of the class into the running graph: the sub-model \<open>modelname\<close> of the coupled model is a copy of the class's root with its sub-models,
  the connections inside and the data of its atomic models, with the ports of the root and the ports asked for; the list of the
  atomic models that get a simulator is complete and has no duplicates; the graph stays well-formed, and no other model changes.
\<close>

theorem copy_of_class_spec:
  assumes "graph_ok src" "keys_ok src" "mdl_heap classe = src" "mdl_node classe = Some node" "src node \<noteq> None" "card (dom src) \<le> d"
    and "graph_ok s" "keys_ok s" "coupled_at s cpl" "\<forall>y. x \<le> y \<longrightarrow> s y = None" "map_of (models s cpl) modelname = None"
  shows "\<exists>f l s'. copy_of_class d cpl classe modelname inputs outputs x s = Ret l s' \<and> graph_ok s' \<and> keys_ok s'
    \<and> f node = x \<and> instance_of f src node modelname cpl inputs outputs s'
    \<and> models s' cpl = smap_update modelname x (models s cpl) \<and> parent s' x = Some cpl
    \<and> distinct l \<and> set l = (if atomic_at s' x then {x} else atomic_below s' x) \<and> (\<forall>y. y < x \<longrightarrow> y \<noteq> cpl \<longrightarrow> s' y = s y)"
proof -
  let ?Q = "\<lambda>l s'. graph_ok s' \<and> keys_ok s' \<and> (\<exists>f. f node = x \<and> instance_of f src node modelname cpl inputs outputs s')
    \<and> models s' cpl = smap_update modelname x (models s cpl) \<and> parent s' x = Some cpl
    \<and> distinct l \<and> set l = (if atomic_at s' x then {x} else atomic_below s' x) \<and> (\<forall>y. y < x \<longrightarrow> y \<noteq> cpl \<longrightarrow> s' y = s y)"
  have old: "s cpl \<noteq> None" using assms(9) by (auto simp: coupled_at_def split: option.splits)
  then have cx: "cpl < x" using assms(10) by (meson not_le)
  have "wp (clone_model d src node x) s (\<lambda>nxt s1. wp (forS (addPort In IntIn x) inputs) s1 (\<lambda>_ s2. wp (forS (addPort Out IntOut x) outputs) s2 (\<lambda>_ s3.
    wp (atomic_models x) s3 (\<lambda>l s4. wp (addModel_named cpl x modelname) s4 (\<lambda>_. ?Q l)))))"
  proof (rule wp_mono [OF wp_clone_beside [OF assms(1,2,7,8,5,6)]])
    show "\<And>y. x \<le> y \<Longrightarrow> s y = None" using assms(10) by blast
    fix nxt s1
    assume "\<exists>f. beside f src node x nxt s s1 \<and> graph_ok s1 \<and> keys_ok s1"
    then obtain f where e: "beside f src node x nxt s s1" and ok1: "graph_ok s1" "keys_ok s1" by blast
    have nimg: "y \<notin> f ` below src node" if "y < x" for y using e that by (force simp: beside_def cloned_def)
    have o1: "orphan s1 x" by (rule beside_orphan [OF e])
    have at1: "s1 x \<noteq> None" using o1 by (simp add: orphan_def)
    have f1: "s1 y = s y" if "y < x" for y by (rule beside_D(6) [OF e nimg [OF that]])
    show "wp (forS (addPort In IntIn x) inputs) s1 (\<lambda>_ s2. wp (forS (addPort Out IntOut x) outputs) s2 (\<lambda>_ s3.
      wp (atomic_models x) s3 (\<lambda>l s4. wp (addModel_named cpl x modelname) s4 (\<lambda>_. ?Q l))))"
    proof (rule wp_mono [OF wp_conj [OF wp_addPorts [OF ok1 at1] wp_addPorts_named [where s = s1, OF at1]]])
      fix s2
      assume "wider_ports x s1 s2 \<and> named_ports In x inputs s1 s2"
      then have w2: "wider_ports x s1 s2" and p2: "named_ports In x inputs s1 s2" by simp_all
      note ok2 = wider_ports_graph_ok [OF w2 ok1(1)]
      have o2: "orphan s2 x" by (rule wider_ports_orphan [OF w2 o1])
      then have at2: "s2 x \<noteq> None" by (simp add: orphan_def)
      show "wp (forS (addPort Out IntOut x) outputs) s2 (\<lambda>_ s3. wp (atomic_models x) s3 (\<lambda>l s4. wp (addModel_named cpl x modelname) s4 (\<lambda>_. ?Q l)))"
      proof (rule wp_mono [OF wp_conj [OF wp_addPorts [OF ok2 [THEN conjunct1] ok2 [THEN conjunct2] at2] wp_addPorts_named [where s = s2, OF at2]]])
        fix s3
        assume "wider_ports x s2 s3 \<and> named_ports Out x outputs s2 s3"
        then have w23: "wider_ports x s2 s3" and p3: "named_ports Out x outputs s2 s3" by simp_all
        note w3 = wider_ports_trans [OF w2 w23]
        note ok3 = wider_ports_graph_ok [OF w3 ok1(1)]
        have o3: "orphan s3 x" by (rule wider_ports_orphan [OF w23 o2])
        have t3: "tree_ok s3" "s3 x \<noteq> None" "parent s3 x = None" using ok3 o3 by (simp_all add: graph_ok_def orphan_def)
        have f3: "s3 y = s y" if "y < x" for y using w3 f1 [OF that] that by (simp add: wider_ports_def)
        have "parent s3 = parent s1" using w3 by (intro skeleton_cong(1)) (simp add: wider_ports_def)
        then have na: "x \<notin> ancestors s3 cpl" using not_above_new [OF e old] by (simp add: ancestors_def parent_rel_def)
        have m3: "models s3 cpl = models s cpl" using f3 [OF cx] by (simp add: models_def)
        have c3: "coupled_at s3 cpl" "map_of (models s3 cpl) modelname = None" using assms(9,11) f3 [OF cx] m3 by (simp_all add: coupled_at_def)
        show "wp (atomic_models x) s3 (\<lambda>l s4. wp (addModel_named cpl x modelname) s4 (\<lambda>_. ?Q l))"
        proof (rule wp_mono [OF wp_atomic_models [OF t3(1,2)]], elim conjE)
          fix l s4
          assume l: "s4 = s3" "distinct l" "set l = (if atomic_at s3 x then {x} else atomic_below s3 x)"
          have "wp (addModel_named cpl x modelname) s3 (\<lambda>_. ?Q l)"
          proof (rule wp_mono [OF wp_addModel_named [OF c3 o3 _ ok3 [THEN conjunct2]]], simp add: cx less_imp_neq, elim conjE)
            fix s'
            assume ad: "adopts cpl x modelname s3 s'" and k: "keys_ok s'" and fr: "\<forall>a. a \<noteq> cpl \<longrightarrow> a \<noteq> x \<longrightarrow> s' a = s3 a"
              and r: "s' x = map_option (\<lambda>n. n\<lparr>m_name := modelname, m_parent := Some cpl\<rparr>) (s3 x)"
            have "cpl \<noteq> x" using cx by simp
            moreover have "f node = x" using e by (simp add: beside_def cloned_def)
            moreover note copy_becomes_instance [OF e p2 p3 w3 ad fr r cx]
            ultimately show "?Q l s'" using adopts_graph_ok [OF ok3 [THEN conjunct1] o3 ad \<open>cpl \<noteq> x\<close> na c3(2)] adopts_atomic [OF ad na \<open>cpl \<noteq> x\<close> t3(3)]
                ad k fr f3 l m3 by (auto simp: adopts_def)
          qed
          then show "wp (addModel_named cpl x modelname) s4 (\<lambda>_. ?Q l)" using l(1) by simp
        qed
      qed simp_all
    qed simp_all
  qed
  then have "wp (copy_of_class d cpl classe modelname inputs outputs x) s ?Q"
    using assms(3,4) by (simp add: copy_of_class_def addInputPort_def addOutputPort_def wp_simps)
  then show ?thesis unfolding wp_def by (cases "copy_of_class d cpl classe modelname inputs outputs x s") auto
qed

lemma copy_of_class_spec_witness:
  "\<exists>l s'. copy_of_class 4 0 \<lparr>mdl_heap = sample, mdl_graph = Some 2, mdl_node = Some 2, cls_name = ''C''\<rparr> ''new'' [''in''] [] 4 sample = Ret l s'
     \<and> graph_ok s' \<and> map_of (models s' 0) ''new'' = Some 4 \<and> has_port s' In 4 ''in''"
proof -
  have "sample 2 \<noteq> None" "card (dom sample) \<le> 4" "coupled_at sample 0" "\<forall>y \<ge> 4. sample y = None" "map_of (models sample 0) ''new'' = None"
    by (simp_all add: sample_nodes dom_sample coupled_at_def isCoupled_def models_def coupled_init_def) (simp add: sample_def)
  from copy_of_class_spec [OF sample_graph_ok sample_keys_ok _ _ this(1,2) sample_graph_ok sample_keys_ok this(3,4,5),
      of "\<lparr>mdl_heap = sample, mdl_graph = Some 2, mdl_node = Some 2, cls_name = ''C''\<rparr>" "[''in'']" "[]"]
  obtain f l s' where "copy_of_class 4 0 \<lparr>mdl_heap = sample, mdl_graph = Some 2, mdl_node = Some 2, cls_name = ''C''\<rparr> ''new'' [''in''] [] 4 sample = Ret l s'"
    "graph_ok s'" "f 2 = 4" "instance_of f sample 2 ''new'' 0 [''in''] [] s'" "models s' 0 = smap_update ''new'' 4 (models sample 0)"
    by auto
  then show ?thesis by (auto simp: instance_of_def)
qed

end
