(* ===== verification/Double_Arithmetic.thy ===== *)
theory Double_Arithmetic
  imports Prelude Complex_Main
begin

text \<open>
  Products and quotients of doubles. Every finite double is a rational number, and an operation is the exact one followed by
  the rounding \<open>fl\<close> to 53 significant bits, ties to even. The exponent is not bounded: the functions that use this theory
  work on values between \<open>2\<^sup>-\<^sup>5\<^sup>0\<close> and \<open>2\<^sup>5\<^sup>0\<close>, far from overflow and from the subnormal numbers.
\<close>

section \<open>Rounding\<close>

definition rne :: "rat \<Rightarrow> int" where
  "rne q = (let k = \<lfloor>q\<rfloor>; d = q - of_int k in
     if d < 1 / 2 then k else if d > 1 / 2 then k + 1 else if even k then k else k + 1)"

text \<open>The exponent of the leading bit: the largest \<open>e\<close> with \<open>2\<^sup>e \<le> q\<close>, found with the lengths of numerator and denominator.\<close>

function bits :: "int \<Rightarrow> int" where
  "bits k = (if k \<le> 0 then 0 else 1 + bits (k div 2))"
  by pat_completeness auto
termination by (relation "measure nat") auto

declare bits.simps [simp del]

definition lead :: "rat \<Rightarrow> int" where
  "lead q = (case quotient_of q of (a, b) \<Rightarrow>
     let g = bits a - bits b in if 2 powi g \<le> q then g else g - 1)"

definition fl :: "rat \<Rightarrow> rat" where
  "fl q = (if q = 0 then 0 else
     let e = lead \<bar>q\<bar> - 52 in of_int (rne (q * 2 powi (- e))) * 2 powi e)"

definition fadd :: "rat \<Rightarrow> rat \<Rightarrow> rat" where "fadd x y = fl (x + y)"
definition fsub :: "rat \<Rightarrow> rat \<Rightarrow> rat" where "fsub x y = fl (x - y)"
definition fmul :: "rat \<Rightarrow> rat \<Rightarrow> rat" where "fmul x y = fl (x * y)"
definition fdiv :: "rat \<Rightarrow> rat \<Rightarrow> rat" where "fdiv x y = fl (x / y)"

text \<open>\<^verbatim>\<open>static_cast<int>\<close> and the integral part of \<^verbatim>\<open>std::modf\<close> round towards zero.\<close>

definition trunc :: "rat \<Rightarrow> int" where
  "trunc q = (if 0 \<le> q then \<lfloor>q\<rfloor> else \<lceil>q\<rceil>)"

section \<open>The error of a rounding\<close>

lemma rne_error: "\<bar>of_int (rne q) - q\<bar> \<le> 1 / 2"
proof -
  have "of_int \<lfloor>q\<rfloor> \<le> q" "q < of_int \<lfloor>q\<rfloor> + 1" by linarith+
  then show ?thesis by (auto simp: rne_def Let_def abs_le_iff)
qed

lemma rne_int [simp]: "rne (of_int k) = k"
  by (simp add: rne_def)

lemma bits_bounds: "0 < k \<Longrightarrow> 0 < bits k \<and> 2 powi (bits k - 1) \<le> (of_int k :: rat) \<and> (of_int k :: rat) < 2 powi (bits k)"
proof (induction k rule: bits.induct)
  case (1 k)
  show ?case
  proof (cases "k = 1")
    case True
    then show ?thesis by (simp add: bits.simps)
  next
    case False
    then have k: "0 < k div 2" using 1(2) by presburger
    have bk: "bits k = 1 + bits (k div 2)" using 1(2) by (subst bits.simps) simp
    have IH: "0 < bits (k div 2)" "2 powi (bits (k div 2) - 1) \<le> (of_int (k div 2) :: rat)" "(of_int (k div 2) :: rat) < 2 powi (bits (k div 2))"
      using 1(1) [OF _ k] 1(2) by auto
    define b where "b = nat (bits (k div 2) - 1)"
    have b: "bits (k div 2) = int b + 1" using IH(1) by (simp add: b_def)
    have "(2 :: rat) powi (bits (k div 2) - 1) = of_int (2 ^ b)" "(2 :: rat) powi (bits (k div 2)) = of_int (2 ^ (b + 1))"
      unfolding b by (simp_all add: power_int_add)
    then have "(2 ^ b :: int) \<le> k div 2" "k div 2 < 2 ^ (b + 1)" using IH(2,3) by (simp_all only: of_int_le_iff of_int_less_iff)
    then have "(2 ^ (b + 1) :: int) \<le> k" "k < 2 ^ (b + 2)" by simp_all
    then have "(of_int (2 ^ (b + 1)) :: rat) \<le> of_int k" "(of_int k :: rat) < of_int (2 ^ (b + 2))" by (simp_all only: of_int_le_iff of_int_less_iff)
    then show ?thesis using bk b by (simp add: power_int_add)
  qed
qed

lemma lead_bounds:
  assumes "0 < q"
  shows "2 powi (lead q) \<le> q" "q < 2 powi (lead q + 1)"
proof -
  obtain a b where q: "quotient_of q = (a, b)" by force
  have b: "0 < b" and qab: "q = of_int a / of_int b" using quotient_of_denom_pos [OF q] quotient_of_div [OF q] by auto
  have a: "0 < a" using assms b qab by (simp add: zero_less_divide_iff)
  note A = bits_bounds [OF a, THEN conjunct2] and B = bits_bounds [OF b, THEN conjunct2]
  let ?g = "bits a - bits b"
  have "q < 2 powi (bits a) / 2 powi (bits b - 1)"
    unfolding qab using A B b a by (intro frac_less) auto
  also have "\<dots> = 2 powi (?g + 1)" by (simp add: power_int_diff power_int_add)
  finally have up: "q < 2 powi (?g + 1)" .
  have "2 powi (bits a - 1) / 2 powi (bits b) \<le> q"
    unfolding qab using A B b a by (intro frac_le) auto
  then have lo: "2 powi (?g - 1) \<le> q" by (simp add: power_int_diff)
  show "2 powi (lead q) \<le> q" "q < 2 powi (lead q + 1)" using up lo by (auto simp: lead_def q Let_def)
qed

lemma fl_error: "\<bar>fl q - q\<bar> \<le> \<bar>q\<bar> / 2 ^ 53"
proof (cases "q = 0")
  case False
  let ?e = "lead \<bar>q\<bar> - 52"
  let ?x = "q * 2 powi (- ?e)"
  have inv: "(2 :: rat) powi (- ?e) * 2 powi ?e = 1" by (simp flip: power_int_add)
  then have q: "?x * 2 powi ?e = q" by (simp only: mult.assoc mult_1_right)
  have "fl q - q = (of_int (rne ?x) - ?x) * 2 powi ?e" using False unfolding left_diff_distrib q by (simp add: fl_def Let_def)
  then have "\<bar>fl q - q\<bar> = \<bar>of_int (rne ?x) - ?x\<bar> * 2 powi ?e" by (simp add: abs_mult)
  also have "\<dots> \<le> 1 / 2 * 2 powi ?e" by (intro mult_right_mono rne_error) simp
  also have "\<dots> = 2 powi (lead \<bar>q\<bar>) / 2 ^ 53" by (simp add: power_int_diff)
  also have "\<dots> \<le> \<bar>q\<bar> / 2 ^ 53" using lead_bounds(1) [of "\<bar>q\<bar>"] False by (intro divide_right_mono) auto
  finally show ?thesis .
qed (simp add: fl_def)

lemma fl_bound: "\<bar>q\<bar> \<le> B \<Longrightarrow> \<bar>fl q - q\<bar> \<le> B / 2 ^ 53"
  using fl_error [of q] by (meson divide_right_mono order_trans zero_le_numeral zero_le_power)

text \<open>Integers up to \<open>2\<^sup>5\<^sup>3\<close> are doubles.\<close>

lemma fl_int:
  assumes "\<bar>k\<bar> \<le> 2 ^ 53"
  shows "fl (of_int k) = of_int k"
proof (cases "k = 0")
  case False
  let ?q = "\<bar>of_int k\<bar> :: rat"
  let ?e = "lead ?q - 52"
  have pos: "0 < ?q" using False by simp
  have main: "fl (of_int k) = of_int (rne (of_int k * 2 powi (- ?e))) * 2 powi ?e" using False by (simp add: fl_def Let_def)
  show ?thesis
  proof (cases "?e \<le> 0")
    case True
    define n where "n = nat (- ?e)"
    have "- ?e = int n" using True by (simp add: n_def)
    then have "(of_int k :: rat) * 2 powi (- ?e) = of_int (k * 2 ^ n)" "?e = - int n" by simp_all
    moreover from this have "(of_int (k * 2 ^ n) :: rat) * 2 powi ?e = of_int k" by (simp add: power_int_minus)
    ultimately show ?thesis unfolding main by (simp only: rne_int)
  next
    case e: False
    then have "(2 :: rat) powi 53 \<le> 2 powi (lead ?q)" by (intro power_int_increasing) auto
    moreover have "?q \<le> of_int (2 ^ 53)" using assms by (simp only: of_int_abs of_int_le_iff flip: of_int_abs)
    moreover note lead_bounds(1) [OF pos]
    ultimately have "?q = of_int (2 ^ 53)" "2 powi (lead ?q) = (2 :: rat) powi 53" by auto
    moreover have "lead ?q = 53"
    proof (rule ccontr)
      assume "lead ?q \<noteq> 53"
      then have "(2 :: rat) powi 54 \<le> 2 powi (lead ?q)" using e by (intro power_int_increasing) auto
      then show False unfolding calculation(2) by simp
    qed
    ultimately have "\<bar>k\<bar> = 2 ^ 53" "lead ?q = 53" by (simp_all flip: of_int_abs)
    then have "k = 2 ^ 53 \<or> k = - (2 ^ 53)" "?e = 1" by auto
    then show ?thesis
    proof (elim disjE)
      assume k: "k = 2 ^ 53" and e: "?e = 1"
      have "(of_int k :: rat) * 2 powi (- ?e) = of_int (2 ^ 52)" unfolding e unfolding k by (simp add: power_int_minus)
      then have "fl (of_int k) = of_int (2 ^ 52) * 2 powi ?e" unfolding main by (simp only: rne_int)
      then show ?thesis unfolding e by (simp add: k)
    next
      assume k: "k = - (2 ^ 53)" and e: "?e = 1"
      have "(of_int k :: rat) * 2 powi (- ?e) = of_int (- (2 ^ 52))" unfolding e unfolding k by (simp add: power_int_minus)
      then have "fl (of_int k) = of_int (- (2 ^ 52)) * 2 powi ?e" unfolding main by (simp only: rne_int)
      then show ?thesis unfolding e by (simp add: k)
    qed
  qed
qed (simp add: fl_def)

end
