(* ===== verification/Number_Text.thy ===== *)
theory Number_Text
  imports Prelude
begin

text \<open>Decimal numerals as the stream operators print them, and the classes of characters that readers distinguish.\<close>

definition show_int :: "int \<Rightarrow> string" where
  "show_int k = (if k < 0 then ''-'' @ show_nat (nat (- k)) else show_nat (nat k))"

text \<open>\<^verbatim>\<open>std::isdigit\<close> and \<^verbatim>\<open>std::isspace\<close> in the C locale.\<close>

definition digit :: "char \<Rightarrow> bool" where
  "digit c \<longleftrightarrow> 48 \<le> (of_char c :: nat) \<and> (of_char c :: nat) \<le> 57"

definition blank :: "char \<Rightarrow> bool" where
  "blank c \<longleftrightarrow> (of_char c :: nat) = 32 \<or> 9 \<le> (of_char c :: nat) \<and> (of_char c :: nat) \<le> 13"

lemma digit_char: "n < 10 \<Longrightarrow> digit (char_of (48 + n :: nat))"
  by (simp add: digit_def)

lemma show_nat_digits: "list_all digit (show_nat n)" "show_nat n \<noteq> []"
proof -
  have "list_all digit (show_nat n) \<and> show_nat n \<noteq> []"
  proof (induction n rule: show_nat.induct)
    case (1 n)
    show ?case
    proof (cases "n < 10")
      case True
      then show ?thesis using digit_char [of n] by (simp add: show_nat.simps [of n])
    next
      case False
      then show ?thesis using 1 digit_char [of "n mod 10"] by (simp add: show_nat.simps [of n])
    qed
  qed
  then show "list_all digit (show_nat n)" "show_nat n \<noteq> []" by simp_all
qed

lemma digit_not_blank: "digit c \<Longrightarrow> \<not> blank c"
  by (auto simp: digit_def blank_def)

end
