(* ===== verification/Date_Time.thy ===== *)
theory Date_Time
  imports Double_Arithmetic Number_Text
begin

text \<open>
  \<^verbatim>\<open>utils/DateTime.cpp\<close>: the conversions between Julian days, dates and strings. An \<^verbatim>\<open>int\<close> is an integer in the
  range of 32 bits: an operation whose result leaves it is undefined behaviour, an error value here, and so is the conversion of a
  double that does not fit. Division truncates.
\<close>

section \<open>The calendar\<close>

definition tdiv :: "int \<Rightarrow> int \<Rightarrow> int" where
  "tdiv a b = sgn a * sgn b * (\<bar>a\<bar> div \<bar>b\<bar>)"

definition tmod :: "int \<Rightarrow> int \<Rightarrow> int" where
  "tmod a b = a - b * tdiv a b"

definition int_min :: int where "int_min = - (2 ^ 31)"
definition int_max :: int where "int_max = 2 ^ 31 - 1"

definition checked :: "int \<Rightarrow> int result" where
  "checked k = (if int_min \<le> k \<and> k \<le> int_max then Inr k else Inl (UndefinedBehaviour ''signed overflow''))"

definition double_to_int :: "rat \<Rightarrow> int result" where
  "double_to_int r = (if int_min \<le> trunc r \<and> trunc r \<le> int_max then Inr (trunc r) else Inl (UndefinedBehaviour ''conversion to int''))"

text \<open>The operators of \<^verbatim>\<open>int\<close>; the divisors of the program are positive constants.\<close>

definition iadd :: "int result \<Rightarrow> int result \<Rightarrow> int result" where
  "iadd a b = bindE a (\<lambda>x. bindE b (\<lambda>y. checked (x + y)))"

definition isub :: "int result \<Rightarrow> int result \<Rightarrow> int result" where
  "isub a b = bindE a (\<lambda>x. bindE b (\<lambda>y. checked (x - y)))"

definition imul :: "int result \<Rightarrow> int result \<Rightarrow> int result" where
  "imul a b = bindE a (\<lambda>x. bindE b (\<lambda>y. checked (x * y)))"

definition idiv :: "int result \<Rightarrow> int \<Rightarrow> int result" where
  "idiv a b = bindE a (\<lambda>x. Inr (tdiv x b))"

definition imod :: "int result \<Rightarrow> int \<Rightarrow> int result" where
  "imod a b = bindE a (\<lambda>x. Inr (tmod x b))"

definition intern_isLeapYear :: "int \<Rightarrow> bool" where
  "intern_isLeapYear year = (if tmod year 4 \<noteq> 0 then False else if tmod year 100 \<noteq> 0 then True else if tmod year 400 \<noteq> 0 then False else True)"

definition intern_aYear :: "int \<Rightarrow> int" where
  "intern_aYear year = (if intern_isLeapYear year then 366 else 365)"

definition intern_aMonth :: "int \<Rightarrow> int \<Rightarrow> int" where
  "intern_aMonth year month =
     (if month = 1 then 31 else if month = 2 then (if intern_isLeapYear year then 29 else 28) else if month = 3 then 31
      else if month = 4 then 30 else if month = 5 then 31 else if month = 6 then 30 else if month = 7 then 31
      else if month = 8 then 31 else if month = 9 then 30 else if month = 10 then 31 else if month = 11 then 30
      else if month = 12 then 31 else int_min)"

record intern_date =
  myear :: int
  mmonth :: int
  mday :: int
  mhours :: int
  mminutes :: int
  mseconds :: int

definition date_default :: intern_date where
  "date_default = \<lparr>myear = 1400, mmonth = 1, mday = 1, mhours = 0, mminutes = 0, mseconds = 0\<rparr>"

definition initPartOfDay :: "rat \<Rightarrow> intern_date \<Rightarrow> intern_date" where
  "initPartOfDay partofday d =
     (let f = fmul partofday 24; h = \<lfloor>f\<rfloor>; f = fsub f (of_int h); f = fmul f 60; m = \<lfloor>f\<rfloor>; f = fsub f (of_int m);
          f = fmul f 60; s = \<lfloor>f\<rfloor>
      in d\<lparr>mhours := h, mminutes := m, mseconds := s\<rparr>)"

definition date_new :: "int \<Rightarrow> int \<Rightarrow> int \<Rightarrow> rat \<Rightarrow> intern_date" where
  "date_new year month day partofday =
     initPartOfDay partofday \<lparr>myear = year, mmonth = month, mday = day, mhours = 0, mminutes = 0, mseconds = 0\<rparr>"

text \<open>The computation of \<^verbatim>\<open>f\<close> is one of doubles, since \<^verbatim>\<open>J\<close> is one; the rest is one of integers.\<close>

definition day_count :: "int \<Rightarrow> int result" where
  "day_count J = double_to_int (fadd (fadd (fadd (of_int J) 1401) (fdiv (fmul (fdiv (fadd (fmul 4 (of_int J)) 274277) 146097) 3) 4)) (- 38))"

text \<open>After the first line, whose result is \<open>e\<close>, all numbers are small.\<close>

definition date_of_remainders :: "int \<Rightarrow> intern_date \<Rightarrow> intern_date" where
  "date_of_remainders e d =
     (let g = tdiv (tmod e 1461) 4; h = 5 * g + 2; month = tmod (tdiv h 153 + 2) 12 + 1
      in d\<lparr>mday := tdiv (tmod h 153) 5 + 1, mmonth := month, myear := tdiv e 1461 - 4716 + tdiv (12 + 2 - month) 12\<rparr>)"

definition date_of_count :: "int \<Rightarrow> intern_date \<Rightarrow> intern_date result" where
  "date_of_count f d = bindE (iadd (imul (Inr 4) (Inr f)) (Inr 3)) (\<lambda>e. Inr (date_of_remainders e d))"

definition fromJulianDay :: "rat \<Rightarrow> intern_date \<Rightarrow> intern_date result" where
  "fromJulianDay julianDay d = (let J = trunc julianDay in
     bindE (day_count J) (\<lambda>f. date_of_count f (initPartOfDay (julianDay - of_int J) d)))"

definition equals :: "intern_date \<Rightarrow> intern_date \<Rightarrow> bool" where
  "equals a d \<longleftrightarrow> myear a = myear d \<and> mmonth a = mmonth d \<and> mday a = mday d"

definition date_inf :: "intern_date \<Rightarrow> intern_date \<Rightarrow> bool" where
  "date_inf a d = (if myear a < myear d then True else if myear a > myear d then False
     else if mmonth a < mmonth d then True else if mmonth a > mmonth d then False else mday a < mday d)"

definition date_sup :: "intern_date \<Rightarrow> intern_date \<Rightarrow> bool" where
  "date_sup a d = (if myear a < myear d then False else if myear a > myear d then True
     else if mmonth a < mmonth d then False else if mmonth a > mmonth d then True else mday a > mday d)"

definition isValid :: "intern_date \<Rightarrow> bool" where
  "isValid d = (if 1 > mmonth d \<or> mmonth d > 12 then False
     else if 1 > mday d \<or> mday d > intern_aMonth (myear d) (mmonth d) then False
     else if 0 > mhours d \<or> mhours d > 23 then False
     else if 0 > mminutes d \<or> mminutes d > 60 then False
     else if 0 > mseconds d \<or> mseconds d > 60 then False else True)"

text \<open>The arguments of \<^verbatim>\<open>intern_aMonth\<close> are exchanged in the code.\<close>

function month_loop :: "intern_date \<Rightarrow> intern_date result" where
  "month_loop d = (if mmonth d > 12 then
       bindE (checked (myear d + 1)) (\<lambda>y.
       let d = d\<lparr>myear := y, mmonth := mmonth d - 12\<rparr>; nbDaysInMonth = intern_aMonth (mmonth d) (myear d)
       in if mday d > nbDaysInMonth
          then bindE (checked (mday d - nbDaysInMonth)) (\<lambda>k. month_loop (d\<lparr>mmonth := mmonth d + 1, mday := k\<rparr>))
          else month_loop d)
     else Inr d)"
  by pat_completeness auto
termination
  by (relation "measure (\<lambda>d. nat (mmonth d))") auto

declare month_loop.simps [simp del]

definition addMonths :: "int \<Rightarrow> intern_date \<Rightarrow> intern_date result" where
  "addMonths months d = bindE (checked (mmonth d + months)) (\<lambda>k. month_loop (d\<lparr>mmonth := k\<rparr>))"

definition julianDayNumber :: "intern_date \<Rightarrow> int result" where
  "julianDayNumber d =
     (let a = idiv (isub (Inr 14) (Inr (mmonth d))) 12;
          y = isub (iadd (Inr (myear d)) (Inr 4800)) a;
          m = isub (iadd (Inr (mmonth d)) (imul (Inr 12) a)) (Inr 3)
      in isub (iadd (isub (iadd (iadd (iadd (Inr (mday d)) (idiv (iadd (imul (Inr 153) m) (Inr 2)) 5)) (imul (Inr 365) y))
           (idiv y 4)) (idiv y 100)) (idiv y 400)) (Inr 32045))"

definition julianDay :: "intern_date \<Rightarrow> rat result" where
  "julianDay d = bindE (julianDayNumber d) (\<lambda>n. Inr (fadd (fadd (fadd (of_int n) (fdiv (of_int (mhours d)) 24))
     (fdiv (of_int (mminutes d)) 1440)) (fdiv (of_int (mseconds d)) 86400)))"

definition dayOfyear :: "intern_date \<Rightarrow> int result" where
  "dayOfyear d = bindE (foldE (\<lambda>m ret. checked (ret + intern_aMonth (myear d) m)) [1..mmonth d - 1] 0) (\<lambda>ret. checked (ret + mday d))"

definition daysUntilEndOfyear :: "intern_date \<Rightarrow> int result" where
  "daysUntilEndOfyear d = isub (Inr (intern_aYear (myear d))) (dayOfyear d)"

definition intern_dayOfWeek :: "intern_date \<Rightarrow> int result" where
  "intern_dayOfWeek d =
     (let a = idiv (isub (Inr 14) (Inr (mmonth d))) 12;
          y = isub (Inr (myear d)) a;
          m = isub (iadd (Inr (mmonth d)) (imul (Inr 12) a)) (Inr 2)
      in imod (iadd (iadd (isub (iadd (iadd (Inr (mday d)) y) (idiv y 4)) (idiv y 100)) (idiv y 400)) (idiv (imul (Inr 31) m) 12)) 7)"

text \<open>The day of the week of the first day of a year, and the week of a day in that year.\<close>

definition week_from :: "int \<Rightarrow> int \<Rightarrow> (int \<times> int) result" where
  "week_from year juliantoday =
     bindE (julianDay (date_new year 1 1 0)) (\<lambda>b. bindE (double_to_int b) (\<lambda>julianbegin.
     bindE (imod (iadd (Inr julianbegin) (Inr 3)) 7) (\<lambda>day.
     bindE (idiv (iadd (isub (iadd (Inr juliantoday) (Inr day)) (Inr julianbegin)) (Inr 4)) 7) (\<lambda>week. Inr (day, week)))))"

definition intern_weekOfYear :: "intern_date \<Rightarrow> int result" where
  "intern_weekOfYear d =
     bindE (julianDay d) (\<lambda>t. bindE (double_to_int t) (\<lambda>juliantoday.
     bindE (week_from (myear d) juliantoday) (\<lambda>(day, week).
       if week \<ge> 1 \<and> week \<le> 52 then Inr week
       else if week = 53 then Inr (if day = 6 \<or> day = 5 \<and> intern_isLeapYear (myear d) then week else 1)
       else if week = 0 then bindE (checked (myear d - 1)) (\<lambda>y. bindE (week_from y juliantoday) (\<lambda>p. Inr (snd p)))
       else Inr week)))"

definition idaysUntilEndOfMonth :: "intern_date \<Rightarrow> int result" where
  "idaysUntilEndOfMonth d = checked (intern_aMonth (myear d) (mmonth d) - mday d)"

text \<open>The recursion exchanges the two dates, so it happens once.\<close>

definition days_forward :: "intern_date \<Rightarrow> intern_date \<Rightarrow> int result" where
  "days_forward a d = bindE (julianDay d) (\<lambda>x. bindE (julianDay a) (\<lambda>y. double_to_int (fsub x y)))"

definition daysUntil :: "intern_date \<Rightarrow> intern_date \<Rightarrow> int result" where
  "daysUntil a d = (if equals a d then Inr 0 else if date_sup a d then bindE (days_forward d a) (\<lambda>k. checked (- k)) else days_forward a d)"

section \<open>Strings\<close>

datatype str_format = extended | ymd | hms

definition two_digits :: "int \<Rightarrow> string" where
  "two_digits k = (if k < 10 then ''0'' else []) @ show_int k"

definition date_toString :: "str_format \<Rightarrow> intern_date \<Rightarrow> string" where
  "date_toString fmt d =
     (if fmt \<noteq> hms then show_int (myear d) @ ''-'' @ two_digits (mmonth d) @ ''-'' @ two_digits (mday d) else [])
     @ (if fmt = extended then '' '' else [])
     @ (if fmt \<noteq> ymd then two_digits (mhours d) @ '':'' @ two_digits (mminutes d) @ '':'' @ two_digits (mseconds d) else [])"

text \<open>The matches of \<^verbatim>\<open>[0-9]+|[^0-9]\<close>: a longest run of digits or one other character.\<close>

function date_tokens :: "string \<Rightarrow> string list" where
  "date_tokens [] = []"
| "date_tokens (c # cs) = (if digit c then (c # takeWhile digit cs) # date_tokens (dropWhile digit cs) else [c] # date_tokens cs)"
  by pat_completeness auto
termination by (relation "measure length") (auto simp: le_imp_less_Suc length_dropWhile_le)

text \<open>\<^verbatim>\<open>std::stoi\<close> on such a match: no conversion of another character, and an error out of the range of \<^verbatim>\<open>int\<close>.\<close>

definition stoi :: "string \<Rightarrow> int option" where
  "stoi s = (if s \<noteq> [] \<and> list_all digit s \<and> int (read_nat s) \<le> int_max then Some (int (read_nat s)) else None)"

definition set_field :: "str_format \<Rightarrow> nat \<Rightarrow> int \<Rightarrow> intern_date \<Rightarrow> intern_date" where
  "set_field toparse n k d =
     (if n = 1 then (if toparse = ymd then d\<lparr>myear := k\<rparr> else d\<lparr>mhours := k\<rparr>)
      else if n = 3 then (if toparse = ymd then d\<lparr>mmonth := k\<rparr> else d\<lparr>mminutes := k\<rparr>)
      else (if toparse = ymd then d\<lparr>mday := k\<rparr> else d\<lparr>mseconds := k\<rparr>))"

text \<open>The loop over the matches: the number of matches so far, the date, and whether there was an exception.\<close>

fun parse_fields :: "str_format \<Rightarrow> string list \<Rightarrow> nat \<Rightarrow> intern_date \<Rightarrow> intern_date \<times> nat \<times> bool" where
  "parse_fields toparse [] n d = (d, n, False)"
| "parse_fields toparse (t # ts) n d =
     (if Suc n = 1 \<or> Suc n = 3 \<or> Suc n = 5 then
        (case stoi t of None \<Rightarrow> (d, Suc n, True) | Some k \<Rightarrow> parse_fields toparse ts (Suc n) (set_field toparse (Suc n) k d))
      else parse_fields toparse ts (Suc n) d)"

definition parse_part :: "str_format \<Rightarrow> string \<Rightarrow> intern_date \<Rightarrow> intern_date \<times> bool" where
  "parse_part toparse s d = (case parse_fields toparse (date_tokens s) 0 d of (d', n, ex) \<Rightarrow> (d', ex \<or> n \<noteq> 5))"

text \<open>The first match of \<^verbatim>\<open>([^\s]+)\s([^\s]+)\<close>.\<close>

function two_words :: "string \<Rightarrow> (string \<times> string) option" where
  "two_words [] = None"
| "two_words (c # cs) = (if blank c then two_words cs
     else (case dropWhile (\<lambda>c. \<not> blank c) cs of
        [] \<Rightarrow> None
      | b # r \<Rightarrow> if takeWhile (\<lambda>c. \<not> blank c) r \<noteq> [] then Some (c # takeWhile (\<lambda>c. \<not> blank c) cs, takeWhile (\<lambda>c. \<not> blank c) r)
                else two_words r))"
  by pat_completeness auto
termination
proof (relation "measure length", simp_all)
  fix cs r :: string and b
  assume "dropWhile (\<lambda>c. \<not> blank c) cs = b # r"
  then show "length r < Suc (length cs)" using length_dropWhile_le [of "\<lambda>c. \<not> blank c" cs] by simp
qed

text \<open>\<^verbatim>\<open>fromString\<close>: the new date and whether there was an error; the errors of the two parts are ignored.\<close>

definition fromString :: "string \<Rightarrow> str_format \<Rightarrow> intern_date \<Rightarrow> intern_date \<times> bool" where
  "fromString date toparse d =
     (if toparse = extended then
        (case two_words date of
           None \<Rightarrow> (d, True)
         | Some (x, y) \<Rightarrow> (fst (parse_part hms y (fst (parse_part ymd x d))), False))
      else parse_part toparse date d)"

section \<open>The operations of the class\<close>

definition date_at :: "rat \<Rightarrow> intern_date result" where
  "date_at time = fromJulianDay time date_default"

definition DateTime_year :: "rat \<Rightarrow> int result" where "DateTime_year time = bindE (date_at time) (\<lambda>d. Inr (myear d))"
definition DateTime_month :: "rat \<Rightarrow> int result" where "DateTime_month time = bindE (date_at time) (\<lambda>d. Inr (mmonth d))"
definition dayOfMonth :: "rat \<Rightarrow> int result" where "dayOfMonth time = bindE (date_at time) (\<lambda>d. Inr (mday d))"
definition DateTime_dayOfWeek :: "rat \<Rightarrow> int result" where "DateTime_dayOfWeek time = bindE (date_at time) intern_dayOfWeek"
definition dayOfYear :: "rat \<Rightarrow> int result" where "dayOfYear time = bindE (date_at time) dayOfyear"
definition weekOfYear :: "rat \<Rightarrow> int result" where "weekOfYear time = bindE (date_at time) intern_weekOfYear"

definition isLeapYear :: "rat \<Rightarrow> bool result" where
  "isLeapYear time = bindE (date_at time) (\<lambda>d. Inr (intern_isLeapYear (myear d)))"

definition aYear :: "rat \<Rightarrow> rat result" where
  "aYear time = bindE (isLeapYear time) (\<lambda>b. Inr (if b then 366 else 365))"

definition aMonth :: "rat \<Rightarrow> rat result" where
  "aMonth time = bindE (date_at time) (\<lambda>d. Inr (of_int (intern_aMonth (myear d) (mmonth d))))"

text \<open>The parameter is an \<^verbatim>\<open>unsigned int\<close>; the sum is converted back to \<^verbatim>\<open>int\<close>.\<close>

definition to_int :: "int \<Rightarrow> int" where
  "to_int k = (k + 2 ^ 31) mod 2 ^ 32 - 2 ^ 31"

text \<open>The difference of two dates in days.\<close>

definition julian_difference :: "intern_date \<Rightarrow> intern_date \<Rightarrow> rat result" where
  "julian_difference a b = bindE (julianDay a) (\<lambda>x. bindE (julianDay b) (\<lambda>y. Inr (fsub x y)))"

definition years :: "rat \<Rightarrow> int \<Rightarrow> rat result" where
  "years time n = bindE (date_at time) (\<lambda>d. julian_difference (d\<lparr>myear := to_int (myear d + n)\<rparr>) d)"

definition months :: "rat \<Rightarrow> int \<Rightarrow> rat result" where
  "months time n = bindE (date_at time) (\<lambda>d. bindE (addMonths (to_int n) d) (\<lambda>e. julian_difference e d))"

definition weeks :: "int \<Rightarrow> rat" where
  "weeks n = of_int ((7 * n) mod 2 ^ 32)"

definition days :: "int \<Rightarrow> rat" where
  "days n = of_int n"

datatype date_unit = UNIT_NONE | UNIT_DAY | UNIT_WEEK | UNIT_MONTH | UNIT_YEAR

definition convertUnit :: "string \<Rightarrow> date_unit" where
  "convertUnit u = (if u = ''day'' then UNIT_DAY else if u = ''week'' then UNIT_WEEK else if u = ''month'' then UNIT_MONTH
     else if u = ''year'' then UNIT_YEAR else UNIT_DAY)"

text \<open>The number of units is truncated to \<^verbatim>\<open>int\<close> and converted to \<^verbatim>\<open>unsigned int\<close>.\<close>

definition date_duration :: "rat \<Rightarrow> rat \<Rightarrow> date_unit \<Rightarrow> rat result" where
  "date_duration time dur u = bindE (double_to_int dur) (\<lambda>k. let n = k mod 2 ^ 32 in case u of
     UNIT_NONE \<Rightarrow> Inr (days n) | UNIT_DAY \<Rightarrow> Inr (days n) | UNIT_WEEK \<Rightarrow> Inr (weeks n)
   | UNIT_MONTH \<Rightarrow> months time n | UNIT_YEAR \<Rightarrow> years time n)"

definition show_julian_day_number :: "int \<Rightarrow> string result" where
  "show_julian_day_number date = bindE (date_at (of_int date)) (\<lambda>d. Inr (date_toString ymd d))"

definition read_julian_day_number :: "string \<Rightarrow> int result" where
  "read_julian_day_number date = julianDayNumber (fst (fromString date ymd date_default))"

definition show_julian_day :: "rat \<Rightarrow> string result" where
  "show_julian_day date = bindE (date_at date) (\<lambda>d. Inr (date_toString extended d))"

definition read_julian_day :: "string \<Rightarrow> rat result" where
  "read_julian_day date = (case fromString date extended date_default of
     (d, error) \<Rightarrow> julianDay (if error then fst (fromString date ymd d) else d))"

definition isValidYear :: "rat \<Rightarrow> bool result" where
  "isValidYear date = bindE (date_at date) (\<lambda>d. Inr (1399 < myear d \<and> myear d < 10000))"

definition toTime :: "rat \<Rightarrow> (int \<times> int \<times> int \<times> int \<times> int \<times> int) result" where
  "toTime date = bindE (date_at date) (\<lambda>d. Inr (myear d, mmonth d, mday d, mhours d, mminutes d, mseconds d))"

end
