(* ===== verification/Calendar.thy ===== *)
theory Calendar
  imports Date_Time
begin

text \<open>
  The calendar of \<open>Date_Time\<close>: Julian day numbers count the days, the conversion back is right up to the double
  division in it, which makes it a day late in parts of some centuries, and dates survive printing and parsing.
\<close>

section \<open>Division\<close>

lemma tdiv_nonneg [simp]: "0 \<le> a \<Longrightarrow> 0 < b \<Longrightarrow> tdiv a b = a div b"
  by (simp add: tdiv_def sgn_if)

lemma tmod_nonneg [simp]: "0 \<le> a \<Longrightarrow> 0 < b \<Longrightarrow> tmod a b = a mod b"
  by (simp add: tmod_def minus_mult_div_eq_mod)

section \<open>From a day to a date\<close>

lemma div_pos_geq_unique:
  fixes a b q :: int
  assumes "b * q \<le> a" "a < b * q + b"
  shows "a div b = q"
  using assms by (intro int_div_pos_eq [of _ _ _ "a - b * q"]) simp_all

lemma frac_floor:
  fixes k D :: int and t V :: rat
  assumes "0 < D" "k mod D \<noteq> 0" "\<bar>t - of_int k / of_int D\<bar> < 1 / of_int D"
  shows "\<lfloor>t\<rfloor> = k div D"
proof (rule floor_unique)
  have D: "(0 :: rat) < of_int D" using assms(1) by simp
  have r: "1 \<le> k mod D" "k mod D \<le> D - 1" using assms(1,2) pos_mod_bound [of D k] pos_mod_sign [of D k] by linarith+
  have k: "(of_int k :: rat) = of_int (k div D) * of_int D + of_int (k mod D)" by (simp flip: of_int_mult of_int_add)
  have q: "of_int k / of_int D = of_int (k div D) + of_int (k mod D) / (of_int D :: rat)" unfolding k using D by (simp add: field_simps)
  have "1 / of_int D \<le> of_int (k mod D) / (of_int D :: rat)" "of_int (k mod D) / (of_int D :: rat) \<le> of_int (D - 1) / of_int D"
    using r D by (auto intro!: divide_right_mono simp del: of_int_diff)
  moreover have "of_int (D - 1) / of_int D = 1 - 1 / (of_int D :: rat)" using D by (simp add: diff_divide_distrib)
  ultimately show "of_int (k div D) \<le> t" "t < of_int (k div D) + 1" using assms(3) unfolding q by linarith+
qed

text \<open>The rounding errors are too small to matter: the result is that of exact division.\<close>

lemma day_count_exact:
  assumes "0 \<le> J" "J \<le> 2 ^ 23"
  shows "day_count J = Inr (J + 1363 + (4 * J + 274277) div 194796)"
proof -
  define k where "k = 4 * J + 274277"
  have k: "0 < k" "k < 2 ^ 26" using assms by (simp_all add: k_def)
  define X where "X = (of_int k :: rat) / 146097"
  have X: "0 \<le> X" "X \<le> 2 ^ 9" 
  proof -
    have "(of_int k :: rat) < of_int (2 ^ 26)" "(0 :: rat) < of_int k" using k by (simp_all only: of_int_less_iff of_int_0_less_iff)
    then show "0 \<le> X" "X \<le> 2 ^ 9" by (simp_all add: X_def)
  qed
  have "fadd (fmul 4 (of_int J)) 274277 = of_int k"
  proof -
    have "fmul 4 (of_int J) = fl (of_int (4 * J))" by (simp add: fmul_def)
    also have "\<dots> = of_int (4 * J)" by (rule fl_int) (use assms in simp)
    finally have "fadd (fmul 4 (of_int J)) 274277 = fl (of_int k)" by (simp add: fadd_def k_def)
    also have "\<dots> = of_int k" by (rule fl_int) (use k in simp)
    finally show ?thesis .
  qed
  moreover have "fadd (of_int J) 1401 = of_int (J + 1401)"
  proof -
    have "fadd (of_int J) 1401 = fl (of_int (J + 1401))" by (simp add: fadd_def)
    then show ?thesis using fl_int [of "J + 1401"] assms by simp
  qed
  moreover define a where "a = fl X"
  moreover define b where "b = fl (a * 3)"
  moreover define c where "c = fl (b / 4)"
  moreover define s where "s = fl (of_int (J + 1401) + c)"
  moreover define t where "t = fl (s + - 38)"
  ultimately have dc: "day_count J = double_to_int t"
    by (simp add: day_count_def fadd_def fmul_def fdiv_def X_def del: of_int_add)
  have "\<bar>a - X\<bar> \<le> 2 ^ 9 / 2 ^ 53" unfolding a_def by (rule fl_bound) (use X in simp)
  then have ea: "\<bar>a - X\<bar> \<le> 1 / 2 ^ 44" by simp
  have "\<bar>a * 3\<bar> \<le> 2 ^ 11" using X abs_le_D1 [OF ea] abs_le_D2 [OF ea] by (simp add: abs_le_iff)
  then have "\<bar>b - a * 3\<bar> \<le> 2 ^ 11 / 2 ^ 53" unfolding b_def by (rule fl_bound)
  then have eb: "\<bar>b - a * 3\<bar> \<le> 1 / 2 ^ 42" by simp
  have "\<bar>b / 4\<bar> \<le> 2 ^ 10" using X abs_le_D1 [OF ea] abs_le_D2 [OF ea] abs_le_D1 [OF eb] abs_le_D2 [OF eb] by (simp add: abs_le_iff)
  then have "\<bar>c - b / 4\<bar> \<le> 2 ^ 10 / 2 ^ 53" unfolding c_def by (rule fl_bound)
  then have ec: "\<bar>c - b / 4\<bar> \<le> 1 / 2 ^ 43" by simp
  have J: "(0 :: rat) \<le> of_int J" "(of_int J :: rat) \<le> of_int (2 ^ 23)" using assms by (simp_all only: of_int_le_iff of_int_0_le_iff)
  have "\<bar>of_int (J + 1401) + c\<bar> \<le> 2 ^ 24" using J X abs_le_D1 [OF ea] abs_le_D2 [OF ea] abs_le_D1 [OF eb] abs_le_D2 [OF eb] abs_le_D1 [OF ec] abs_le_D2 [OF ec] by (simp add: abs_le_iff)
  then have "\<bar>s - (of_int (J + 1401) + c)\<bar> \<le> 2 ^ 24 / 2 ^ 53" unfolding s_def by (rule fl_bound)
  then have es: "\<bar>s - (of_int (J + 1401) + c)\<bar> \<le> 1 / 2 ^ 29" by simp
  have "\<bar>s + - 38\<bar> \<le> 2 ^ 24" using J X abs_le_D1 [OF ea] abs_le_D2 [OF ea] abs_le_D1 [OF eb] abs_le_D2 [OF eb] abs_le_D1 [OF ec] abs_le_D2 [OF ec] abs_le_D1 [OF es] abs_le_D2 [OF es] by (simp add: abs_le_iff)
  then have "\<bar>t - (s + - 38)\<bar> \<le> 2 ^ 24 / 2 ^ 53" unfolding t_def by (rule fl_bound)
  then have et: "\<bar>t - (s + - 38)\<bar> \<le> 1 / 2 ^ 29" by simp
  have V: "of_int ((J + 1363) * 194796 + k) / of_int 194796 = of_int (J + 1363) + X * 3 / (4 :: rat)" by (simp add: X_def)
  let ?V = "of_int (J + 1363) + X * 3 / (4 :: rat)"
  have "t - ?V < 1 / 2 ^ 20" "?V - t < 1 / 2 ^ 20" using abs_le_D1 [OF ea] abs_le_D2 [OF ea] abs_le_D1 [OF eb] abs_le_D2 [OF eb] abs_le_D1 [OF ec] abs_le_D2 [OF ec] abs_le_D1 [OF es] abs_le_D2 [OF es] abs_le_D1 [OF et] abs_le_D2 [OF et] by simp_all
  then have "\<bar>t - ?V\<bar> < 1 / 2 ^ 20" by linarith
  then have "\<bar>t - of_int ((J + 1363) * 194796 + k) / of_int 194796\<bar> < 1 / of_int 194796" unfolding V by (rule less_le_trans) simp
  moreover have "odd k" by (simp add: k_def)
  then have "\<not> 194796 dvd k" by (meson dvd_trans even_numeral)
  then have "((J + 1363) * 194796 + k) mod 194796 \<noteq> 0" by (simp only: mod_mult_self3 dvd_eq_mod_eq_0 not_False_eq_True)
  ultimately have "\<lfloor>t\<rfloor> = ((J + 1363) * 194796 + k) div 194796" by (intro frac_floor) simp_all
  also have "\<dots> = J + 1363 + k div 194796" by simp
  finally have fl: "\<lfloor>t\<rfloor> = J + 1363 + k div 194796" .
  moreover have "0 \<le> k div 194796" "k div 194796 \<le> k" using k zdiv_mono2 [of k 1 194796] by simp_all
  ultimately have b: "0 \<le> \<lfloor>t\<rfloor>" "\<lfloor>t\<rfloor> \<le> int_max" using assms k(2) by (simp_all add: int_max_def)
  then have "trunc t = \<lfloor>t\<rfloor>" by (simp add: trunc_def)
  then show ?thesis using dc fl b by (simp add: k_def double_to_int_def int_min_def)
qed

lemma month_of_day:
  fixes g :: int
  assumes "0 \<le> g" "g \<le> 365"
  defines "h \<equiv> 5 * g + 2"
  shows "0 \<le> h div 153" "h div 153 \<le> 11" "(h mod 153) div 5 + (153 * (h div 153) + 2) div 5 = g"
proof -
  show "0 \<le> h div 153" "h div 153 \<le> 11" using assms by (simp_all add: h_def)
  have "r div 5 + (153 * q + 2) div 5 = g" if "5 * g + 2 = 153 * q + r" for q r
  proof -
    have "(153 * q + 2) div 5 = g - r div 5"
    proof (rule div_pos_geq_unique)
      define u where "u = r div 5"
      define v where "v = r mod 5"
      have "r = 5 * u + v" "0 \<le> v" "v < 5" by (simp_all add: u_def v_def)
      then have "5 * (g - u) \<le> 153 * q + 2" "153 * q + 2 < 5 * (g - u) + 5" using that by simp_all
      then show "5 * (g - r div 5) \<le> 153 * q + 2" "153 * q + 2 < 5 * (g - r div 5) + 5" by (simp_all only: u_def)
    qed
    then show ?thesis by simp
  qed
  from this [of "h div 153" "h mod 153"] show "(h mod 153) div 5 + (153 * (h div 153) + 2) div 5 = g" by (simp add: h_def)
qed

text \<open>The number of a date when nothing overflows, and the dates for which nothing does.\<close>

definition day_number :: "intern_date \<Rightarrow> int" where
  "day_number d =
     (let a = tdiv (14 - mmonth d) 12; y = myear d + 4800 - a; m = mmonth d + 12 * a - 3
      in mday d + tdiv (153 * m + 2) 5 + 365 * y + tdiv y 4 - tdiv y 100 + tdiv y 400 - 32045)"

lemma checked_in: "int_min \<le> k \<Longrightarrow> k \<le> int_max \<Longrightarrow> checked k = Inr k"
  by (simp add: checked_def)

lemmas int_ops = iadd_def isub_def imul_def idiv_def imod_def checked_def int_min_def int_max_def

text \<open>A year up to 5,874,000; the sum of the number overflows for years not much larger.\<close>

definition in_range :: "intern_date \<Rightarrow> bool" where
  "in_range d \<longleftrightarrow> 0 \<le> myear d \<and> myear d \<le> 5874000 \<and> 1 \<le> mmonth d \<and> mmonth d \<le> 12 \<and> 1 \<le> mday d \<and> mday d \<le> 31"

lemma shift_range:
  assumes "1 \<le> m" "m \<le> 12"
  defines "a \<equiv> tdiv (14 - m) 12"
  shows "0 \<le> a" "a \<le> 1" "0 \<le> m + 12 * a - 3" "m + 12 * a - 3 \<le> 11"
proof -
  have "a = (14 - m) div 12" using assms by simp
  moreover have "(14 - m) div 12 = (if m \<le> 2 then 1 else 0)" using assms(1,2) by (intro div_pos_geq_unique) (auto split: if_splits)
  ultimately show "0 \<le> a" "a \<le> 1" "0 \<le> m + 12 * a - 3" "m + 12 * a - 3 \<le> 11" using assms(1,2) by auto
qed

lemma quotient_range:
  fixes y :: int
  assumes "0 \<le> y" "y \<le> B"
  shows "0 \<le> y div 4" "4 * (y div 4) \<le> B" "0 \<le> y div 100" "100 * (y div 100) \<le> B" "0 \<le> y div 400" "400 * (y div 400) \<le> B"
  using assms mult_div_mod_eq [of 4 y] pos_mod_sign [of 4 y] mult_div_mod_eq [of 100 y] pos_mod_sign [of 100 y]
    mult_div_mod_eq [of 400 y] pos_mod_sign [of 400 y] by (simp_all add: pos_imp_zdiv_nonneg_iff; linarith)+

lemma julianDayNumber_in_range:
  assumes "in_range d"
  shows "julianDayNumber d = Inr (day_number d)"
proof -
  define a where "a = tdiv (14 - mmonth d) 12"
  define y where "y = myear d + 4800 - a"
  define m where "m = mmonth d + 12 * a - 3"
  define q where "q = tdiv (153 * m + 2) 5"
  have r: "0 \<le> myear d" "myear d \<le> 5874000" "1 \<le> mmonth d" "mmonth d \<le> 12" "1 \<le> mday d" "mday d \<le> 31"
    using assms by (simp_all add: in_range_def)
  note am = shift_range [OF r(3,4), folded a_def, folded m_def]
  have y: "0 \<le> y" "y \<le> 5878800" using r am by (simp_all add: y_def)
  have q: "0 \<le> q" "q \<le> 337" 
  proof -
    have "q = (153 * m + 2) div 5" using am by (simp add: q_def)
    moreover have "(153 * m + 2) div 5 \<le> 1685 div 5" using am by (intro zdiv_mono1) simp_all
    ultimately show "0 \<le> q" "q \<le> 337" using am by simp_all
  qed
  have t: "tdiv y 4 = y div 4" "tdiv y 100 = y div 100" "tdiv y 400 = y div 400" using y by simp_all
  note b = quotient_range [OF y]
  have i: "isub (Inr 14) (Inr (mmonth d)) = Inr (14 - mmonth d)" "idiv (Inr (14 - mmonth d)) 12 = Inr a"
    "iadd (Inr (myear d)) (Inr 4800) = Inr (myear d + 4800)" "isub (Inr (myear d + 4800)) (Inr a) = Inr y"
    "imul (Inr 12) (Inr a) = Inr (12 * a)" "iadd (Inr (mmonth d)) (Inr (12 * a)) = Inr (mmonth d + 12 * a)"
    "isub (Inr (mmonth d + 12 * a)) (Inr 3) = Inr m" "imul (Inr 153) (Inr m) = Inr (153 * m)" "iadd (Inr (153 * m)) (Inr 2) = Inr (153 * m + 2)"
    "idiv (Inr (153 * m + 2)) 5 = Inr q" "imul (Inr 365) (Inr y) = Inr (365 * y)"
    using r am y by (simp_all add: int_ops a_def [symmetric] y_def [symmetric] m_def [symmetric] q_def [symmetric])
  have j: "iadd (Inr (mday d)) (Inr q) = Inr (mday d + q)" "iadd (Inr (mday d + q)) (Inr (365 * y)) = Inr (mday d + q + 365 * y)"
    "iadd (Inr (mday d + q + 365 * y)) (Inr (y div 4)) = Inr (mday d + q + 365 * y + y div 4)"
    "isub (Inr (mday d + q + 365 * y + y div 4)) (Inr (y div 100)) = Inr (mday d + q + 365 * y + y div 4 - y div 100)"
    "iadd (Inr (mday d + q + 365 * y + y div 4 - y div 100)) (Inr (y div 400)) = Inr (mday d + q + 365 * y + y div 4 - y div 100 + y div 400)"
    "isub (Inr (mday d + q + 365 * y + y div 4 - y div 100 + y div 400)) (Inr 32045) = Inr (mday d + q + 365 * y + y div 4 - y div 100 + y div 400 - 32045)"
    using r q y b by (simp_all add: int_ops)
  have k: "idiv (Inr y) 4 = Inr (y div 4)" "idiv (Inr y) 100 = Inr (y div 100)" "idiv (Inr y) 400 = Inr (y div 400)" using t by (simp_all add: idiv_def)
  have "day_number d = mday d + q + 365 * y + y div 4 - y div 100 + y div 400 - 32045"
    unfolding day_number_def Let_def a_def [symmetric] y_def [symmetric] m_def [symmetric] q_def [symmetric] t ..
  then show ?thesis unfolding julianDayNumber_def Let_def i j k by simp
qed

text \<open>The number of the date that belongs to a day count.\<close>

lemma number_of_count:
  fixes d :: intern_date
  assumes "1500000 \<le> f"
  defines "n \<equiv> (f + 30681) div 36525" and "d' \<equiv> date_of_remainders (4 * f + 3) d"
  shows "day_number d' = f - 1363 - (n - n div 4)" "1 \<le> mmonth d'" "mmonth d' \<le> 12" "1 \<le> mday d'" "mday d' \<le> 31"
    "(4 * f + 3) div 1461 - 4716 \<le> myear d'" "myear d' \<le> (4 * f + 3) div 1461 - 4715"
proof -
  define F where "F = f + 30681"
  define Y where "Y = (4 * f + 3) div 1461"
  define R where "R = (4 * f + 3) mod 1461"
  define g where "g = R div 4"
  define h where "h = 5 * g + 2"
  define q where "q = h div 153"
  have R: "0 \<le> R" "R < 1461" by (simp_all add: R_def)
  then have g: "0 \<le> g" "g \<le> 365" by (simp_all add: g_def)
  have q: "0 \<le> q" "q \<le> 11" "(h mod 153) div 5 + (153 * q + 2) div 5 = g" using month_of_day [OF g] by (simp_all add: h_def q_def)
  have hm: "0 \<le> h mod 153" "h mod 153 < 153" by simp_all
  define month where "month = (q + 2) mod 12 + 1"
  have m: "1 \<le> month" "month \<le> 12" using q(1,2) by (simp_all add: month_def)
  define a where "a = (14 - month) div 12"
  have a: "0 \<le> a \<and> a \<le> 1 \<and> month + 12 * a - 3 = q"
  proof (cases "q < 10")
    case True
    then have "(q + 2) mod 12 = q + 2" using q(1) by simp
    moreover from this have "a = 0" using True q(1) unfolding a_def month_def by (intro div_pos_geq_unique) simp_all
    ultimately show ?thesis by (simp add: month_def)
  next
    case False
    have "(q + 2) mod 12 = (q - 10 + 12) mod 12" by (simp add: add.commute)
    also have "\<dots> = q - 10" unfolding mod_add_self2 using False q(2) by simp
    finally have "(q + 2) mod 12 = q - 10" .
    moreover from this have "a = 1" using False q(2) unfolding a_def month_def by (intro div_pos_geq_unique) simp_all
    ultimately show ?thesis by (simp add: month_def)
  qed
  then have a: "0 \<le> a" "a \<le> 1" "month + 12 * a - 3 = q" by simp_all
  have d': "d' = d\<lparr>mday := (h mod 153) div 5 + 1, mmonth := month, myear := Y - 4716 + a\<rparr>"
  proof -
    have "tdiv (4 * f + 3) 1461 = Y" "tmod (4 * f + 3) 1461 = R" using assms(1) by (simp_all add: Y_def R_def)
    moreover have "tdiv R 4 = g" using R by (simp add: g_def)
    moreover have "tdiv h 153 = q" "tmod h 153 = h mod 153" using g(1) by (simp_all add: h_def q_def)
    moreover have "tmod (q + 2) 12 + 1 = month" using q(1) by (simp add: month_def)
    moreover have "tdiv (h mod 153) 5 = (h mod 153) div 5" using hm by simp
    moreover have "tdiv (12 + 2 - month) 12 = a" using m by (simp add: a_def)
    ultimately show ?thesis unfolding d'_def date_of_remainders_def Let_def by (simp only: h_def [symmetric])
  qed
  define y where "y = Y + 84"
  have Fy: "4 * F + 3 = 1461 * y + R" using mult_div_mod_eq [of 1461 "4 * f + 3"] by (simp add: F_def y_def Y_def R_def)
  have y0: "0 \<le> y" using assms(1) by (simp add: y_def Y_def)
  have F: "F = 365 * y + y div 4 + g"
  proof -
    define P where "P = y div 4"
    define Q where "Q = y mod 4"
    define v where "v = R mod 4"
    define w where "w = F - 1461 * P - 365 * Q - g"
    have b: "y = 4 * P + Q" "0 \<le> Q" "Q < 4" "R = 4 * g + v" "0 \<le> v" "v < 4" by (simp_all add: g_def P_def Q_def v_def)
    have "4 * F + 3 = 1461 * (4 * P + Q) + (4 * g + v)" using Fy b(1,4) by simp
    then have "4 * w = Q + v - 3" unfolding w_def by simp
    then have "w = 0" using b by linarith
    then show ?thesis using b(1) unfolding w_def P_def [symmetric] by linarith
  qed
  have yq: "y = (4 * F + 3) div 1461" unfolding Fy using R by simp
  have "day_number d' = (h mod 153) div 5 + 1 + (153 * q + 2) div 5 + 365 * y + y div 4 - y div 100 + y div 400 - 32045"
  proof -
    have "tdiv (14 - mmonth d') 12 = a" using m by (simp add: d' a_def)
    moreover have "myear d' + 4800 - a = y" "mmonth d' + 12 * a - 3 = q" "mday d' = (h mod 153) div 5 + 1" using a(3) by (simp_all add: d' y_def)
    moreover have "tdiv (153 * q + 2) 5 = (153 * q + 2) div 5" "tdiv y 4 = y div 4" "tdiv y 100 = y div 100" "tdiv y 400 = y div 400" using q(1) y0 by simp_all
    ultimately show ?thesis unfolding day_number_def Let_def by (simp only:)
  qed
  also have "y div 400 = y div 100 div 4" using zdiv_zmult2_eq [of 4 y 100] by simp
  also have "(h mod 153) div 5 + 1 + (153 * q + 2) div 5 + 365 * y + y div 4 - y div 100 + y div 100 div 4 - 32045
    = F - 32044 - (y div 100 - y div 100 div 4)"
  proof -
    have "a + 1 + b + 365 * y + c - e + i - 32045 = F - 32044 - (e - i)" if "a + b = g" "F = 365 * y + c + g" for a b c e i :: int
      using that by simp
    then show ?thesis using q(3) F by blast
  qed
  also have "y div 100 = (4 * F + 3) div (1461 * 100)" unfolding yq by (rule zdiv_zmult2_eq [symmetric]) simp
  also have "\<dots> = (4 * F + 3) div 4 div 36525" using zdiv_zmult2_eq [of 36525 "4 * F + 3" 4] by simp
  also have "(4 * F + 3) div 4 = F" by simp
  also have "F div 36525 = n" by (simp add: n_def F_def)
  finally show "day_number d' = f - 1363 - (n - n div 4)" by (simp add: F_def)
  show "1 \<le> mmonth d'" "mmonth d' \<le> 12" using m by (simp_all add: d')
  show "1 \<le> mday d'" "mday d' \<le> 31" using hm by (simp_all add: d')
  show "(4 * f + 3) div 1461 - 4716 \<le> myear d'" "myear d' \<le> (4 * f + 3) div 1461 - 4715" using a by (simp_all add: d' Y_def)
qed

text \<open>The days by which the result is too late.\<close>

definition late_days :: "int \<Rightarrow> int" where
  "late_days J = (let c = (4 * J + 274277) div 146097; r = (4 * J + 274277) mod 146097
     in if c mod 4 = 1 \<and> 146097 \<le> 3 * r \<or> c mod 4 = 2 \<and> 2 * 146097 \<le> 3 * r then 1 else 0)"

lemma residue:
  fixes r k m :: int
  assumes "r = 4 * k + m" "0 \<le> r" "m < 4"
  shows "m \<le> r"
proof (cases "0 \<le> k")
  case False
  then have "k \<le> -1" by simp
  then show ?thesis using assms by linarith
qed (use assms in simp)

lemma century:
  fixes J :: int
  defines "k \<equiv> 4 * J + 274277"
  defines "F \<equiv> J + 32044 + k div 194796"
  defines "n \<equiv> F div 36525"
  shows "k div 194796 - (n - n div 4) = late_days J"
proof -
  define c where "c = k div 146097"
  define r where "r = k mod 146097"
  define p where "p = c div 4"
  define q where "q = c mod 4"
  have r: "0 \<le> r" "r < 146097" by (simp_all add: r_def)
  have k: "k = 146097 * (4 * p + q) + r" by (simp add: r_def p_def q_def c_def)
  have J: "4 * J = 146097 * (4 * p + q) + r - 274277" using k by (simp add: k_def)
  define x where "x = (146097 * q + r) div 194796"
  have "k = 194796 * (3 * p) + (146097 * q + r)" using k by simp
  then have x: "k div 194796 = 3 * p + x" unfolding x_def by simp
  have F: "F = J + 32044 + 3 * p + x" by (simp add: F_def x)
  have late: "late_days J = (if q = 1 \<and> 146097 \<le> 3 * r \<or> q = 2 \<and> 2 * 146097 \<le> 3 * r then 1 else 0)"
    by (simp add: late_days_def Let_def r_def q_def c_def k_def)
  have n: "n = N" if "F = 36525 * N + u" "0 \<le> u" "u < 36525" for N u using that by (simp add: n_def)
  have "0 \<le> q" "q < 4" by (simp_all add: q_def)
  then have "q = 0 \<or> q = 1 \<or> q = 2 \<or> q = 3" by linarith
  then show ?thesis
  proof (elim disjE)
    assume q: "q = 0"
    have "x = 0" using r by (simp add: x_def q)
    moreover from this have "n = 4 * p - 1" using r F J q by (intro n [of _ "F - 36525 * (4 * p - 1)"]) simp_all
    ultimately show ?thesis unfolding late x q by simp
  next
    assume q: "q = 1"
    show ?thesis
    proof (cases "48699 \<le> r")
      case True
      then have "x = 1" using r unfolding x_def q by (intro div_pos_geq_unique) simp_all
      moreover from this have "n = 4 * p" using r F J q True by (intro n [of _ "F - 36525 * (4 * p)"]) simp_all
      ultimately show ?thesis using True unfolding late x q by simp
    next
      case False
      then have x0: "x = 0" using r by (simp add: x_def q)
      have "n = (if r = 0 then 4 * p - 1 else 4 * p)"
      proof (cases "r = 0")
        case True
        then show ?thesis using F J q x0 by (simp, intro n [of _ 36524]) simp_all
      next
        case nz: False
        moreover define i where "i = J + 32045 - 146097 * p"
        moreover have i: "r = 4 * i" using J q by (simp add: i_def)
        ultimately have "0 < i" using r by simp
        then have "4 \<le> r" unfolding i by simp
        then show ?thesis using r F J q x0 nz by (simp, intro n [of _ "F - 36525 * (4 * p)"]) simp_all
      qed
      then show ?thesis using False x0 unfolding late x q by (simp split: if_splits)
    qed
  next
    assume q: "q = 2"
    show ?thesis
    proof (cases "97398 \<le> r")
      case True
      then have "x = 2" using r unfolding x_def q by (intro div_pos_geq_unique) simp_all
      moreover from this have "n = 4 * p + 1" using r F J q True by (intro n [of _ "F - 36525 * (4 * p + 1)"]) simp_all
      ultimately show ?thesis using True unfolding late x q by simp
    next
      case False
      then have "x = 1" using r unfolding x_def q by (intro div_pos_geq_unique) simp_all
      moreover have "3 \<le> r" by (rule residue [of _ "J - 146097 * p - 4480"]) (use r J q in simp_all)
      moreover from this calculation(1) have "n = 4 * p + 1" using r F J q False by (intro n [of _ "F - 36525 * (4 * p + 1)"]) simp_all
      ultimately show ?thesis using False unfolding late x q by simp
    qed
  next
    assume q: "q = 3"
    have "x = 2" using r unfolding x_def q by (intro div_pos_geq_unique) simp_all
    moreover have "2 \<le> r" by (rule residue [of _ "J - 146097 * p - 41004"]) (use r J q in simp_all)
    moreover from this calculation(1) have "n = 4 * p + 2" using r F J q by (intro n [of _ "F - 36525 * (4 * p + 2)"]) simp_all
    ultimately show ?thesis unfolding late x q by simp
  qed
qed

text \<open>The conversion to a date is right but for \<open>late_days\<close>.\<close>

lemma fromJulianDay_number:
  fixes d :: intern_date
  assumes "1721426 \<le> J" "J \<le> 2 ^ 23"
  obtains d' where "fromJulianDay (of_int J) d = Inr d'" "day_number d' = J + late_days J" "in_range d'"
    "mhours d' = 0" "mminutes d' = 0" "mseconds d' = 0"
proof
  define f where "f = J + 1363 + (4 * J + 274277) div 194796"
  have f: "1500000 \<le> f" "f \<le> 9000000" using assms(1,2) by (simp_all add: f_def)
  define e where "e = initPartOfDay 0 d"
  define d' where "d' = date_of_remainders (4 * f + 3) e"
  have "iadd (imul (Inr 4) (Inr f)) (Inr 3) = Inr (4 * f + 3)" using f by (simp add: int_ops)
  then show "fromJulianDay (of_int J) d = Inr d'"
    using day_count_exact [of J] assms(1,2) by (simp add: d'_def fromJulianDay_def trunc_def f_def e_def date_of_count_def)
  note N = number_of_count [OF f(1), of e, folded d'_def]
  show "day_number d' = J + late_days J" using N(1) century [of J] by (simp add: f_def add.assoc)
  have "4716 \<le> (4 * f + 3) div 1461" "(4 * f + 3) div 1461 \<le> 24650" using f assms(1) by (simp_all add: f_def)
  then have "0 \<le> myear d'" "myear d' \<le> 20000" using N(6,7) by linarith+
  then show "in_range d'" using N(2-5) by (simp add: in_range_def)
  have "fmul 0 24 = 0" "fmul 0 60 = 0" "fsub 0 0 = 0" by (simp_all add: fmul_def fsub_def fl_def)
  then have "e = d\<lparr>mhours := 0, mminutes := 0, mseconds := 0\<rparr>" by (simp add: e_def initPartOfDay_def Let_def)
  then show "mhours d' = 0" "mminutes d' = 0" "mseconds d' = 0" by (simp_all add: d'_def date_of_remainders_def Let_def)
qed

section \<open>Printing and parsing\<close>

lemma read_nat_zero: "read_nat (CHR ''0'' # s) = read_nat s"
  by (simp add: read_nat_def)

lemma stoi_show:
  assumes "0 \<le> k" "k \<le> int_max"
  shows "stoi (show_int k) = Some k" "stoi (two_digits k) = Some k"
  using assms show_nat_digits [of "nat k"] by (auto simp: stoi_def show_int_def two_digits_def read_show_nat read_nat_zero digit_def)

lemma shown_digits:
  assumes "0 \<le> k"
  shows "list_all digit (show_int k)" "show_int k \<noteq> []" "list_all digit (two_digits k)" "two_digits k \<noteq> []"
  using assms show_nat_digits [of "nat k"] by (auto simp: show_int_def two_digits_def digit_def)

lemma date_tokens_digits:
  assumes "list_all digit s" "s \<noteq> []" "r = [] \<or> \<not> digit (hd r)"
  shows "date_tokens (s @ r) = s # date_tokens r"
proof -
  obtain c cs where s: "s = c # cs" using assms(2) by (cases s) auto
  have t: "takeWhile digit (cs @ r) = cs" "dropWhile digit (cs @ r) = r"
    using assms(1,3) by (cases r; auto simp: s list_all_iff takeWhile_append2 dropWhile_append2)+
  show ?thesis using assms(1) by (simp add: s t)
qed

lemma date_tokens_three:
  assumes "\<And>i. i \<in> {x, y, z} \<Longrightarrow> list_all digit i \<and> i \<noteq> []" "\<not> digit c"
  shows "date_tokens (x @ c # y @ c # z) = [x, [c], y, [c], z]"
proof -
  have "date_tokens z = [z]" using date_tokens_digits [of z "[]"] assms(1) by simp
  then have "date_tokens (y @ c # z) = [y, [c], z]" using date_tokens_digits [of y "c # z"] assms by simp
  then show ?thesis using date_tokens_digits [of x "c # y @ c # z"] assms by simp
qed

text \<open>The fields that a part of a date has.\<close>

definition set_fields :: "str_format \<Rightarrow> int \<Rightarrow> int \<Rightarrow> int \<Rightarrow> intern_date \<Rightarrow> intern_date" where
  "set_fields fmt x y z d = set_field fmt 5 z (set_field fmt 3 y (set_field fmt 1 x d))"

lemma parse_part_three:
  assumes "\<And>i. i \<in> {x, y, z} \<Longrightarrow> list_all digit i \<and> i \<noteq> []" "\<not> digit c"
    and "stoi x = Some i" "stoi y = Some j" "stoi z = Some k"
  shows "parse_part fmt (x @ c # y @ c # z) d = (set_fields fmt i j k d, False)"
proof -
  have "date_tokens (x @ c # y @ c # z) = [x, [c], y, [c], z]" by (rule date_tokens_three) (use assms in auto)
  then show ?thesis by (simp add: parse_part_def assms(3-5) set_fields_def eval_nat_numeral)
qed

lemma fromString_toString:
  assumes "0 \<le> myear d" "myear d \<le> int_max" "0 \<le> mmonth d" "mmonth d \<le> int_max" "0 \<le> mday d" "mday d \<le> int_max"
  shows "fromString (date_toString ymd d) ymd e = (e\<lparr>myear := myear d, mmonth := mmonth d, mday := mday d\<rparr>, False)"
proof -
  have "parse_part ymd (show_int (myear d) @ CHR ''-'' # two_digits (mmonth d) @ CHR ''-'' # two_digits (mday d)) e
    = (set_fields ymd (myear d) (mmonth d) (mday d) e, False)"
    by (rule parse_part_three) (use shown_digits stoi_show assms in \<open>auto simp: digit_def\<close>)
  then show ?thesis by (simp add: fromString_def date_toString_def set_fields_def set_field_def)
qed

text \<open>
  C26. A Julian day number that is printed as a date and read again is the same number, or the next one: the division of
  \<^verbatim>\<open>fromJulianDay\<close> is one of doubles where the algorithm needs an integral division, and
  from a third of the way through a century whose number is 1 modulo 4, or from two thirds if it is 2, all dates
  are one day late, for example from 30 June 2033 to 28 February 2100.
\<close>

theorem julian_day_number_roundtrip:
  assumes "1721426 \<le> J" "J \<le> 2 ^ 23"
  shows "bindE (show_julian_day_number J) read_julian_day_number = Inr (J + late_days J)"
proof -
  obtain d where d: "fromJulianDay (of_int J) date_default = Inr d" "day_number d = J + late_days J" "in_range d"
    by (rule fromJulianDay_number [OF assms])
  let ?e = "date_default\<lparr>myear := myear d, mmonth := mmonth d, mday := mday d\<rparr>"
  have "fromString (date_toString ymd d) ymd date_default = (?e, False)"
    by (rule fromString_toString) (use d(3) in \<open>auto simp: int_max_def in_range_def\<close>)
  moreover have "julianDayNumber ?e = Inr (day_number ?e)" using d(3) by (intro julianDayNumber_in_range) (simp add: in_range_def)
  moreover have "day_number ?e = day_number d" by (simp add: day_number_def)
  ultimately show ?thesis using d(1,2) by (simp add: read_julian_day_number_def show_julian_day_number_def date_at_def)
qed

theorem julian_day_number_roundtrip_witness:
  "bindE (show_julian_day_number 2451545) read_julian_day_number = Inr 2451545
   \<and> bindE (show_julian_day_number 2463779) read_julian_day_number = Inr 2463780"
  using julian_day_number_roundtrip [of 2451545] julian_day_number_roundtrip [of 2463779] by (simp add: late_days_def Let_def)

section \<open>Counting days\<close>

text \<open>The leap days of the years up to a year.\<close>

definition leap_days :: "int \<Rightarrow> int" where
  "leap_days y = y div 4 - y div 100 + y div 400"

lemma div_step:
  fixes y n :: int
  assumes "0 < n"
  shows "(y + 1) div n = y div n + (if (y + 1) mod n = 0 then 1 else 0)"
proof (cases "(y + 1) mod n = 0")
  case True
  then obtain q where "y + 1 = n * q" by auto
  then have "y = n * (q - 1) + (n - 1)" by (simp add: algebra_simps)
  then have "y div n = q - 1" using assms by (simp add: div_pos_geq_unique)
  then show ?thesis using True \<open>y + 1 = n * q\<close> assms by simp
next
  case False
  have "(y + 1) div n = y div n"
  proof (rule div_pos_geq_unique)
    have b: "y = n * (y div n) + y mod n" "0 \<le> y mod n" "y mod n < n" using assms by simp_all
    have "y mod n \<noteq> n - 1"
    proof
      assume "y mod n = n - 1"
      moreover have "n * (y div n + 1) = n * (y div n) + n" by (simp add: distrib_left)
      ultimately have "y + 1 = n * (y div n + 1)" using b(1) by linarith
      then show False using False by simp
    qed
    then show "n * (y div n) \<le> y + 1" "y + 1 < n * (y div n) + n" using b by linarith+
  qed
  then show ?thesis using False by simp
qed

lemma leap_days_step:
  assumes "0 \<le> y"
  shows "leap_days (y + 1) = leap_days y + (if intern_isLeapYear (y + 1) then 1 else 0)"
proof -
  have "(y + 1) mod 400 = 0 \<Longrightarrow> (y + 1) mod 100 = 0" "(y + 1) mod 100 = 0 \<Longrightarrow> (y + 1) mod 4 = 0"
    using dvd_trans [of 100 400 "y + 1"] dvd_trans [of 4 100 "y + 1"] by (simp_all add: dvd_eq_mod_eq_0 [symmetric])
  then show ?thesis using assms by (auto simp: leap_days_def div_step intern_isLeapYear_def)
qed

lemma leap_days_shift: "leap_days (y + 4800) = leap_days y + 1164"
  by (simp add: leap_days_def div_plus_div_distrib_dvd_right)

lemma months_cases:
  assumes "1 \<le> (m :: int)" "m \<le> 12"
  obtains "m = 1" | "m = 2" | "m = 3" | "m = 4" | "m = 5" | "m = 6" | "m = 7" | "m = 8" | "m = 9" | "m = 10" | "m = 11" | "m = 12"
proof -
  have "m \<in> set [1..12]" using assms by simp
  then have "m = 1 \<or> m = 2 \<or> m = 3 \<or> m = 4 \<or> m = 5 \<or> m = 6 \<or> m = 7 \<or> m = 8 \<or> m = 9 \<or> m = 10 \<or> m = 11 \<or> m = 12"
    by (simp add: upto.simps)
  then show thesis using that by blast
qed

text \<open>The days before a month in a year that starts in March, and the number of a date in terms of them.\<close>

definition days_before :: "int \<Rightarrow> int" where
  "days_before m = [306, 337, 0, 31, 61, 92, 122, 153, 184, 214, 245, 275] ! nat (m - 1)"

definition march_year :: "intern_date \<Rightarrow> int" where
  "march_year d = (if mmonth d \<le> 2 then myear d - 1 else myear d)"

lemma number_in_month:
  assumes "1 \<le> myear d" "1 \<le> mmonth d" "mmonth d \<le> 12"
  shows "day_number d = mday d + days_before (mmonth d) + 365 * march_year d + leap_days (march_year d) + 1721119"
proof -
  have *: "mday d + days_before (mmonth d) + 365 * (y + 4800) + (y + 4800) div 4 - (y + 4800) div 100 + (y + 4800) div 400 - 32045
    = mday d + days_before (mmonth d) + 365 * y + leap_days y + 1721119" for y
    using leap_days_shift [of y] by (simp add: leap_days_def)
  have "day_number d = mday d + days_before (mmonth d) + 365 * (march_year d + 4800) + (march_year d + 4800) div 4
    - (march_year d + 4800) div 100 + (march_year d + 4800) div 400 - 32045"
    by (cases rule: months_cases [OF assms(2,3)]) (use assms(1) in \<open>simp_all add: day_number_def days_before_def march_year_def Let_def\<close>)
  then show ?thesis unfolding * .
qed

text \<open>The day that follows a day.\<close>

definition next_day :: "intern_date \<Rightarrow> intern_date" where
  "next_day d = (if mday d < intern_aMonth (myear d) (mmonth d) then d\<lparr>mday := mday d + 1\<rparr>
     else if mmonth d < 12 then d\<lparr>mmonth := mmonth d + 1, mday := 1\<rparr>
     else d\<lparr>myear := myear d + 1, mmonth := 1, mday := 1\<rparr>)"

lemma number_of_next_day:
  assumes "1 \<le> myear d" "1 \<le> mmonth d" "mmonth d \<le> 12" "mday d \<le> intern_aMonth (myear d) (mmonth d)"
  shows "day_number (next_day d) = day_number d + 1"
proof (cases "mday d < intern_aMonth (myear d) (mmonth d)")
  case True
  then show ?thesis using assms by (simp add: next_day_def number_in_month march_year_def)
next
  case False
  then have l: "mday d = intern_aMonth (myear d) (mmonth d)" using assms(4) by simp
  have s: "leap_days (myear d) = leap_days (myear d - 1) + (if intern_isLeapYear (myear d) then 1 else 0)"
    using leap_days_step [of "myear d - 1"] assms(1) by simp
  show ?thesis
    by (cases rule: months_cases [OF assms(2,3)])
      (use assms(1) l s in \<open>simp_all add: next_day_def number_in_month march_year_def days_before_def intern_aMonth_def\<close>)
qed

text \<open>The day of the week and of the year when nothing overflows.\<close>

definition week_day_of :: "intern_date \<Rightarrow> int" where
  "week_day_of d =
     (let a = tdiv (14 - mmonth d) 12; y = myear d - a; m = mmonth d + 12 * a - 2
      in tmod (mday d + y + tdiv y 4 - tdiv y 100 + tdiv y 400 + tdiv (31 * m) 12) 7)"

definition year_day_of :: "intern_date \<Rightarrow> int" where
  "year_day_of d = sum_list (map (\<lambda>m. intern_aMonth (myear d) m) [1..mmonth d - 1]) + mday d"

lemma week_day:
  assumes "1 \<le> myear d" "1 \<le> mmonth d" "mmonth d \<le> 12" "1 \<le> mday d"
  shows "week_day_of d = (day_number d + 1) mod 7"
proof -
  define y where "y = march_year d"
  have y: "0 \<le> y" using assms(1) by (simp add: y_def march_year_def)
  have L: "0 \<le> leap_days y"
  proof -
    have "y div 100 \<le> y div 4" using y by (rule zdiv_mono2) simp_all
    moreover have "0 \<le> y div 400" using y by simp
    ultimately show ?thesis unfolding leap_days_def by linarith
  qed
  have *: "(mday d + c) mod 7 = (mday d + b + 1) mod 7" if "(c - b - 1) mod 7 = 0" for b c :: int
  proof -
    have "7 dvd (mday d + c) - (mday d + b + 1)" using that by (simp add: dvd_eq_mod_eq_0 algebra_simps)
    then show ?thesis by (simp add: mod_eq_dvd_iff)
  qed
  have "week_day_of d = tmod (mday d + y + leap_days y + tdiv (31 * (mmonth d + 12 * tdiv (14 - mmonth d) 12 - 2)) 12) 7"
    by (cases rule: months_cases [OF assms(2,3)])
      (use y in \<open>simp_all add: week_day_of_def y_def march_year_def leap_days_def Let_def algebra_simps\<close>)
  also have "\<dots> = (mday d + (y + leap_days y + tdiv (31 * (mmonth d + 12 * tdiv (14 - mmonth d) 12 - 2)) 12)) mod 7"
    by (cases rule: months_cases [OF assms(2,3)]) (use y L assms(4) in \<open>simp_all add: add.assoc\<close>)
  also have "\<dots> = (mday d + (days_before (mmonth d) + 365 * y + leap_days y + 1721119) + 1) mod 7"
  proof (rule *)
    have "7 dvd t - b - 1721120 \<Longrightarrow> (y + l + t - (b + 365 * y + l + 1721119) - 1) mod 7 = 0" for b t l :: int
    proof -
      assume "7 dvd t - b - 1721120"
      then have "7 dvd (t - b - 1721120) - 7 * (52 * y)" by simp
      then show ?thesis by (simp add: algebra_simps flip: dvd_eq_mod_eq_0)
    qed
    moreover have "7 dvd tdiv (31 * (mmonth d + 12 * tdiv (14 - mmonth d) 12 - 2)) 12 - days_before (mmonth d) - 1721120"
      by (cases rule: months_cases [OF assms(2,3)]) (simp_all add: days_before_def)
    ultimately show "(y + leap_days y + tdiv (31 * (mmonth d + 12 * tdiv (14 - mmonth d) 12 - 2)) 12
      - (days_before (mmonth d) + 365 * y + leap_days y + 1721119) - 1) mod 7 = 0" by blast
  qed
  finally show ?thesis using number_in_month [OF assms(1-3)] by (simp add: y_def add.assoc)
qed

lemma year_day:
  assumes "1 \<le> myear d" "1 \<le> mmonth d" "mmonth d \<le> 12"
  shows "year_day_of d = day_number d - day_number (d\<lparr>mmonth := 1, mday := 1\<rparr>) + 1"
proof -
  have s: "leap_days (myear d) = leap_days (myear d - 1) + (if intern_isLeapYear (myear d) then 1 else 0)"
    using leap_days_step [of "myear d - 1"] assms(1) by simp
  show ?thesis
    by (cases rule: months_cases [OF assms(2,3)])
      (use assms(1) s in \<open>simp_all add: year_day_of_def number_in_month march_year_def days_before_def intern_aMonth_def upto.simps\<close>)
qed

lemma intern_dayOfWeek_in_range:
  assumes "in_range d" "1 \<le> myear d"
  shows "intern_dayOfWeek d = Inr (week_day_of d)"
proof -
  define a where "a = tdiv (14 - mmonth d) 12"
  define y where "y = myear d - a"
  define m where "m = mmonth d + 12 * a - 2"
  define q where "q = tdiv (31 * m) 12"
  have r: "1 \<le> myear d" "myear d \<le> 5874000" "1 \<le> mmonth d" "mmonth d \<le> 12" "1 \<le> mday d" "mday d \<le> 31"
    using assms by (simp_all add: in_range_def)
  note am = shift_range [OF r(3,4), folded a_def]
  have m: "1 \<le> m" "m \<le> 12" using am by (simp_all add: m_def)
  have y: "0 \<le> y" "y \<le> 5874000" using r am by (simp_all add: y_def)
  have q: "0 \<le> q" "q \<le> 31"
  proof -
    have "q = (31 * m) div 12" using m by (simp add: q_def)
    moreover have "(31 * m) div 12 \<le> 372 div 12" using m by (intro zdiv_mono1) simp_all
    ultimately show "0 \<le> q" "q \<le> 31" using m by simp_all
  qed
  have t: "tdiv y 4 = y div 4" "tdiv y 100 = y div 100" "tdiv y 400 = y div 400" using y by simp_all
  note b = quotient_range [OF y]
  have i: "isub (Inr 14) (Inr (mmonth d)) = Inr (14 - mmonth d)" "idiv (Inr (14 - mmonth d)) 12 = Inr a"
    "isub (Inr (myear d)) (Inr a) = Inr y" "imul (Inr 12) (Inr a) = Inr (12 * a)" "iadd (Inr (mmonth d)) (Inr (12 * a)) = Inr (mmonth d + 12 * a)"
    "isub (Inr (mmonth d + 12 * a)) (Inr 2) = Inr m" "imul (Inr 31) (Inr m) = Inr (31 * m)" "idiv (Inr (31 * m)) 12 = Inr q"
    using r am y m by (simp_all add: int_ops a_def [symmetric] y_def [symmetric] m_def [symmetric] q_def [symmetric])
  have j: "iadd (Inr (mday d)) (Inr y) = Inr (mday d + y)" "iadd (Inr (mday d + y)) (Inr (y div 4)) = Inr (mday d + y + y div 4)"
    "isub (Inr (mday d + y + y div 4)) (Inr (y div 100)) = Inr (mday d + y + y div 4 - y div 100)"
    "iadd (Inr (mday d + y + y div 4 - y div 100)) (Inr (y div 400)) = Inr (mday d + y + y div 4 - y div 100 + y div 400)"
    "iadd (Inr (mday d + y + y div 4 - y div 100 + y div 400)) (Inr q) = Inr (mday d + y + y div 4 - y div 100 + y div 400 + q)"
    using r q y b by (simp_all add: int_ops)
  have k: "idiv (Inr y) 4 = Inr (y div 4)" "idiv (Inr y) 100 = Inr (y div 100)" "idiv (Inr y) 400 = Inr (y div 400)" using t by (simp_all add: idiv_def)
  have "week_day_of d = tmod (mday d + y + y div 4 - y div 100 + y div 400 + q) 7"
    unfolding week_day_of_def Let_def a_def [symmetric] y_def [symmetric] m_def [symmetric] q_def [symmetric] t ..
  then show ?thesis unfolding intern_dayOfWeek_def Let_def i j k by (simp add: imod_def)
qed

lemma month_length: "1 \<le> m \<Longrightarrow> m \<le> 12 \<Longrightarrow> 1 \<le> intern_aMonth y m" "1 \<le> m \<Longrightarrow> m \<le> 12 \<Longrightarrow> intern_aMonth y m \<le> 31"
  by (erule (1) months_cases; simp add: intern_aMonth_def)+

lemma sum_checked:
  assumes "\<And>m. m \<in> set ms \<Longrightarrow> 0 \<le> g m" "0 \<le> acc" "acc + sum_list (map g ms) \<le> int_max"
  shows "foldE (\<lambda>m ret. checked (ret + g m)) ms acc = Inr (acc + sum_list (map g ms))"
  using assms
proof (induction ms arbitrary: acc)
  case (Cons m ms)
  have s: "0 \<le> sum_list (map g ms)" using Cons.prems(1) by (intro sum_list_nonneg) auto
  have "checked (acc + g m) = Inr (acc + g m)" using Cons.prems(1) [of m] Cons.prems(2,3) s by (intro checked_in) (auto simp: int_min_def)
  then show ?case using Cons.IH [of "acc + g m"] Cons.prems by (simp add: add.assoc)
qed simp

lemma dayOfyear_in_range:
  assumes "in_range d"
  shows "dayOfyear d = Inr (year_day_of d)"
proof -
  have r: "1 \<le> mmonth d" "mmonth d \<le> 12" "1 \<le> mday d" "mday d \<le> 31" using assms by (simp_all add: in_range_def)
  let ?g = "\<lambda>m. intern_aMonth (myear d) m"
  have g: "0 \<le> ?g m" if "m \<in> set [1..mmonth d - 1]" for m using that r month_length(1) [of m "myear d"] by simp
  have s: "0 \<le> sum_list (map ?g [1..mmonth d - 1])" "sum_list (map ?g [1..mmonth d - 1]) \<le> 366"
    by (cases rule: months_cases [OF r(1,2)]; simp add: intern_aMonth_def upto.simps)+
  have "foldE (\<lambda>m ret. checked (ret + ?g m)) [1..mmonth d - 1] 0 = Inr (0 + sum_list (map ?g [1..mmonth d - 1]))"
    by (rule sum_checked) (use g s in \<open>auto simp: int_max_def\<close>)
  then show ?thesis using s r by (simp add: dayOfyear_def year_day_of_def checked_def int_min_def int_max_def)
qed

text \<open>
  C27. Against the calendar that counts days one by one, for the valid dates of the years 1 to 5,873,999: nothing overflows, the Julian day
  number of the following day is the next number, the following day is valid, the day of the week goes round the seven days with the
  number, and the day of the year is the distance from the first of January, counted from one.
\<close>

theorem calendar_counts_days:
  assumes "isValid d" "1 \<le> myear d" "myear d < 5874000"
  shows "\<exists>n n0. julianDayNumber d = Inr n \<and> julianDayNumber (d\<lparr>mmonth := 1, mday := 1\<rparr>) = Inr n0
    \<and> isValid (next_day d) \<and> julianDayNumber (next_day d) = Inr (n + 1)
    \<and> intern_dayOfWeek d = Inr ((n + 1) mod 7) \<and> dayOfyear d = Inr (n - n0 + 1)"
proof -
  have v: "1 \<le> mmonth d" "mmonth d \<le> 12" "1 \<le> mday d" "mday d \<le> intern_aMonth (myear d) (mmonth d)"
    using assms(1) by (simp_all add: isValid_def split: if_splits)
  note len = month_length
  have ok: "isValid (next_day d)" using assms(1) v len by (force simp: isValid_def next_day_def not_less split: if_splits)
  then have "in_range (next_day d)" using assms(2,3) len [of "mmonth (next_day d)" "myear (next_day d)"]
    by (auto simp: isValid_def in_range_def next_day_def split: if_splits)
  moreover have "in_range d" "in_range (d\<lparr>mmonth := 1, mday := 1\<rparr>)" using assms(2,3) v len [OF v(1,2), of "myear d"] by (auto simp: in_range_def)
  ultimately show ?thesis
    using ok number_of_next_day [OF assms(2) v(1,2,4)] week_day [OF assms(2) v(1-3)] year_day [OF assms(2) v(1,2)]
    by (simp add: julianDayNumber_in_range dayOfyear_in_range intern_dayOfWeek_in_range assms(2))
qed

theorem calendar_counts_days_witness:
  "\<exists>n. julianDayNumber \<lparr>myear = 2000, mmonth = 2, mday = 29, mhours = 0, mminutes = 0, mseconds = 0\<rparr> = Inr n
     \<and> julianDayNumber (next_day \<lparr>myear = 2000, mmonth = 2, mday = 29, mhours = 0, mminutes = 0, mseconds = 0\<rparr>) = Inr (n + 1)"
proof -
  have "isValid \<lparr>myear = 2000, mmonth = 2, mday = 29, mhours = 0, mminutes = 0, mseconds = 0\<rparr>"
    by (simp add: isValid_def intern_aMonth_def intern_isLeapYear_def)
  from calendar_counts_days [OF this] show ?thesis by fastforce
qed

section \<open>Adding months\<close>

text \<open>
  C28. \<^verbatim>\<open>addMonths\<close> calls \<^verbatim>\<open>intern_aMonth\<close> with the month and the year exchanged: as soon as the months go past December, a
  year of the common era is no month, the number of its days is the least \<^verbatim>\<open>int\<close>, and subtracting it from the day
  overflows.
\<close>

theorem addMonths_overflows:
  assumes "12 < mmonth d + k" "mmonth d + k \<le> int_max" "0 \<le> mmonth d" "0 \<le> k"
    and "12 \<le> myear d" "myear d < int_max" "1 \<le> mday d" "mday d \<le> 31"
  shows "addMonths k d = Inl (UndefinedBehaviour ''signed overflow'')"
proof -
  have "checked (mmonth d + k) = Inr (mmonth d + k)" "checked (myear d + 1) = Inr (myear d + 1)"
    using assms by (simp_all add: checked_def int_min_def int_max_def)
  moreover have "intern_aMonth m (myear d + 1) = int_min" for m using assms(5) by (simp add: intern_aMonth_def)
  moreover have "checked (mday d - int_min) = Inl (UndefinedBehaviour ''signed overflow'')"
    using assms(7) by (simp add: checked_def int_min_def int_max_def)
  ultimately show ?thesis using assms
    by (simp add: addMonths_def month_loop.simps [of "d\<lparr>mmonth := mmonth d + k\<rparr>"] Let_def bindE_def int_min_def)
qed

theorem addMonths_overflows_witness:
  "addMonths 12 \<lparr>myear = 2000, mmonth = 5, mday = 14, mhours = 0, mminutes = 0, mseconds = 0\<rparr> = Inl (UndefinedBehaviour ''signed overflow'')"
  using addMonths_overflows [of "\<lparr>myear = 2000, mmonth = 5, mday = 14, mhours = 0, mminutes = 0, mseconds = 0\<rparr>" 12]
  by (simp add: int_max_def)

end
