(* ===== verification/Spec2Isabelle.thy ===== *)
theory Spec2Isabelle
  imports Value_Matrix Thread_Pool Simulation_Run Model_Assign Model_Classes Calendar
begin

text \<open>
  A verification development for the core of VLE, a simulator for models in the DEVS formalism. The source
  files are named by their paths below \<^verbatim>\<open>src/src/vle\<close>, and the header files below \<^verbatim>\<open>src/include/vle\<close>.

  \<^bold>\<open>The program.\<close> A simulation has a tree of models with ports and connections (\<^verbatim>\<open>vpz\<close>), values that
  the models exchange (\<^verbatim>\<open>value\<close>), and the kernel (\<^verbatim>\<open>devs\<close>): a simulator for every atomic
  model, the scheduler with its bag and its heap of dates, the coordinator that makes one round at a date, and the root
  coordinator with the loop of \<^verbatim>\<open>manager/Simulation.cpp\<close>. The kernel reads the graph to find where an output goes,
  an executive changes the graph during the simulation, views observe the models.

  \<^bold>\<open>How programs become definitions.\<close> A procedure that mutates objects and may throw is a function from a state to an
  outcome, \<open>Ret\<close> or \<open>Exn\<close> with the state that was reached (\<open>Effects\<close>); a failed assertion, a dangling pointer, an
  access out of range and a loop that does not end are errors of their own, so that a proof that a procedure returns
  excludes them. Pointers are addresses of a store (graph) or numbers of simulators. Loops that may not end are
  partial functions with the value \<open>None\<close> for divergence, and the theorems show that they end; functions that recur over
  the tree of models where the code has destructors and chains of parents take a bound of the depth
  (\<open>pf_depth\<close> of the platform, the first argument of \<open>destroy\<close>), for which the number of models is enough.
  Code that is not in the repository is an argument: the user's dynamics and executives, the output plug-ins
  and \<^verbatim>\<open>boost::heap::fibonacci_heap\<close>, whose laws are the locale \<open>event_heap\<close>, interpreted on an executable heap.
  Dates are IEEE doubles with rounding, the infinities and NaN.

  \<^bold>\<open>Theories.\<close>
  \<^item> \<open>Prelude\<close>, \<open>Effects\<close>, \<open>Worklist\<close>, \<open>Std_Maps\<close>, \<open>IEEE_Double\<close>: errors, results, procedures with their weakest
    preconditions, worklist loops, ordered maps and multimaps, doubles.
  \<^item> \<open>Values\<close>, \<open>Value_Containers\<close>, \<open>Value_Matrix\<close>: \<^verbatim>\<open>value/\<close> with the checked casts, deep copies, \<^verbatim>\<open>Set\<close>, \<^verbatim>\<open>Map\<close>,
    \<^verbatim>\<open>Tuple\<close>, \<^verbatim>\<open>Table\<close> and \<^verbatim>\<open>Matrix\<close>. The lemmas give the behaviour on every branch and the bounds;
    the properties show what resizing keeps, and where the bounds checks of the code let an access out of range pass.
  \<^item> \<open>Model_Ports\<close>, \<open>Model_Graph\<close>, \<open>Coupled_Model\<close>: \<^verbatim>\<open>vpz/ModelPortList.cpp\<close>, \<^verbatim>\<open>BaseModel.cpp\<close>, \<^verbatim>\<open>CoupledModel.cpp\<close>,
    \<^verbatim>\<open>AtomicModel.cpp\<close>. \<open>Connections\<close>, \<open>Disconnection\<close> and \<open>Connection_Properties\<close> prove the invariant \<open>linked\<close>, that the two
    copies of every connection agree, for the operations on connections, through a locale with three interpretations;
    \<open>Graph_Defects\<close> shows the operations on ports that break it.
  \<^item> \<open>Model_Tree\<close>, \<open>Traversal\<close>: the walks over the tree and along connections end and find exactly the atomic models they are to
    find; \<open>Model_Lifecycle\<close>: destroying, replacing, displacing and naming models and their attributes.
  \<^item> \<open>Event_Heap\<close>, \<open>Simulator\<close>, \<open>Scheduler\<close>: \<^verbatim>\<open>devs/Simulator.cpp\<close>, \<^verbatim>\<open>Scheduler.cpp\<close>, \<^verbatim>\<open>Time.hpp\<close>; the invariant
    \<open>sched_ok\<close> ties handles, heap entries, next dates and bag together and is kept by every operation.
    \<open>Simulator_Properties\<close>: transitions and the cache of the targets.
  \<^item> \<open>Observation_Heap\<close>, \<open>Timed_Observations\<close>, \<open>Observed_Views\<close>, \<open>Observation_Loop\<close>: \<^verbatim>\<open>View.cpp\<close>, \<^verbatim>\<open>ViewEvent.hpp\<close> and the
    schedule of the timed views, whose loop ends exactly when the time steps move the dates.
  \<^item> \<open>Thread_Pool\<close>: \<^verbatim>\<open>devs/Thread.hpp\<close> as interleaved atomic steps; every job is processed exactly once in every interleaving.
  \<^item> \<open>Coordinator\<close>, \<open>Dispatch\<close>: \<^verbatim>\<open>devs/Coordinator.cpp\<close> and the dispatch of the outputs along the connections.
  \<^item> \<open>DEVS_Round\<close>, \<open>DEVS_Refinement\<close>, \<open>Root_Coordinator\<close>: the abstract parallel DEVS simulator on the states and next dates of the models
    (\<open>devs_step\<close>, \<open>devs_run\<close>), the proof that one call of \<^verbatim>\<open>Coordinator::run\<close> is one step of it, and that
    the whole simulation ends and is a run of it. The hypotheses are in \<open>quiet\<close>: a fixed structure without executives, user
    code that returns and gives durations that are numbers and not negative, sends on existing ports, and plug-ins
    that return. The termination needs durations that move the date; the number of representable dates bounds the rounds.
  \<^item> \<open>Experiment_Data\<close>, \<open>Events\<close>: \<^verbatim>\<open>vpz/Condition(s)\<close>, \<^verbatim>\<open>Output(s)\<close>, \<^verbatim>\<open>Observable(s)\<close>, \<^verbatim>\<open>View(s)\<close>, \<^verbatim>\<open>Dynamic(s)\<close>, \<^verbatim>\<open>Experiment\<close>,
    \<^verbatim>\<open>devs/ExternalEvent\<close> and \<^verbatim>\<open>InitEventList\<close>: the containers of the project and the accessors of events. The property shows that the
    dates of an experiment are what was written last, over every sequence of operations.
  \<^item> \<open>Model_Factory\<close>: \<^verbatim>\<open>devs/ModelFactory.cpp\<close>, \<^verbatim>\<open>Coordinator::init\<close> and \<^verbatim>\<open>buildViews\<close>, \<^verbatim>\<open>View::open\<close>, \<^verbatim>\<open>RootCoordinator::load\<close> and
    \<^verbatim>\<open>Simulation::runQuiet\<close>; what the libraries contain is the record \<open>modules\<close>. \<open>Loading\<close>, \<open>Project_Loading\<close> and \<open>Simulation_Run\<close>
    prove, through the phases of \<^verbatim>\<open>load\<close>, that a well-formed project (\<open>project_ok\<close>) reaches the invariant of the loop, and that
    \<^verbatim>\<open>runQuiet\<close> returns the results of the views after a run of the abstract simulator.
  \<^item> \<open>Executive\<close>: \<^verbatim>\<open>devs/Executive.cpp\<close>, the changes of the structure, and a change that leaves a stale cache.
  \<^item> \<open>Model_Copy\<close>, \<open>Copy_Properties\<close>: the copy constructors and \<^verbatim>\<open>clone\<close>; the copy is isomorphic to the original
    (\<open>cloned\<close>), and a graph with a copy in it is well-formed. \<open>Model_Assign\<close>: the assignment operators, which break the tree.
  \<^item> \<open>Graph_Growth\<close>, \<open>Model_Classes\<close>: \<^verbatim>\<open>vpz/Model.cpp\<close>, \<^verbatim>\<open>Class.cpp\<close>, \<^verbatim>\<open>Classes.cpp\<close>, \<^verbatim>\<open>ModelFactory::createModelFromClass\<close> and the creation
    of models by executives; new ports and new sub-models keep the graph well-formed.
  \<^item> \<open>Number_Text\<close>, \<open>Double_Arithmetic\<close>, \<open>Date_Time\<close>, \<open>Calendar\<close>: \<^verbatim>\<open>utils/DateTime.cpp\<close>. Doubles are rationals rounded to 53 bits with an unbounded exponent,
    which the values here, below \<open>2 ^ 24\<close>, never leave; an \<^verbatim>\<open>int\<close> that overflows is an error. The properties compare the formulas with a calendar that counts days, and give the days on
    which the conversion is one day late.

  \<^bold>\<open>Not modelled.\<close> Reading and writing XML (libxml2) and the printing of values; the settings, packages, file system, processes and network of \<^verbatim>\<open>utils\<close>; the graphical
  interface, the command line programs and the plug-in packages. The debug wrapper of the dynamics, which only writes traces, is left out.
  The thread pool is modelled under sequential consistency although the code uses relaxed atomics. The refinement
  theorems do not cover rounds with executives; their operations are modelled.
\<close>

end
